(* ===== verification/Prelude.thy ===== *)
theory Prelude
  imports Main "HOL-Library.Word"
begin

unbundle bit_operations_syntax

text \<open>
  Shared vocabulary of the clearCore verification library: the machine-integer types the C++
  sources use, the collections of rewrite rules the component theories fill
  (\<open>word_field\<close> for bit fields, \<open>frame\<close> for "this operation leaves that component
  alone" facts), and the generic facts on words, lists and iteration that several
  components share.
\<close>

section \<open>Machine integers\<close>

type_synonym u8 = "8 word"
type_synonym u16 = "16 word"
type_synonym u32 = "32 word"
type_synonym u64 = "64 word"

named_theorems word_field "bit-level expansion of packed instruction and byte fields"
named_theorems frame "components an operation leaves unchanged"

lemma exhaust_less_8: "(i::nat) < 8 \<longleftrightarrow> i \<in> {0, 1, 2, 3, 4, 5, 6, 7}"
  by auto

lemma bit_0xFF_iff [word_field]: "bit (0xFF :: u32) n \<longleftrightarrow> n < 8"
proof -
  have h: "(0xFF :: u32) = mask 8" by (simp add: mask_eq_exp_minus_1)
  show ?thesis unfolding h bit_mask_iff by auto
qed

lemma bit_0xFF_u16_iff [word_field]: "bit (0xFF :: u16) n \<longleftrightarrow> n < 8"
proof -
  have h: "(0xFF :: u16) = mask 8" by (simp add: mask_eq_exp_minus_1)
  show ?thesis unfolding h bit_mask_iff by auto
qed

lemma and_0xFF_take_bit:
  "x AND 0xFF = take_bit 8 (x :: u32)" "y AND 0xFF = take_bit 8 (y :: u16)"
  by (simp_all only: take_bit_eq_mask) (simp_all add: mask_eq_exp_minus_1)

lemma bit_0x1F_u32_iff [word_field]: "bit (0x1F :: u32) n \<longleftrightarrow> n < 5"
proof -
  have h: "(0x1F :: u32) = mask 5" by (simp add: mask_eq_exp_minus_1)
  show ?thesis unfolding h bit_mask_iff by auto
qed

lemma bit_0x1F_u8_iff [word_field]: "bit (0x1F :: u8) n \<longleftrightarrow> n < 5"
proof -
  have h: "(0x1F :: u8) = mask 5" by (simp add: mask_eq_exp_minus_1)
  show ?thesis unfolding h bit_mask_iff by auto
qed

lemma bit_0x3F_u8_iff [word_field]: "bit (0x3F :: u8) n \<longleftrightarrow> n < 6"
proof -
  have h: "(0x3F :: u8) = mask 6" by (simp add: mask_eq_exp_minus_1)
  show ?thesis unfolding h bit_mask_iff by auto
qed

lemma and_mask_unat: "unat ((x :: 'a :: len word) AND mask n) = unat x mod 2 ^ n"
proof -
  have "unat (x AND mask n) = take_bit n (unat x)"
    by (simp only: take_bit_eq_mask [symmetric] unsigned_take_bit_eq)
  then show ?thesis by (simp only: take_bit_eq_mod)
qed

lemma and_0x1F_unat: "unat (x AND 0x1F :: u8) = unat x mod 32"
  using and_mask_unat [of x 5] by (simp add: mask_eq_exp_minus_1)

lemma and_0x1F_less_32 [simp]: "unat (x AND 0x1F :: u8) < 32"
  by (simp add: and_0x1F_unat)

lemma and_0x1F_id: "unat x < 32 \<Longrightarrow> x AND 0x1F = (x :: u8)"
  by (simp add: word_unat_eq_iff and_0x1F_unat)

section \<open>Aligned addresses\<close>

lemma and_3_unat: "(a AND 3 = (0 :: u32)) \<longleftrightarrow> unat a mod 4 = 0"
  using and_mask_unat [of a 2] by (simp add: mask_eq_exp_minus_1 word_unat_eq_iff)

lemma and_1_unat: "(a AND 1 = (0 :: u32)) \<longleftrightarrow> unat a mod 2 = 0"
  using and_mask_unat [of a 1] by (simp add: mask_eq_exp_minus_1 word_unat_eq_iff)

lemma unat_add_small:
  assumes "unat (a :: u32) + k < 4294967296"
  shows "unat (a + of_nat k) = unat a + k"
proof -
  have "unat (of_nat k :: u32) = k"
    using assms by (simp add: unsigned_of_nat take_bit_eq_mod)
  then show ?thesis
    using assms by (simp add: unat_word_ariths)
qed

lemma unat_u32_less [simp]: "unat (a :: u32) < 4294967296"
  using unsigned_less [of a] by simp

lemma aligned_plus_offsets:
  assumes "unat (a :: u32) mod 4 = 0"
  shows "unat (a + 1) = unat a + 1" "unat (a + 2) = unat a + 2" "unat (a + 3) = unat a + 3"
proof -
  have "unat a < 4294967296" by simp
  with assms have "unat a + 3 < 4294967296" by presburger
  then show "unat (a + 1) = unat a + 1" "unat (a + 2) = unat a + 2" "unat (a + 3) = unat a + 3"
    using unat_add_small [of a 1] unat_add_small [of a 2] unat_add_small [of a 3] by simp_all
qed

lemma aligned_plus_one:
  assumes "unat (a :: u32) mod 2 = 0"
  shows "unat (a + 1) = unat a + 1"
proof -
  have "unat a < 4294967296" by simp
  with assms have "unat a + 1 < 4294967296" by presburger
  then show ?thesis using unat_add_small [of a 1] by simp
qed

lemma aligned_apart:
  assumes "unat (a :: u32) mod 4 = 0" "unat (b :: u32) mod 4 = 0" "a \<noteq> b"
  shows "unat a + 3 < unat b \<or> unat b + 3 < unat a"
proof -
  have "unat a \<noteq> unat b" using assms(3) by (simp add: word_unat_eq_iff)
  with assms(1,2) show ?thesis by presburger
qed

section \<open>Iteration\<close>

lemma funpow_comm: "(f ^^ n) (f x) = f ((f ^^ n) x)"
  by (simp add: funpow_swap1)

lemma funpow_Suc_start: "(f ^^ Suc n) x = (f ^^ n) (f x)"
  by (simp add: funpow_swap1)

end
