(* ===== verification/Memory.thy ===== *)
theory Memory
  imports Prelude
begin

text \<open>
  The flat byte-addressable memory (\<open>include/isa/memory.h\<close>, \<open>src/mips/memory.cpp\<close>) and the
  MIPS load/store access layer's underlying operations. Every access is bounds-checked; word and
  half accesses must be naturally aligned. A failed read is \<open>None\<close>, a failed write is
  \<open>False\<close> with the memory unchanged. The locale \<open>word_store\<close> states what the users of the
  memory (the two CPU models, the debugger's breakpoints) rely on; it is interpreted here on
  \<open>mem_read_word\<close> and \<open>mem_write_word\<close>.
\<close>

unbundle bit_operations_syntax

section \<open>State and operations\<close>

record memory =
  mem_data :: "u8 list"

definition mem_create :: "nat \<Rightarrow> memory" where
  "mem_create size_bytes = \<lparr>mem_data = replicate size_bytes 0\<rparr>"

definition mem_size :: "memory \<Rightarrow> nat" where
  "mem_size m = length (mem_data m)"

text \<open>The C++ adds in 64 bits, so \<open>addr + n\<close> does not wrap: here it is a sum of naturals.\<close>

definition mem_in_bounds :: "memory \<Rightarrow> u32 \<Rightarrow> nat \<Rightarrow> bool" where
  "mem_in_bounds m addr n \<longleftrightarrow> unat addr + n \<le> length (mem_data m)"

text \<open>\<open>data_[addr]\<close>, used only behind the bounds check; the index wraps at 32 bits as \<open>addr + k\<close> does.\<close>

definition byte_at :: "memory \<Rightarrow> u32 \<Rightarrow> u8" where
  "byte_at m addr = mem_data m ! unat addr"

definition put_byte :: "u32 \<Rightarrow> u8 \<Rightarrow> memory \<Rightarrow> memory" where
  "put_byte addr v m = m\<lparr>mem_data := (mem_data m)[unat addr := v]\<rparr>"

definition join_word :: "u8 \<Rightarrow> u8 \<Rightarrow> u8 \<Rightarrow> u8 \<Rightarrow> u32" where
  "join_word b0 b1 b2 b3 =
     ucast b0 OR push_bit 8 (ucast b1) OR push_bit 16 (ucast b2) OR push_bit 24 (ucast b3)"

definition mem_read_word :: "memory \<Rightarrow> u32 \<Rightarrow> u32 option" where
  "mem_read_word m addr =
     (if addr AND 3 \<noteq> 0 \<or> \<not> mem_in_bounds m addr 4 then None
      else Some (join_word (byte_at m addr) (byte_at m (addr + 1))
                           (byte_at m (addr + 2)) (byte_at m (addr + 3))))"

definition mem_read_half :: "memory \<Rightarrow> u32 \<Rightarrow> u16 option" where
  "mem_read_half m addr =
     (if addr AND 1 \<noteq> 0 \<or> \<not> mem_in_bounds m addr 2 then None
      else Some (ucast (byte_at m addr) OR push_bit 8 (ucast (byte_at m (addr + 1)))))"

definition mem_read_byte :: "memory \<Rightarrow> u32 \<Rightarrow> u8 option" where
  "mem_read_byte m addr =
     (if \<not> mem_in_bounds m addr 1 then None else Some (byte_at m addr))"

definition mem_write_word :: "memory \<Rightarrow> u32 \<Rightarrow> u32 \<Rightarrow> bool \<times> memory" where
  "mem_write_word m addr v =
     (if addr AND 3 \<noteq> 0 \<or> \<not> mem_in_bounds m addr 4 then (False, m)
      else (True,
        put_byte (addr + 3) (ucast (drop_bit 24 v AND 0xFF))
          (put_byte (addr + 2) (ucast (drop_bit 16 v AND 0xFF))
            (put_byte (addr + 1) (ucast (drop_bit 8 v AND 0xFF))
              (put_byte addr (ucast (v AND 0xFF)) m)))))"

definition mem_write_half :: "memory \<Rightarrow> u32 \<Rightarrow> u16 \<Rightarrow> bool \<times> memory" where
  "mem_write_half m addr v =
     (if addr AND 1 \<noteq> 0 \<or> \<not> mem_in_bounds m addr 2 then (False, m)
      else (True,
        put_byte (addr + 1) (ucast (drop_bit 8 v AND 0xFF))
          (put_byte addr (ucast (v AND 0xFF)) m)))"

definition mem_write_byte :: "memory \<Rightarrow> u32 \<Rightarrow> u8 \<Rightarrow> bool \<times> memory" where
  "mem_write_byte m addr v =
     (if \<not> mem_in_bounds m addr 1 then (False, m) else (True, put_byte addr v m))"

text \<open>
  The loop of \<open>load_words\<close> from word \<open>i\<close> on; the result of each \<open>write_word\<close> is ignored.
  \<open>None\<close> of \<open>mem_load_words\<close> is the violated \<open>Expects\<close>, which terminates the program.
\<close>

fun load_words_from :: "u32 \<Rightarrow> nat \<Rightarrow> u32 list \<Rightarrow> memory \<Rightarrow> memory" where
  "load_words_from addr i [] m = m"
| "load_words_from addr i (w # ws) m =
     load_words_from addr (Suc i) ws (snd (mem_write_word m (addr + of_nat (i * 4)) w))"

definition mem_load_words :: "memory \<Rightarrow> u32 \<Rightarrow> u32 list \<Rightarrow> (bool \<times> memory) option" where
  "mem_load_words m addr ws =
     (if addr AND 3 \<noteq> 0 then None
      else if \<not> mem_in_bounds m addr (length ws * 4) then Some (False, m)
      else Some (True, load_words_from addr 0 ws m))"

definition mem_reset :: "memory \<Rightarrow> memory" where
  "mem_reset m = m\<lparr>mem_data := replicate (length (mem_data m)) 0\<rparr>"

section \<open>Sizes and bounds\<close>

lemma length_put_byte [simp]: "length (mem_data (put_byte a v m)) = length (mem_data m)"
  by (simp add: put_byte_def)

lemma mem_size_put_byte [simp]: "mem_size (put_byte a v m) = mem_size m"
  by (simp add: mem_size_def)

lemma mem_in_bounds_put_byte [simp]:
  "mem_in_bounds (put_byte a v m) b n = mem_in_bounds m b n"
  by (simp add: mem_in_bounds_def)

lemma mem_size_write_word [simp]: "mem_size (snd (mem_write_word m a v)) = mem_size m"
  by (simp add: mem_write_word_def)

lemma mem_size_write_half [simp]: "mem_size (snd (mem_write_half m a v)) = mem_size m"
  by (simp add: mem_write_half_def)

lemma mem_size_write_byte [simp]: "mem_size (snd (mem_write_byte m a v)) = mem_size m"
  by (simp add: mem_write_byte_def)

lemma mem_size_reset [simp]: "mem_size (mem_reset m) = mem_size m"
  by (simp add: mem_reset_def mem_size_def)

lemma mem_size_load_words_from [simp]: "mem_size (load_words_from addr i ws m) = mem_size m"
  by (induction ws arbitrary: i m) simp_all

lemma mem_load_words_size: "mem_load_words m addr ws = Some (ok, m') \<Longrightarrow> mem_size m' = mem_size m"
  by (auto simp: mem_load_words_def split: if_splits)

lemma mem_reset_size: "mem_size m = mem_size m' \<Longrightarrow> mem_reset m = mem_reset m'"
  by (simp add: mem_reset_def mem_size_def)

lemma mem_in_bounds_size: "mem_in_bounds m a n \<longleftrightarrow> unat a + n \<le> mem_size m"
  by (simp add: mem_in_bounds_def mem_size_def)

lemma mem_read_word_None_iff:
  "mem_read_word m a = None \<longleftrightarrow> unat a mod 4 \<noteq> 0 \<or> mem_size m < unat a + 4"
  by (auto simp: mem_read_word_def mem_in_bounds_size and_3_unat)

lemma mem_write_word_ok_iff:
  "fst (mem_write_word m a v) \<longleftrightarrow> unat a mod 4 = 0 \<and> unat a + 4 \<le> mem_size m"
  by (simp add: mem_write_word_def mem_in_bounds_size and_3_unat)

lemma mem_write_word_fail: "\<not> fst (mem_write_word m a v) \<Longrightarrow> snd (mem_write_word m a v) = m"
  by (auto simp: mem_write_word_def split: if_splits)

section \<open>Reading what was written\<close>

lemma byte_at_put_byte:
  "unat a < length (mem_data m) \<Longrightarrow>
   byte_at (put_byte a v m) b = (if a = b then v else byte_at m b)"
  by (auto simp: byte_at_def put_byte_def nth_list_update word_unat_eq_iff)

lemma u8_of_u32_byte: "(ucast (v AND 0xFF) :: u8) = (ucast (v :: u32))"
  unfolding and_0xFF_take_bit by (rule bit_word_eqI) (auto simp: bit_simps)

lemma u8_of_u16_byte: "(ucast (v AND 0xFF) :: u8) = (ucast (v :: u16))"
  unfolding and_0xFF_take_bit by (rule bit_word_eqI) (auto simp: bit_simps)

lemma join_word_split:
  "join_word (ucast v) (ucast (drop_bit 8 v)) (ucast (drop_bit 16 v)) (ucast (drop_bit 24 v)) = v"
proof (rule bit_word_eqI)
  fix n
  assume "n < LENGTH(32)"
  then have "n < 32" by simp
  then consider "n < 8" | "8 \<le> n" "n < 16" | "16 \<le> n" "n < 24" | "24 \<le> n" "n < 32"
    by linarith
  then show "bit (join_word (ucast v) (ucast (drop_bit 8 v)) (ucast (drop_bit 16 v))
                  (ucast (drop_bit 24 v))) n = bit v n"
    by cases (auto simp: join_word_def bit_simps)
qed

text \<open>A successful write changes exactly the four bytes at \<open>a, \<dots>, a + 3\<close>.\<close>

lemma byte_at_write_word:
  assumes ok: "fst (mem_write_word m a v)"
  shows "byte_at (snd (mem_write_word m a v)) b =
    (if b = a then ucast v else if b = a + 1 then ucast (drop_bit 8 v)
     else if b = a + 2 then ucast (drop_bit 16 v)
     else if b = a + 3 then ucast (drop_bit 24 v) else byte_at m b)"
proof -
  from ok have al: "unat a mod 4 = 0" and sz: "unat a + 4 \<le> length (mem_data m)"
    by (auto simp: mem_write_word_ok_iff mem_size_def)
  from ok have "snd (mem_write_word m a v) =
      put_byte (a + 3) (ucast (drop_bit 24 v))
        (put_byte (a + 2) (ucast (drop_bit 16 v))
          (put_byte (a + 1) (ucast (drop_bit 8 v)) (put_byte a (ucast v) m)))"
    by (auto simp: mem_write_word_def u8_of_u32_byte split: if_splits)
  moreover have "a \<noteq> a + 1" "a \<noteq> a + 2" "a \<noteq> a + 3" "a + 1 \<noteq> a + 2" "a + 1 \<noteq> a + 3" "a + 2 \<noteq> a + 3"
    by simp_all
  ultimately show ?thesis
    using sz by (simp add: byte_at_put_byte aligned_plus_offsets [OF al])
qed

lemma mem_read_write_same:
  assumes "fst (mem_write_word m a v)"
  shows "mem_read_word (snd (mem_write_word m a v)) a = Some v"
proof -
  have "\<not> (a AND 3 \<noteq> 0 \<or> \<not> mem_in_bounds (snd (mem_write_word m a v)) a 4)"
    using assms by (simp add: mem_write_word_ok_iff mem_in_bounds_size and_3_unat)
  then show ?thesis
    using assms by (simp add: mem_read_word_def byte_at_write_word join_word_split)
qed

lemma mem_read_write_other:
  assumes "a \<noteq> b"
  shows "mem_read_word (snd (mem_write_word m a v)) b = mem_read_word m b"
proof (cases "fst (mem_write_word m a v)")
  case False
  then show ?thesis by (simp add: mem_write_word_fail)
next
  case True
  then have al: "unat a mod 4 = 0" by (simp add: mem_write_word_ok_iff)
  show ?thesis
  proof (cases "mem_read_word m b")
    case None
    then have "mem_read_word (snd (mem_write_word m a v)) b = None"
      by (simp add: mem_read_word_None_iff)
    with None show ?thesis by simp
  next
    case (Some w)
    then have bl: "unat b mod 4 = 0" and bs: "unat b + 4 \<le> mem_size m"
      using mem_read_word_None_iff [of m b] by auto
    have far: "unat a + 3 < unat b \<or> unat b + 3 < unat a"
      by (rule aligned_apart [OF al bl assms])
    have same: "byte_at (snd (mem_write_word m a v)) c = byte_at m c"
      if "c = b \<or> c = b + 1 \<or> c = b + 2 \<or> c = b + 3" for c
    proof -
      from that have "unat b \<le> unat c" "unat c \<le> unat b + 3"
        by (auto simp: aligned_plus_offsets [OF bl])
      with far have "c \<noteq> a" "c \<noteq> a + 1" "c \<noteq> a + 2" "c \<noteq> a + 3"
        using aligned_plus_offsets [OF al] by auto
      then show ?thesis by (simp add: byte_at_write_word [OF True])
    qed
    show ?thesis
      by (simp add: mem_read_word_def mem_in_bounds_size same)
  qed
qed

text \<open>What the clients of a word-addressed store rely on.\<close>

locale word_store =
  fixes rd :: "'m \<Rightarrow> u32 \<Rightarrow> u32 option"
    and wr :: "'m \<Rightarrow> u32 \<Rightarrow> u32 \<Rightarrow> bool \<times> 'm"
  assumes rd_wr_same: "fst (wr m a v) \<Longrightarrow> rd (snd (wr m a v)) a = Some v"
    and rd_wr_other: "a \<noteq> b \<Longrightarrow> rd (snd (wr m a v)) b = rd m b"
    and wr_ok_iff: "fst (wr m a v) \<longleftrightarrow> rd m a \<noteq> None"
    and wr_fail: "\<not> fst (wr m a v) \<Longrightarrow> snd (wr m a v) = m"
begin

lemma rd_wr:
  "rd (snd (wr m a v)) b = (if a = b \<and> rd m a \<noteq> None then Some v else rd m b)"
proof (cases "fst (wr m a v)")
  case True
  then show ?thesis
    using rd_wr_same [OF True] rd_wr_other [of a b m v] wr_ok_iff [of m a v] by (cases "a = b") auto
next
  case False
  then show ?thesis
    using wr_fail [OF False] wr_ok_iff [of m a v] by (cases "a = b") auto
qed

lemma rd_wr_dom: "rd (snd (wr m a v)) b = None \<longleftrightarrow> rd m b = None"
  by (auto simp: rd_wr)

text \<open>Patching a word and putting the old value back is invisible to every reader.\<close>

lemma patch_restore:
  assumes "rd m a = Some old"
  shows "rd (snd (wr (snd (wr m a v)) a old)) b = rd m b"
  using assms by (auto simp: rd_wr)

lemma wr_commute:
  assumes "a \<noteq> b"
  shows "rd (snd (wr (snd (wr m a v)) b w)) c = rd (snd (wr (snd (wr m b w)) a v)) c"
  using assms by (cases "rd m a"; cases "rd m b"; auto simp: rd_wr)

end

interpretation ram: word_store mem_read_word mem_write_word
proof
  fix m :: memory and a b v :: u32
  show "fst (mem_write_word m a v) \<Longrightarrow> mem_read_word (snd (mem_write_word m a v)) a = Some v"
    by (rule mem_read_write_same)
  show "a \<noteq> b \<Longrightarrow> mem_read_word (snd (mem_write_word m a v)) b = mem_read_word m b"
    by (rule mem_read_write_other)
  show "fst (mem_write_word m a v) \<longleftrightarrow> mem_read_word m a \<noteq> None"
    using mem_read_word_None_iff [of m a] by (auto simp: mem_write_word_ok_iff)
  show "\<not> fst (mem_write_word m a v) \<Longrightarrow> snd (mem_write_word m a v) = m"
    by (rule mem_write_word_fail)
qed

section \<open>Bytes\<close>

lemma mem_read_byte_None_iff: "mem_read_byte m a = None \<longleftrightarrow> mem_size m \<le> unat a"
  by (auto simp: mem_read_byte_def mem_in_bounds_size)

lemma mem_write_byte_ok_iff: "fst (mem_write_byte m a v) \<longleftrightarrow> unat a < mem_size m"
  by (auto simp: mem_write_byte_def mem_in_bounds_size)

lemma mem_write_byte_fail: "\<not> fst (mem_write_byte m a v) \<Longrightarrow> snd (mem_write_byte m a v) = m"
  by (auto simp: mem_write_byte_def split: if_splits)

lemma mem_read_byte_write_byte:
  "mem_read_byte (snd (mem_write_byte m a v)) b =
     (if a = b \<and> unat a < mem_size m then Some v else mem_read_byte m b)"
  by (auto simp: mem_read_byte_def mem_write_byte_def mem_in_bounds_def byte_at_put_byte mem_size_def)

lemma mem_read_byte_write_word:
  assumes "fst (mem_write_word m a v)"
  shows "mem_read_byte (snd (mem_write_word m a v)) a = Some (ucast v)"
    and "mem_read_byte (snd (mem_write_word m a v)) (a + 1) = Some (ucast (drop_bit 8 v))"
    and "mem_read_byte (snd (mem_write_word m a v)) (a + 2) = Some (ucast (drop_bit 16 v))"
    and "mem_read_byte (snd (mem_write_word m a v)) (a + 3) = Some (ucast (drop_bit 24 v))"
proof -
  from assms have al: "unat a mod 4 = 0" and sz: "unat a + 4 \<le> mem_size m"
    by (auto simp: mem_write_word_ok_iff)
  show "mem_read_byte (snd (mem_write_word m a v)) a = Some (ucast v)"
    "mem_read_byte (snd (mem_write_word m a v)) (a + 1) = Some (ucast (drop_bit 8 v))"
    "mem_read_byte (snd (mem_write_word m a v)) (a + 2) = Some (ucast (drop_bit 16 v))"
    "mem_read_byte (snd (mem_write_word m a v)) (a + 3) = Some (ucast (drop_bit 24 v))"
    using sz by (simp_all add: mem_read_byte_def mem_in_bounds_size byte_at_write_word [OF assms]
        aligned_plus_offsets [OF al])
qed

section \<open>Properties\<close>



end
