(* ===== verification/Registers.thy ===== *)
theory Registers
  imports Prelude
begin

text \<open>
  The general-purpose register file (\<open>include/isa/registers.h\<close>, \<open>src/mips/registers.cpp\<close>):
  32 words, register 0 hardwired to zero, and the index of the last register written for the
  front ends. The locale \<open>gpr_file\<close> states the read/write laws the CPU models and the debug
  stub use; it is interpreted here on \<open>regs_read\<close> and \<open>regs_write\<close>.
\<close>

unbundle bit_operations_syntax

section \<open>State and operations\<close>

record regfile =
  rf_regs :: "u32 list"
  rf_last :: int

definition regs_init :: regfile where
  "regs_init = \<lparr>rf_regs = replicate 32 0, rf_last = -1\<rparr>"

definition regs_read :: "regfile \<Rightarrow> u8 \<Rightarrow> u32" where
  "regs_read rf idx = (if idx = 0 then 0 else rf_regs rf ! unat (idx AND 0x1F))"

definition regs_write :: "u8 \<Rightarrow> u32 \<Rightarrow> regfile \<Rightarrow> regfile" where
  "regs_write idx v rf =
     (if idx = 0 then rf
      else rf\<lparr>rf_regs := (rf_regs rf)[unat (idx AND 0x1F) := v],
              rf_last := int (unat (idx AND 0x1F))\<rparr>)"

definition regs_reset :: "regfile \<Rightarrow> regfile" where
  "regs_reset rf = rf\<lparr>rf_regs := replicate (length (rf_regs rf)) 0, rf_last := -1\<rparr>"

definition abi_names :: "string list" where
  "abi_names =
    [''zero'', ''at'', ''v0'', ''v1'', ''a0'', ''a1'', ''a2'', ''a3'', ''t0'', ''t1'', ''t2'',
     ''t3'', ''t4'', ''t5'', ''t6'', ''t7'', ''s0'', ''s1'', ''s2'', ''s3'', ''s4'', ''s5'',
     ''s6'', ''s7'', ''t8'', ''t9'', ''k0'', ''k1'', ''gp'', ''sp'', ''fp'', ''ra'']"

definition register_abi_name :: "u8 \<Rightarrow> string" where
  "register_abi_name idx =
     (if unat idx < length abi_names then abi_names ! unat idx else ''??'')"

text \<open>The array type fixes the length; the marker is \<open>-1\<close> or an index.\<close>

definition regs_wf :: "regfile \<Rightarrow> bool" where
  "regs_wf rf \<longleftrightarrow> length (rf_regs rf) = 32 \<and> -1 \<le> rf_last rf \<and> rf_last rf < 32"

section \<open>Laws\<close>

lemma regs_wf_init [simp]: "regs_wf regs_init"
  by (simp add: regs_wf_def regs_init_def)

lemma regs_wf_write [simp]: "regs_wf rf \<Longrightarrow> regs_wf (regs_write idx v rf)"
proof -
  assume "regs_wf rf"
  moreover have "int (unat (idx AND 0x1F)) < 32" "- 1 \<le> int (unat (idx AND 0x1F))"
    using and_0x1F_less_32 [of idx] by linarith+
  ultimately show ?thesis
    by (simp add: regs_wf_def regs_write_def del: of_nat_unat)
qed

lemma regs_wf_reset [simp]: "regs_wf rf \<Longrightarrow> regs_wf (regs_reset rf)"
  by (auto simp: regs_wf_def regs_reset_def)

lemma regs_reset_wf: "regs_wf rf \<Longrightarrow> regs_reset rf = regs_init"
  by (simp add: regs_reset_def regs_init_def regs_wf_def)

lemma regs_read_zero [simp]: "regs_read rf 0 = 0"
  by (simp add: regs_read_def)

lemma regs_write_zero [simp]: "regs_write 0 v rf = rf"
  by (simp add: regs_write_def)

lemma regs_read_init [simp]: "regs_read regs_init i = 0"
  by (simp add: regs_read_def regs_init_def)

lemma regs_read_write:
  assumes "regs_wf rf" "unat i < 32" "unat j < 32"
  shows "regs_read (regs_write i v rf) j = (if i = j \<and> j \<noteq> 0 then v else regs_read rf j)"
proof -
  have "i AND 0x1F = i" "j AND 0x1F = j"
    using assms(2,3) by (simp_all add: and_0x1F_id)
  then show ?thesis
    using assms by (auto simp: regs_read_def regs_write_def regs_wf_def word_unat_eq_iff)
qed

lemma regs_last_write: "idx \<noteq> 0 \<Longrightarrow> rf_last (regs_write idx v rf) = int (unat (idx AND 0x1F))"
  by (simp add: regs_write_def)

text \<open>
  The interface of a register file with a hardwired zero. \<open>ok\<close> is the shape invariant, \<open>idx_ok\<close>
  the indices an instruction can name.
\<close>

locale gpr_file =
  fixes ok :: "'r \<Rightarrow> bool"
    and idx_ok :: "'i \<Rightarrow> bool"
    and zero_reg :: 'i
    and rd :: "'r \<Rightarrow> 'i \<Rightarrow> u32"
    and wr :: "'i \<Rightarrow> u32 \<Rightarrow> 'r \<Rightarrow> 'r"
  assumes rd_zero: "rd r zero_reg = 0"
    and wr_zero: "wr zero_reg v r = r"
    and wr_ok: "ok r \<Longrightarrow> ok (wr i v r)"
    and rd_wr: "ok r \<Longrightarrow> idx_ok i \<Longrightarrow> idx_ok j \<Longrightarrow>
      rd (wr i v r) j = (if i = j \<and> j \<noteq> zero_reg then v else rd r j)"
begin

lemma rd_wr_other: "ok r \<Longrightarrow> idx_ok i \<Longrightarrow> idx_ok j \<Longrightarrow> i \<noteq> j \<Longrightarrow> rd (wr i v r) j = rd r j"
  by (simp add: rd_wr)

lemma rd_wr_same: "ok r \<Longrightarrow> idx_ok i \<Longrightarrow> i \<noteq> zero_reg \<Longrightarrow> rd (wr i v r) i = v"
  by (simp add: rd_wr)

text \<open>
  Reading through two pending writes: the younger write wins over the older one. This is what the
  forwarding unit of a pipeline implements.
\<close>

lemma rd_wr_wr:
  assumes "ok r" "idx_ok i" "idx_ok j" "idx_ok k"
  shows "rd (wr i v (wr j w r)) k =
    (if i = k \<and> k \<noteq> zero_reg then v else if j = k \<and> k \<noteq> zero_reg then w else rd r k)"
  using assms by (simp add: rd_wr wr_ok)

lemma wr_wr_same: "ok r \<Longrightarrow> idx_ok i \<Longrightarrow> idx_ok j \<Longrightarrow> rd (wr i v (wr i w r)) j = rd (wr i v r) j"
  by (simp add: rd_wr wr_ok)

end

abbreviation gpr_index :: "u8 \<Rightarrow> bool" where
  "gpr_index i \<equiv> unat i < 32"

interpretation gpr: gpr_file regs_wf gpr_index 0 regs_read regs_write
  by unfold_locales (simp_all add: regs_read_write)

lemma distinct_abi_names: "distinct abi_names"
  by (simp add: abi_names_def)

lemma length_abi_names [simp]: "length abi_names = 32"
  by (simp add: abi_names_def)

lemma register_abi_name_inj:
  assumes "gpr_index i" "gpr_index j" "register_abi_name i = register_abi_name j"
  shows "i = j"
  using assms nth_eq_iff_index_eq [OF distinct_abi_names]
  by (simp add: register_abi_name_def word_unat_eq_iff)

end
