(* ===== verification/Decoder.thy ===== *)
theory Decoder
  imports Prelude
begin

text \<open>
  The instruction decoder (\<open>include/mips/decoder.h\<close>, \<open>src/mips/decoder.cpp\<close>): the format, opcode
  and funct enumerations, the three field structs, \<open>decode\<close>, \<open>mnemonic\<close>, \<open>format_of\<close> and
  \<open>sign_extend\<close>. A C++ enum can hold a value without an enumerator; the constructors
  \<open>OpReserved\<close> and \<open>FnReserved\<close> carry such a value. The accessors \<open>r()\<close>, \<open>i()\<close>, \<open>j()\<close> throw on
  the wrong alternative of the variant; \<open>get_r\<close>, \<open>get_i\<close>, \<open>get_j\<close> return the fields of an empty
  struct there, and \<open>wf_instr\<close> (which every result of \<open>decode\<close> satisfies) says that this does
  not happen.
\<close>

unbundle bit_operations_syntax

section \<open>Enumerations and field structs\<close>

datatype instr_format = FmtR | FmtI | FmtJ | FmtUnknown

datatype opcode =
    OpSPECIAL | OpJ | OpJAL | OpBEQ | OpBNE | OpADDI | OpADDIU | OpSLTI | OpSLTIU
  | OpANDI | OpORI | OpXORI | OpLUI | OpCOP0 | OpLW | OpLBU | OpLHU | OpSW
  | OpReserved u8

text \<open>\<open>static_cast<Opcode>\<close> of a number.\<close>

definition opcode_of :: "u8 \<Rightarrow> opcode" where
  "opcode_of v =
    (if v = 0x00 then OpSPECIAL else if v = 0x02 then OpJ else if v = 0x03 then OpJAL
     else if v = 0x04 then OpBEQ else if v = 0x05 then OpBNE else if v = 0x08 then OpADDI
     else if v = 0x09 then OpADDIU else if v = 0x0A then OpSLTI else if v = 0x0B then OpSLTIU
     else if v = 0x0C then OpANDI else if v = 0x0D then OpORI else if v = 0x0E then OpXORI
     else if v = 0x0F then OpLUI else if v = 0x10 then OpCOP0 else if v = 0x23 then OpLW
     else if v = 0x24 then OpLBU else if v = 0x25 then OpLHU else if v = 0x2B then OpSW
     else OpReserved v)"

datatype funct_code =
    FnSLL | FnSRL | FnSRA | FnSLLV | FnSRLV | FnJR | FnJALR | FnSYSCALL | FnBREAK
  | FnADD | FnADDU | FnSUB | FnSUBU | FnAND | FnOR | FnXOR | FnNOR | FnSLT | FnSLTU | FnERET
  | FnReserved u8

definition funct_of :: "u8 \<Rightarrow> funct_code" where
  "funct_of v =
    (if v = 0x00 then FnSLL else if v = 0x02 then FnSRL else if v = 0x03 then FnSRA
     else if v = 0x04 then FnSLLV else if v = 0x06 then FnSRLV else if v = 0x08 then FnJR
     else if v = 0x09 then FnJALR else if v = 0x0C then FnSYSCALL else if v = 0x0D then FnBREAK
     else if v = 0x20 then FnADD else if v = 0x21 then FnADDU else if v = 0x22 then FnSUB
     else if v = 0x23 then FnSUBU else if v = 0x24 then FnAND else if v = 0x25 then FnOR
     else if v = 0x26 then FnXOR else if v = 0x27 then FnNOR else if v = 0x2A then FnSLT
     else if v = 0x2B then FnSLTU else if v = 0x18 then FnERET else FnReserved v)"

record r_fields =
  r_rs :: u8
  r_rt :: u8
  r_rd :: u8
  r_shamt :: u8
  r_funct :: funct_code

record i_fields =
  i_rs :: u8
  i_rt :: u8
  i_imm :: u16

record j_fields =
  j_target :: u32

datatype fields = RF r_fields | IF i_fields | JF j_fields

record decoded_instr =
  di_raw :: u32
  di_opcode :: opcode
  di_format :: instr_format
  di_fields :: fields

text \<open>A default-initialised \<open>DecodedInstr\<close>: the variant holds its first alternative, zeroed.\<close>

definition empty_instr :: decoded_instr where
  "empty_instr =
     \<lparr>di_raw = 0, di_opcode = OpSPECIAL, di_format = FmtUnknown,
      di_fields = RF \<lparr>r_rs = 0, r_rt = 0, r_rd = 0, r_shamt = 0, r_funct = FnSLL\<rparr>\<rparr>"

definition get_r :: "decoded_instr \<Rightarrow> r_fields" where
  "get_r d = (case di_fields d of RF r \<Rightarrow> r
     | _ \<Rightarrow> \<lparr>r_rs = 0, r_rt = 0, r_rd = 0, r_shamt = 0, r_funct = FnSLL\<rparr>)"

definition get_i :: "decoded_instr \<Rightarrow> i_fields" where
  "get_i d = (case di_fields d of IF i \<Rightarrow> i | _ \<Rightarrow> \<lparr>i_rs = 0, i_rt = 0, i_imm = 0\<rparr>)"

definition get_j :: "decoded_instr \<Rightarrow> j_fields" where
  "get_j d = (case di_fields d of JF j \<Rightarrow> j | _ \<Rightarrow> \<lparr>j_target = 0\<rparr>)"

section \<open>Operations\<close>

definition bits :: "u32 \<Rightarrow> nat \<Rightarrow> nat \<Rightarrow> u32" where
  "bits w hi lo = drop_bit lo w AND (push_bit (hi - lo + 1) 1 - 1)"

definition implemented_special :: "funct_code \<Rightarrow> bool" where
  "implemented_special funct =
     (case funct of FnERET \<Rightarrow> False | FnReserved _ \<Rightarrow> False | _ \<Rightarrow> True)"

definition format_of :: "opcode \<Rightarrow> instr_format" where
  "format_of op =
     (case op of
        OpSPECIAL \<Rightarrow> FmtR | OpCOP0 \<Rightarrow> FmtR
      | OpJ \<Rightarrow> FmtJ | OpJAL \<Rightarrow> FmtJ
      | OpReserved _ \<Rightarrow> FmtUnknown
      | _ \<Rightarrow> FmtI)"

definition decode :: "u32 \<Rightarrow> decoded_instr option" where
  "decode instr =
     (let raw_op = opcode_of (ucast (bits instr 31 26));
          fmt = format_of raw_op
      in case fmt of
           FmtUnknown \<Rightarrow> None
         | FmtR \<Rightarrow>
             (let funct = funct_of (ucast (bits instr 5 0));
                  cop0 = (raw_op = OpCOP0)
              in if \<not> cop0 \<and> \<not> implemented_special funct then None
                 else Some \<lparr>di_raw = instr, di_opcode = raw_op, di_format = fmt,
                   di_fields = RF \<lparr>r_rs = ucast (bits instr 25 21), r_rt = ucast (bits instr 20 16),
                     r_rd = ucast (bits instr 15 11),
                     r_shamt = (if cop0 then 0 else ucast (bits instr 10 6)),
                     r_funct = funct\<rparr>\<rparr>)
         | FmtI \<Rightarrow>
             Some \<lparr>di_raw = instr, di_opcode = raw_op, di_format = fmt,
               di_fields = IF \<lparr>i_rs = ucast (bits instr 25 21), i_rt = ucast (bits instr 20 16),
                 i_imm = ucast (bits instr 15 0)\<rparr>\<rparr>
         | FmtJ \<Rightarrow>
             Some \<lparr>di_raw = instr, di_opcode = raw_op, di_format = fmt,
               di_fields = JF \<lparr>j_target = bits instr 25 0\<rparr>\<rparr>)"

text \<open>
  The R-format test comes first, as in the source: the COP0 branch below it is reached only by a
  non-R instruction with a COP0 opcode, which \<open>decode\<close> never produces.
\<close>

definition mnemonic :: "decoded_instr \<Rightarrow> string" where
  "mnemonic d =
     (if di_format d = FmtR then
        (case r_funct (get_r d) of
           FnADD \<Rightarrow> ''ADD'' | FnADDU \<Rightarrow> ''ADDU'' | FnSUB \<Rightarrow> ''SUB'' | FnSUBU \<Rightarrow> ''SUBU''
         | FnAND \<Rightarrow> ''AND'' | FnOR \<Rightarrow> ''OR'' | FnXOR \<Rightarrow> ''XOR'' | FnNOR \<Rightarrow> ''NOR''
         | FnSLT \<Rightarrow> ''SLT'' | FnSLTU \<Rightarrow> ''SLTU'' | FnSLL \<Rightarrow> ''SLL'' | FnSRL \<Rightarrow> ''SRL''
         | FnSRA \<Rightarrow> ''SRA'' | FnSLLV \<Rightarrow> ''SLLV'' | FnSRLV \<Rightarrow> ''SRLV'' | FnJR \<Rightarrow> ''JR''
         | FnJALR \<Rightarrow> ''JALR'' | FnSYSCALL \<Rightarrow> ''SYSCALL'' | FnBREAK \<Rightarrow> ''BREAK''
         | _ \<Rightarrow> ''???'')
      else if di_opcode d = OpCOP0 then
        (let rs = r_rs (get_r d)
         in if rs = 0x00 then ''MFC0'' else if rs = 0x04 then ''MTC0''
            else if rs = 0x10 \<and> r_funct (get_r d) = FnERET then ''ERET'' else ''COP0'')
      else
        (case di_opcode d of
           OpJ \<Rightarrow> ''J'' | OpJAL \<Rightarrow> ''JAL'' | OpBEQ \<Rightarrow> ''BEQ'' | OpBNE \<Rightarrow> ''BNE''
         | OpADDI \<Rightarrow> ''ADDI'' | OpADDIU \<Rightarrow> ''ADDIU'' | OpSLTI \<Rightarrow> ''SLTI'' | OpSLTIU \<Rightarrow> ''SLTIU''
         | OpANDI \<Rightarrow> ''ANDI'' | OpORI \<Rightarrow> ''ORI'' | OpXORI \<Rightarrow> ''XORI'' | OpLUI \<Rightarrow> ''LUI''
         | OpLW \<Rightarrow> ''LW'' | OpLBU \<Rightarrow> ''LBU'' | OpLHU \<Rightarrow> ''LHU'' | OpSW \<Rightarrow> ''SW''
         | _ \<Rightarrow> ''???''))"

definition sign_extend :: "u16 \<Rightarrow> int" where
  "sign_extend imm = sint imm"

text \<open>\<open>static_cast<uint32_t>(Decoder::sign_extend(imm))\<close>.\<close>

definition sext32 :: "u16 \<Rightarrow> u32" where
  "sext32 imm = word_of_int (sign_extend imm)"

section \<open>Field extraction\<close>

lemma bits_take_bit: "bits w hi lo = take_bit (hi - lo + 1) (drop_bit lo w)"
proof -
  have "push_bit (hi - lo + 1) 1 - 1 = (mask (hi - lo + 1) :: u32)"
    by (simp only: push_bit_eq_mult mult_1 mask_eq_exp_minus_1)
  then show ?thesis
    by (simp only: bits_def take_bit_eq_mask)
qed

lemma bit_bits_iff [bit_simps]:
  "bit (bits w hi lo) n \<longleftrightarrow> n < hi - lo + 1 \<and> bit w (n + lo)"
  by (auto simp: bits_take_bit bit_simps add.commute dest: bit_imp_le_length)

lemma unat_bits: "unat (bits w hi lo) = unat w div 2 ^ lo mod 2 ^ (hi - lo + 1)"
proof -
  have "unat (bits w hi lo) = take_bit (hi - lo + 1) (drop_bit lo (take_bit LENGTH(32) (unat w)))"
    by (simp only: bits_take_bit unsigned_take_bit_eq unsigned_drop_bit_eq)
  then show ?thesis
    by (simp only: take_bit_eq_mod drop_bit_eq_div) (simp add: mod_less)
qed

lemma unat_bits_less: "unat (bits w hi lo) < 2 ^ (hi - lo + 1)"
  by (simp add: unat_bits)

lemma unat_u8_bits_less:
  assumes "hi - lo + 1 \<le> 8"
  shows "unat (ucast (bits w hi lo) :: u8) < 2 ^ (hi - lo + 1)"
proof -
  have "unat (ucast (bits w hi lo) :: u8) \<le> unat (bits w hi lo)"
    by (simp add: unsigned_ucast_eq take_bit_eq_mod)
  then show ?thesis using unat_bits_less [of w hi lo] by simp
qed

lemma gpr_field:
  "unat (ucast (bits w 25 21) :: u8) < 32" "unat (ucast (bits w 20 16) :: u8) < 32"
  "unat (ucast (bits w 15 11) :: u8) < 32" "unat (ucast (bits w 10 6) :: u8) < 32"
  using unat_u8_bits_less [of 25 21 w] unat_u8_bits_less [of 20 16 w]
    unat_u8_bits_less [of 15 11 w] unat_u8_bits_less [of 10 6 w] by simp_all

section \<open>Well-formed instructions\<close>

definition wf_instr :: "decoded_instr \<Rightarrow> bool" where
  "wf_instr d \<longleftrightarrow>
     (case di_fields d of
        RF r \<Rightarrow> di_format d = FmtR \<and> unat (r_rs r) < 32 \<and> unat (r_rt r) < 32 \<and> unat (r_rd r) < 32
          \<and> unat (r_shamt r) < 32
          \<and> (di_opcode d = OpCOP0 \<or> di_opcode d = OpSPECIAL \<and> implemented_special (r_funct r))
      | IF i \<Rightarrow> di_format d = FmtI \<and> format_of (di_opcode d) = FmtI
          \<and> unat (i_rs i) < 32 \<and> unat (i_rt i) < 32
      | JF j \<Rightarrow> di_format d = FmtJ \<and> (di_opcode d = OpJ \<or> di_opcode d = OpJAL)
          \<and> unat (j_target j) < 2 ^ 26)"

lemma format_of_R: "format_of op = FmtR \<longleftrightarrow> op = OpSPECIAL \<or> op = OpCOP0"
  by (cases op) (simp_all add: format_of_def)

lemma format_of_J: "format_of op = FmtJ \<longleftrightarrow> op = OpJ \<or> op = OpJAL"
  by (cases op) (simp_all add: format_of_def)

lemma format_of_Unknown: "format_of op = FmtUnknown \<longleftrightarrow> (\<exists>v. op = OpReserved v)"
  by (cases op) (simp_all add: format_of_def)

lemma decode_wf: "decode w = Some d \<Longrightarrow> wf_instr d"
  using gpr_field [of w] unat_bits_less [of w 25 0]
  by (auto simp: decode_def wf_instr_def Let_def format_of_R format_of_J
      split: instr_format.splits if_splits)

lemma decode_raw: "decode w = Some d \<Longrightarrow> di_raw d = w"
  by (auto simp: decode_def Let_def split: instr_format.splits if_splits)

lemma decode_opcode: "decode w = Some d \<Longrightarrow> di_opcode d = opcode_of (ucast (bits w 31 26))"
  by (auto simp: decode_def Let_def split: instr_format.splits if_splits)

lemma decode_format: "decode w = Some d \<Longrightarrow> di_format d = format_of (di_opcode d)"
  by (auto simp: decode_def Let_def split: instr_format.splits if_splits)

text \<open>The three shapes of a decoded instruction: the case split of every later proof.\<close>

lemma wf_instr_cases [consumes 1, case_names Special Cop0 Imm Jump]:
  assumes "wf_instr d"
  obtains
    (Special) r where "di_fields d = RF r" "di_format d = FmtR" "di_opcode d = OpSPECIAL"
      "implemented_special (r_funct r)" "get_r d = r"
      "unat (r_rs r) < 32" "unat (r_rt r) < 32" "unat (r_rd r) < 32"
  | (Cop0) r where "di_fields d = RF r" "di_format d = FmtR" "di_opcode d = OpCOP0" "get_r d = r"
      "unat (r_rs r) < 32" "unat (r_rt r) < 32" "unat (r_rd r) < 32"
  | (Imm) i where "di_fields d = IF i" "di_format d = FmtI" "format_of (di_opcode d) = FmtI"
      "get_i d = i" "unat (i_rs i) < 32" "unat (i_rt i) < 32"
  | (Jump) j where "di_fields d = JF j" "di_format d = FmtJ"
      "di_opcode d = OpJ \<or> di_opcode d = OpJAL" "get_j d = j"
  using assms
  by (cases "di_fields d") (auto simp: wf_instr_def get_r_def get_i_def get_j_def)

end
