(* ===== verification/Alu.thy ===== *)
theory Alu
  imports Decoder
begin

text \<open>
  The arithmetic unit (\<open>include/mips/alu.h\<close>, \<open>src/mips/alu.cpp\<close>): the operation codes, the control
  block that maps a decoded instruction to one, the carry-style overflow tests and \<open>execute\<close>. The
  lemmas relate each result to signed or unsigned integer arithmetic.
\<close>

unbundle bit_operations_syntax

section \<open>Operations\<close>

datatype alu_op =
    AluADD | AluADDU | AluSUB | AluSUBU | AluAND | AluOR | AluXOR | AluNOR | AluSLT | AluSLTU
  | AluSLL | AluSRL | AluSRA | AluLUI | AluPASS_A

record alu_result =
  alu_value :: u32
  alu_zero :: bool
  alu_overflow :: bool
  alu_negative :: bool

definition r_type_op :: "funct_code \<Rightarrow> alu_op option" where
  "r_type_op funct =
     (case funct of
        FnADD \<Rightarrow> Some AluADD | FnADDU \<Rightarrow> Some AluADDU | FnSUB \<Rightarrow> Some AluSUB
      | FnSUBU \<Rightarrow> Some AluSUBU | FnAND \<Rightarrow> Some AluAND | FnOR \<Rightarrow> Some AluOR | FnXOR \<Rightarrow> Some AluXOR
      | FnNOR \<Rightarrow> Some AluNOR | FnSLT \<Rightarrow> Some AluSLT | FnSLTU \<Rightarrow> Some AluSLTU
      | FnSLL \<Rightarrow> Some AluSLL | FnSLLV \<Rightarrow> Some AluSLL
      | FnSRL \<Rightarrow> Some AluSRL | FnSRLV \<Rightarrow> Some AluSRL | FnSRA \<Rightarrow> Some AluSRA
      | FnJR \<Rightarrow> Some AluPASS_A | FnJALR \<Rightarrow> Some AluPASS_A
      | _ \<Rightarrow> None)"

definition i_type_op :: "opcode \<Rightarrow> alu_op option" where
  "i_type_op op =
     (case op of
        OpADDI \<Rightarrow> Some AluADD | OpADDIU \<Rightarrow> Some AluADDU | OpSLTI \<Rightarrow> Some AluSLT
      | OpSLTIU \<Rightarrow> Some AluSLTU | OpANDI \<Rightarrow> Some AluAND | OpORI \<Rightarrow> Some AluOR
      | OpXORI \<Rightarrow> Some AluXOR | OpLUI \<Rightarrow> Some AluLUI
      | OpLW \<Rightarrow> Some AluADDU | OpLBU \<Rightarrow> Some AluADDU | OpLHU \<Rightarrow> Some AluADDU | OpSW \<Rightarrow> Some AluADDU
      | OpBEQ \<Rightarrow> Some AluSUBU | OpBNE \<Rightarrow> Some AluSUBU
      | _ \<Rightarrow> None)"

definition alu_control :: "decoded_instr \<Rightarrow> alu_op option" where
  "alu_control d =
     (case di_format d of
        FmtR \<Rightarrow> r_type_op (r_funct (get_r d))
      | FmtI \<Rightarrow> i_type_op (di_opcode d)
      | FmtJ \<Rightarrow> None
      | FmtUnknown \<Rightarrow> None)"

definition overflow_add :: "u32 \<Rightarrow> u32 \<Rightarrow> u32 \<Rightarrow> bool" where
  "overflow_add a b r \<longleftrightarrow> drop_bit 31 (NOT (a XOR b) AND (a XOR r)) \<noteq> 0"

definition overflow_sub :: "u32 \<Rightarrow> u32 \<Rightarrow> u32 \<Rightarrow> bool" where
  "overflow_sub a b r \<longleftrightarrow> drop_bit 31 ((a XOR b) AND (a XOR r)) \<noteq> 0"

definition alu_compute :: "alu_op \<Rightarrow> u32 \<Rightarrow> u32 \<Rightarrow> u8 \<Rightarrow> u32" where
  "alu_compute op a b shamt =
     (case op of
        AluADD \<Rightarrow> a + b
      | AluADDU \<Rightarrow> a + b
      | AluSUB \<Rightarrow> a - b
      | AluSUBU \<Rightarrow> a - b
      | AluAND \<Rightarrow> a AND b
      | AluOR \<Rightarrow> a OR b
      | AluXOR \<Rightarrow> a XOR b
      | AluNOR \<Rightarrow> NOT (a OR b)
      | AluSLT \<Rightarrow> (if sint a < sint b then 1 else 0)
      | AluSLTU \<Rightarrow> (if a < b then 1 else 0)
      | AluSLL \<Rightarrow> push_bit (unat (shamt AND 0x1F)) b
      | AluSRL \<Rightarrow> drop_bit (unat (shamt AND 0x1F)) b
      | AluSRA \<Rightarrow> signed_drop_bit (unat (shamt AND 0x1F)) b
      | AluLUI \<Rightarrow> push_bit 16 b
      | AluPASS_A \<Rightarrow> a)"

definition alu_execute :: "alu_op \<Rightarrow> u32 \<Rightarrow> u32 \<Rightarrow> u8 \<Rightarrow> alu_result" where
  "alu_execute op a b shamt =
     (let value = alu_compute op a b shamt;
          overflow = (case op of AluADD \<Rightarrow> overflow_add a b value
                               | AluSUB \<Rightarrow> overflow_sub a b value
                               | _ \<Rightarrow> False)
      in \<lparr>alu_value = value, alu_zero = (value = 0), alu_overflow = overflow,
          alu_negative = (drop_bit 31 value \<noteq> 0)\<rparr>)"

section \<open>Every decodable instruction has the ALU operation it needs\<close>

lemma r_type_op_special:
  "implemented_special f \<Longrightarrow> f \<noteq> FnSYSCALL \<Longrightarrow> f \<noteq> FnBREAK \<Longrightarrow> r_type_op f \<noteq> None"
  by (cases f) (simp_all add: implemented_special_def r_type_op_def)

lemma i_type_op_imm: "format_of op = FmtI \<Longrightarrow> i_type_op op \<noteq> None"
  by (cases op) (simp_all add: format_of_def i_type_op_def)

lemma alu_zero_iff [simp]: "alu_zero (alu_execute op a b sh) \<longleftrightarrow> alu_value (alu_execute op a b sh) = 0"
  by (simp add: alu_execute_def Let_def)

lemma alu_value_execute: "alu_value (alu_execute op a b sh) = alu_compute op a b sh"
  by (simp add: alu_execute_def Let_def)

section \<open>Overflow\<close>

lemma sign_bit_u32: "bit a 31 \<longleftrightarrow> sint (a :: u32) < 0"
  using bit_last_iff [of a] by simp

lemma top_bit_u32: "drop_bit 31 (x :: u32) \<noteq> 0 \<longleftrightarrow> bit x 31"
proof -
  have "drop_bit 31 x = 0 \<longleftrightarrow> \<not> bit x 31"
  proof
    assume "drop_bit 31 x = 0"
    then have "\<not> bit (drop_bit 31 x) 0" by simp
    then show "\<not> bit x 31" by (simp add: bit_simps)
  next
    assume "\<not> bit x 31"
    show "drop_bit 31 x = 0"
    proof (rule bit_word_eqI)
      fix n assume "n < LENGTH(32)"
      show "bit (drop_bit 31 x) n = bit (0 :: u32) n"
        using \<open>\<not> bit x 31\<close> bit_imp_le_length [of x "31 + n"]
        by (cases n) (auto simp: bit_simps)
    qed
  qed
  then show ?thesis by blast
qed

lemma sint_range_u32: "- 2147483648 \<le> sint (a :: u32)" "sint (a :: u32) < 2147483648"
  using sint_greater_eq [of a] sint_less [of a] by simp_all

lemma wrap_signed_32:
  fixes x :: int
  assumes "- 4294967296 \<le> x" "x < 4294967296"
  shows "(x + 2147483648) mod 4294967296 - 2147483648 =
    (if x < - 2147483648 then x + 4294967296 else if 2147483648 \<le> x then x - 4294967296 else x)"
proof -
  consider "x < - 2147483648" | "2147483648 \<le> x" | "- 2147483648 \<le> x" "x < 2147483648"
    by linarith
  then show ?thesis
  proof cases
    case 1
    have "(x + 2147483648) mod 4294967296 = (x + 2147483648 + 4294967296) mod 4294967296"
      by (rule mod_add_self2 [symmetric])
    also have "\<dots> = x + 2147483648 + 4294967296"
      using 1 assms by (intro mod_pos_pos_trivial) simp_all
    finally show ?thesis using 1 by simp
  next
    case 2
    have "(x + 2147483648) mod 4294967296 = (x - 2147483648 + 4294967296) mod 4294967296" by (simp add: add.commute)
    also have "\<dots> = (x - 2147483648) mod 4294967296" by (rule mod_add_self2)
    also have "\<dots> = x - 2147483648"
      using 2 assms by (intro mod_pos_pos_trivial) simp_all
    finally show ?thesis using 2 by simp
  next
    case 3
    then have "(x + 2147483648) mod 4294967296 = x + 2147483648"
      by (intro mod_pos_pos_trivial) simp_all
    with 3 show ?thesis by simp
  qed
qed

lemma signed_take_bit_31: "signed_take_bit 31 (x :: int) = (x + 2147483648) mod 4294967296 - 2147483648"
  by (simp add: signed_take_bit_eq_take_bit_shift take_bit_eq_mod)

lemma sint_add_u32:
  "sint (a + b :: u32) = (let s = sint a + sint b in
     if s < - 2147483648 then s + 4294967296 else if 2147483648 \<le> s then s - 4294967296 else s)"
proof -
  have "sint (a + b) = signed_take_bit 31 (sint a + sint b)"
    by (simp add: sint_word_ariths)
  then show ?thesis
    using sint_range_u32 [of a] sint_range_u32 [of b] wrap_signed_32 [of "sint a + sint b"]
    by (simp add: signed_take_bit_31 Let_def)
qed

lemma sint_sub_u32:
  "sint (a - b :: u32) = (let s = sint a - sint b in
     if s < - 2147483648 then s + 4294967296 else if 2147483648 \<le> s then s - 4294967296 else s)"
proof -
  have "sint (a - b) = signed_take_bit 31 (sint a - sint b)"
    by (simp add: sint_word_ariths)
  then show ?thesis
    using sint_range_u32 [of a] sint_range_u32 [of b] wrap_signed_32 [of "sint a - sint b"]
    by (simp add: signed_take_bit_31 Let_def)
qed

lemma overflow_add_iff:
  "overflow_add a b (a + b) \<longleftrightarrow>
     sint a + sint b < - 2147483648 \<or> 2147483648 \<le> sint a + sint b"
proof -
  have "overflow_add a b (a + b) \<longleftrightarrow>
      ((sint a < 0) = (sint b < 0)) \<and> ((sint a < 0) \<noteq> (sint (a + b) < 0))"
    unfolding overflow_add_def top_bit_u32 sign_bit_u32 [symmetric]
    by (simp add: bit_and_iff bit_xor_iff bit_not_iff)
  then show ?thesis
    using sint_range_u32 [of a] sint_range_u32 [of b]
    by (auto simp: sint_add_u32 Let_def split: if_splits)
qed

lemma overflow_sub_iff:
  "overflow_sub a b (a - b) \<longleftrightarrow>
     sint a - sint b < - 2147483648 \<or> 2147483648 \<le> sint a - sint b"
proof -
  have "overflow_sub a b (a - b) \<longleftrightarrow>
      ((sint a < 0) \<noteq> (sint b < 0)) \<and> ((sint a < 0) \<noteq> (sint (a - b) < 0))"
    unfolding overflow_sub_def top_bit_u32 sign_bit_u32 [symmetric]
    by (simp add: bit_and_iff bit_xor_iff)
  then show ?thesis
    using sint_range_u32 [of a] sint_range_u32 [of b]
    by (auto simp: sint_sub_u32 Let_def split: if_splits)
qed

text \<open>The overflow flag of \<open>ADD\<close> and \<open>SUB\<close> is raised exactly when the exact result does not fit.\<close>

lemma alu_add_exact:
  "\<not> alu_overflow (alu_execute AluADD a b sh) \<Longrightarrow>
   sint (alu_value (alu_execute AluADD a b sh)) = sint a + sint b"
  by (simp add: alu_execute_def alu_compute_def Let_def overflow_add_iff sint_add_u32)

lemma alu_sub_exact:
  "\<not> alu_overflow (alu_execute AluSUB a b sh) \<Longrightarrow>
   sint (alu_value (alu_execute AluSUB a b sh)) = sint a - sint b"
  by (simp add: alu_execute_def alu_compute_def Let_def overflow_sub_iff sint_sub_u32)

lemma alu_unsigned:
  "unat (alu_compute AluADDU a b sh) = (unat a + unat b) mod 2 ^ 32"
  "alu_compute AluSUBU a b sh = 0 \<longleftrightarrow> a = b"
  "alu_compute AluSLTU a b sh = (if unat a < unat b then 1 else 0)"
  "unat (alu_compute AluSRL a b sh) = unat b div 2 ^ (unat sh mod 32)"
  "sint (alu_compute AluSRA a b sh) = sint b div 2 ^ (unat sh mod 32)"
  "unat (alu_compute AluSLL a b sh) = unat b * 2 ^ (unat sh mod 32) mod 2 ^ 32"
proof -
  show "unat (alu_compute AluADDU a b sh) = (unat a + unat b) mod 2 ^ 32"
    by (simp add: alu_compute_def unat_word_ariths)
  show "alu_compute AluSUBU a b sh = 0 \<longleftrightarrow> a = b"
    by (simp add: alu_compute_def)
  show "alu_compute AluSLTU a b sh = (if unat a < unat b then 1 else 0)"
    by (simp add: alu_compute_def word_less_nat_alt)
  show "unat (alu_compute AluSRL a b sh) = unat b div 2 ^ (unat sh mod 32)"
  proof -
    have "unat (drop_bit n b) = unat b div 2 ^ n" for n
    proof -
      have "unat (drop_bit n b) = drop_bit n (take_bit LENGTH(32) (unat b))"
        by (simp only: unsigned_drop_bit_eq)
      then show ?thesis by (simp only: take_bit_eq_mod drop_bit_eq_div) (simp add: mod_less)
    qed
    then show ?thesis by (simp add: alu_compute_def and_0x1F_unat)
  qed
  show "sint (alu_compute AluSRA a b sh) = sint b div 2 ^ (unat sh mod 32)"
    by (simp only: alu_compute_def alu_op.case and_0x1F_unat sint_signed_drop_bit_eq drop_bit_eq_div)
  show "unat (alu_compute AluSLL a b sh) = unat b * 2 ^ (unat sh mod 32) mod 2 ^ 32"
  proof -
    have "unat (push_bit n b) = unat b * 2 ^ n mod 2 ^ 32" for n
    proof -
      have "unat (push_bit n b) = take_bit LENGTH(32) (push_bit n (unat b))"
        by (simp only: unsigned_push_bit_eq)
      then show ?thesis by (simp only: take_bit_eq_mod push_bit_eq_mult) simp
    qed
    then show ?thesis by (simp add: alu_compute_def and_0x1F_unat del: push_bit_eq_mult)
  qed
qed

section \<open>Properties\<close>

text \<open>C5: The overflow flag of \<open>execute\<close> is set exactly when the signed result of ADD or SUB does not fit in 32 bits; without it the result is the exact signed sum or difference, and no other operation sets it.\<close>

theorem alu_overflow_exact:
  "(alu_overflow (alu_execute AluADD a b sh) \<longleftrightarrow>
      sint a + sint b < - (2 ^ 31) \<or> 2 ^ 31 \<le> sint a + sint b)
   \<and> (alu_overflow (alu_execute AluSUB a b sh) \<longleftrightarrow>
      sint a - sint b < - (2 ^ 31) \<or> 2 ^ 31 \<le> sint a - sint b)
   \<and> (\<not> alu_overflow (alu_execute AluADD a b sh) \<longrightarrow>
      sint (alu_value (alu_execute AluADD a b sh)) = sint a + sint b)
   \<and> (\<not> alu_overflow (alu_execute AluSUB a b sh) \<longrightarrow>
      sint (alu_value (alu_execute AluSUB a b sh)) = sint a - sint b)
   \<and> (op \<noteq> AluADD \<and> op \<noteq> AluSUB \<longrightarrow> \<not> alu_overflow (alu_execute op a b sh))"
proof -
  have "alu_overflow (alu_execute AluADD a b sh) \<longleftrightarrow> overflow_add a b (a + b)"
    and "alu_overflow (alu_execute AluSUB a b sh) \<longleftrightarrow> overflow_sub a b (a - b)"
    by (simp_all add: alu_execute_def alu_compute_def Let_def)
  moreover have "op \<noteq> AluADD \<and> op \<noteq> AluSUB \<longrightarrow> \<not> alu_overflow (alu_execute op a b sh)"
    by (cases op) (simp_all add: alu_execute_def Let_def)
  ultimately show ?thesis
    using alu_add_exact [of a b sh] alu_sub_exact [of a b sh]
    by (simp add: overflow_add_iff overflow_sub_iff)
qed

lemma alu_overflow_exact_witness:
  "sint (alu_value (alu_execute AluADD 5 (- 7) 0)) = - 2
   \<and> \<not> alu_overflow (alu_execute AluXOR 5 (- 7) 0)"
  using alu_overflow_exact [of 5 "- 7" 0 AluXOR] by simp

end
