(* ===== verification/Cp0.thy ===== *)
theory Cp0
  imports Decoder
begin

text \<open>
  Coprocessor 0 (\<open>include/mips/cp0.h\<close>, \<open>src/mips/cp0.cpp\<close>): the exception codes and their names,
  the four registers of the exception model, \<open>raise\<close>, \<open>eret\<close>, register access and \<open>reset\<close>. The
  log line of \<open>raise\<close> has no effect on the state and is left out.
\<close>

unbundle bit_operations_syntax

section \<open>State and operations\<close>

datatype exception_code = ExcInt | ExcAdEL | ExcAdES | ExcSys | ExcBp | ExcRI | ExcOv

definition exc_value :: "exception_code \<Rightarrow> u32" where
  "exc_value c = (case c of ExcInt \<Rightarrow> 0 | ExcAdEL \<Rightarrow> 4 | ExcAdES \<Rightarrow> 5 | ExcSys \<Rightarrow> 8
     | ExcBp \<Rightarrow> 9 | ExcRI \<Rightarrow> 10 | ExcOv \<Rightarrow> 12)"

definition exception_name :: "exception_code \<Rightarrow> string" where
  "exception_name c = (case c of ExcInt \<Rightarrow> ''Int'' | ExcAdEL \<Rightarrow> ''AdEL'' | ExcAdES \<Rightarrow> ''AdES''
     | ExcSys \<Rightarrow> ''Sys'' | ExcBp \<Rightarrow> ''Bp'' | ExcRI \<Rightarrow> ''RI'' | ExcOv \<Rightarrow> ''Ov'')"

definition kExceptionVector :: u32 where "kExceptionVector = 0x80000180"

definition kRegBadVAddr :: u8 where "kRegBadVAddr = 8"
definition kRegStatus :: u8 where "kRegStatus = 12"
definition kRegCause :: u8 where "kRegCause = 13"
definition kRegEpc :: u8 where "kRegEpc = 14"
definition kStatusEXL :: u32 where "kStatusEXL = push_bit 1 1"

record cp0 =
  cp0_status :: u32
  cp0_cause :: u32
  cp0_epc :: u32
  cp0_bad_vaddr :: u32
  cp0_last_exc :: exception_code

definition cp0_init :: cp0 where
  "cp0_init = \<lparr>cp0_status = 0, cp0_cause = 0, cp0_epc = 0, cp0_bad_vaddr = 0, cp0_last_exc = ExcRI\<rparr>"

definition cp0_in_exception :: "cp0 \<Rightarrow> bool" where
  "cp0_in_exception c \<longleftrightarrow> cp0_status c AND kStatusEXL \<noteq> 0"

definition cp0_raise :: "exception_code \<Rightarrow> u32 \<Rightarrow> u32 \<Rightarrow> cp0 \<Rightarrow> u32 \<times> cp0" where
  "cp0_raise code faulting_pc bad_addr c =
     (let c1 = c\<lparr>cp0_last_exc := code\<rparr>;
          c2 = (if \<not> cp0_in_exception c1 then c1\<lparr>cp0_epc := faulting_pc\<rparr> else c1)
      in (kExceptionVector,
          c2\<lparr>cp0_cause := (cp0_cause c2 AND NOT 0x7C) OR push_bit 2 (exc_value code),
             cp0_status := cp0_status c2 OR kStatusEXL,
             cp0_bad_vaddr := bad_addr\<rparr>))"

definition cp0_eret :: "cp0 \<Rightarrow> u32 \<times> cp0" where
  "cp0_eret c = (let c1 = c\<lparr>cp0_status := cp0_status c AND NOT kStatusEXL\<rparr> in (cp0_epc c1, c1))"

definition cp0_read :: "cp0 \<Rightarrow> u8 \<Rightarrow> u32" where
  "cp0_read c reg =
     (if reg = kRegBadVAddr then cp0_bad_vaddr c else if reg = kRegStatus then cp0_status c
      else if reg = kRegCause then cp0_cause c else if reg = kRegEpc then cp0_epc c else 0)"

definition cp0_write :: "u8 \<Rightarrow> u32 \<Rightarrow> cp0 \<Rightarrow> cp0" where
  "cp0_write reg v c =
     (if reg = kRegStatus then c\<lparr>cp0_status := v\<rparr>
      else if reg = kRegCause then c\<lparr>cp0_cause := v\<rparr>
      else if reg = kRegEpc then c\<lparr>cp0_epc := v\<rparr> else c)"

text \<open>\<open>last_exc_\<close> is not reset.\<close>

definition cp0_reset :: "cp0 \<Rightarrow> cp0" where
  "cp0_reset c = c\<lparr>cp0_status := 0, cp0_cause := 0, cp0_epc := 0, cp0_bad_vaddr := 0\<rparr>"

section \<open>The exception protocol\<close>

lemma cp0_raise_vector [simp]: "fst (cp0_raise code pc bad c) = kExceptionVector"
  by (simp add: cp0_raise_def Let_def)

text \<open>\<open>c'\<close> is what raising some exception in \<open>c\<close> leaves.\<close>

definition cp0_raised :: "cp0 \<Rightarrow> cp0 \<Rightarrow> bool" where
  "cp0_raised c c' \<longleftrightarrow> (\<exists>code fpc bad. c' = snd (cp0_raise code fpc bad c))"

lemma cp0_raisedI [simp, intro]: "cp0_raised c (snd (cp0_raise code fpc bad c))"
  by (auto simp: cp0_raised_def)

lemma and_EXL: "x AND kStatusEXL \<noteq> 0 \<longleftrightarrow> bit x 1"
proof
  assume "x AND kStatusEXL \<noteq> 0"
  then obtain n where "bit (x AND kStatusEXL) n" by (auto simp: bit_eq_iff)
  then show "bit x 1" by (auto simp: kStatusEXL_def bit_simps)
next
  assume "bit x 1"
  then have "bit (x AND kStatusEXL) 1" by (simp add: kStatusEXL_def bit_simps)
  then show "x AND kStatusEXL \<noteq> 0" by auto
qed

lemma cp0_in_exception_raise [simp]: "cp0_in_exception (snd (cp0_raise code pc bad c))"
  by (simp add: cp0_in_exception_def cp0_raise_def Let_def and_EXL bit_or_iff)
     (simp add: kStatusEXL_def bit_simps)

lemma cp0_epc_raise:
  "cp0_epc (snd (cp0_raise code pc bad c)) = (if cp0_in_exception c then cp0_epc c else pc)"
  by (simp add: cp0_raise_def Let_def cp0_in_exception_def)

lemma cp0_raised_facts:
  assumes "cp0_raised c c'"
  shows "cp0_in_exception c'" "cp0_in_exception c \<Longrightarrow> cp0_epc c' = cp0_epc c"
  using assms by (auto simp: cp0_raised_def cp0_epc_raise)

lemma cp0_last_exc_raise [simp]: "cp0_last_exc (snd (cp0_raise code pc bad c)) = code"
  by (simp add: cp0_raise_def Let_def)

lemma cp0_bad_vaddr_raise [simp]: "cp0_bad_vaddr (snd (cp0_raise code pc bad c)) = bad"
  by (simp add: cp0_raise_def Let_def)

lemma exc_value_bit: "bit (exc_value code) n \<Longrightarrow> n < 4"
proof -
  have "exc_value code = take_bit 4 (exc_value code)"
    by (cases code) (simp_all add: exc_value_def)
  moreover assume "bit (exc_value code) n"
  ultimately show "n < 4" by (metis bit_take_bit_iff)
qed

lemma bit_0x7C: "bit (0x7C :: u32) n \<longleftrightarrow> 2 \<le> n \<and> n < 7"
proof -
  have h: "(0x7C :: u32) = push_bit 2 (mask 5)" by (simp add: mask_eq_exp_minus_1)
  show ?thesis unfolding h by (auto simp: bit_push_bit_iff bit_mask_iff)
qed

lemma cp0_cause_raise:
  "cp0_cause (snd (cp0_raise code pc bad c)) = (cp0_cause c AND NOT 0x7C) OR push_bit 2 (exc_value code)"
  by (simp add: cp0_raise_def Let_def)

lemma cp0_exccode_raise: "bits (cp0_cause (snd (cp0_raise code pc bad c))) 6 2 = exc_value code"
proof (rule bit_word_eqI)
  fix n assume n: "n < LENGTH(32)"
  have "bit (bits (cp0_cause (snd (cp0_raise code pc bad c))) 6 2) n
      \<longleftrightarrow> n < 5 \<and> bit ((cp0_cause c AND NOT 0x7C) OR push_bit 2 (exc_value code)) (n + 2)"
    unfolding bit_bits_iff cp0_cause_raise by simp
  also have "\<dots> \<longleftrightarrow> n < 5 \<and> bit (push_bit 2 (exc_value code)) (n + 2)"
    unfolding bit_or_iff bit_and_iff bit_not_iff bit_0x7C by auto
  also have "\<dots> \<longleftrightarrow> bit (exc_value code) n"
    unfolding bit_push_bit_iff using exc_value_bit [of code n] by auto
  finally show "bit (bits (cp0_cause (snd (cp0_raise code pc bad c))) 6 2) n = bit (exc_value code) n" .
qed

lemma exc_value_inj: "exc_value a = exc_value b \<longleftrightarrow> a = b"
  by (cases a; cases b; simp add: exc_value_def)

lemma cp0_eret_pc [simp]: "fst (cp0_eret c) = cp0_epc c"
  by (simp add: cp0_eret_def Let_def)

lemma cp0_in_exception_eret [simp]: "\<not> cp0_in_exception (snd (cp0_eret c))"
proof -
  have "\<not> bit (cp0_status c AND NOT kStatusEXL) 1"
    by (simp add: kStatusEXL_def bit_simps)
  then show ?thesis
    unfolding cp0_in_exception_def cp0_eret_def Let_def and_EXL by simp
qed

lemma cp0_read_write:
  "cp0_read (cp0_write reg v c) reg =
     (if reg = kRegStatus \<or> reg = kRegCause \<or> reg = kRegEpc then v else cp0_read c reg)"
  by (auto simp: cp0_read_def cp0_write_def kRegStatus_def kRegCause_def kRegEpc_def kRegBadVAddr_def)

lemma cp0_read_write_other: "reg \<noteq> reg' \<Longrightarrow> cp0_read (cp0_write reg v c) reg' = cp0_read c reg'"
  by (auto simp: cp0_read_def cp0_write_def)

end
