(* ===== verification/Processor.thy ===== *)
theory Processor
  imports Memory Registers Alu Cp0
begin

text \<open>
  What both CPU models share: the load/store access layer (\<open>data_memory.h/.cpp\<close>), the control
  word and \<open>derive_control\<close> (\<open>processor.h\<close>, \<open>single_cycle_cpu.cpp\<close>), the pipeline snapshot and
  the step results (\<open>isa/processor.h\<close>), and the two abstract interfaces \<open>IProcessor\<close> and
  \<open>IMipsProcessor\<close>. A C++ interface is a table of virtual functions: here it is a record of
  operations over an abstract machine state, and the locales \<open>processor\<close> and \<open>mips_processor\<close>
  state the laws a backend promises to the debug stub, the loaders and the front ends. They are
  interpreted on both backends in the backends' theories.
\<close>

unbundle bit_operations_syntax

section \<open>Loads and stores\<close>

definition load_data :: "memory \<Rightarrow> opcode \<Rightarrow> u32 \<Rightarrow> u32 option" where
  "load_data mem op addr =
     (case op of
        OpLW \<Rightarrow> mem_read_word mem addr
      | OpLBU \<Rightarrow> (case mem_read_byte mem addr of Some v \<Rightarrow> Some (ucast v) | None \<Rightarrow> None)
      | OpLHU \<Rightarrow> (case mem_read_half mem addr of Some v \<Rightarrow> Some (ucast v) | None \<Rightarrow> None)
      | _ \<Rightarrow> None)"

definition store_data :: "memory \<Rightarrow> opcode \<Rightarrow> u32 \<Rightarrow> u32 \<Rightarrow> bool \<times> memory" where
  "store_data mem op addr v =
     (case op of OpSW \<Rightarrow> mem_write_word mem addr v | _ \<Rightarrow> (False, mem))"

lemma mem_size_store_data [simp]: "mem_size (snd (store_data m op a v)) = mem_size m"
  by (simp add: store_data_def split: opcode.split)

lemma store_data_fail: "\<not> fst (store_data m op a v) \<Longrightarrow> snd (store_data m op a v) = m"
  by (auto simp: store_data_def mem_write_word_fail split: opcode.splits)

section \<open>Control word\<close>

datatype ext = ExtSign | ExtZero

record control =
  c_reg_write :: bool
  c_mem_read :: bool
  c_mem_write :: bool
  c_mem_to_reg :: bool
  c_alu_src :: bool
  c_reg_dst :: bool
  c_branch :: bool
  c_jump :: bool
  c_ext :: ext

definition control_init :: control where
  "control_init = \<lparr>c_reg_write = False, c_mem_read = False, c_mem_write = False,
     c_mem_to_reg = False, c_alu_src = False, c_reg_dst = False, c_branch = False,
     c_jump = False, c_ext = ExtSign\<rparr>"

definition r_type_control :: "decoded_instr \<Rightarrow> control" where
  "r_type_control d =
     (if di_opcode d = OpCOP0 then control_init
      else case r_funct (get_r d) of
        FnJR \<Rightarrow> control_init
      | FnJALR \<Rightarrow> control_init\<lparr>c_reg_write := True\<rparr>
      | FnSYSCALL \<Rightarrow> control_init
      | FnBREAK \<Rightarrow> control_init
      | _ \<Rightarrow> control_init\<lparr>c_reg_write := True, c_reg_dst := True\<rparr>)"

definition alu_imm_control :: "ext \<Rightarrow> control" where
  "alu_imm_control e = control_init\<lparr>c_reg_write := True, c_alu_src := True, c_ext := e\<rparr>"

definition load_control :: control where
  "load_control = control_init\<lparr>c_reg_write := True, c_mem_read := True, c_mem_to_reg := True,
     c_alu_src := True, c_ext := ExtSign\<rparr>"

definition i_type_control :: "opcode \<Rightarrow> control" where
  "i_type_control op =
     (case op of
        OpADDI \<Rightarrow> alu_imm_control ExtSign | OpADDIU \<Rightarrow> alu_imm_control ExtSign
      | OpSLTI \<Rightarrow> alu_imm_control ExtSign | OpSLTIU \<Rightarrow> alu_imm_control ExtSign
      | OpANDI \<Rightarrow> alu_imm_control ExtZero | OpORI \<Rightarrow> alu_imm_control ExtZero
      | OpXORI \<Rightarrow> alu_imm_control ExtZero | OpLUI \<Rightarrow> alu_imm_control ExtZero
      | OpLW \<Rightarrow> load_control | OpLBU \<Rightarrow> load_control | OpLHU \<Rightarrow> load_control
      | OpSW \<Rightarrow> control_init\<lparr>c_mem_write := True, c_alu_src := True, c_ext := ExtSign\<rparr>
      | OpBEQ \<Rightarrow> control_init\<lparr>c_branch := True, c_ext := ExtSign\<rparr>
      | OpBNE \<Rightarrow> control_init\<lparr>c_branch := True, c_ext := ExtSign\<rparr>
      | _ \<Rightarrow> control_init)"

definition derive_control :: "decoded_instr \<Rightarrow> control" where
  "derive_control d =
     (case di_format d of
        FmtR \<Rightarrow> r_type_control d
      | FmtI \<Rightarrow> i_type_control (di_opcode d)
      | FmtJ \<Rightarrow> (let c = control_init\<lparr>c_jump := True\<rparr>
                 in if di_opcode d = OpJAL then c\<lparr>c_reg_write := True\<rparr> else c)
      | FmtUnknown \<Rightarrow> control_init)"

lemmas control_defs = derive_control_def r_type_control_def i_type_control_def
  alu_imm_control_def load_control_def control_init_def

lemma control_load_iff:
  "wf_instr d \<Longrightarrow> c_mem_read (derive_control d) \<longleftrightarrow> di_opcode d \<in> {OpLW, OpLBU, OpLHU}"
  by (elim wf_instr_cases)
     (auto simp: control_defs Let_def format_of_def split: opcode.splits funct_code.splits)

lemma control_store_iff:
  "wf_instr d \<Longrightarrow> c_mem_write (derive_control d) \<longleftrightarrow> di_opcode d = OpSW"
  by (elim wf_instr_cases)
     (auto simp: control_defs Let_def format_of_def split: opcode.splits funct_code.splits)

lemma control_mem_to_reg: "c_mem_to_reg (derive_control d) = c_mem_read (derive_control d)"
  by (simp add: control_defs Let_def split: opcode.splits funct_code.splits instr_format.splits)

lemma control_load_writes: "c_mem_read (derive_control d) \<Longrightarrow> c_reg_write (derive_control d)"
  by (auto simp: control_defs Let_def split: opcode.splits funct_code.splits instr_format.splits if_splits)

lemma control_not_both: "\<not> (c_mem_read (derive_control d) \<and> c_mem_write (derive_control d))"
  by (simp add: control_defs Let_def split: opcode.splits funct_code.splits instr_format.splits)

section \<open>Results and snapshots\<close>

datatype step_result = StOk | StException | StFault | StHalt

record stage_snapshot =
  ss_name :: string
  ss_valid :: bool
  ss_stalled :: bool
  ss_flushed :: bool
  ss_pc :: u32
  ss_raw :: u32

definition stage_empty :: stage_snapshot where
  "stage_empty = \<lparr>ss_name = '''', ss_valid = False, ss_stalled = False, ss_flushed = False,
     ss_pc = 0, ss_raw = 0\<rparr>"

record pipeline_state =
  ps_stages :: "stage_snapshot list"
  ps_fwd_ex_to_ex_a :: bool
  ps_fwd_ex_to_ex_b :: bool
  ps_fwd_mem_to_ex_a :: bool
  ps_fwd_mem_to_ex_b :: bool
  ps_load_stall :: bool
  ps_branch_flush :: bool
  ps_retired :: bool
  ps_cycle :: nat

definition ps_init :: pipeline_state where
  "ps_init = \<lparr>ps_stages = replicate 5 stage_empty, ps_fwd_ex_to_ex_a = False,
     ps_fwd_ex_to_ex_b = False, ps_fwd_mem_to_ex_a = False, ps_fwd_mem_to_ex_b = False,
     ps_load_stall = False, ps_branch_flush = False, ps_retired = False, ps_cycle = 0\<rparr>"

text \<open>\<open>IProcessor::run\<close>: step until something other than \<open>Ok\<close>, or the budget is spent.\<close>

fun run_steps :: "('c \<Rightarrow> step_result \<times> 'c) \<Rightarrow> nat \<Rightarrow> 'c \<Rightarrow> step_result \<times> 'c" where
  "run_steps step 0 c = (StOk, c)"
| "run_steps step (Suc n) c =
     (case step c of (r, c') \<Rightarrow> if r \<noteq> StOk then (r, c') else run_steps step n c')"

lemma run_steps_append:
  "run_steps f (m + n) c =
     (case run_steps f m c of (r, c') \<Rightarrow> if r \<noteq> StOk then (r, c') else run_steps f n c')"
  by (induction m arbitrary: c) (auto split: prod.split)

lemma run_steps_mono:
  "run_steps f n c = (r, c') \<Longrightarrow> r \<noteq> StOk \<Longrightarrow> n \<le> m \<Longrightarrow> run_steps f m c = (r, c')"
  using run_steps_append [of f n "m - n" c] by simp

lemma run_steps_then:
  "run_steps f m c = (StOk, c1) \<Longrightarrow> run_steps f (m + n) c = run_steps f n c1"
  by (simp add: run_steps_append)

lemma run_steps_keeps:
  "(\<And>c. P c \<Longrightarrow> P (snd (f c))) \<Longrightarrow> P c \<Longrightarrow> P (snd (run_steps f n c))"
proof (induction n arbitrary: c)
  case (Suc n)
  obtain r c' where s: "f c = (r, c')" by fastforce
  then have "P c'" using Suc.prems(1) [OF Suc.prems(2)] by simp
  then show ?case using Suc.IH [of c'] Suc.prems(1) by (simp add: s)
qed simp

section \<open>The processor interfaces\<close>

record 'c processor_ops =
  op_load_program :: "u32 list \<Rightarrow> u32 \<Rightarrow> 'c \<Rightarrow> (bool \<times> 'c) option"
  op_step :: "'c \<Rightarrow> step_result \<times> 'c"
  op_reset :: "bool \<Rightarrow> 'c \<Rightarrow> 'c"
  op_pc :: "'c \<Rightarrow> u32"
  op_set_pc :: "u32 \<Rightarrow> 'c \<Rightarrow> 'c"
  op_regs :: "'c \<Rightarrow> regfile"
  op_put_regs :: "regfile \<Rightarrow> 'c \<Rightarrow> 'c"
  op_mem :: "'c \<Rightarrow> memory"
  op_put_mem :: "memory \<Rightarrow> 'c \<Rightarrow> 'c"
  op_cycle_count :: "'c \<Rightarrow> nat"
  op_pipeline_state :: "'c \<Rightarrow> pipeline_state"

record 'c mips_ops = "'c processor_ops" +
  op_last_control :: "'c \<Rightarrow> control"
  op_cp0 :: "'c \<Rightarrow> cp0"
  op_put_cp0 :: "cp0 \<Rightarrow> 'c \<Rightarrow> 'c"
  op_hi :: "'c \<Rightarrow> u32"
  op_lo :: "'c \<Rightarrow> u32"
  op_set_hi :: "u32 \<Rightarrow> 'c \<Rightarrow> 'c"
  op_set_lo :: "u32 \<Rightarrow> 'c \<Rightarrow> 'c"

definition op_run :: "('c, 'z) processor_ops_scheme \<Rightarrow> nat \<Rightarrow> 'c \<Rightarrow> step_result \<times> 'c" where
  "op_run ops max_steps c = run_steps (op_step ops) max_steps c"

text \<open>
  The laws of \<open>IProcessor\<close>: mutable references are get/put pairs that obey the lens laws and leave
  the other components alone; a step takes one cycle and keeps the shape of memory and registers.
\<close>

locale processor =
  fixes ops :: "('c, 'z) processor_ops_scheme"
  assumes pc_set_pc: "op_pc ops (op_set_pc ops a c) = a"
    and regs_set_pc: "op_regs ops (op_set_pc ops a c) = op_regs ops c"
    and mem_set_pc: "op_mem ops (op_set_pc ops a c) = op_mem ops c"
    and mem_put_mem: "op_mem ops (op_put_mem ops m c) = m"
    and put_mem_mem: "op_put_mem ops (op_mem ops c) c = c"
    and put_put_mem: "op_put_mem ops m (op_put_mem ops m' c) = op_put_mem ops m c"
    and pc_put_mem: "op_pc ops (op_put_mem ops m c) = op_pc ops c"
    and regs_put_mem: "op_regs ops (op_put_mem ops m c) = op_regs ops c"
    and regs_put_regs: "op_regs ops (op_put_regs ops r c) = r"
    and pc_put_regs: "op_pc ops (op_put_regs ops r c) = op_pc ops c"
    and mem_put_regs: "op_mem ops (op_put_regs ops r c) = op_mem ops c"
    and step_cycle: "op_cycle_count ops (snd (op_step ops c)) = Suc (op_cycle_count ops c)"
    and step_mem_size: "mem_size (op_mem ops (snd (op_step ops c))) = mem_size (op_mem ops c)"
    and step_regs_wf: "regs_wf (op_regs ops c) \<Longrightarrow> regs_wf (op_regs ops (snd (op_step ops c)))"
    and reset_pc: "op_pc ops (op_reset ops b c) = 0"
    and reset_cycle: "op_cycle_count ops (op_reset ops b c) = 0"
    and reset_regs: "op_regs ops (op_reset ops b c) = regs_reset (op_regs ops c)"
    and reset_mem: "op_mem ops (op_reset ops b c) = (if b then mem_reset (op_mem ops c) else op_mem ops c)"
    and load_program: "op_load_program ops ws a c =
      (case mem_load_words (op_mem ops c) a ws of
         None \<Rightarrow> None
       | Some (ok, m) \<Rightarrow> Some (ok, if ok then op_set_pc ops a (op_put_mem ops m c) else c))"
begin

lemma run_cycles:
  assumes "run_steps (op_step ops) n c = (r, c')"
  shows "op_cycle_count ops c' \<le> op_cycle_count ops c + n"
    and "r = StOk \<Longrightarrow> op_cycle_count ops c' = op_cycle_count ops c + n"
proof -
  have "op_cycle_count ops c' \<le> op_cycle_count ops c + n \<and>
      (r = StOk \<longrightarrow> op_cycle_count ops c' = op_cycle_count ops c + n)"
    using assms
  proof (induction n arbitrary: c)
    case 0
    then show ?case by simp
  next
    case (Suc n)
    obtain r1 c1 where s: "op_step ops c = (r1, c1)" by (cases "op_step ops c")
    then have "op_cycle_count ops c1 = Suc (op_cycle_count ops c)"
      using step_cycle [of c] by simp
    with Suc s show ?case by (fastforce split: if_splits)
  qed
  then show "op_cycle_count ops c' \<le> op_cycle_count ops c + n"
    and "r = StOk \<Longrightarrow> op_cycle_count ops c' = op_cycle_count ops c + n" by blast+
qed

lemma run_mem_size: "mem_size (op_mem ops (snd (run_steps (op_step ops) n c))) = mem_size (op_mem ops c)"
proof (induction n arbitrary: c)
  case (Suc n)
  obtain r1 c1 where s: "op_step ops c = (r1, c1)" by (cases "op_step ops c")
  then have "mem_size (op_mem ops c1) = mem_size (op_mem ops c)"
    using step_mem_size [of c] by simp
  with Suc s show ?case by simp
qed simp

lemma run_regs_wf: "regs_wf (op_regs ops c) \<Longrightarrow> regs_wf (op_regs ops (snd (run_steps (op_step ops) n c)))"
proof (induction n arbitrary: c)
  case (Suc n)
  obtain r1 c1 where s: "op_step ops c = (r1, c1)" by (cases "op_step ops c")
  then have "regs_wf (op_regs ops c1)"
    using step_regs_wf [OF Suc.prems] by simp
  with Suc s show ?case by simp
qed simp

end

text \<open>The MIPS contract adds coprocessor 0 and the precise form of an exception step.\<close>

locale mips_processor = processor ops for ops :: "('c, 'z) mips_ops_scheme" +
  assumes cp0_set_pc: "op_cp0 ops (op_set_pc ops a c) = op_cp0 ops c"
    and cp0_put_mem: "op_cp0 ops (op_put_mem ops m c) = op_cp0 ops c"
    and cp0_put_regs: "op_cp0 ops (op_put_regs ops r c) = op_cp0 ops c"
    and cp0_put_cp0: "op_cp0 ops (op_put_cp0 ops k c) = k"
    and pc_put_cp0: "op_pc ops (op_put_cp0 ops k c) = op_pc ops c"
    and regs_put_cp0: "op_regs ops (op_put_cp0 ops k c) = op_regs ops c"
    and mem_put_cp0: "op_mem ops (op_put_cp0 ops k c) = op_mem ops c"
    and hi_set_hi: "op_hi ops (op_set_hi ops v c) = v"
    and lo_set_lo: "op_lo ops (op_set_lo ops v c) = v"
    and hi_set_lo: "op_hi ops (op_set_lo ops v c) = op_hi ops c"
    and lo_set_hi: "op_lo ops (op_set_hi ops v c) = op_lo ops c"
    and hi_lo_set_pc: "op_hi ops (op_set_pc ops a c) = op_hi ops c" "op_lo ops (op_set_pc ops a c) = op_lo ops c"
    and hi_lo_put_regs: "op_hi ops (op_put_regs ops r c) = op_hi ops c" "op_lo ops (op_put_regs ops r c) = op_lo ops c"
    and hi_lo_put_cp0: "op_hi ops (op_put_cp0 ops k c) = op_hi ops c" "op_lo ops (op_put_cp0 ops k c) = op_lo ops c"
    and hi_frame: "op_pc ops (op_set_hi ops v c) = op_pc ops c" "op_regs ops (op_set_hi ops v c) = op_regs ops c"
      "op_cp0 ops (op_set_hi ops v c) = op_cp0 ops c" "op_mem ops (op_set_hi ops v c) = op_mem ops c"
    and lo_frame: "op_pc ops (op_set_lo ops v c) = op_pc ops c" "op_regs ops (op_set_lo ops v c) = op_regs ops c"
      "op_cp0 ops (op_set_lo ops v c) = op_cp0 ops c" "op_mem ops (op_set_lo ops v c) = op_mem ops c"
    and step_no_fault: "fst (op_step ops c) \<noteq> StFault"
    and step_exception: "fst (op_step ops c) = StException \<Longrightarrow>
      op_pc ops (snd (op_step ops c)) = kExceptionVector \<and>
      cp0_raised (op_cp0 ops c) (op_cp0 ops (snd (op_step ops c)))"
begin

text \<open>An exception taken while one is pending keeps the EPC of the first.\<close>

lemma nested_exception_keeps_epc:
  assumes "cp0_in_exception (op_cp0 ops c)" "fst (op_step ops c) = StException"
  shows "cp0_epc (op_cp0 ops (snd (op_step ops c))) = cp0_epc (op_cp0 ops c)"
  using step_exception [OF assms(2)] assms(1) by (auto dest: cp0_raised_facts)

lemma exception_enters_handler:
  assumes "fst (op_step ops c) = StException"
  shows "cp0_in_exception (op_cp0 ops (snd (op_step ops c)))"
  using step_exception [OF assms] by (auto dest: cp0_raised_facts)

lemmas lens_simps = pc_set_pc regs_set_pc mem_set_pc mem_put_mem pc_put_mem regs_put_mem
  regs_put_regs pc_put_regs mem_put_regs cp0_set_pc cp0_put_mem cp0_put_regs cp0_put_cp0
  pc_put_cp0 regs_put_cp0 mem_put_cp0 hi_set_hi lo_set_lo hi_set_lo lo_set_hi hi_lo_set_pc
  hi_lo_put_regs hi_lo_put_cp0 hi_frame lo_frame put_put_mem put_mem_mem

end

end
