(* ===== verification/SingleCycle.thy ===== *)
theory SingleCycle
  imports Processor
begin

text \<open>
  The single-cycle CPU (\<open>include/mips/single_cycle_cpu.h\<close>, \<open>src/mips/single_cycle_cpu.cpp\<close>): the
  state both CPU classes declare, \<open>exec_rtype\<close>, \<open>exec_itype\<close>, \<open>step\<close>, \<open>load_program\<close>, \<open>reset\<close>,
  and the proof that it is a \<open>mips_processor\<close>. The trace output is left out: it reads the state
  only. \<open>arch_step\<close> is the same step on the architectural state alone, the specification the
  pipeline is later shown to refine.
\<close>

unbundle bit_operations_syntax

section \<open>State and operations\<close>

record cpu =
  cpu_regs :: regfile
  cpu_mem :: memory
  cpu_cp0 :: cp0
  cpu_pc :: u32
  cpu_hi :: u32
  cpu_lo :: u32
  cpu_ctrl :: control
  cpu_cycle :: nat
  cpu_ps :: pipeline_state

definition sc_create :: "nat \<Rightarrow> cpu" where
  "sc_create mem_bytes =
     \<lparr>cpu_regs = regs_init, cpu_mem = mem_create mem_bytes, cpu_cp0 = cp0_init, cpu_pc = 0,
      cpu_hi = 0, cpu_lo = 0, cpu_ctrl = control_init, cpu_cycle = 0, cpu_ps = ps_init\<rparr>"

definition kRa :: u8 where "kRa = 31"

definition sc_raise :: "exception_code \<Rightarrow> u32 \<Rightarrow> u32 \<Rightarrow> cpu \<Rightarrow> step_result \<times> cpu" where
  "sc_raise code faulting_pc bad_addr s =
     (case cp0_raise code faulting_pc bad_addr (cpu_cp0 s) of
        (vector, c) \<Rightarrow> (StException, s\<lparr>cpu_pc := vector, cpu_cp0 := c\<rparr>))"

text \<open>
  The C++ returns a flag and updates \<open>next_pc\<close>, \<open>exc\<close> and the object through references; the model
  returns all four.
\<close>

definition exec_rtype ::
  "decoded_instr \<Rightarrow> u32 \<Rightarrow> u32 \<Rightarrow> step_result \<Rightarrow> cpu \<Rightarrow> bool \<times> u32 \<times> step_result \<times> cpu" where
  "exec_rtype d pc4 next_pc exc s =
     (let r = get_r d; f = r_funct r
      in if di_opcode d = OpCOP0 then
           (let sub = r_rs r
            in if sub = 0x00 then
                 (True, next_pc, exc,
                  s\<lparr>cpu_regs := regs_write (r_rt r) (cp0_read (cpu_cp0 s) (r_rd r)) (cpu_regs s)\<rparr>)
               else if sub = 0x04 then
                 (True, next_pc, exc,
                  s\<lparr>cpu_cp0 := cp0_write (r_rd r) (regs_read (cpu_regs s) (r_rt r)) (cpu_cp0 s)\<rparr>)
               else if sub = 0x10 \<and> f = FnERET then
                 (case cp0_eret (cpu_cp0 s) of
                    (epc, c) \<Rightarrow> (True, epc, exc, s\<lparr>cpu_cp0 := c\<rparr>))
               else (True, next_pc, exc, s))
         else if f = FnSYSCALL then
           (case sc_raise ExcSys (pc4 - 4) 0 s of (e, s') \<Rightarrow> (True, next_pc, e, s'))
         else if f = FnBREAK then
           (case sc_raise ExcBp (pc4 - 4) 0 s of (e, s') \<Rightarrow> (True, next_pc, e, s'))
         else if f = FnJR then
           (True, regs_read (cpu_regs s) (r_rs r), exc, s)
         else if f = FnJALR then
           (let target = regs_read (cpu_regs s) (r_rs r)
            in (True, target, exc, s\<lparr>cpu_regs := regs_write (r_rd r) pc4 (cpu_regs s)\<rparr>))
         else
           (case alu_control d of
              None \<Rightarrow> (False, next_pc, exc, s)
            | Some op \<Rightarrow>
                (let a = regs_read (cpu_regs s) (r_rs r);
                     b = regs_read (cpu_regs s) (r_rt r);
                     shamt = (if f = FnSLLV \<or> f = FnSRLV then ucast (a AND 0x1F) else r_shamt r);
                     res = alu_execute op a b shamt
                 in if alu_overflow res \<and> (f = FnADD \<or> f = FnSUB) then
                      (case sc_raise ExcOv (pc4 - 4) 0 s of (e, s') \<Rightarrow> (True, next_pc, e, s'))
                    else
                      (True, next_pc, exc,
                       s\<lparr>cpu_regs := regs_write (r_rd r) (alu_value res) (cpu_regs s)\<rparr>))))"

text \<open>The branch case of \<open>exec_itype\<close>, and what it does with the ALU result of the other cases.\<close>

definition exec_branch ::
  "decoded_instr \<Rightarrow> u32 \<Rightarrow> u32 \<Rightarrow> step_result \<Rightarrow> cpu \<Rightarrow> bool \<times> u32 \<times> step_result \<times> cpu" where
  "exec_branch d pc4 next_pc exc s =
     (case alu_control d of
        None \<Rightarrow> (False, next_pc, exc, s)
      | Some aluop \<Rightarrow>
          (let i = get_i d;
               res = alu_execute aluop (regs_read (cpu_regs s) (i_rs i)) (regs_read (cpu_regs s) (i_rt i)) 0;
               taken = (if di_opcode d = OpBEQ then alu_zero res else \<not> alu_zero res)
           in (True, if taken then pc4 + push_bit 2 (sext32 (i_imm i)) else next_pc, exc, s)))"

definition exec_imm_result ::
  "decoded_instr \<Rightarrow> alu_result \<Rightarrow> u32 \<Rightarrow> u32 \<Rightarrow> step_result \<Rightarrow> cpu \<Rightarrow> bool \<times> u32 \<times> step_result \<times> cpu" where
  "exec_imm_result d res pc4 next_pc exc s =
     (let i = get_i d; op = di_opcode d; addr = alu_value res
      in if alu_overflow res \<and> op = OpADDI then
           (case sc_raise ExcOv (pc4 - 4) 0 s of (e, s') \<Rightarrow> (True, next_pc, e, s'))
         else if c_mem_read (cpu_ctrl s) then
           (case load_data (cpu_mem s) op addr of
              None \<Rightarrow> (case sc_raise ExcAdEL (pc4 - 4) addr s of (e, s') \<Rightarrow> (True, next_pc, e, s'))
            | Some loaded \<Rightarrow>
                (True, next_pc, exc, s\<lparr>cpu_regs := regs_write (i_rt i) loaded (cpu_regs s)\<rparr>))
         else if c_mem_write (cpu_ctrl s) then
           (case store_data (cpu_mem s) op addr (regs_read (cpu_regs s) (i_rt i)) of
              (ok, m) \<Rightarrow>
                if \<not> ok then
                  (case sc_raise ExcAdES (pc4 - 4) addr (s\<lparr>cpu_mem := m\<rparr>) of
                     (e, s') \<Rightarrow> (True, next_pc, e, s'))
                else (True, next_pc, exc, s\<lparr>cpu_mem := m\<rparr>))
         else
           (True, next_pc, exc, s\<lparr>cpu_regs := regs_write (i_rt i) (alu_value res) (cpu_regs s)\<rparr>))"

definition exec_itype ::
  "decoded_instr \<Rightarrow> u32 \<Rightarrow> u32 \<Rightarrow> step_result \<Rightarrow> cpu \<Rightarrow> bool \<times> u32 \<times> step_result \<times> cpu" where
  "exec_itype d pc4 next_pc exc s =
     (if di_opcode d = OpBEQ \<or> di_opcode d = OpBNE then exec_branch d pc4 next_pc exc s
      else
        (let i = get_i d;
             imm = (if c_ext (cpu_ctrl s) = ExtSign then sext32 (i_imm i) else ucast (i_imm i))
         in case alu_control d of
              None \<Rightarrow> (False, next_pc, exc, s)
            | Some aluop \<Rightarrow>
                exec_imm_result d (alu_execute aluop (regs_read (cpu_regs s) (i_rs i)) imm 0)
                  pc4 next_pc exc s))"

text \<open>The end of \<open>step\<close>: an exception leaves at once, otherwise the PC moves and a self-jump halts.\<close>

definition sc_finish :: "u32 \<Rightarrow> u32 \<Rightarrow> step_result \<Rightarrow> cpu \<Rightarrow> step_result \<times> cpu" where
  "sc_finish cur_pc next_pc exc s =
     (if exc = StException then (exc, s)
      else (if next_pc = cur_pc then StHalt else StOk,
            s\<lparr>cpu_ps := (cpu_ps s)\<lparr>ps_retired := True\<rparr>, cpu_pc := next_pc\<rparr>))"

text \<open>The control word and the one-stage snapshot, set before the instruction executes.\<close>

definition sc_begin :: "decoded_instr \<Rightarrow> u32 \<Rightarrow> u32 \<Rightarrow> cpu \<Rightarrow> cpu" where
  "sc_begin d cur_pc fetched s =
     s\<lparr>cpu_ctrl := derive_control d,
       cpu_ps := ps_init\<lparr>ps_stages := (ps_stages ps_init)[2 :=
           \<lparr>ss_name = ''EX'', ss_valid = True, ss_stalled = False, ss_flushed = False,
            ss_pc = cur_pc, ss_raw = fetched\<rparr>],
         ps_cycle := cpu_cycle s\<rparr>\<rparr>"

definition jump_target :: "u32 \<Rightarrow> decoded_instr \<Rightarrow> u32" where
  "jump_target pc4 d = (pc4 AND 0xF0000000) OR push_bit 2 (j_target (get_j d))"

definition sc_step :: "cpu \<Rightarrow> step_result \<times> cpu" where
  "sc_step s0 =
     (let s1 = s0\<lparr>cpu_cycle := Suc (cpu_cycle s0)\<rparr>;
          cur_pc = cpu_pc s1
      in case mem_read_word (cpu_mem s1) cur_pc of
           None \<Rightarrow> sc_raise ExcAdEL cur_pc cur_pc s1
         | Some fetched \<Rightarrow>
             (let pc4 = cur_pc + 4
              in case decode fetched of
                   None \<Rightarrow> sc_raise ExcRI cur_pc 0 s1
                 | Some d \<Rightarrow>
                     (let s = sc_begin d cur_pc fetched s1
                      in case di_format d of
                           FmtJ \<Rightarrow>
                             (let s' = (if di_opcode d = OpJAL
                                        then s\<lparr>cpu_regs := regs_write kRa pc4 (cpu_regs s)\<rparr> else s)
                              in sc_finish cur_pc (jump_target pc4 d) StOk s')
                         | FmtR \<Rightarrow>
                             (case exec_rtype d pc4 pc4 StOk s of (ok, next_pc, exc, s') \<Rightarrow>
                                if \<not> ok then (StFault, s') else sc_finish cur_pc next_pc exc s')
                         | FmtI \<Rightarrow>
                             (case exec_itype d pc4 pc4 StOk s of (ok, next_pc, exc, s') \<Rightarrow>
                                if \<not> ok then (StFault, s') else sc_finish cur_pc next_pc exc s')
                         | FmtUnknown \<Rightarrow> sc_raise ExcRI cur_pc 0 s)))"

definition sc_load_program :: "u32 list \<Rightarrow> u32 \<Rightarrow> cpu \<Rightarrow> (bool \<times> cpu) option" where
  "sc_load_program ws addr s =
     (case mem_load_words (cpu_mem s) addr ws of
        None \<Rightarrow> None
      | Some (ok, m) \<Rightarrow> Some (if \<not> ok then (False, s) else (True, s\<lparr>cpu_mem := m, cpu_pc := addr\<rparr>)))"

definition sc_reset :: "bool \<Rightarrow> cpu \<Rightarrow> cpu" where
  "sc_reset clear_memory s =
     s\<lparr>cpu_regs := regs_reset (cpu_regs s), cpu_cp0 := cp0_reset (cpu_cp0 s), cpu_pc := 0,
       cpu_hi := 0, cpu_lo := 0, cpu_ctrl := control_init, cpu_cycle := 0, cpu_ps := ps_init,
       cpu_mem := (if clear_memory then mem_reset (cpu_mem s) else cpu_mem s)\<rparr>"

definition sc_ops :: "cpu mips_ops" where
  "sc_ops =
     \<lparr>op_load_program = sc_load_program, op_step = sc_step, op_reset = sc_reset,
      op_pc = cpu_pc, op_set_pc = (\<lambda>a. cpu_pc_update (\<lambda>_. a)),
      op_regs = cpu_regs, op_put_regs = (\<lambda>r. cpu_regs_update (\<lambda>_. r)),
      op_mem = cpu_mem, op_put_mem = (\<lambda>m. cpu_mem_update (\<lambda>_. m)),
      op_cycle_count = cpu_cycle, op_pipeline_state = cpu_ps,
      op_last_control = cpu_ctrl, op_cp0 = cpu_cp0, op_put_cp0 = (\<lambda>k. cpu_cp0_update (\<lambda>_. k)),
      op_hi = cpu_hi, op_lo = cpu_lo,
      op_set_hi = (\<lambda>v. cpu_hi_update (\<lambda>_. v)), op_set_lo = (\<lambda>v. cpu_lo_update (\<lambda>_. v))\<rparr>"

section \<open>Shape of a step\<close>

lemma sc_raise_eq:
  "sc_raise code pc bad s =
     (StException, s\<lparr>cpu_pc := kExceptionVector, cpu_cp0 := snd (cp0_raise code pc bad (cpu_cp0 s))\<rparr>)"
  by (simp add: sc_raise_def cp0_raise_def Let_def)

lemmas exec_defs = exec_rtype_def exec_branch_def exec_imm_result_def sc_raise_eq Let_def

text \<open>
  One elimination rule for the step: a failed fetch, a failed decode, a jump, and the two executing
  formats. Its facts about \<open>exec_rtype\<close> and \<open>exec_itype\<close> are what every invariant proof uses.
\<close>

lemma exec_rtype_ok:
  assumes "wf_instr d" "di_format d = FmtR"
  shows "fst (exec_rtype d pc4 np exc s)"
  using assms(1)
proof (cases rule: wf_instr_cases)
  case (Special r)
  then show ?thesis
  proof (cases "r_funct r = FnSYSCALL \<or> r_funct r = FnBREAK")
    case True
    with Special show ?thesis by (auto simp: exec_defs)
  next
    case False
    with Special r_type_op_special [of "r_funct r"] obtain op where "r_type_op (r_funct r) = Some op"
      by auto
    with Special False show ?thesis by (simp add: exec_defs alu_control_def)
  qed
next
  case (Cop0 r)
  then show ?thesis by (auto simp: exec_defs cp0_eret_def)
qed (use assms(2) in simp_all)

lemma exec_imm_result_ok [simp]: "fst (exec_imm_result d res pc4 np exc s)"
  by (simp add: exec_defs split: option.split prod.split)

lemma exec_itype_ok:
  assumes "wf_instr d" "di_format d = FmtI"
  shows "fst (exec_itype d pc4 np exc s)"
  using assms(1)
proof (cases rule: wf_instr_cases)
  case (Imm i)
  then obtain op where "alu_control d = Some op"
    using i_type_op_imm [of "di_opcode d"] by (auto simp: alu_control_def)
  then show ?thesis
    by (simp add: exec_itype_def exec_branch_def Let_def)
qed (use assms(2) in simp_all)

text \<open>The object and the exception flag after an execute function.\<close>

abbreviation exec_state :: "bool \<times> u32 \<times> step_result \<times> cpu \<Rightarrow> cpu" where
  "exec_state x \<equiv> snd (snd (snd x))"

abbreviation exec_exc :: "bool \<times> u32 \<times> step_result \<times> cpu \<Rightarrow> step_result" where
  "exec_exc x \<equiv> fst (snd (snd x))"

lemma store_data_state:
  "store_data m op a v = (ok, m') \<Longrightarrow> mem_size m' = mem_size m"
  using mem_size_store_data [of m op a v] by simp

lemma exec_rtype_frame [frame, simp]:
  "cpu_cycle (exec_state (exec_rtype d pc4 np e s)) = cpu_cycle s"
  "cpu_mem (exec_state (exec_rtype d pc4 np e s)) = cpu_mem s"
  by (simp_all add: exec_defs cp0_eret_def split: option.split)

lemma exec_rtype_regs_wf [simp]:
  "regs_wf (cpu_regs s) \<Longrightarrow> regs_wf (cpu_regs (exec_state (exec_rtype d pc4 np e s)))"
  by (simp add: exec_defs cp0_eret_def split: option.split)

lemma exec_branch_state [frame, simp]: "exec_state (exec_branch d pc4 np e s) = s"
  "exec_exc (exec_branch d pc4 np e s) = e"
  by (simp_all add: exec_branch_def Let_def split: option.split)

lemma exec_imm_result_frame [frame, simp]:
  "cpu_cycle (exec_state (exec_imm_result d res pc4 np e s)) = cpu_cycle s"
  "mem_size (cpu_mem (exec_state (exec_imm_result d res pc4 np e s))) = mem_size (cpu_mem s)"
  by (auto simp: exec_defs dest: store_data_state split: option.split prod.split)

lemma exec_imm_result_regs_wf [simp]:
  "regs_wf (cpu_regs s) \<Longrightarrow> regs_wf (cpu_regs (exec_state (exec_imm_result d res pc4 np e s)))"
  by (simp add: exec_defs split: option.split prod.split)

lemma exec_itype_frame [frame, simp]:
  "cpu_cycle (exec_state (exec_itype d pc4 np e s)) = cpu_cycle s"
  "mem_size (cpu_mem (exec_state (exec_itype d pc4 np e s))) = mem_size (cpu_mem s)"
  by (simp_all add: exec_itype_def Let_def split: option.split)

lemma exec_itype_regs_wf [simp]:
  "regs_wf (cpu_regs s) \<Longrightarrow> regs_wf (cpu_regs (exec_state (exec_itype d pc4 np e s)))"
  by (simp add: exec_itype_def Let_def split: option.split)

lemma exec_rtype_exc [rule_format]:
  "exec_exc (exec_rtype d pc4 np StOk s) = StException \<longrightarrow>
   cpu_pc (exec_state (exec_rtype d pc4 np StOk s)) = kExceptionVector \<and>
   cp0_raised (cpu_cp0 s) (cpu_cp0 (exec_state (exec_rtype d pc4 np StOk s)))"
  by (simp add: exec_defs cp0_eret_def split: option.split)

lemma exec_imm_result_exc [rule_format]:
  "exec_exc (exec_imm_result d res pc4 np StOk s) = StException \<longrightarrow>
   cpu_pc (exec_state (exec_imm_result d res pc4 np StOk s)) = kExceptionVector \<and>
   cp0_raised (cpu_cp0 s) (cpu_cp0 (exec_state (exec_imm_result d res pc4 np StOk s)))"
  by (simp add: exec_defs split: option.split prod.split)

lemma exec_itype_exc [rule_format]:
  "exec_exc (exec_itype d pc4 np StOk s) = StException \<longrightarrow>
   cpu_pc (exec_state (exec_itype d pc4 np StOk s)) = kExceptionVector \<and>
   cp0_raised (cpu_cp0 s) (cpu_cp0 (exec_state (exec_itype d pc4 np StOk s)))"
  by (simp add: exec_itype_def Let_def exec_imm_result_exc split: option.split)

section \<open>The single-cycle CPU is a MIPS processor\<close>

lemma sc_begin_frame [frame, simp]:
  "cpu_regs (sc_begin d p w s) = cpu_regs s" "cpu_mem (sc_begin d p w s) = cpu_mem s"
  "cpu_cp0 (sc_begin d p w s) = cpu_cp0 s" "cpu_pc (sc_begin d p w s) = cpu_pc s"
  "cpu_cycle (sc_begin d p w s) = cpu_cycle s" "cpu_ctrl (sc_begin d p w s) = derive_control d"
  by (simp_all add: sc_begin_def)

lemmas sc_step_simps = sc_step_def Let_def sc_raise_eq sc_finish_def split_beta

lemma sc_step_frame:
  "cpu_cycle (snd (sc_step s)) = Suc (cpu_cycle s)"
  "mem_size (cpu_mem (snd (sc_step s))) = mem_size (cpu_mem s)"
  by (simp_all add: sc_step_simps split: option.split instr_format.split)

lemma sc_step_regs_wf: "regs_wf (cpu_regs s) \<Longrightarrow> regs_wf (cpu_regs (snd (sc_step s)))"
  by (simp add: sc_step_simps split: option.split instr_format.split)

lemma sc_step_no_fault: "fst (sc_step s) \<noteq> StFault"
  using exec_rtype_ok [OF decode_wf] exec_itype_ok [OF decode_wf]
  by (simp add: sc_step_simps split: option.split instr_format.split)

lemma sc_step_exception:
  assumes "fst (sc_step s) = StException"
  shows "cpu_pc (snd (sc_step s)) = kExceptionVector \<and>
    cp0_raised (cpu_cp0 s) (cpu_cp0 (snd (sc_step s)))"
proof (cases "mem_read_word (cpu_mem s) (cpu_pc s)")
  case (Some w)
  show ?thesis
  proof (cases "decode w")
    case d: (Some d)
    let ?s = "sc_begin d (cpu_pc s) w (s\<lparr>cpu_cycle := Suc (cpu_cycle s)\<rparr>)"
    show ?thesis
      using assms Some d exec_rtype_exc [of d "cpu_pc s + 4" "cpu_pc s + 4" ?s]
        exec_itype_exc [of d "cpu_pc s + 4" "cpu_pc s + 4" ?s]
      by (cases "di_format d") (auto simp: sc_step_simps split: if_splits)
  qed (use Some in \<open>simp add: sc_step_simps\<close>)
qed (simp add: sc_step_simps)

lemma sc_load_program_eq:
  "sc_load_program ws a s =
     (case mem_load_words (cpu_mem s) a ws of
        None \<Rightarrow> None
      | Some (ok, m) \<Rightarrow> Some (ok, if ok then s\<lparr>cpu_mem := m, cpu_pc := a\<rparr> else s))"
  by (auto simp: sc_load_program_def split: option.splits)

interpretation sc: mips_processor sc_ops
  by unfold_locales
     (simp_all add: sc_ops_def sc_step_frame sc_step_regs_wf sc_step_no_fault sc_reset_def sc_load_program_eq
       sc_step_exception split: option.split)

section \<open>The architectural step\<close>

record arch =
  a_regs :: regfile
  a_mem :: memory
  a_cp0 :: cp0
  a_pc :: u32

definition arch_of :: "('z) cpu_scheme \<Rightarrow> arch" where
  "arch_of s = \<lparr>a_regs = cpu_regs s, a_mem = cpu_mem s, a_cp0 = cpu_cp0 s, a_pc = cpu_pc s\<rparr>"

text \<open>A CPU object in a given architectural state; what else it holds does not matter for the step.\<close>

definition cpu_of :: "arch \<Rightarrow> cpu" where
  "cpu_of a =
     \<lparr>cpu_regs = a_regs a, cpu_mem = a_mem a, cpu_cp0 = a_cp0 a, cpu_pc = a_pc a,
      cpu_hi = 0, cpu_lo = 0, cpu_ctrl = control_init, cpu_cycle = 0, cpu_ps = ps_init\<rparr>"

definition arch_step :: "arch \<Rightarrow> step_result \<times> arch" where
  "arch_step a = (case sc_step (cpu_of a) of (r, s) \<Rightarrow> (r, arch_of s))"

lemma arch_of_cpu_of [simp]: "arch_of (cpu_of a) = a"
  by (simp add: arch_of_def cpu_of_def)

end
