(* ===== verification/PipelineUnits.thy ===== *)
theory PipelineUnits
  imports Processor
begin

text \<open>
  The inter-stage registers (\<open>include/mips/pipeline_regs.h\<close>) and the two combinational blocks
  beside the datapath (\<open>include/mips/pipeline_units.h\<close>, \<open>src/mips/pipeline_units.cpp\<close>): operand
  sources and destination of an instruction, the load-use hazard test and the forwarding unit.
\<close>

unbundle bit_operations_syntax

section \<open>Pipeline registers\<close>

record if_id =
  ifid_pc :: u32
  ifid_pc4 :: u32
  ifid_instr :: u32
  ifid_valid :: bool
  ifid_is_halt :: bool
  ifid_fetch_fault :: bool

definition if_id_empty :: if_id where
  "if_id_empty = \<lparr>ifid_pc = 0, ifid_pc4 = 0, ifid_instr = 0, ifid_valid = False,
     ifid_is_halt = False, ifid_fetch_fault = False\<rparr>"

record id_ex =
  idex_pc :: u32
  idex_pc4 :: u32
  idex_ctrl :: control
  idex_decoded :: decoded_instr
  idex_rs_val :: u32
  idex_rt_val :: u32
  idex_rs :: u8
  idex_rt :: u8
  idex_valid :: bool
  idex_is_halt :: bool
  idex_early_trap :: "exception_code option"

definition id_ex_empty :: id_ex where
  "id_ex_empty = \<lparr>idex_pc = 0, idex_pc4 = 0, idex_ctrl = control_init, idex_decoded = empty_instr,
     idex_rs_val = 0, idex_rt_val = 0, idex_rs = 0, idex_rt = 0, idex_valid = False,
     idex_is_halt = False, idex_early_trap = None\<rparr>"

record ex_mem =
  exmem_pc :: u32
  exmem_raw :: u32
  exmem_ctrl :: control
  exmem_alu :: alu_result
  exmem_rt_val :: u32
  exmem_write_reg :: u8
  exmem_opcode :: opcode
  exmem_valid :: bool
  exmem_is_halt :: bool

definition ex_mem_empty :: ex_mem where
  "ex_mem_empty = \<lparr>exmem_pc = 0, exmem_raw = 0, exmem_ctrl = control_init,
     exmem_alu = \<lparr>alu_value = 0, alu_zero = False, alu_overflow = False, alu_negative = False\<rparr>,
     exmem_rt_val = 0, exmem_write_reg = 0, exmem_opcode = OpSPECIAL, exmem_valid = False,
     exmem_is_halt = False\<rparr>"

record mem_wb =
  memwb_pc :: u32
  memwb_raw :: u32
  memwb_ctrl :: control
  memwb_alu_val :: u32
  memwb_mem_val :: u32
  memwb_write_reg :: u8
  memwb_valid :: bool
  memwb_is_halt :: bool

definition mem_wb_empty :: mem_wb where
  "mem_wb_empty = \<lparr>memwb_pc = 0, memwb_raw = 0, memwb_ctrl = control_init, memwb_alu_val = 0,
     memwb_mem_val = 0, memwb_write_reg = 0, memwb_valid = False, memwb_is_halt = False\<rparr>"

lemma bubbles_invalid [simp]:
  "\<not> ifid_valid if_id_empty" "\<not> idex_valid id_ex_empty"
  "\<not> exmem_valid ex_mem_empty" "\<not> memwb_valid mem_wb_empty"
  by (simp_all add: if_id_empty_def id_ex_empty_def ex_mem_empty_def mem_wb_empty_def)

section \<open>Sources and destination\<close>

record source_registers =
  src_a :: int
  src_b :: int

definition idx_int :: "u8 \<Rightarrow> int" where
  "idx_int i = int (unat i)"

definition source_registers_of :: "decoded_instr \<Rightarrow> source_registers" where
  "source_registers_of d =
     (let src = \<lparr>src_a = -1, src_b = -1\<rparr>;
          src = (case di_format d of
             FmtR \<Rightarrow>
               (case r_funct (get_r d) of
                  FnSLL \<Rightarrow> src\<lparr>src_b := idx_int (r_rt (get_r d))\<rparr>
                | FnSRL \<Rightarrow> src\<lparr>src_b := idx_int (r_rt (get_r d))\<rparr>
                | FnSRA \<Rightarrow> src\<lparr>src_b := idx_int (r_rt (get_r d))\<rparr>
                | FnJR \<Rightarrow> src\<lparr>src_a := idx_int (r_rs (get_r d))\<rparr>
                | FnJALR \<Rightarrow> src\<lparr>src_a := idx_int (r_rs (get_r d))\<rparr>
                | _ \<Rightarrow> src\<lparr>src_a := idx_int (r_rs (get_r d)), src_b := idx_int (r_rt (get_r d))\<rparr>)
           | FmtI \<Rightarrow>
               (case di_opcode d of
                  OpLUI \<Rightarrow> src
                | OpSW \<Rightarrow> src\<lparr>src_a := idx_int (i_rs (get_i d)), src_b := idx_int (i_rt (get_i d))\<rparr>
                | OpBEQ \<Rightarrow> src\<lparr>src_a := idx_int (i_rs (get_i d)), src_b := idx_int (i_rt (get_i d))\<rparr>
                | OpBNE \<Rightarrow> src\<lparr>src_a := idx_int (i_rs (get_i d)), src_b := idx_int (i_rt (get_i d))\<rparr>
                | _ \<Rightarrow> src\<lparr>src_a := idx_int (i_rs (get_i d))\<rparr>)
           | _ \<Rightarrow> src)
      in if di_opcode d = OpCOP0 then
           \<lparr>src_a = -1, src_b = (if r_rs (get_r d) = 0x04 then idx_int (r_rt (get_r d)) else -1)\<rparr>
         else src)"

definition destination_register :: "decoded_instr \<Rightarrow> int" where
  "destination_register d =
     (if di_opcode d = OpCOP0 then
        (if r_rs (get_r d) = 0x00 then idx_int (r_rt (get_r d)) else -1)
      else if di_opcode d = OpJAL then 31
      else if \<not> c_reg_write (derive_control d) then -1
      else if di_format d = FmtR then idx_int (r_rd (get_r d)) else idx_int (i_rt (get_i d)))"

definition load_use_hazard :: "id_ex \<Rightarrow> if_id \<Rightarrow> bool" where
  "load_use_hazard in_ex in_id \<longleftrightarrow>
     (if \<not> idex_valid in_ex \<or> \<not> c_mem_read (idex_ctrl in_ex) \<or> \<not> ifid_valid in_id
         \<or> ifid_fetch_fault in_id then False
      else case decode (ifid_instr in_id) of
             None \<Rightarrow> False
           | Some decoded \<Rightarrow>
               (let src = source_registers_of decoded; load_dst = idx_int (idex_rt in_ex)
                in load_dst \<noteq> 0 \<and> (load_dst = src_a src \<or> load_dst = src_b src)))"

record forwarding_paths =
  fwd_ex_mem_a :: bool
  fwd_ex_mem_b :: bool
  fwd_mem_wb_a :: bool
  fwd_mem_wb_b :: bool

definition no_forwarding :: forwarding_paths where
  "no_forwarding = \<lparr>fwd_ex_mem_a = False, fwd_ex_mem_b = False, fwd_mem_wb_a = False, fwd_mem_wb_b = False\<rparr>"

record ex_operands =
  opr_a :: u32
  opr_b :: u32
  opr_paths :: forwarding_paths

definition forward_ex_mem :: "id_ex \<Rightarrow> ex_mem \<Rightarrow> ex_operands \<Rightarrow> ex_operands" where
  "forward_ex_mem in_ex exm ops =
     (if exmem_valid exm \<and> c_reg_write (exmem_ctrl exm) \<and> \<not> c_mem_read (exmem_ctrl exm)
         \<and> exmem_write_reg exm \<noteq> 0 then
        (let ops = (if exmem_write_reg exm = idex_rs in_ex
                    then ops\<lparr>opr_a := alu_value (exmem_alu exm),
                             opr_paths := (opr_paths ops)\<lparr>fwd_ex_mem_a := True\<rparr>\<rparr> else ops)
         in (if exmem_write_reg exm = idex_rt in_ex
             then ops\<lparr>opr_b := alu_value (exmem_alu exm),
                      opr_paths := (opr_paths ops)\<lparr>fwd_ex_mem_b := True\<rparr>\<rparr> else ops))
      else ops)"

definition forward_mem_wb :: "id_ex \<Rightarrow> mem_wb \<Rightarrow> ex_operands \<Rightarrow> ex_operands" where
  "forward_mem_wb in_ex mwb ops =
     (if memwb_valid mwb \<and> c_reg_write (memwb_ctrl mwb) \<and> memwb_write_reg mwb \<noteq> 0 then
        (let wb_val = (if c_mem_to_reg (memwb_ctrl mwb) then memwb_mem_val mwb else memwb_alu_val mwb);
             ops = (if memwb_write_reg mwb = idex_rs in_ex \<and> \<not> fwd_ex_mem_a (opr_paths ops)
                    then ops\<lparr>opr_a := wb_val,
                             opr_paths := (opr_paths ops)\<lparr>fwd_mem_wb_a := True\<rparr>\<rparr> else ops)
         in (if memwb_write_reg mwb = idex_rt in_ex \<and> \<not> fwd_ex_mem_b (opr_paths ops)
             then ops\<lparr>opr_b := wb_val,
                      opr_paths := (opr_paths ops)\<lparr>fwd_mem_wb_b := True\<rparr>\<rparr> else ops))
      else ops)"

definition forward_operands :: "id_ex \<Rightarrow> ex_mem \<Rightarrow> mem_wb \<Rightarrow> ex_operands" where
  "forward_operands in_ex exm mwb =
     forward_mem_wb in_ex mwb
       (forward_ex_mem in_ex exm
         \<lparr>opr_a = idex_rs_val in_ex, opr_b = idex_rt_val in_ex, opr_paths = no_forwarding\<rparr>)"

section \<open>Facts\<close>

lemma idx_int_eq_iff [simp]: "idx_int i = idx_int j \<longleftrightarrow> i = j"
  by (simp only: idx_int_def of_nat_eq_iff word_unat_eq_iff)

lemma idx_int_neq_minus [simp]: "idx_int i \<noteq> -1" "-1 \<noteq> idx_int i"
  unfolding idx_int_def by linarith+

lemma idx_int_0 [simp]: "idx_int i = 0 \<longleftrightarrow> i = 0"
  by (simp only: idx_int_def of_nat_eq_0_iff unat_eq_0)

text \<open>The value MEM/WB holds for the register file.\<close>

definition wb_value :: "mem_wb \<Rightarrow> u32" where
  "wb_value mwb = (if c_mem_to_reg (memwb_ctrl mwb) then memwb_mem_val mwb else memwb_alu_val mwb)"

definition wb_writes :: "mem_wb \<Rightarrow> bool" where
  "wb_writes mwb \<longleftrightarrow> memwb_valid mwb \<and> c_reg_write (memwb_ctrl mwb) \<and> memwb_write_reg mwb \<noteq> 0"

definition ex_forwards :: "ex_mem \<Rightarrow> bool" where
  "ex_forwards exm \<longleftrightarrow> exmem_valid exm \<and> c_reg_write (exmem_ctrl exm)
     \<and> \<not> c_mem_read (exmem_ctrl exm) \<and> exmem_write_reg exm \<noteq> 0"

text \<open>The forwarding unit in closed form: EX/MEM over MEM/WB over the value read in ID.\<close>

lemma forward_operands_a:
  "opr_a (forward_operands ie exm mwb) =
     (if ex_forwards exm \<and> exmem_write_reg exm = idex_rs ie then alu_value (exmem_alu exm)
      else if wb_writes mwb \<and> memwb_write_reg mwb = idex_rs ie then wb_value mwb
      else idex_rs_val ie)"
  by (auto simp: forward_operands_def forward_ex_mem_def forward_mem_wb_def Let_def ex_forwards_def
      wb_writes_def wb_value_def no_forwarding_def)

lemma forward_operands_b:
  "opr_b (forward_operands ie exm mwb) =
     (if ex_forwards exm \<and> exmem_write_reg exm = idex_rt ie then alu_value (exmem_alu exm)
      else if wb_writes mwb \<and> memwb_write_reg mwb = idex_rt ie then wb_value mwb
      else idex_rt_val ie)"
  by (auto simp: forward_operands_def forward_ex_mem_def forward_mem_wb_def Let_def ex_forwards_def
      wb_writes_def wb_value_def no_forwarding_def)

lemma forward_paths_exclusive:
  "\<not> (fwd_ex_mem_a (opr_paths (forward_operands ie exm mwb)) \<and> fwd_mem_wb_a (opr_paths (forward_operands ie exm mwb)))"
  "\<not> (fwd_ex_mem_b (opr_paths (forward_operands ie exm mwb)) \<and> fwd_mem_wb_b (opr_paths (forward_operands ie exm mwb)))"
  by (auto simp: forward_operands_def forward_ex_mem_def forward_mem_wb_def Let_def no_forwarding_def)

text \<open>The registers an instruction names in the \<open>rs\<close> and \<open>rt\<close> positions (0 for a jump).\<close>

definition instr_rs :: "decoded_instr \<Rightarrow> u8" where
  "instr_rs d = (case di_format d of FmtR \<Rightarrow> r_rs (get_r d) | FmtI \<Rightarrow> i_rs (get_i d) | _ \<Rightarrow> 0)"

definition instr_rt :: "decoded_instr \<Rightarrow> u8" where
  "instr_rt d = (case di_format d of FmtR \<Rightarrow> r_rt (get_r d) | FmtI \<Rightarrow> i_rt (get_i d) | _ \<Rightarrow> 0)"

lemma source_a: "src_a (source_registers_of d) \<in> {-1, idx_int (instr_rs d)}"
  by (auto simp: source_registers_of_def Let_def instr_rs_def
      split: instr_format.split opcode.split funct_code.split)

lemma source_b: "wf_instr d \<Longrightarrow> src_b (source_registers_of d) \<in> {-1, idx_int (instr_rt d)}"
  by (elim wf_instr_cases)
     (auto simp: source_registers_of_def Let_def instr_rt_def format_of_def
      split: opcode.splits funct_code.split)

end
