(* ===== verification/Pipeline.thy ===== *)
theory Pipeline
  imports SingleCycle PipelineUnits
begin

text \<open>
  The five-stage pipeline (\<open>include/mips/pipelined_cpu.h\<close>, \<open>src/mips/pipelined_cpu.cpp\<close>): one
  definition per stage (\<open>write_back\<close>, \<open>memory_access\<close>, \<open>execute\<close>, \<open>pl_decode\<close>, \<open>pl_fetch\<close>), \<open>pl_step\<close>
  that runs them oldest first and resolves traps, redirects, flushes and stalls, \<open>pl_load_program\<close>
  and \<open>pl_reset\<close>, and the proof that the pipeline is a \<open>mips_processor\<close>. The trace output is left
  out. A stage that is a \<open>const\<close> member function takes the parts of the object it reads.
\<close>

unbundle bit_operations_syntax

section \<open>State and stage outcomes\<close>

text \<open>\<open>PipelinedCpu\<close> declares the nine members of \<open>SingleCycleCpu\<close> and the four pipeline registers.\<close>

record pl_cpu = cpu +
  pl_if_id :: if_id
  pl_id_ex :: id_ex
  pl_ex_mem :: ex_mem
  pl_mem_wb :: mem_wb

definition pl_create :: "nat \<Rightarrow> pl_cpu" where
  "pl_create mem_bytes = cpu.extend (sc_create mem_bytes)
     (pl_cpu.fields if_id_empty id_ex_empty ex_mem_empty mem_wb_empty)"

record trap =
  tr_code :: exception_code
  tr_pc :: u32
  tr_bad_addr :: u32

record mem_outcome =
  mo_next :: mem_wb
  mo_trap :: "trap option"

record mtc0_write =
  mw_reg :: u8
  mw_value :: u32

record ex_outcome =
  eo_next :: ex_mem
  eo_trap :: "trap option"
  eo_redirect :: "u32 option"
  eo_eret :: bool
  eo_mtc0 :: "mtc0_write option"
  eo_forwarded :: forwarding_paths

definition ex_outcome_empty :: ex_outcome where
  "ex_outcome_empty = \<lparr>eo_next = ex_mem_empty, eo_trap = None, eo_redirect = None, eo_eret = False,
     eo_mtc0 = None, eo_forwarded = no_forwarding\<rparr>"

record id_outcome =
  io_next :: id_ex
  io_jump :: "u32 option"

definition id_outcome_empty :: id_outcome where
  "id_outcome_empty = \<lparr>io_next = id_ex_empty, io_jump = None\<rparr>"

section \<open>WB and MEM\<close>

definition write_back :: "mem_wb \<Rightarrow> ('z) cpu_scheme \<Rightarrow> bool \<times> ('z) cpu_scheme" where
  "write_back inp s =
     (if \<not> memwb_valid inp then (False, s)
      else
        (let s = s\<lparr>cpu_ctrl := memwb_ctrl inp\<rparr>;
             s = (if c_reg_write (memwb_ctrl inp) \<and> memwb_write_reg inp \<noteq> 0
                  then s\<lparr>cpu_regs := regs_write (memwb_write_reg inp)
                          (if c_mem_to_reg (memwb_ctrl inp) then memwb_mem_val inp else memwb_alu_val inp)
                          (cpu_regs s)\<rparr>
                  else s)
         in (memwb_is_halt inp, s)))"

definition memory_access :: "ex_mem \<Rightarrow> memory \<Rightarrow> mem_outcome \<times> memory" where
  "memory_access inp mem =
     (if \<not> exmem_valid inp then (\<lparr>mo_next = mem_wb_empty, mo_trap = None\<rparr>, mem)
      else
        (let next = mem_wb_empty\<lparr>memwb_valid := True, memwb_pc := exmem_pc inp,
               memwb_raw := exmem_raw inp, memwb_ctrl := exmem_ctrl inp,
               memwb_alu_val := alu_value (exmem_alu inp), memwb_write_reg := exmem_write_reg inp,
               memwb_is_halt := exmem_is_halt inp\<rparr>;
             addr = alu_value (exmem_alu inp);
             store = (\<lambda>next.
               if c_mem_write (exmem_ctrl inp) then
                 (case store_data mem (exmem_opcode inp) addr (exmem_rt_val inp) of
                    (ok, mem') \<Rightarrow>
                      if \<not> ok then
                        (\<lparr>mo_next = mem_wb_empty,
                          mo_trap = Some \<lparr>tr_code = ExcAdES, tr_pc = exmem_pc inp, tr_bad_addr = addr\<rparr>\<rparr>,
                         mem')
                      else (\<lparr>mo_next = next, mo_trap = None\<rparr>, mem'))
               else (\<lparr>mo_next = next, mo_trap = None\<rparr>, mem))
         in if c_mem_read (exmem_ctrl inp) then
              (case load_data mem (exmem_opcode inp) addr of
                 None \<Rightarrow>
                   (\<lparr>mo_next = mem_wb_empty,
                     mo_trap = Some \<lparr>tr_code = ExcAdEL, tr_pc = exmem_pc inp, tr_bad_addr = addr\<rparr>\<rparr>, mem)
               | Some loaded \<Rightarrow> store (next\<lparr>memwb_mem_val := loaded\<rparr>))
            else store next))"

section \<open>EX\<close>

text \<open>The fields every instruction that survives EX carries into EX/MEM; \<open>valid\<close> is still false.\<close>

definition ex_common :: "id_ex \<Rightarrow> ex_operands \<Rightarrow> ex_mem" where
  "ex_common inp ops =
     ex_mem_empty\<lparr>exmem_pc := idex_pc inp, exmem_raw := di_raw (idex_decoded inp),
       exmem_ctrl := idex_ctrl inp, exmem_opcode := di_opcode (idex_decoded inp),
       exmem_rt_val := opr_b ops, exmem_is_halt := idex_is_halt inp\<rparr>"

definition set_alu_value :: "u32 \<Rightarrow> ex_mem \<Rightarrow> ex_mem" where
  "set_alu_value v n = n\<lparr>exmem_alu := (exmem_alu n)\<lparr>alu_value := v\<rparr>\<rparr>"

definition ex_jump :: "id_ex \<Rightarrow> ex_outcome \<Rightarrow> ex_outcome" where
  "ex_jump inp out =
     (let next = (eo_next out)\<lparr>exmem_valid := True\<rparr>
      in out\<lparr>eo_next := (if di_opcode (idex_decoded inp) = OpJAL
                         then (set_alu_value (idex_pc4 inp) next)\<lparr>exmem_write_reg := 31\<rparr> else next)\<rparr>)"

definition ex_branch :: "id_ex \<Rightarrow> ex_operands \<Rightarrow> ex_outcome \<Rightarrow> ex_outcome" where
  "ex_branch inp ops out =
     (let dec = idex_decoded inp;
          cmp = alu_execute AluSUBU (opr_a ops) (opr_b ops) 0;
          taken = (if di_opcode dec = OpBEQ then alu_zero cmp else \<not> alu_zero cmp);
          out = (if taken
                 then out\<lparr>eo_redirect := Some (idex_pc4 inp + push_bit 2 (sext32 (i_imm (get_i dec))))\<rparr>
                 else out)
      in out\<lparr>eo_next := (eo_next out)\<lparr>exmem_valid := True\<rparr>\<rparr>)"

definition ex_register_jump :: "id_ex \<Rightarrow> ex_operands \<Rightarrow> ex_outcome \<Rightarrow> ex_outcome" where
  "ex_register_jump inp ops out =
     (let dec = idex_decoded inp;
          next = (eo_next out)\<lparr>exmem_valid := True\<rparr>
      in out\<lparr>eo_redirect := Some (opr_a ops),
             eo_next := (if r_funct (get_r dec) = FnJALR
                         then (set_alu_value (idex_pc4 inp) next)\<lparr>exmem_write_reg := r_rd (get_r dec)\<rparr>
                         else next)\<rparr>)"

definition ex_trap :: "id_ex \<Rightarrow> ex_outcome \<Rightarrow> ex_outcome" where
  "ex_trap inp out =
     (let code = (if r_funct (get_r (idex_decoded inp)) = FnSYSCALL then ExcSys else ExcBp)
      in out\<lparr>eo_trap := Some \<lparr>tr_code = code, tr_pc = idex_pc inp, tr_bad_addr = 0\<rparr>\<rparr>)"

definition ex_cop0 :: "id_ex \<Rightarrow> ex_operands \<Rightarrow> cp0 \<Rightarrow> ex_outcome \<Rightarrow> ex_outcome" where
  "ex_cop0 inp ops k out =
     (let r = get_r (idex_decoded inp); sub = r_rs r;
          next = (eo_next out)\<lparr>exmem_valid := True\<rparr>; out = out\<lparr>eo_next := next\<rparr>
      in if sub = 0x00 then
           out\<lparr>eo_next := (set_alu_value (cp0_read k (r_rd r)) next)
                 \<lparr>exmem_ctrl := (exmem_ctrl next)\<lparr>c_reg_write := True\<rparr>, exmem_write_reg := r_rt r\<rparr>\<rparr>
         else if sub = 0x04 then out\<lparr>eo_mtc0 := Some \<lparr>mw_reg = r_rd r, mw_value = opr_b ops\<rparr>\<rparr>
         else if sub = 0x10 \<and> r_funct r = FnERET then
           out\<lparr>eo_eret := True, eo_redirect := Some (cp0_epc k)\<rparr>
         else out)"

definition ex_alu :: "id_ex \<Rightarrow> ex_operands \<Rightarrow> ex_outcome \<Rightarrow> ex_outcome" where
  "ex_alu inp ops out =
     (let dec = idex_decoded inp
      in case alu_control dec of
           None \<Rightarrow> out\<lparr>eo_trap := Some \<lparr>tr_code = ExcRI, tr_pc = idex_pc inp, tr_bad_addr = 0\<rparr>\<rparr>
         | Some aluop \<Rightarrow>
             (let is_r = (di_format dec = FmtR); f = r_funct (get_r dec);
                  shamt = (if is_r then r_shamt (get_r dec) else 0);
                  shamt = (if is_r \<and> (f = FnSLLV \<or> f = FnSRLV) then ucast (opr_a ops AND 0x1F) else shamt);
                  alu_b = (if c_alu_src (idex_ctrl inp) \<and> di_format dec = FmtI
                           then (if c_ext (idex_ctrl inp) = ExtSign then sext32 (i_imm (get_i dec))
                                 else ucast (i_imm (get_i dec)))
                           else opr_b ops);
                  alu_res = alu_execute aluop (opr_a ops) alu_b shamt;
                  funct = (if is_r then f else FnSLL);
                  is_signed_op = ((funct = FnADD \<or> funct = FnSUB) \<or> di_opcode dec = OpADDI)
              in if alu_overflow alu_res \<and> is_signed_op then
                   out\<lparr>eo_trap := Some \<lparr>tr_code = ExcOv, tr_pc = idex_pc inp, tr_bad_addr = 0\<rparr>\<rparr>
                 else
                   (let write_reg = (if c_reg_dst (idex_ctrl inp) \<and> is_r then r_rd (get_r dec)
                                     else if di_format dec = FmtI then i_rt (get_i dec) else 0)
                    in out\<lparr>eo_next := (eo_next out)\<lparr>exmem_valid := True, exmem_alu := alu_res,
                                                      exmem_write_reg := write_reg\<rparr>\<rparr>)))"

definition execute :: "id_ex \<Rightarrow> ex_mem \<Rightarrow> mem_wb \<Rightarrow> cp0 \<Rightarrow> ex_outcome" where
  "execute inp exm mwb k =
     (if \<not> idex_valid inp then ex_outcome_empty
      else case idex_early_trap inp of
        Some code \<Rightarrow>
          (let fetch = (code = ExcAdEL)
           in ex_outcome_empty\<lparr>eo_trap := Some \<lparr>tr_code = code, tr_pc = idex_pc inp,
                tr_bad_addr = (if fetch then idex_pc inp else 0)\<rparr>\<rparr>)
      | None \<Rightarrow>
          (let ops = forward_operands inp exm mwb;
               dec = idex_decoded inp;
               out = ex_outcome_empty\<lparr>eo_forwarded := opr_paths ops, eo_next := ex_common inp ops\<rparr>;
               out =
                 (if di_format dec = FmtJ then ex_jump inp out
                  else if di_format dec = FmtI \<and> (di_opcode dec = OpBEQ \<or> di_opcode dec = OpBNE) then
                    ex_branch inp ops out
                  else if di_opcode dec = OpSPECIAL
                          \<and> (r_funct (get_r dec) = FnJR \<or> r_funct (get_r dec) = FnJALR) then
                    ex_register_jump inp ops out
                  else if di_opcode dec = OpSPECIAL
                          \<and> (r_funct (get_r dec) = FnSYSCALL \<or> r_funct (get_r dec) = FnBREAK) then
                    ex_trap inp out
                  else if di_opcode dec = OpCOP0 then ex_cop0 inp ops k out
                  else ex_alu inp ops out)
           in if \<not> exmem_valid (eo_next out) then out\<lparr>eo_next := ex_mem_empty\<rparr> else out))"

section \<open>ID and IF\<close>

definition pl_decode :: "if_id \<Rightarrow> regfile \<Rightarrow> id_outcome" where
  "pl_decode inp regs =
     (let next = id_ex_empty\<lparr>idex_valid := True, idex_pc := ifid_pc inp, idex_pc4 := ifid_pc4 inp\<rparr>
      in if ifid_fetch_fault inp then
           \<lparr>io_next = next\<lparr>idex_early_trap := Some ExcAdEL\<rparr>, io_jump = None\<rparr>
         else case decode (ifid_instr inp) of
           None \<Rightarrow>
             \<lparr>io_next = next\<lparr>idex_early_trap := Some ExcRI,
                              idex_decoded := (idex_decoded next)\<lparr>di_raw := ifid_instr inp\<rparr>\<rparr>,
              io_jump = None\<rparr>
         | Some dec \<Rightarrow>
             (let rs = (if di_format dec = FmtR then r_rs (get_r dec)
                        else if di_format dec = FmtI then i_rs (get_i dec) else 0);
                  rt = (if di_format dec = FmtR then r_rt (get_r dec)
                        else if di_format dec = FmtI then i_rt (get_i dec) else 0)
              in \<lparr>io_next = next\<lparr>idex_ctrl := derive_control dec, idex_decoded := dec,
                    idex_rs_val := regs_read regs rs, idex_rt_val := regs_read regs rt,
                    idex_rs := rs, idex_rt := rt, idex_is_halt := ifid_is_halt inp\<rparr>,
                  io_jump = (if di_format dec = FmtJ
                             then Some ((ifid_pc4 inp AND 0xF0000000) OR push_bit 2 (j_target (get_j dec)))
                             else None)\<rparr>))"

definition pl_fetch :: "memory \<Rightarrow> u32 \<Rightarrow> if_id" where
  "pl_fetch mem pc =
     (let next = if_id_empty\<lparr>ifid_valid := True, ifid_pc := pc, ifid_pc4 := pc + 4\<rparr>
      in case mem_read_word mem pc of
           None \<Rightarrow> next\<lparr>ifid_fetch_fault := True\<rparr>
         | Some word \<Rightarrow>
             (let next = next\<lparr>ifid_instr := word\<rparr>;
                  raw_op = opcode_of (ucast (drop_bit 26 word AND 0x3F))
              in if raw_op = OpJ \<or> raw_op = OpJAL then
                   (let tgt = word AND 0x03FFFFFF;
                        jaddr = ((pc + 4) AND 0xF0000000) OR push_bit 2 tgt
                    in if jaddr = pc then next\<lparr>ifid_is_halt := True\<rparr> else next)
                 else next))"

section \<open>One clock cycle\<close>

definition snapshot :: "string \<Rightarrow> bool \<Rightarrow> bool \<Rightarrow> bool \<Rightarrow> u32 \<Rightarrow> u32 \<Rightarrow> stage_snapshot" where
  "snapshot name valid stalled flushed pc raw =
     \<lparr>ss_name = name, ss_valid = valid, ss_stalled = stalled, ss_flushed = flushed,
      ss_pc = pc, ss_raw = raw\<rparr>"

text \<open>The CP0 access of an EX stage that no older trap squashed.\<close>

definition apply_cp0 :: "ex_outcome \<Rightarrow> cp0 \<Rightarrow> cp0" where
  "apply_cp0 ex k =
     (let k = (case eo_mtc0 ex of Some w \<Rightarrow> cp0_write (mw_reg w) (mw_value w) k | None \<Rightarrow> k)
      in if eo_eret ex then snd (cp0_eret k) else k)"

text \<open>
  The second half of \<open>step\<close>: the oldest stage that traps or redirects wins, the flushes and the
  stall are applied, the registers are committed and the snapshot is filled. \<open>s\<close> still holds the
  pipeline registers as they were at the start of the cycle.
\<close>

definition pl_commit ::
  "bool \<Rightarrow> mem_outcome \<Rightarrow> ex_outcome \<Rightarrow> bool \<Rightarrow> id_outcome \<Rightarrow> if_id \<Rightarrow> pl_cpu \<Rightarrow> step_result \<times> pl_cpu" where
  "pl_commit halted mem ex stall_load_use idd fetched s =
     (let cur_if = pl_if_id s; cur_id = pl_id_ex s; cur_ex = pl_ex_mem s; cur_mem = pl_mem_wb s;
          trap = (if mo_trap mem \<noteq> None then mo_trap mem else eo_trap ex);
          redirect = (if trap = None then eo_redirect ex else None);
          k = (if trap = None then apply_cp0 ex (cpu_cp0 s) else cpu_cp0 s);
          (result, branch_pc, k) =
            (case trap of
               Some t \<Rightarrow> (case cp0_raise (tr_code t) (tr_pc t) (tr_bad_addr t) k of
                            (vector, k') \<Rightarrow> (StException, vector, k'))
             | None \<Rightarrow> (if halted then StHalt else StOk,
                         (case redirect of Some t \<Rightarrow> t | None \<Rightarrow> 0), k));
          flush_from_ex = (trap \<noteq> None \<or> redirect \<noteq> None);
          flush_from_id = (io_jump idd \<noteq> None);
          (new_if, new_id, next_pc) =
            (if flush_from_ex then (if_id_empty, id_ex_empty, branch_pc)
             else case io_jump idd of
               Some target \<Rightarrow> (if_id_empty, io_next idd, target)
             | None \<Rightarrow>
                 if stall_load_use then (cur_if, id_ex_empty, cpu_pc s)
                 else (fetched, io_next idd, cpu_pc s + 4));
          if_real = (ifid_valid new_if \<and> \<not> ifid_fetch_fault new_if);
          id_real = (ifid_valid cur_if \<and> \<not> ifid_fetch_fault cur_if);
          ex_real = (idex_valid cur_id \<and> idex_early_trap cur_id \<noteq> Some ExcAdEL);
          ps = \<lparr>ps_stages =
                  [snapshot ''IF'' if_real stall_load_use (flush_from_ex \<or> flush_from_id)
                     (ifid_pc new_if) (ifid_instr new_if),
                   snapshot ''ID'' id_real stall_load_use flush_from_ex (ifid_pc cur_if) (ifid_instr cur_if),
                   snapshot ''EX'' ex_real False False (idex_pc cur_id) (di_raw (idex_decoded cur_id)),
                   snapshot ''MEM'' (exmem_valid cur_ex) False False (exmem_pc cur_ex) (exmem_raw cur_ex),
                   snapshot ''WB'' (memwb_valid cur_mem) False False (memwb_pc cur_mem) (memwb_raw cur_mem)],
                ps_fwd_ex_to_ex_a = fwd_ex_mem_a (eo_forwarded ex),
                ps_fwd_ex_to_ex_b = fwd_ex_mem_b (eo_forwarded ex),
                ps_fwd_mem_to_ex_a = fwd_mem_wb_a (eo_forwarded ex),
                ps_fwd_mem_to_ex_b = fwd_mem_wb_b (eo_forwarded ex),
                ps_load_stall = stall_load_use, ps_branch_flush = flush_from_ex,
                ps_retired = memwb_valid cur_mem, ps_cycle = cpu_cycle s\<rparr>
      in (result,
          s\<lparr>cpu_cp0 := k, cpu_pc := next_pc, cpu_ps := ps,
            pl_mem_wb := mo_next mem, pl_ex_mem := eo_next ex, pl_id_ex := new_id, pl_if_id := new_if\<rparr>))"

text \<open>The first half: the five stages, oldest first; a squashed stage is not run.\<close>

definition pl_step :: "pl_cpu \<Rightarrow> step_result \<times> pl_cpu" where
  "pl_step s0 =
     (let s = s0\<lparr>cpu_cycle := Suc (cpu_cycle s0)\<rparr>;
          cur_if = pl_if_id s; cur_id = pl_id_ex s; cur_ex = pl_ex_mem s; cur_mem = pl_mem_wb s;
          (halted, s) = write_back cur_mem s;
          (mem, ram) = memory_access cur_ex (cpu_mem s);
          s = s\<lparr>cpu_mem := ram\<rparr>;
          ex = (if mo_trap mem \<noteq> None then ex_outcome_empty
                else execute cur_id cur_ex cur_mem (cpu_cp0 s));
          stall_load_use = load_use_hazard cur_id cur_if;
          ex_flushes = (mo_trap mem \<noteq> None \<or> eo_trap ex \<noteq> None \<or> eo_redirect ex \<noteq> None);
          idd = (if stall_load_use \<or> ex_flushes \<or> \<not> ifid_valid cur_if then id_outcome_empty
                 else pl_decode cur_if (cpu_regs s));
          fetched = (if stall_load_use \<or> ex_flushes then if_id_empty
                     else pl_fetch (cpu_mem s) (cpu_pc s))
      in pl_commit halted mem ex stall_load_use idd fetched s)"

definition pl_load_program :: "u32 list \<Rightarrow> u32 \<Rightarrow> pl_cpu \<Rightarrow> (bool \<times> pl_cpu) option" where
  "pl_load_program ws addr s =
     (case mem_load_words (cpu_mem s) addr ws of
        None \<Rightarrow> None
      | Some (ok, m) \<Rightarrow> Some (if \<not> ok then (False, s) else (True, s\<lparr>cpu_mem := m, cpu_pc := addr\<rparr>)))"

definition pl_reset :: "bool \<Rightarrow> pl_cpu \<Rightarrow> pl_cpu" where
  "pl_reset clear_memory s =
     s\<lparr>cpu_regs := regs_reset (cpu_regs s), cpu_cp0 := cp0_reset (cpu_cp0 s), cpu_pc := 0,
       cpu_hi := 0, cpu_lo := 0, cpu_ctrl := control_init, cpu_cycle := 0, cpu_ps := ps_init,
       pl_if_id := if_id_empty, pl_id_ex := id_ex_empty, pl_ex_mem := ex_mem_empty,
       pl_mem_wb := mem_wb_empty,
       cpu_mem := (if clear_memory then mem_reset (cpu_mem s) else cpu_mem s)\<rparr>"

definition pl_ops :: "pl_cpu mips_ops" where
  "pl_ops =
     \<lparr>op_load_program = pl_load_program, op_step = pl_step, op_reset = pl_reset,
      op_pc = cpu_pc, op_set_pc = (\<lambda>a. cpu_pc_update (\<lambda>_. a)),
      op_regs = cpu_regs, op_put_regs = (\<lambda>r. cpu_regs_update (\<lambda>_. r)),
      op_mem = cpu_mem, op_put_mem = (\<lambda>m. cpu_mem_update (\<lambda>_. m)),
      op_cycle_count = cpu_cycle, op_pipeline_state = cpu_ps,
      op_last_control = cpu_ctrl, op_cp0 = cpu_cp0, op_put_cp0 = (\<lambda>k. cpu_cp0_update (\<lambda>_. k)),
      op_hi = cpu_hi, op_lo = cpu_lo,
      op_set_hi = (\<lambda>v. cpu_hi_update (\<lambda>_. v)), op_set_lo = (\<lambda>v. cpu_lo_update (\<lambda>_. v))\<rparr>"

section \<open>The cycle, component by component\<close>

text \<open>Names for the intermediate values of \<open>pl_step\<close>, and one equation per component of the result.\<close>

definition wb_regs :: "mem_wb \<Rightarrow> regfile \<Rightarrow> regfile" where
  "wb_regs w rf = (if wb_writes w then regs_write (memwb_write_reg w) (wb_value w) rf else rf)"

definition cy_mem :: "pl_cpu \<Rightarrow> mem_outcome" where
  "cy_mem s = fst (memory_access (pl_ex_mem s) (cpu_mem s))"

definition cy_ram :: "pl_cpu \<Rightarrow> memory" where
  "cy_ram s = snd (memory_access (pl_ex_mem s) (cpu_mem s))"

definition cy_ex :: "pl_cpu \<Rightarrow> ex_outcome" where
  "cy_ex s = (if mo_trap (cy_mem s) \<noteq> None then ex_outcome_empty
     else execute (pl_id_ex s) (pl_ex_mem s) (pl_mem_wb s) (cpu_cp0 s))"

definition cy_trap :: "pl_cpu \<Rightarrow> trap option" where
  "cy_trap s = (if mo_trap (cy_mem s) \<noteq> None then mo_trap (cy_mem s) else eo_trap (cy_ex s))"

definition cy_stall :: "pl_cpu \<Rightarrow> bool" where
  "cy_stall s = load_use_hazard (pl_id_ex s) (pl_if_id s)"

definition cy_flush :: "pl_cpu \<Rightarrow> bool" where
  "cy_flush s \<longleftrightarrow> cy_trap s \<noteq> None \<or> eo_redirect (cy_ex s) \<noteq> None"

definition cy_id :: "pl_cpu \<Rightarrow> id_outcome" where
  "cy_id s = (if ifid_valid (pl_if_id s)
     then pl_decode (pl_if_id s) (wb_regs (pl_mem_wb s) (cpu_regs s)) else id_outcome_empty)"

lemma write_back_eq:
  "fst (write_back w s) = (memwb_valid w \<and> memwb_is_halt w)"
  "cpu_regs (snd (write_back w s)) = wb_regs w (cpu_regs s)"
  "cpu_mem (snd (write_back w s)) = cpu_mem s"
  "cpu_cp0 (snd (write_back w s)) = cpu_cp0 s"
  "cpu_pc (snd (write_back w s)) = cpu_pc s"
  "cpu_cycle (snd (write_back w s)) = cpu_cycle s"
  by (simp_all add: write_back_def Let_def wb_regs_def wb_writes_def wb_value_def)

lemma write_back_pipeline:
  "pl_if_id (snd (write_back w s)) = pl_if_id s" "pl_id_ex (snd (write_back w s)) = pl_id_ex s"
  "pl_ex_mem (snd (write_back w s)) = pl_ex_mem s" "pl_mem_wb (snd (write_back w s)) = pl_mem_wb s"
  by (simp_all add: write_back_def Let_def)

text \<open>The state the second half starts from.\<close>

definition cy_state :: "pl_cpu \<Rightarrow> pl_cpu" where
  "cy_state s = (snd (write_back (pl_mem_wb s) (s\<lparr>cpu_cycle := Suc (cpu_cycle s)\<rparr>)))\<lparr>cpu_mem := cy_ram s\<rparr>"

lemma cy_state_simps [simp]:
  "cpu_regs (cy_state s) = wb_regs (pl_mem_wb s) (cpu_regs s)" "cpu_mem (cy_state s) = cy_ram s"
  "cpu_cp0 (cy_state s) = cpu_cp0 s" "cpu_pc (cy_state s) = cpu_pc s"
  "cpu_cycle (cy_state s) = Suc (cpu_cycle s)"
  "pl_if_id (cy_state s) = pl_if_id s" "pl_id_ex (cy_state s) = pl_id_ex s"
  "pl_ex_mem (cy_state s) = pl_ex_mem s" "pl_mem_wb (cy_state s) = pl_mem_wb s"
  by (simp_all add: cy_state_def write_back_eq write_back_pipeline)

lemma pl_step_commit:
  "pl_step s = pl_commit (memwb_valid (pl_mem_wb s) \<and> memwb_is_halt (pl_mem_wb s)) (cy_mem s) (cy_ex s)
     (cy_stall s)
     (if cy_stall s \<or> cy_flush s then id_outcome_empty else cy_id s)
     (if cy_stall s \<or> cy_flush s then if_id_empty else pl_fetch (cy_ram s) (cpu_pc s)) (cy_state s)"
proof -
  have fl: "cy_flush s \<longleftrightarrow> mo_trap (cy_mem s) \<noteq> None \<or> eo_trap (cy_ex s) \<noteq> None \<or> eo_redirect (cy_ex s) \<noteq> None"
    by (auto simp: cy_flush_def cy_trap_def cy_ex_def)
  have st: "cy_state s = snd (write_back (pl_mem_wb s) (s\<lparr>cpu_cycle := Suc (cpu_cycle s)\<rparr>))\<lparr>cpu_mem := cy_ram s\<rparr>"
    by (simp add: cy_state_def)
  show ?thesis
    unfolding fl
    by (simp add: pl_step_def Let_def split_beta write_back_eq st cy_ram_def cy_id_def cy_stall_def
        flip: cy_mem_def) (auto simp: cy_ex_def cy_mem_def)
qed

lemma commit_simps:
  "cpu_regs (snd (pl_commit h mo ex st idd f s)) = cpu_regs s"
  "cpu_mem (snd (pl_commit h mo ex st idd f s)) = cpu_mem s"
  "cpu_cycle (snd (pl_commit h mo ex st idd f s)) = cpu_cycle s"
  "pl_mem_wb (snd (pl_commit h mo ex st idd f s)) = mo_next mo"
  "pl_ex_mem (snd (pl_commit h mo ex st idd f s)) = eo_next ex"
  "ps_retired (cpu_ps (snd (pl_commit h mo ex st idd f s))) = memwb_valid (pl_mem_wb s)"
  by (simp_all add: pl_commit_def Let_def split_beta)

lemma pl_step_regs: "cpu_regs (snd (pl_step s)) = wb_regs (pl_mem_wb s) (cpu_regs s)"
  and pl_step_mem: "cpu_mem (snd (pl_step s)) = cy_ram s"
  and pl_step_cycle: "cpu_cycle (snd (pl_step s)) = Suc (cpu_cycle s)"
  and pl_step_mem_wb: "pl_mem_wb (snd (pl_step s)) = mo_next (cy_mem s)"
  and pl_step_ex_mem: "pl_ex_mem (snd (pl_step s)) = eo_next (cy_ex s)"
  and pl_step_retired: "ps_retired (cpu_ps (snd (pl_step s))) = memwb_valid (pl_mem_wb s)"
  by (simp_all add: pl_step_commit commit_simps)

lemma pl_step_cp0:
  "cpu_cp0 (snd (pl_step s)) =
     (case cy_trap s of
        Some t \<Rightarrow> snd (cp0_raise (tr_code t) (tr_pc t) (tr_bad_addr t) (cpu_cp0 s))
      | None \<Rightarrow> apply_cp0 (cy_ex s) (cpu_cp0 s))"
  by (simp add: pl_step_commit pl_commit_def Let_def split_beta cy_trap_def split: option.split)

lemma pl_step_result:
  "fst (pl_step s) =
     (if cy_trap s \<noteq> None then StException
      else if memwb_valid (pl_mem_wb s) \<and> memwb_is_halt (pl_mem_wb s) then StHalt else StOk)"
  by (simp add: pl_step_commit pl_commit_def Let_def split_beta cy_trap_def split: option.split)

lemma pl_step_flush:
  assumes "cy_flush s"
  shows "pl_if_id (snd (pl_step s)) = if_id_empty" "pl_id_ex (snd (pl_step s)) = id_ex_empty"
    "cpu_pc (snd (pl_step s)) =
       (if cy_trap s \<noteq> None then kExceptionVector else the (eo_redirect (cy_ex s)))"
  using assms
  by (auto simp: pl_step_commit pl_commit_def Let_def split_beta cy_trap_def cy_flush_def
      split: option.split)

lemma pl_step_stall:
  assumes "\<not> cy_flush s" "cy_stall s"
  shows "pl_if_id (snd (pl_step s)) = pl_if_id s" "pl_id_ex (snd (pl_step s)) = id_ex_empty"
    "cpu_pc (snd (pl_step s)) = cpu_pc s"
  using assms
  by (auto simp: pl_step_commit pl_commit_def Let_def split_beta cy_trap_def cy_flush_def
      id_outcome_empty_def)

lemma pl_step_normal:
  assumes "\<not> cy_flush s" "\<not> cy_stall s"
  shows "pl_id_ex (snd (pl_step s)) = io_next (cy_id s)"
    "pl_if_id (snd (pl_step s)) =
       (if io_jump (cy_id s) \<noteq> None then if_id_empty else pl_fetch (cy_ram s) (cpu_pc s))"
    "cpu_pc (snd (pl_step s)) =
       (case io_jump (cy_id s) of Some target \<Rightarrow> target | None \<Rightarrow> cpu_pc s + 4)"
  using assms
  by (auto simp: pl_step_commit pl_commit_def Let_def split_beta cy_trap_def cy_flush_def
      split: option.split)

lemmas pl_step_simps = pl_step_regs pl_step_mem pl_step_cycle pl_step_mem_wb pl_step_ex_mem
  pl_step_cp0 pl_step_result

section \<open>The pipeline is a MIPS processor\<close>

lemma memory_access_size [simp]: "mem_size (snd (memory_access x m)) = mem_size m"
  by (auto simp: memory_access_def Let_def split_beta split: option.split)

lemma wb_regs_wf [simp]: "regs_wf rf \<Longrightarrow> regs_wf (wb_regs w rf)"
  by (simp add: wb_regs_def)

lemma pl_step_exception:
  assumes "fst (pl_step s) = StException"
  shows "cpu_pc (snd (pl_step s)) = kExceptionVector"
    "cp0_raised (cpu_cp0 s) (cpu_cp0 (snd (pl_step s)))"
proof -
  from assms obtain t where t: "cy_trap s = Some t"
    by (auto simp: pl_step_result split: if_splits)
  then have "cy_flush s" by (simp add: cy_flush_def)
  with t show "cpu_pc (snd (pl_step s)) = kExceptionVector"
    by (simp add: pl_step_flush)
  from t show "cp0_raised (cpu_cp0 s) (cpu_cp0 (snd (pl_step s)))"
    by (simp add: pl_step_cp0)
qed

interpretation pl: mips_processor pl_ops
proof unfold_locales
  fix c :: pl_cpu and ws :: "u32 list" and a :: u32
  show "op_load_program pl_ops ws a c =
      (case mem_load_words (op_mem pl_ops c) a ws of
         None \<Rightarrow> None
       | Some (ok, m) \<Rightarrow> Some (ok, if ok then op_set_pc pl_ops a (op_put_mem pl_ops m c) else c))"
    by (auto simp: pl_ops_def pl_load_program_def split: option.split)
  show "fst (op_step pl_ops c) \<noteq> StFault"
    by (simp add: pl_ops_def pl_step_result)
  show "fst (op_step pl_ops c) = StException \<Longrightarrow>
      op_pc pl_ops (snd (op_step pl_ops c)) = kExceptionVector \<and>
      cp0_raised (op_cp0 pl_ops c) (op_cp0 pl_ops (snd (op_step pl_ops c)))"
    using pl_step_exception by (simp add: pl_ops_def)
qed (simp_all add: pl_ops_def pl_step_simps pl_reset_def cy_ram_def)

end
