(* ===== verification/ExecuteRefinement.thy ===== *)
theory ExecuteRefinement
  imports Pipeline
begin

text \<open>
  What the EX stage computes is what the single-cycle CPU computes. \<open>finish_mem\<close> and \<open>finish_ex\<close>
  complete an instruction that has left EX or MEM on the architectural state of \<open>arch_step\<close>;
  \<open>execute_correct\<close> says that running \<open>execute\<close> with the right operands and completing its outcome
  is one step of the single-cycle CPU, for every class of instruction and both kinds of early trap.
\<close>

unbundle bit_operations_syntax

section \<open>Completing an instruction on the architectural state\<close>

definition arch_raise :: "trap \<Rightarrow> arch \<Rightarrow> arch" where
  "arch_raise t A = A\<lparr>a_cp0 := snd (cp0_raise (tr_code t) (tr_pc t) (tr_bad_addr t) (a_cp0 A)),
     a_pc := kExceptionVector\<rparr>"

definition finish_mem :: "ex_mem \<Rightarrow> arch \<Rightarrow> bool \<times> arch" where
  "finish_mem x A =
     (let mo = fst (memory_access x (a_mem A)); M = snd (memory_access x (a_mem A))
      in case mo_trap mo of
           Some t \<Rightarrow> (True, arch_raise t (A\<lparr>a_mem := M\<rparr>))
         | None \<Rightarrow> (False, A\<lparr>a_mem := M, a_regs := wb_regs (mo_next mo) (a_regs A)\<rparr>))"

text \<open>How a step from \<open>pc\<close> that ended in \<open>B\<close> reports itself.\<close>

definition step_outcome :: "u32 \<Rightarrow> bool \<Rightarrow> arch \<Rightarrow> step_result \<times> arch" where
  "step_outcome pc trapped B = (if trapped then StException else if a_pc B = pc then StHalt else StOk, B)"

definition finish_ex :: "ex_outcome \<Rightarrow> u32 \<Rightarrow> arch \<Rightarrow> step_result \<times> arch" where
  "finish_ex out fall A =
     (case eo_trap out of
        Some t \<Rightarrow> (StException, arch_raise t A)
      | None \<Rightarrow> (case finish_mem (eo_next out)
          (A\<lparr>a_cp0 := apply_cp0 out (a_cp0 A),
             a_pc := (case eo_redirect out of Some t \<Rightarrow> t | None \<Rightarrow> fall)\<rparr>) of
          (trapped, B) \<Rightarrow> step_outcome (a_pc A) trapped B))"

section \<open>EX computes what the single-cycle CPU computes\<close>

text \<open>What ID leaves in ID/EX for the instruction \<open>d\<close> at \<open>pc\<close>.\<close>

definition idex_holds :: "decoded_instr \<Rightarrow> u32 \<Rightarrow> id_ex \<Rightarrow> bool" where
  "idex_holds d pc ie \<longleftrightarrow> idex_valid ie \<and> idex_early_trap ie = None \<and> idex_decoded ie = d
     \<and> idex_ctrl ie = derive_control d \<and> idex_pc ie = pc \<and> idex_pc4 ie = pc + 4
     \<and> idex_rs ie = instr_rs d \<and> idex_rt ie = instr_rt d"

lemma opcode_field_bits: "drop_bit 26 w AND 0x3F = bits w 31 26"
proof -
  have "drop_bit 26 w AND 0x3F = take_bit 6 (drop_bit 26 w)"
    by (simp only: take_bit_eq_mask) (simp add: mask_eq_exp_minus_1)
  then show ?thesis by (simp add: bits_take_bit)
qed

lemma target_field_bits: "w AND 0x03FFFFFF = bits w 25 0"
proof -
  have "w AND 0x03FFFFFF = take_bit 26 w"
    by (simp only: take_bit_eq_mask) (simp add: mask_eq_exp_minus_1)
  then show ?thesis by (simp add: bits_take_bit)
qed

lemma pl_fetch_cong:
  "mem_read_word m pc = mem_read_word m' pc \<Longrightarrow> pl_fetch m pc = pl_fetch m' pc"
  by (simp add: pl_fetch_def)

lemma pl_fetch_simps [simp]:
  "ifid_valid (pl_fetch m pc)" "ifid_pc (pl_fetch m pc) = pc" "ifid_pc4 (pl_fetch m pc) = pc + 4"
  by (simp_all add: pl_fetch_def Let_def if_id_empty_def split: option.split)

lemma pl_fetch_fault [simp]: "ifid_fetch_fault (pl_fetch m pc) \<longleftrightarrow> mem_read_word m pc = None"
  by (simp add: pl_fetch_def Let_def if_id_empty_def split: option.split)

lemma pl_fetch_instr [simp]: "mem_read_word m pc = Some w \<Longrightarrow> ifid_instr (pl_fetch m pc) = w"
  by (simp add: pl_fetch_def Let_def)

lemma pl_decode_simps [simp]:
  "idex_valid (io_next (pl_decode r regs))" "idex_pc (io_next (pl_decode r regs)) = ifid_pc r"
  "idex_pc4 (io_next (pl_decode r regs)) = ifid_pc4 r"
  by (simp_all add: pl_decode_def Let_def id_ex_empty_def split: option.split)

lemma pl_decode_holds:
  assumes "mem_read_word m pc = Some w" "decode w = Some d"
  shows "idex_holds d pc (io_next (pl_decode (pl_fetch m pc) regs))"
    "idex_rs_val (io_next (pl_decode (pl_fetch m pc) regs)) = regs_read regs (instr_rs d)"
    "idex_rt_val (io_next (pl_decode (pl_fetch m pc) regs)) = regs_read regs (instr_rt d)"
    "io_jump (pl_decode (pl_fetch m pc) regs) =
       (if di_format d = FmtJ then Some (jump_target (pc + 4) d) else None)"
  using assms
  by (auto simp: pl_decode_def idex_holds_def Let_def id_ex_empty_def instr_rs_def instr_rt_def
      jump_target_def split: instr_format.split)

lemma ex_outcome_simps [simp]:
  "eo_trap ex_outcome_empty = None" "eo_redirect ex_outcome_empty = None"
  "eo_next ex_outcome_empty = ex_mem_empty" "eo_mtc0 ex_outcome_empty = None"
  "\<not> eo_eret ex_outcome_empty"
  by (simp_all add: ex_outcome_empty_def)

lemma apply_cp0_none [simp]: "eo_mtc0 out = None \<Longrightarrow> \<not> eo_eret out \<Longrightarrow> apply_cp0 out k = k"
  by (simp add: apply_cp0_def)

text \<open>
  The operands are right for the instruction when they equal the register values at the sources the
  hazard unit names; the other operand is not used.
\<close>

definition operands_ok :: "decoded_instr \<Rightarrow> regfile \<Rightarrow> ex_operands \<Rightarrow> bool" where
  "operands_ok d R ops \<longleftrightarrow>
     (src_a (source_registers_of d) \<noteq> -1 \<longrightarrow> opr_a ops = regs_read R (instr_rs d)) \<and>
     (src_b (source_registers_of d) \<noteq> -1 \<longrightarrow> opr_b ops = regs_read R (instr_rt d))"

lemma alu_execute_shift:
  "op \<in> {AluSLL, AluSRL, AluSRA, AluLUI} \<Longrightarrow> alu_execute op a b sh = alu_execute op a' b sh"
  by (auto simp: alu_execute_def alu_compute_def)

lemma alu_overflow_ops: "alu_overflow (alu_execute op a b sh) \<Longrightarrow> op = AluADD \<or> op = AluSUB"
  by (auto simp: alu_execute_def Let_def split: alu_op.splits)

lemmas arch_step_simps = arch_step_def sc_step_simps cpu_of_def arch_of_def

lemma arch_step_fetch:
  assumes "mem_read_word (a_mem A) (a_pc A) = Some w" "decode w = Some d"
  shows "arch_step A =
    (let s = sc_begin d (a_pc A) w ((cpu_of A)\<lparr>cpu_cycle := 1\<rparr>); pc4 = a_pc A + 4
     in case di_format d of
          FmtJ \<Rightarrow> step_outcome (a_pc A) False
             (A\<lparr>a_regs := (if di_opcode d = OpJAL then regs_write kRa pc4 (a_regs A) else a_regs A),
                a_pc := jump_target pc4 d\<rparr>)
        | FmtR \<Rightarrow> (let x = exec_rtype d pc4 pc4 StOk s in
              if exec_exc x = StException then (StException, arch_of (exec_state x))
              else step_outcome (a_pc A) False ((arch_of (exec_state x))\<lparr>a_pc := fst (snd x)\<rparr>))
        | FmtI \<Rightarrow> (let x = exec_itype d pc4 pc4 StOk s in
              if exec_exc x = StException then (StException, arch_of (exec_state x))
              else step_outcome (a_pc A) False ((arch_of (exec_state x))\<lparr>a_pc := fst (snd x)\<rparr>))
        | FmtUnknown \<Rightarrow> (StException, arch_raise \<lparr>tr_code = ExcRI, tr_pc = a_pc A, tr_bad_addr = 0\<rparr> A))"
  using assms exec_rtype_ok [OF decode_wf [OF assms(2)]] exec_itype_ok [OF decode_wf [OF assms(2)]]
  by (auto simp: arch_step_def sc_step_simps arch_of_def cpu_of_def arch_raise_def step_outcome_def
      split: instr_format.split)

text \<open>What completing an EX/MEM register does, for the three kinds of instruction.\<close>

lemma finish_mem_alu:
  assumes "exmem_valid x" "\<not> c_mem_read (exmem_ctrl x)" "\<not> c_mem_write (exmem_ctrl x)"
    "\<not> c_mem_to_reg (exmem_ctrl x)"
  shows "finish_mem x A = (False, A\<lparr>a_regs := (if c_reg_write (exmem_ctrl x)
     then regs_write (exmem_write_reg x) (alu_value (exmem_alu x)) (a_regs A) else a_regs A)\<rparr>)"
  using assms
  by (simp add: finish_mem_def memory_access_def Let_def wb_regs_def wb_writes_def wb_value_def mem_wb_empty_def)

lemma finish_mem_load:
  assumes "exmem_valid x" "c_mem_read (exmem_ctrl x)" "\<not> c_mem_write (exmem_ctrl x)"
    "c_mem_to_reg (exmem_ctrl x)" "c_reg_write (exmem_ctrl x)"
  shows "finish_mem x A = (case load_data (a_mem A) (exmem_opcode x) (alu_value (exmem_alu x)) of
      None \<Rightarrow> (True, arch_raise \<lparr>tr_code = ExcAdEL, tr_pc = exmem_pc x, tr_bad_addr = alu_value (exmem_alu x)\<rparr> A)
    | Some v \<Rightarrow> (False, A\<lparr>a_regs := regs_write (exmem_write_reg x) v (a_regs A)\<rparr>))"
  using assms
  by (simp add: finish_mem_def memory_access_def Let_def wb_regs_def wb_writes_def wb_value_def mem_wb_empty_def
      split: option.split)

lemma finish_mem_store:
  assumes "exmem_valid x" "\<not> c_mem_read (exmem_ctrl x)" "c_mem_write (exmem_ctrl x)"
    "\<not> c_reg_write (exmem_ctrl x)"
  shows "finish_mem x A =
    (let st = store_data (a_mem A) (exmem_opcode x) (alu_value (exmem_alu x)) (exmem_rt_val x)
     in if fst st then (False, A\<lparr>a_mem := snd st\<rparr>)
        else (True, arch_raise \<lparr>tr_code = ExcAdES, tr_pc = exmem_pc x, tr_bad_addr = alu_value (exmem_alu x)\<rparr> A))"
  using assms store_data_fail [of "a_mem A" "exmem_opcode x" "alu_value (exmem_alu x)" "exmem_rt_val x"]
  by (auto simp: finish_mem_def memory_access_def Let_def wb_regs_def wb_writes_def wb_value_def
      mem_wb_empty_def split_beta)

lemma finish_mem_bubble [simp]: "finish_mem ex_mem_empty A = (False, A)"
  by (simp add: finish_mem_def memory_access_def wb_regs_def wb_writes_def)

text \<open>The object the single-cycle CPU executes an instruction on, seen through \<open>arch_of\<close>.\<close>

lemma arch_of_begin [simp]: "arch_of (sc_begin d p w ((cpu_of A)\<lparr>cpu_cycle := n\<rparr>)) = A"
  by (simp add: arch_of_def sc_begin_def cpu_of_def)

lemma arch_of_update [simp]:
  "arch_of (s\<lparr>cpu_regs := r\<rparr>) = (arch_of s)\<lparr>a_regs := r\<rparr>"
  "arch_of (s\<lparr>cpu_mem := m\<rparr>) = (arch_of s)\<lparr>a_mem := m\<rparr>"
  "arch_of (s\<lparr>cpu_cp0 := k\<rparr>) = (arch_of s)\<lparr>a_cp0 := k\<rparr>"
  "arch_of (s\<lparr>cpu_pc := p\<rparr>) = (arch_of s)\<lparr>a_pc := p\<rparr>"
  by (simp_all add: arch_of_def)

lemma cpu_of_simps [simp]:
  "cpu_regs (cpu_of A) = a_regs A" "cpu_mem (cpu_of A) = a_mem A"
  "cpu_cp0 (cpu_of A) = a_cp0 A" "cpu_pc (cpu_of A) = a_pc A"
  by (simp_all add: cpu_of_def)

lemma execute_dispatch:
  assumes "idex_holds d pc ie"
  shows "execute ie exm mwb k =
    (let ops = forward_operands ie exm mwb;
         out = ex_outcome_empty\<lparr>eo_forwarded := opr_paths ops, eo_next := ex_common ie ops\<rparr>;
         out = (if di_format d = FmtJ then ex_jump ie out
                else if di_format d = FmtI \<and> (di_opcode d = OpBEQ \<or> di_opcode d = OpBNE) then ex_branch ie ops out
                else if di_opcode d = OpSPECIAL \<and> (r_funct (get_r d) = FnJR \<or> r_funct (get_r d) = FnJALR)
                  then ex_register_jump ie ops out
                else if di_opcode d = OpSPECIAL \<and> (r_funct (get_r d) = FnSYSCALL \<or> r_funct (get_r d) = FnBREAK)
                  then ex_trap ie out
                else if di_opcode d = OpCOP0 then ex_cop0 ie ops k out
                else ex_alu ie ops out)
     in if \<not> exmem_valid (eo_next out) then out\<lparr>eo_next := ex_mem_empty\<rparr> else out)"
  using assms by (simp add: execute_def idex_holds_def Let_def)

lemma ex_common_simps [simp]:
  "exmem_pc (ex_common ie ops) = idex_pc ie" "exmem_ctrl (ex_common ie ops) = idex_ctrl ie"
  "exmem_opcode (ex_common ie ops) = di_opcode (idex_decoded ie)"
  "exmem_rt_val (ex_common ie ops) = opr_b ops" "\<not> exmem_valid (ex_common ie ops)"
  "exmem_is_halt (ex_common ie ops) = idex_is_halt ie" "exmem_write_reg (ex_common ie ops) = 0"
  by (simp_all add: ex_common_def ex_mem_empty_def)

lemma set_alu_value_simps [simp]:
  "alu_value (exmem_alu (set_alu_value v n)) = v" "exmem_ctrl (set_alu_value v n) = exmem_ctrl n"
  "exmem_valid (set_alu_value v n) = exmem_valid n" "exmem_pc (set_alu_value v n) = exmem_pc n"
  "exmem_is_halt (set_alu_value v n) = exmem_is_halt n"
  by (simp_all add: set_alu_value_def)

section \<open>Class by class\<close>

text \<open>
  Completing the EX outcome of \<open>d\<close>; the fall-through address is the jump target when ID has already
  redirected the fetch.
\<close>

definition ex_step :: "decoded_instr \<Rightarrow> u32 \<Rightarrow> id_ex \<Rightarrow> ex_mem \<Rightarrow> mem_wb \<Rightarrow> arch \<Rightarrow> step_result \<times> arch" where
  "ex_step d pc ie exm mwb A =
     finish_ex (execute ie exm mwb (a_cp0 A)) (if di_format d = FmtJ then jump_target (pc + 4) d else pc + 4) A"

lemma execute_jump:
  assumes f: "mem_read_word (a_mem A) (a_pc A) = Some w" "decode w = Some d"
    and ie: "idex_holds d (a_pc A) ie" and J: "di_format d = FmtJ" "di_opcode d = OpJ \<or> di_opcode d = OpJAL"
  shows "arch_step A = ex_step d (a_pc A) ie exm mwb A"
  using ie J
  by (auto simp: arch_step_fetch [OF f] execute_dispatch [OF ie] ex_step_def finish_ex_def step_outcome_def ex_jump_def Let_def
      finish_mem_alu idex_holds_def derive_control_def control_init_def kRa_def)

lemma execute_branch:
  assumes f: "mem_read_word (a_mem A) (a_pc A) = Some w" "decode w = Some d"
    and ie: "idex_holds d (a_pc A) ie" and I: "di_format d = FmtI" "di_opcode d = OpBEQ \<or> di_opcode d = OpBNE"
    and ops: "operands_ok d (a_regs A) (forward_operands ie exm mwb)"
  shows "arch_step A = ex_step d (a_pc A) ie exm mwb A"
proof -
  have o: "opr_a (forward_operands ie exm mwb) = regs_read (a_regs A) (i_rs (get_i d))"
    "opr_b (forward_operands ie exm mwb) = regs_read (a_regs A) (i_rt (get_i d))"
    using ops I by (auto simp: operands_ok_def source_registers_of_def instr_rs_def instr_rt_def Let_def)
  have c: "alu_control d = Some AluSUBU" using I by (auto simp: alu_control_def i_type_op_def)
  show ?thesis
  using ie I
  by (auto simp: arch_step_fetch [OF f] execute_dispatch [OF ie] ex_step_def finish_ex_def step_outcome_def ex_branch_def Let_def
      finish_mem_alu idex_holds_def derive_control_def control_init_def i_type_control_def exec_itype_def exec_branch_def c o)
qed

lemma execute_reg_jump:
  assumes f: "mem_read_word (a_mem A) (a_pc A) = Some w" "decode w = Some d"
    and ie: "idex_holds d (a_pc A) ie" and R: "di_format d = FmtR" "di_opcode d = OpSPECIAL"
      "r_funct (get_r d) = FnJR \<or> r_funct (get_r d) = FnJALR"
    and ops: "operands_ok d (a_regs A) (forward_operands ie exm mwb)"
  shows "arch_step A = ex_step d (a_pc A) ie exm mwb A"
proof -
  have o: "opr_a (forward_operands ie exm mwb) = regs_read (a_regs A) (r_rs (get_r d))"
    using ops R by (auto simp: operands_ok_def source_registers_of_def instr_rs_def instr_rt_def Let_def)
  show ?thesis
  using ie R
  by (auto simp: arch_step_fetch [OF f] execute_dispatch [OF ie] ex_step_def finish_ex_def step_outcome_def ex_register_jump_def Let_def
      finish_mem_alu idex_holds_def derive_control_def control_init_def r_type_control_def exec_rtype_def o)
qed

lemma execute_trap:
  assumes f: "mem_read_word (a_mem A) (a_pc A) = Some w" "decode w = Some d"
    and ie: "idex_holds d (a_pc A) ie" and R: "di_format d = FmtR" "di_opcode d = OpSPECIAL"
      "r_funct (get_r d) = FnSYSCALL \<or> r_funct (get_r d) = FnBREAK"
  shows "arch_step A = ex_step d (a_pc A) ie exm mwb A"
  using ie R
  by (auto simp: arch_step_fetch [OF f] execute_dispatch [OF ie] ex_step_def finish_ex_def step_outcome_def ex_trap_def Let_def
      idex_holds_def exec_rtype_def sc_raise_eq step_outcome_def arch_raise_def)

lemma execute_cop0:
  assumes f: "mem_read_word (a_mem A) (a_pc A) = Some w" "decode w = Some d"
    and ie: "idex_holds d (a_pc A) ie" and R: "di_format d = FmtR" "di_opcode d = OpCOP0"
    and ops: "operands_ok d (a_regs A) (forward_operands ie exm mwb)"
  shows "arch_step A = ex_step d (a_pc A) ie exm mwb A"
proof -
  have o: "r_rs (get_r d) = 0x04 \<longrightarrow> opr_b (forward_operands ie exm mwb) = regs_read (a_regs A) (r_rt (get_r d))"
    using ops R by (auto simp: operands_ok_def source_registers_of_def instr_rs_def instr_rt_def Let_def)
  show ?thesis
  using ie R o
  by (auto simp: arch_step_fetch [OF f] execute_dispatch [OF ie] ex_step_def finish_ex_def step_outcome_def ex_cop0_def Let_def
      finish_mem_alu idex_holds_def derive_control_def control_init_def r_type_control_def exec_rtype_def
      apply_cp0_def split_beta)
qed

lemma alu_control_special:
  "di_format d = FmtR \<Longrightarrow> implemented_special (r_funct (get_r d)) \<Longrightarrow>
   r_funct (get_r d) \<noteq> FnSYSCALL \<Longrightarrow> r_funct (get_r d) \<noteq> FnBREAK \<Longrightarrow>
   \<exists>op. alu_control d = Some op \<and> r_type_op (r_funct (get_r d)) = Some op"
  using r_type_op_special [of "r_funct (get_r d)"] by (auto simp: alu_control_def)

lemma shift_imm_op:
  "r_type_op f = Some op \<Longrightarrow> f = FnSLL \<or> f = FnSRL \<or> f = FnSRA \<Longrightarrow> op \<in> {AluSLL, AluSRL, AluSRA, AluLUI}"
  by (auto simp: r_type_op_def)

definition shift_amount :: "decoded_instr \<Rightarrow> u32 \<Rightarrow> u8" where
  "shift_amount d a = (if r_funct (get_r d) = FnSLLV \<or> r_funct (get_r d) = FnSRLV then ucast (a AND 0x1F)
     else r_shamt (get_r d))"

definition write_result :: "bool \<Rightarrow> alu_result \<Rightarrow> u8 \<Rightarrow> arch \<Rightarrow> step_result \<times> arch" where
  "write_result trapping res rd A =
     (if alu_overflow res \<and> trapping then (StException, arch_raise \<lparr>tr_code = ExcOv, tr_pc = a_pc A, tr_bad_addr = 0\<rparr> A)
      else (StOk, A\<lparr>a_regs := regs_write rd (alu_value res) (a_regs A), a_pc := a_pc A + 4\<rparr>))"

lemma sc_special_alu:
  assumes f: "mem_read_word (a_mem A) (a_pc A) = Some w" "decode w = Some d"
    and R: "di_format d = FmtR" "di_opcode d = OpSPECIAL"
      "r_funct (get_r d) \<notin> {FnSYSCALL, FnBREAK, FnJR, FnJALR}"
    and op: "alu_control d = Some op"
  shows "arch_step A = write_result (r_funct (get_r d) = FnADD \<or> r_funct (get_r d) = FnSUB)
    (alu_execute op (regs_read (a_regs A) (r_rs (get_r d))) (regs_read (a_regs A) (r_rt (get_r d)))
      (shift_amount d (regs_read (a_regs A) (r_rs (get_r d))))) (r_rd (get_r d)) A"
  using R op by (simp add: arch_step_fetch [OF f] exec_rtype_def Let_def sc_raise_eq step_outcome_def arch_raise_def
      write_result_def shift_amount_def)

lemma pl_special_alu:
  assumes ie: "idex_holds d (a_pc A) ie" and R: "di_format d = FmtR" "di_opcode d = OpSPECIAL"
      "r_funct (get_r d) \<notin> {FnSYSCALL, FnBREAK, FnJR, FnJALR}"
    and op: "alu_control d = Some op"
    and ops: "ops = forward_operands ie exm mwb"
  shows "ex_step d (a_pc A) ie exm mwb A = write_result (r_funct (get_r d) = FnADD \<or> r_funct (get_r d) = FnSUB)
    (alu_execute op (opr_a ops) (opr_b ops) (shift_amount d (opr_a ops))) (r_rd (get_r d)) A"
proof -
  have ctl: "derive_control d = control_init\<lparr>c_reg_write := True, c_reg_dst := True\<rparr>"
    using R by (simp add: derive_control_def r_type_control_def split: funct_code.split)
  have h: "idex_decoded ie = d" "idex_ctrl ie = derive_control d" "idex_pc ie = a_pc A"
    using ie by (simp_all add: idex_holds_def)
  show ?thesis
    using R op
    by (simp add: execute_dispatch [OF ie] ex_step_def ex_alu_def Let_def finish_ex_def step_outcome_def finish_mem_alu h ctl
        write_result_def shift_amount_def control_init_def ops)
qed

lemma execute_special_alu:
  assumes f: "mem_read_word (a_mem A) (a_pc A) = Some w" "decode w = Some d"
    and ie: "idex_holds d (a_pc A) ie" and R: "di_format d = FmtR" "di_opcode d = OpSPECIAL"
      "implemented_special (r_funct (get_r d))"
      "r_funct (get_r d) \<notin> {FnSYSCALL, FnBREAK, FnJR, FnJALR}"
    and ops: "operands_ok d (a_regs A) (forward_operands ie exm mwb)"
  shows "arch_step A = ex_step d (a_pc A) ie exm mwb A"
proof -
  let ?f = "r_funct (get_r d)"
  let ?ops = "forward_operands ie exm mwb"
  let ?a = "regs_read (a_regs A) (r_rs (get_r d))" and ?b = "regs_read (a_regs A) (r_rt (get_r d))"
  obtain op where op: "alu_control d = Some op" "r_type_op ?f = Some op"
    using alu_control_special R by blast
  have b: "opr_b ?ops = ?b" and a: "?f \<notin> {FnSLL, FnSRL, FnSRA} \<Longrightarrow> opr_a ?ops = ?a"
    using ops R by (auto simp: operands_ok_def source_registers_of_def instr_rs_def instr_rt_def Let_def
        split: funct_code.splits)
  have "alu_execute op (opr_a ?ops) (opr_b ?ops) (shift_amount d (opr_a ?ops)) =
      alu_execute op ?a ?b (shift_amount d ?a)"
  proof (cases "?f \<in> {FnSLL, FnSRL, FnSRA}")
    case True
    then have "shift_amount d (opr_a ?ops) = shift_amount d ?a" by (auto simp: shift_amount_def)
    with b True show ?thesis using alu_execute_shift [OF shift_imm_op [OF op(2)]] by auto
  next
    case False
    with a b show ?thesis by simp
  qed
  then show ?thesis
    by (simp only: sc_special_alu [OF f R(1,2,4) op(1)] pl_special_alu [OF ie R(1,2,4) op(1) refl])
qed


lemma imm_overflow: "i_type_op op = Some aop \<Longrightarrow> op \<noteq> OpADDI \<Longrightarrow> \<not> alu_overflow (alu_execute aop a b sh)"
  using alu_overflow_ops [of aop a b sh] by (cases op) (auto simp: i_type_op_def)

text \<open>What an immediate instruction does with the ALU result, on the architectural state.\<close>

definition imm_result :: "decoded_instr \<Rightarrow> alu_result \<Rightarrow> u32 \<Rightarrow> arch \<Rightarrow> step_result \<times> arch" where
  "imm_result d res rt_val A =
     (let op = di_opcode d; i = get_i d; addr = alu_value res; B = A\<lparr>a_pc := a_pc A + 4\<rparr>
      in if op \<in> {OpLW, OpLBU, OpLHU} then
           (case load_data (a_mem A) op addr of
              None \<Rightarrow> (StException, arch_raise \<lparr>tr_code = ExcAdEL, tr_pc = a_pc A, tr_bad_addr = addr\<rparr> A)
            | Some v \<Rightarrow> (StOk, B\<lparr>a_regs := regs_write (i_rt i) v (a_regs A)\<rparr>))
         else if op = OpSW then
           (let st = store_data (a_mem A) op addr rt_val
            in if fst st then (StOk, B\<lparr>a_mem := snd st\<rparr>)
               else (StException, arch_raise \<lparr>tr_code = ExcAdES, tr_pc = a_pc A, tr_bad_addr = addr\<rparr> A))
         else write_result (op = OpADDI) res (i_rt i) A)"

definition imm_operand :: "decoded_instr \<Rightarrow> u32" where
  "imm_operand d = (if c_ext (derive_control d) = ExtSign then sext32 (i_imm (get_i d)) else ucast (i_imm (get_i d)))"

lemma imm_control:
  assumes "di_format d = FmtI" "format_of (di_opcode d) = FmtI" "di_opcode d \<notin> {OpBEQ, OpBNE}"
  shows "c_alu_src (derive_control d)"
    "c_mem_read (derive_control d) \<longleftrightarrow> di_opcode d \<in> {OpLW, OpLBU, OpLHU}"
    "c_mem_write (derive_control d) \<longleftrightarrow> di_opcode d = OpSW"
    "c_mem_to_reg (derive_control d) \<longleftrightarrow> di_opcode d \<in> {OpLW, OpLBU, OpLHU}"
    "c_reg_write (derive_control d) \<longleftrightarrow> di_opcode d \<noteq> OpSW"
  using assms
  by (cases "di_opcode d";
      simp add: derive_control_def i_type_control_def alu_imm_control_def load_control_def control_init_def format_of_def)+

lemma exec_itype_imm:
  assumes "di_opcode d \<notin> {OpBEQ, OpBNE}" "alu_control d = Some aop" "cpu_ctrl s = derive_control d"
  shows "exec_itype d pc4 np exc s = exec_imm_result d
    (alu_execute aop (regs_read (cpu_regs s) (i_rs (get_i d))) (imm_operand d) 0) pc4 np exc s"
  using assms by (simp add: exec_itype_def Let_def imm_operand_def)

lemma sc_imm:
  assumes f: "mem_read_word (a_mem A) (a_pc A) = Some w" "decode w = Some d"
    and I: "di_format d = FmtI" "format_of (di_opcode d) = FmtI" "di_opcode d \<notin> {OpBEQ, OpBNE}"
    and op: "alu_control d = Some aop"
  shows "arch_step A = imm_result d
    (alu_execute aop (regs_read (a_regs A) (i_rs (get_i d))) (imm_operand d) 0)
    (regs_read (a_regs A) (i_rt (get_i d))) A"
proof -
  have ov: "di_opcode d \<noteq> OpADDI \<Longrightarrow> \<not> alu_overflow (alu_execute aop x y sh)" for x y sh
    using imm_overflow op I by (auto simp: alu_control_def)
  define res where "res = alu_execute aop (regs_read (a_regs A) (i_rs (get_i d))) (imm_operand d) 0"
  have ov': "di_opcode d \<noteq> OpADDI \<Longrightarrow> \<not> alu_overflow res" using ov by (simp add: res_def)
  obtain ok m where st: "store_data (a_mem A) OpSW (alu_value res) (regs_read (a_regs A) (i_rt (get_i d))) = (ok, m)"
    by (cases "store_data (a_mem A) OpSW (alu_value res) (regs_read (a_regs A) (i_rt (get_i d)))")
  then have stf: "\<not> ok \<Longrightarrow> m = a_mem A"
    using store_data_fail [of "a_mem A" OpSW "alu_value res" "regs_read (a_regs A) (i_rt (get_i d))"] by simp
  note eqs = arch_step_fetch [OF f] exec_itype_imm [OF I(3) op] res_def [symmetric] exec_imm_result_def
    Let_def imm_control [OF I] imm_result_def write_result_def sc_raise_eq step_outcome_def arch_raise_def
  consider (load) "di_opcode d \<in> {OpLW, OpLBU, OpLHU}" | (store) "di_opcode d = OpSW"
    | (alu) "di_opcode d \<notin> {OpLW, OpLBU, OpLHU, OpSW}" by auto
  then show ?thesis
  proof cases
    case load
    then show ?thesis
      using I(1) ov' by (auto simp: eqs split: option.split)
  next
    case store
    then show ?thesis
      using I(1) ov' st stf by (cases ok) (simp_all add: eqs)
  next
    case alu
    then show ?thesis
      using I(1) ov' by (simp add: eqs)
  qed
qed

lemma execute_imm_outcome:
  assumes ie: "idex_holds d pc ie"
    and I: "di_format d = FmtI" "format_of (di_opcode d) = FmtI" "di_opcode d \<notin> {OpBEQ, OpBNE}"
    and op: "alu_control d = Some aop"
    and ops: "ops = forward_operands ie exm mwb"
    and res: "res = alu_execute aop (opr_a ops) (imm_operand d) 0"
  shows "execute ie exm mwb k =
      (let out = ex_outcome_empty\<lparr>eo_forwarded := opr_paths ops, eo_next := ex_common ie ops\<rparr>
       in if alu_overflow res \<and> di_opcode d = OpADDI then
            out\<lparr>eo_trap := Some \<lparr>tr_code = ExcOv, tr_pc = pc, tr_bad_addr = 0\<rparr>, eo_next := ex_mem_empty\<rparr>
          else out\<lparr>eo_next := (ex_common ie ops)\<lparr>exmem_valid := True, exmem_alu := res,
                                 exmem_write_reg := i_rt (get_i d)\<rparr>\<rparr>)"
proof -
  have h: "idex_decoded ie = d" "idex_ctrl ie = derive_control d" "idex_pc ie = pc"
    using ie by (simp_all add: idex_holds_def)
  have n: "di_opcode d \<noteq> OpSPECIAL" "di_opcode d \<noteq> OpCOP0" using I by (auto simp: format_of_def)
  show ?thesis
    using I n op
    by (simp add: execute_dispatch [OF ie] ex_alu_def Let_def h imm_control [OF I] imm_operand_def ops res)
qed

lemma pl_imm:
  assumes ie: "idex_holds d (a_pc A) ie"
    and I: "di_format d = FmtI" "format_of (di_opcode d) = FmtI" "di_opcode d \<notin> {OpBEQ, OpBNE}"
    and op: "alu_control d = Some aop"
    and ops: "ops = forward_operands ie exm mwb"
  shows "ex_step d (a_pc A) ie exm mwb A = imm_result d
    (alu_execute aop (opr_a ops) (imm_operand d) 0) (opr_b ops) A"
proof -
  have ov: "di_opcode d \<noteq> OpADDI \<Longrightarrow> \<not> alu_overflow (alu_execute aop x y sh)" for x y sh
    using imm_overflow op I by (auto simp: alu_control_def)
  have h: "idex_decoded ie = d" "idex_ctrl ie = derive_control d" "idex_pc ie = a_pc A"
    using ie by (simp_all add: idex_holds_def)
  show ?thesis
    using I
    by (simp add: ex_step_def execute_imm_outcome [OF ie I op ops refl] Let_def finish_ex_def step_outcome_def imm_result_def
        write_result_def finish_mem_alu finish_mem_load finish_mem_store imm_control [OF I] h arch_raise_def ov
        split: option.split)
qed

lemma execute_imm:
  assumes f: "mem_read_word (a_mem A) (a_pc A) = Some w" "decode w = Some d"
    and ie: "idex_holds d (a_pc A) ie" and I: "di_format d = FmtI" "format_of (di_opcode d) = FmtI"
      "di_opcode d \<notin> {OpBEQ, OpBNE}"
    and ops: "operands_ok d (a_regs A) (forward_operands ie exm mwb)"
  shows "arch_step A = ex_step d (a_pc A) ie exm mwb A"
proof -
  let ?op = "di_opcode d"
  let ?ops = "forward_operands ie exm mwb"
  let ?a = "regs_read (a_regs A) (i_rs (get_i d))"
  obtain op where op: "alu_control d = Some op" "i_type_op ?op = Some op"
    using i_type_op_imm [of ?op] I by (auto simp: alu_control_def)
  have a: "?op \<noteq> OpLUI \<Longrightarrow> opr_a ?ops = ?a"
    and b: "?op = OpSW \<Longrightarrow> opr_b ?ops = regs_read (a_regs A) (i_rt (get_i d))"
    using ops I by (auto simp: operands_ok_def source_registers_of_def instr_rs_def instr_rt_def Let_def
        format_of_def split: opcode.splits)
  have "alu_execute op (opr_a ?ops) y sh = alu_execute op ?a y sh" for y sh
  proof (cases "?op = OpLUI")
    case True
    then show ?thesis using op alu_execute_shift [of op] by (simp add: i_type_op_def)
  next
    case False
    with a show ?thesis by simp
  qed
  moreover have "imm_result d res (opr_b ?ops) A = imm_result d res (regs_read (a_regs A) (i_rt (get_i d))) A" for res
    using b by (auto simp: imm_result_def Let_def)
  ultimately show ?thesis
    by (simp only: sc_imm [OF f I op(1)] pl_imm [OF ie I op(1) refl])
qed

section \<open>Every instruction\<close>

definition fall_through :: "memory \<Rightarrow> u32 \<Rightarrow> u32" where
  "fall_through m pc = (case io_jump (pl_decode (pl_fetch m pc) regs_init) of Some t \<Rightarrow> t | None \<Rightarrow> pc + 4)"

lemma execute_decoded:
  assumes f: "mem_read_word (a_mem A) (a_pc A) = Some w" "decode w = Some d"
    and ie: "idex_holds d (a_pc A) ie"
    and ops: "operands_ok d (a_regs A) (forward_operands ie exm mwb)"
  shows "arch_step A = ex_step d (a_pc A) ie exm mwb A"
  using decode_wf [OF f(2)]
proof (cases rule: wf_instr_cases)
  case (Special r)
  then show ?thesis
    using execute_reg_jump [OF f ie _ _ _ ops] execute_trap [OF f ie, of exm mwb]
      execute_special_alu [OF f ie _ _ _ _ ops] by auto
next
  case (Cop0 r)
  then show ?thesis using execute_cop0 [OF f ie _ _ ops] by simp
next
  case (Imm i)
  then show ?thesis using execute_branch [OF f ie _ _ ops] execute_imm [OF f ie _ _ _ ops] by blast
next
  case (Jump j)
  then show ?thesis using execute_jump [OF f ie] by simp
qed

lemma arch_step_fetch_fault:
  "mem_read_word (a_mem A) (a_pc A) = None \<Longrightarrow>
   arch_step A = (StException, arch_raise \<lparr>tr_code = ExcAdEL, tr_pc = a_pc A, tr_bad_addr = a_pc A\<rparr> A)"
  by (simp add: arch_step_simps arch_raise_def)

lemma arch_step_reserved:
  "mem_read_word (a_mem A) (a_pc A) = Some w \<Longrightarrow> decode w = None \<Longrightarrow>
   arch_step A = (StException, arch_raise \<lparr>tr_code = ExcRI, tr_pc = a_pc A, tr_bad_addr = 0\<rparr> A)"
  by (simp add: arch_step_simps arch_raise_def)

lemma execute_correct:
  assumes "\<And>w d. mem_read_word (a_mem A) (a_pc A) = Some w \<Longrightarrow> decode w = Some d \<Longrightarrow>
      operands_ok d (a_regs A) (forward_operands ie exm mwb)"
    and ie: "ie = io_next (pl_decode (pl_fetch (a_mem A) (a_pc A)) R)"
  shows "arch_step A = finish_ex (execute ie exm mwb (a_cp0 A)) (fall_through (a_mem A) (a_pc A)) A"
proof (cases "mem_read_word (a_mem A) (a_pc A)")
  case None
  then show ?thesis
    by (simp add: arch_step_fetch_fault ie pl_decode_def Let_def execute_def id_ex_empty_def finish_ex_def step_outcome_def)
next
  case (Some w)
  show ?thesis
  proof (cases "decode w")
    case None
    with Some show ?thesis
      by (simp add: arch_step_reserved ie pl_decode_def Let_def execute_def id_ex_empty_def finish_ex_def step_outcome_def)
  next
    case d: (Some d)
    have "idex_holds d (a_pc A) ie" unfolding ie by (rule pl_decode_holds [OF Some d])
    then show ?thesis
      using execute_decoded [OF Some d _ assms(1) [OF Some d]] pl_decode_holds(4) [OF Some d, of regs_init]
      by (simp add: ex_step_def fall_through_def)
  qed
qed

end
