(* ===== verification/PipelineRefinement.thy ===== *)
theory PipelineRefinement
  imports ExecuteRefinement
begin

text \<open>
  The pipeline refines the single-cycle CPU. The abstraction \<open>drain\<close> completes the two oldest
  instructions (EX/MEM and MEM/WB) and forgets the younger ones; the program counter it reports is
  that of the oldest instruction not yet executed. \<open>pipe_inv\<close> says that the young registers hold
  what fetching and decoding at their own addresses gives, that they follow each other in program
  order, and that no load in EX/MEM feeds the instruction in ID/EX. One clock cycle then either
  leaves the drained state alone or performs exactly one step of the single-cycle CPU.
\<close>

unbundle bit_operations_syntax

section \<open>Abstraction and invariant\<close>

definition pl_next :: "pl_cpu \<Rightarrow> u32" where
  "pl_next s = (if idex_valid (pl_id_ex s) then idex_pc (pl_id_ex s)
     else if ifid_valid (pl_if_id s) then ifid_pc (pl_if_id s) else cpu_pc s)"

definition drain :: "pl_cpu \<Rightarrow> arch" where
  "drain s = snd (finish_mem (pl_ex_mem s)
     \<lparr>a_regs = wb_regs (pl_mem_wb s) (cpu_regs s), a_mem = cpu_mem s, a_cp0 = cpu_cp0 s,
      a_pc = pl_next s\<rparr>)"

text \<open>ID/EX executes in this cycle: it is occupied and no older instruction traps in MEM.\<close>

definition commits :: "pl_cpu \<Rightarrow> bool" where
  "commits s \<longleftrightarrow> idex_valid (pl_id_ex s) \<and> mo_trap (cy_mem s) = None"

text \<open>IF/ID holds what a fetch at its address gives, and the fetch PC has moved on by one word.\<close>

definition if_ok :: "pl_cpu \<Rightarrow> bool" where
  "if_ok s \<longleftrightarrow> (ifid_valid (pl_if_id s) \<longrightarrow>
     pl_if_id s = pl_fetch (cpu_mem s) (ifid_pc (pl_if_id s)) \<and> cpu_pc s = ifid_pc (pl_if_id s) + 4)"

text \<open>
  ID/EX holds what ID makes of a fetch at its address with the current register file; the younger
  stage is its jump target or its successor.
\<close>

definition id_ok :: "pl_cpu \<Rightarrow> bool" where
  "id_ok s \<longleftrightarrow> (idex_valid (pl_id_ex s) \<longrightarrow>
     (let idd = pl_decode (pl_fetch (cpu_mem s) (idex_pc (pl_id_ex s))) (cpu_regs s)
      in pl_id_ex s = io_next idd
         \<and> (case io_jump idd of
              Some t \<Rightarrow> \<not> ifid_valid (pl_if_id s) \<and> cpu_pc s = t
            | None \<Rightarrow> ifid_valid (pl_if_id s) \<and> ifid_pc (pl_if_id s) = idex_pc (pl_id_ex s) + 4)))"

definition dest_ok :: "pl_cpu \<Rightarrow> bool" where
  "dest_ok s \<longleftrightarrow>
     (exmem_valid (pl_ex_mem s) \<longrightarrow> gpr_index (exmem_write_reg (pl_ex_mem s))
        \<and> c_mem_to_reg (exmem_ctrl (pl_ex_mem s)) = c_mem_read (exmem_ctrl (pl_ex_mem s)))
   \<and> (memwb_valid (pl_mem_wb s) \<longrightarrow> gpr_index (memwb_write_reg (pl_mem_wb s)))"

text \<open>No load in EX/MEM feeds the instruction in ID/EX.\<close>

definition load_ok :: "pl_cpu \<Rightarrow> bool" where
  "load_ok s \<longleftrightarrow>
     (exmem_valid (pl_ex_mem s) \<and> c_mem_read (exmem_ctrl (pl_ex_mem s)) \<and> idex_valid (pl_id_ex s)
        \<and> idex_early_trap (pl_id_ex s) = None \<longrightarrow>
      (let src = source_registers_of (idex_decoded (pl_id_ex s)); dst = exmem_write_reg (pl_ex_mem s)
       in dst = 0 \<or> idx_int dst \<noteq> src_a src \<and> idx_int dst \<noteq> src_b src))"

text \<open>The store in EX/MEM does not change the words already fetched.\<close>

definition stable_ok :: "pl_cpu \<Rightarrow> bool" where
  "stable_ok s \<longleftrightarrow>
     (idex_valid (pl_id_ex s) \<longrightarrow>
        mem_read_word (cy_ram s) (idex_pc (pl_id_ex s)) = mem_read_word (cpu_mem s) (idex_pc (pl_id_ex s)))
   \<and> (ifid_valid (pl_if_id s) \<longrightarrow>
        mem_read_word (cy_ram s) (ifid_pc (pl_if_id s)) = mem_read_word (cpu_mem s) (ifid_pc (pl_if_id s)))"

definition pipe_inv :: "pl_cpu \<Rightarrow> bool" where
  "pipe_inv s \<longleftrightarrow> regs_wf (cpu_regs s) \<and> if_ok s \<and> id_ok s \<and> dest_ok s \<and> load_ok s \<and> stable_ok s"

text \<open>
  The next instruction does not overwrite one of the two words that follow it, which the pipeline
  has fetched by then. A program without self-modifying code satisfies this at every step.
\<close>

definition fetch_safe :: "arch \<Rightarrow> bool" where
  "fetch_safe A \<longleftrightarrow>
     (let M = a_mem A; M' = a_mem (snd (arch_step A))
      in mem_read_word M' (a_pc A + 4) = mem_read_word M (a_pc A + 4)
         \<and> mem_read_word M' (a_pc A + 8) = mem_read_word M (a_pc A + 8))"

section \<open>The drained state of a cycle\<close>

text \<open>What is left when MEM does not trap: the state the instruction in ID/EX executes in.\<close>

definition cy_arch :: "pl_cpu \<Rightarrow> arch" where
  "cy_arch s = \<lparr>a_regs = wb_regs (mo_next (cy_mem s)) (wb_regs (pl_mem_wb s) (cpu_regs s)),
     a_mem = cy_ram s, a_cp0 = cpu_cp0 s, a_pc = pl_next s\<rparr>"

lemma drain_no_trap: "mo_trap (cy_mem s) = None \<Longrightarrow> drain s = cy_arch s"
  by (simp add: drain_def finish_mem_def cy_arch_def cy_mem_def cy_ram_def Let_def)

lemma drain_trap:
  "mo_trap (cy_mem s) = Some t \<Longrightarrow> drain s = arch_raise t
     \<lparr>a_regs = wb_regs (pl_mem_wb s) (cpu_regs s), a_mem = cy_ram s, a_cp0 = cpu_cp0 s, a_pc = pl_next s\<rparr>"
  by (simp add: drain_def finish_mem_def cy_mem_def cy_ram_def Let_def)

lemma memory_access_trap:
  "mo_trap (fst (memory_access x m)) = Some t \<Longrightarrow> mo_next (fst (memory_access x m)) = mem_wb_empty"
  by (auto simp: memory_access_def Let_def split_beta split: option.splits if_splits)

lemma memory_access_next:
  assumes "mo_trap (fst (memory_access x m)) = None"
  shows "memwb_valid (mo_next (fst (memory_access x m))) = exmem_valid x"
    "exmem_valid x \<Longrightarrow> memwb_ctrl (mo_next (fst (memory_access x m))) = exmem_ctrl x"
    "exmem_valid x \<Longrightarrow> memwb_write_reg (mo_next (fst (memory_access x m))) = exmem_write_reg x"
    "exmem_valid x \<Longrightarrow> memwb_alu_val (mo_next (fst (memory_access x m))) = alu_value (exmem_alu x)"
    "exmem_valid x \<Longrightarrow> memwb_is_halt (mo_next (fst (memory_access x m))) = exmem_is_halt x"
    "exmem_valid x \<Longrightarrow> memwb_pc (mo_next (fst (memory_access x m))) = exmem_pc x"
  using assms
  by (auto simp: memory_access_def Let_def split_beta mem_wb_empty_def split: option.splits if_splits)

lemma memory_access_ram:
  "\<not> (exmem_valid x \<and> c_mem_write (exmem_ctrl x)) \<Longrightarrow> snd (memory_access x m) = m"
  by (auto simp: memory_access_def Let_def split_beta split: option.split)

lemma a_mem_finish_mem: "a_mem (snd (finish_mem x A)) = snd (memory_access x (a_mem A))"
  by (simp add: finish_mem_def arch_raise_def Let_def split: option.split)

lemma execute_bubble:
  "\<not> idex_valid ie \<Longrightarrow> execute ie exm mwb k = ex_outcome_empty"
  by (simp add: execute_def)

text \<open>What each class of \<open>execute\<close> puts into EX/MEM: never together with a trap, and with the fields of ID/EX.\<close>

definition ex_fields_ok :: "id_ex \<Rightarrow> ex_outcome \<Rightarrow> bool" where
  "ex_fields_ok ie out \<longleftrightarrow>
     (exmem_valid (eo_next out) \<longrightarrow> eo_trap out = None)
   \<and> exmem_pc (eo_next out) = idex_pc ie \<and> exmem_is_halt (eo_next out) = idex_is_halt ie
   \<and> c_mem_read (exmem_ctrl (eo_next out)) = c_mem_read (idex_ctrl ie)
   \<and> c_mem_write (exmem_ctrl (eo_next out)) = c_mem_write (idex_ctrl ie)
   \<and> c_mem_to_reg (exmem_ctrl (eo_next out)) = c_mem_to_reg (idex_ctrl ie)
   \<and> gpr_index (exmem_write_reg (eo_next out))"

lemma ex_fields_start:
  "ex_fields_ok ie (ex_outcome_empty\<lparr>eo_forwarded := f, eo_next := ex_common ie ops\<rparr>)"
  by (simp add: ex_fields_ok_def)

lemma ex_fields_classes:
  assumes "ex_fields_ok ie out" "eo_trap out = None" "\<not> exmem_valid (eo_next out)" "wf_instr (idex_decoded ie)"
  shows "ex_fields_ok ie (ex_jump ie out)" "ex_fields_ok ie (ex_branch ie ops out)"
    "di_opcode (idex_decoded ie) = OpSPECIAL \<Longrightarrow> ex_fields_ok ie (ex_register_jump ie ops out)"
    "ex_fields_ok ie (ex_trap ie out)"
    "di_opcode (idex_decoded ie) = OpCOP0 \<Longrightarrow> ex_fields_ok ie (ex_cop0 ie ops k out)"
    "ex_fields_ok ie (ex_alu ie ops out)"
proof -
  have r: "di_opcode (idex_decoded ie) = OpSPECIAL \<or> di_opcode (idex_decoded ie) = OpCOP0 \<Longrightarrow>
      gpr_index (r_rd (get_r (idex_decoded ie))) \<and> gpr_index (r_rt (get_r (idex_decoded ie)))"
    using assms(4) by (elim wf_instr_cases) (auto simp: format_of_def)
  have i: "di_format (idex_decoded ie) = FmtI \<Longrightarrow> gpr_index (i_rt (get_i (idex_decoded ie)))"
    and rr: "di_format (idex_decoded ie) = FmtR \<Longrightarrow> gpr_index (r_rd (get_r (idex_decoded ie)))"
    using assms(4) by (elim wf_instr_cases; simp)+
  note o = assms(1-3) [unfolded ex_fields_ok_def]
  show "ex_fields_ok ie (ex_jump ie out)" "ex_fields_ok ie (ex_branch ie ops out)"
    "ex_fields_ok ie (ex_trap ie out)"
    using o by (simp_all add: ex_fields_ok_def ex_jump_def ex_branch_def ex_trap_def Let_def)
  show "di_opcode (idex_decoded ie) = OpSPECIAL \<Longrightarrow> ex_fields_ok ie (ex_register_jump ie ops out)"
    using o r by (simp add: ex_fields_ok_def ex_register_jump_def Let_def set_alu_value_def)
  show "di_opcode (idex_decoded ie) = OpCOP0 \<Longrightarrow> ex_fields_ok ie (ex_cop0 ie ops k out)"
    using o r by (simp add: ex_fields_ok_def ex_cop0_def Let_def set_alu_value_def)
  show "ex_fields_ok ie (ex_alu ie ops out)"
    using o i rr by (simp add: ex_fields_ok_def ex_alu_def Let_def split: option.split)
qed

lemma ex_fields_drop:
  "ex_fields_ok ie out \<Longrightarrow> ou = (if \<not> exmem_valid (eo_next out) then out\<lparr>eo_next := ex_mem_empty\<rparr> else out) \<Longrightarrow>
   (eo_trap ou \<noteq> None \<longrightarrow> eo_next ou = ex_mem_empty) \<and> (exmem_valid (eo_next ou) \<longrightarrow> ex_fields_ok ie ou)"
  by (auto simp: ex_fields_ok_def)

lemma execute_fields:
  assumes "idex_valid ie \<and> idex_early_trap ie = None \<longrightarrow> wf_instr (idex_decoded ie)"
  shows "(eo_trap (execute ie exm mwb k) \<noteq> None \<longrightarrow> eo_next (execute ie exm mwb k) = ex_mem_empty)
    \<and> (exmem_valid (eo_next (execute ie exm mwb k)) \<longrightarrow> ex_fields_ok ie (execute ie exm mwb k))"
proof (cases "idex_valid ie \<and> idex_early_trap ie = None")
  case False
  then show ?thesis
    by (cases "idex_early_trap ie") (simp_all add: execute_def Let_def)
next
  case True
  define st where "st = ex_outcome_empty\<lparr>eo_forwarded := opr_paths (forward_operands ie exm mwb),
    eo_next := ex_common ie (forward_operands ie exm mwb)\<rparr>"
  have st: "ex_fields_ok ie st" "eo_trap st = None" "\<not> exmem_valid (eo_next st)"
    by (simp_all add: st_def ex_fields_start)
  note cl = ex_fields_classes [OF st assms [rule_format, OF True]]
  define out where "out =
    (let dec = idex_decoded ie; ops = forward_operands ie exm mwb
     in if di_format dec = FmtJ then ex_jump ie st
        else if di_format dec = FmtI \<and> (di_opcode dec = OpBEQ \<or> di_opcode dec = OpBNE) then ex_branch ie ops st
        else if di_opcode dec = OpSPECIAL \<and> (r_funct (get_r dec) = FnJR \<or> r_funct (get_r dec) = FnJALR)
          then ex_register_jump ie ops st
        else if di_opcode dec = OpSPECIAL \<and> (r_funct (get_r dec) = FnSYSCALL \<or> r_funct (get_r dec) = FnBREAK)
          then ex_trap ie st
        else if di_opcode dec = OpCOP0 then ex_cop0 ie ops k st
        else ex_alu ie ops st)"
  have "ex_fields_ok ie out" using cl by (simp add: out_def Let_def)
  moreover have "execute ie exm mwb k = (if \<not> exmem_valid (eo_next out) then out\<lparr>eo_next := ex_mem_empty\<rparr> else out)"
    using True by (simp only: execute_def Let_def out_def st_def simp_thms if_True if_False option.case not_False_eq_True)
  ultimately show ?thesis by (rule ex_fields_drop)
qed

section \<open>Forwarding delivers the architectural operands\<close>

lemma instr_idx:
  assumes "wf_instr d" shows "gpr_index (instr_rs d)" "gpr_index (instr_rt d)"
  using assms by (elim wf_instr_cases; simp add: instr_rs_def instr_rt_def)+

lemma read_wb_regs:
  assumes "regs_wf R" "memwb_valid w \<longrightarrow> gpr_index (memwb_write_reg w)" "gpr_index k"
  shows "regs_read (wb_regs w R) k =
    (if wb_writes w \<and> memwb_write_reg w = k then wb_value w else regs_read R k)"
  using assms by (auto simp: wb_regs_def regs_read_write wb_writes_def)

text \<open>A register of the drained state, as EX sees it: EX/MEM first, then MEM/WB, then the file.\<close>

lemma read_cy_arch:
  assumes "regs_wf (cpu_regs s)" "dest_ok s" "mo_trap (cy_mem s) = None" "gpr_index k"
    and "\<not> (exmem_valid (pl_ex_mem s) \<and> c_mem_read (exmem_ctrl (pl_ex_mem s))
      \<and> exmem_write_reg (pl_ex_mem s) = k \<and> k \<noteq> 0)"
  shows "regs_read (a_regs (cy_arch s)) k =
    (if ex_forwards (pl_ex_mem s) \<and> exmem_write_reg (pl_ex_mem s) = k then alu_value (exmem_alu (pl_ex_mem s))
     else if wb_writes (pl_mem_wb s) \<and> memwb_write_reg (pl_mem_wb s) = k then wb_value (pl_mem_wb s)
     else regs_read (cpu_regs s) k)"
proof -
  note nx = memory_access_next [OF assms(3) [unfolded cy_mem_def], folded cy_mem_def]
  have wf: "regs_wf (wb_regs (pl_mem_wb s) (cpu_regs s))" using assms(1) by simp
  have d: "memwb_valid (pl_mem_wb s) \<longrightarrow> gpr_index (memwb_write_reg (pl_mem_wb s))"
    "memwb_valid (mo_next (cy_mem s)) \<longrightarrow> gpr_index (memwb_write_reg (mo_next (cy_mem s)))"
    using assms(2) nx by (auto simp: dest_ok_def)
  show ?thesis
  proof (cases "exmem_valid (pl_ex_mem s)")
    case False
    with nx(1) show ?thesis
      by (simp add: cy_arch_def read_wb_regs [OF wf d(2) assms(4)] read_wb_regs [OF assms(1) d(1) assms(4)]
          wb_writes_def ex_forwards_def)
  next
    case True
    then have "c_mem_to_reg (exmem_ctrl (pl_ex_mem s)) = c_mem_read (exmem_ctrl (pl_ex_mem s))"
      using assms(2) by (simp add: dest_ok_def)
    with nx True assms(5) show ?thesis
      by (auto simp: cy_arch_def read_wb_regs [OF wf d(2) assms(4)] read_wb_regs [OF assms(1) d(1) assms(4)]
          wb_writes_def [of "mo_next (cy_mem s)"] wb_value_def [of "mo_next (cy_mem s)"] ex_forwards_def)
  qed
qed

lemma operands_correct:
  assumes inv: "pipe_inv s" and nt: "mo_trap (cy_mem s) = None" and v: "idex_valid (pl_id_ex s)"
    and f: "mem_read_word (cy_ram s) (idex_pc (pl_id_ex s)) = Some w" "decode w = Some d"
  shows "operands_ok d (a_regs (cy_arch s)) (forward_operands (pl_id_ex s) (pl_ex_mem s) (pl_mem_wb s))"
proof -
  let ?ie = "pl_id_ex s"
  from inv have wf: "regs_wf (cpu_regs s)" and dst: "dest_ok s" by (simp_all add: pipe_inv_def)
  have f': "mem_read_word (cpu_mem s) (idex_pc ?ie) = Some w"
    using inv v f(1) by (simp add: pipe_inv_def stable_ok_def)
  have ie: "?ie = io_next (pl_decode (pl_fetch (cpu_mem s) (idex_pc ?ie)) (cpu_regs s))"
    using inv v by (simp add: pipe_inv_def id_ok_def Let_def)
  have h: "idex_holds d (idex_pc ?ie) ?ie"
    and vals: "idex_rs_val ?ie = regs_read (cpu_regs s) (instr_rs d)"
      "idex_rt_val ?ie = regs_read (cpu_regs s) (instr_rt d)"
    using pl_decode_holds(1-3) [OF f' f(2), of "cpu_regs s", folded ie] by blast+
  then have e: "idex_early_trap ?ie = None" "idex_decoded ?ie = d" "idex_rs ?ie = instr_rs d" "idex_rt ?ie = instr_rt d"
    by (simp_all add: idex_holds_def)
  note k = instr_idx [OF decode_wf [OF f(2)]]
  have ld: "exmem_valid (pl_ex_mem s) \<and> c_mem_read (exmem_ctrl (pl_ex_mem s)) \<Longrightarrow>
      exmem_write_reg (pl_ex_mem s) = 0 \<or> idx_int (exmem_write_reg (pl_ex_mem s)) \<noteq> src_a (source_registers_of d)
        \<and> idx_int (exmem_write_reg (pl_ex_mem s)) \<noteq> src_b (source_registers_of d)"
    using inv v e by (simp add: pipe_inv_def load_ok_def Let_def)
  have "opr_a (forward_operands ?ie (pl_ex_mem s) (pl_mem_wb s)) = regs_read (a_regs (cy_arch s)) (instr_rs d)"
    if "src_a (source_registers_of d) \<noteq> -1"
  proof -
    from that source_a [of d] have "src_a (source_registers_of d) = idx_int (instr_rs d)" by auto
    with ld have "\<not> (exmem_valid (pl_ex_mem s) \<and> c_mem_read (exmem_ctrl (pl_ex_mem s))
      \<and> exmem_write_reg (pl_ex_mem s) = instr_rs d \<and> instr_rs d \<noteq> 0)" by auto
    then show ?thesis
      using read_cy_arch [OF wf dst nt k(1)] by (simp add: forward_operands_a e vals)
  qed
  moreover have "opr_b (forward_operands ?ie (pl_ex_mem s) (pl_mem_wb s)) = regs_read (a_regs (cy_arch s)) (instr_rt d)"
    if "src_b (source_registers_of d) \<noteq> -1"
  proof -
    from that source_b [OF decode_wf [OF f(2)]] have "src_b (source_registers_of d) = idx_int (instr_rt d)" by auto
    with ld have "\<not> (exmem_valid (pl_ex_mem s) \<and> c_mem_read (exmem_ctrl (pl_ex_mem s))
      \<and> exmem_write_reg (pl_ex_mem s) = instr_rt d \<and> instr_rt d \<noteq> 0)" by auto
    then show ?thesis
      using read_cy_arch [OF wf dst nt k(2)] by (simp add: forward_operands_b e vals)
  qed
  ultimately show ?thesis by (simp add: operands_ok_def)
qed

text \<open>EX on a valid ID/EX register performs one architectural step of the drained state.\<close>

lemma fall_through_fetch: "io_jump (pl_decode r regs) = io_jump (pl_decode r regs')"
  by (simp add: pl_decode_def Let_def split: option.split)

lemma commit_step:
  assumes inv: "pipe_inv s" and c: "commits s"
  shows "arch_step (cy_arch s) =
    finish_ex (cy_ex s) (fall_through (cpu_mem s) (idex_pc (pl_id_ex s))) (cy_arch s)"
proof -
  let ?pc = "idex_pc (pl_id_ex s)"
  from c have v: "idex_valid (pl_id_ex s)" and nt: "mo_trap (cy_mem s) = None" by (simp_all add: commits_def)
  have rd: "mem_read_word (cy_ram s) ?pc = mem_read_word (cpu_mem s) ?pc"
    using inv v by (simp add: pipe_inv_def stable_ok_def)
  have ie: "pl_id_ex s = io_next (pl_decode (pl_fetch (cy_ram s) ?pc) (cpu_regs s))"
    using inv v pl_fetch_cong [OF rd] by (simp add: pipe_inv_def id_ok_def Let_def)
  have pc: "a_pc (cy_arch s) = ?pc" and mem: "a_mem (cy_arch s) = cy_ram s" and cp: "a_cp0 (cy_arch s) = cpu_cp0 s"
    using v by (simp_all add: cy_arch_def pl_next_def)
  have ft: "fall_through (cy_ram s) ?pc = fall_through (cpu_mem s) ?pc"
    by (simp add: fall_through_def pl_fetch_cong [OF rd])
  have ex: "execute (pl_id_ex s) (pl_ex_mem s) (pl_mem_wb s) (cpu_cp0 s) = cy_ex s"
    using nt by (simp add: cy_ex_def)
  have "arch_step (cy_arch s) = finish_ex (execute (pl_id_ex s) (pl_ex_mem s) (pl_mem_wb s) (a_cp0 (cy_arch s)))
      (fall_through (a_mem (cy_arch s)) (a_pc (cy_arch s))) (cy_arch s)"
  proof (rule execute_correct [where R = "cpu_regs s"])
    show "pl_id_ex s = io_next (pl_decode (pl_fetch (a_mem (cy_arch s)) (a_pc (cy_arch s))) (cpu_regs s))"
      unfolding mem pc by (rule ie)
  qed (use operands_correct [OF inv nt v] in \<open>simp add: mem pc\<close>)
  then show ?thesis by (simp only: mem pc cp ex ft)
qed

section \<open>One cycle\<close>

abbreviation pl_after :: "pl_cpu \<Rightarrow> pl_cpu" where
  "pl_after s \<equiv> snd (pl_step s)"

lemma drain_after:
  "drain (pl_after s) = snd (finish_mem (eo_next (cy_ex s))
     ((cy_arch s)\<lparr>a_cp0 := cpu_cp0 (pl_after s), a_pc := pl_next (pl_after s)\<rparr>))"
  by (simp add: drain_def pl_step_regs pl_step_mem pl_step_mem_wb pl_step_ex_mem cy_arch_def)

lemma pl_next_flush:
  "cy_flush s \<Longrightarrow> pl_next (pl_after s) =
     (if cy_trap s \<noteq> None then kExceptionVector else the (eo_redirect (cy_ex s)))"
  by (simp add: pl_next_def pl_step_flush)

lemma pl_decode_early:
  "idex_early_trap (io_next (pl_decode r R)) =
     (if ifid_fetch_fault r then Some ExcAdEL
      else case decode (ifid_instr r) of None \<Rightarrow> Some ExcRI | Some d \<Rightarrow> None)"
  "ifid_fetch_fault r \<or> decode (ifid_instr r) = None \<Longrightarrow> idex_ctrl (io_next (pl_decode r R)) = control_init"
  by (auto simp: pl_decode_def Let_def id_ex_empty_def split: option.split)

lemma stall_facts:
  assumes "id_ok s" "cy_stall s"
  shows "idex_valid (pl_id_ex s)" "ifid_valid (pl_if_id s)" "idex_early_trap (pl_id_ex s) = None"
    "ifid_pc (pl_if_id s) = idex_pc (pl_id_ex s) + 4"
    "io_jump (pl_decode (pl_fetch (cpu_mem s) (idex_pc (pl_id_ex s))) R) = None"
proof -
  let ?idd = "pl_decode (pl_fetch (cpu_mem s) (idex_pc (pl_id_ex s))) (cpu_regs s)"
  from assms(2) show v: "idex_valid (pl_id_ex s)" and f: "ifid_valid (pl_if_id s)"
    by (auto simp: cy_stall_def load_use_hazard_def split: if_splits)
  from assms(2) have ld: "c_mem_read (idex_ctrl (pl_id_ex s))"
    by (auto simp: cy_stall_def load_use_hazard_def split: if_splits)
  have ie: "pl_id_ex s = io_next ?idd" using assms(1) v by (simp add: id_ok_def Let_def)
  have j: "io_jump ?idd = None" using assms(1) v f by (auto simp: id_ok_def Let_def split: option.splits)
  then show "io_jump (pl_decode (pl_fetch (cpu_mem s) (idex_pc (pl_id_ex s))) R) = None"
    using fall_through_fetch by metis
  show "ifid_pc (pl_if_id s) = idex_pc (pl_id_ex s) + 4"
    using assms(1) v j by (simp add: id_ok_def Let_def)
  have "idex_early_trap (io_next (pl_decode r R')) \<noteq> None \<Longrightarrow> \<not> c_mem_read (idex_ctrl (io_next (pl_decode r R')))" for r R'
    using pl_decode_early [of r R'] by (auto simp: control_init_def split: if_splits option.splits)
  with ie ld show "idex_early_trap (pl_id_ex s) = None" by metis
qed

lemma pl_next_straight:
  assumes inv: "pipe_inv s" and nf: "\<not> cy_flush s"
  shows "pl_next (pl_after s) =
    (if idex_valid (pl_id_ex s) then fall_through (cpu_mem s) (idex_pc (pl_id_ex s)) else pl_next s)"
proof (cases "cy_stall s")
  case True
  have "id_ok s" using inv by (simp add: pipe_inv_def)
  note st = stall_facts [OF this True]
  then show ?thesis
    by (simp add: pl_next_def pl_step_stall [OF nf True] fall_through_def)
next
  case False
  note n = pl_step_normal [OF nf False]
  show ?thesis
  proof (cases "ifid_valid (pl_if_id s)")
    case True
    then have "pl_next (pl_after s) = ifid_pc (pl_if_id s)"
      by (simp add: pl_next_def n cy_id_def)
    moreover have "idex_valid (pl_id_ex s) \<Longrightarrow>
        ifid_pc (pl_if_id s) = fall_through (cpu_mem s) (idex_pc (pl_id_ex s))"
      using inv True fall_through_fetch [of "pl_fetch (cpu_mem s) (idex_pc (pl_id_ex s))" "cpu_regs s" regs_init]
      by (auto simp: pipe_inv_def id_ok_def Let_def fall_through_def split: option.splits)
    ultimately show ?thesis using True by (simp add: pl_next_def)
  next
    case False
    then have "pl_next (pl_after s) = cpu_pc s"
      by (simp add: pl_next_def n cy_id_def id_outcome_empty_def)
    moreover have "idex_valid (pl_id_ex s) \<Longrightarrow>
        cpu_pc s = fall_through (cpu_mem s) (idex_pc (pl_id_ex s))"
      using inv False fall_through_fetch [of "pl_fetch (cpu_mem s) (idex_pc (pl_id_ex s))" "cpu_regs s" regs_init]
      by (auto simp: pipe_inv_def id_ok_def Let_def fall_through_def split: option.splits)
    ultimately show ?thesis using False by (simp add: pl_next_def)
  qed
qed

lemma idex_wf:
  assumes "id_ok s" "idex_valid (pl_id_ex s)" "idex_early_trap (pl_id_ex s) = None"
  shows "wf_instr (idex_decoded (pl_id_ex s))"
    "idex_ctrl (pl_id_ex s) = derive_control (idex_decoded (pl_id_ex s))"
    "idex_rt (pl_id_ex s) = instr_rt (idex_decoded (pl_id_ex s))"
    "idex_holds (idex_decoded (pl_id_ex s)) (idex_pc (pl_id_ex s)) (pl_id_ex s)"
proof -
  have h: "idex_early_trap (io_next (pl_decode r R)) = None \<Longrightarrow> ifid_fetch_fault r = False \<and> (\<exists>d. decode (ifid_instr r) = Some d)" for r R
    by (auto simp: pl_decode_early split: option.splits if_splits)
  let ?r = "pl_fetch (cpu_mem s) (idex_pc (pl_id_ex s))"
  have ie: "pl_id_ex s = io_next (pl_decode ?r (cpu_regs s))"
    using assms by (simp add: id_ok_def Let_def)
  with assms(3) h [of ?r "cpu_regs s"] obtain d where d: "decode (ifid_instr ?r) = Some d" and ff: "\<not> ifid_fetch_fault ?r"
    by auto
  then obtain w where w: "mem_read_word (cpu_mem s) (idex_pc (pl_id_ex s)) = Some w" by auto
  with d have dw: "decode w = Some d" by simp
  have "idex_holds d (idex_pc (pl_id_ex s)) (pl_id_ex s)"
    using pl_decode_holds(1) [OF w dw, of "cpu_regs s", folded ie] .
  then show "wf_instr (idex_decoded (pl_id_ex s))"
    "idex_ctrl (pl_id_ex s) = derive_control (idex_decoded (pl_id_ex s))"
    "idex_rt (pl_id_ex s) = instr_rt (idex_decoded (pl_id_ex s))"
    "idex_holds (idex_decoded (pl_id_ex s)) (idex_pc (pl_id_ex s)) (pl_id_ex s)"
    using decode_wf [OF dw] by (simp_all add: idex_holds_def)
qed

lemma cy_ex_fields:
  assumes "id_ok s"
  shows "eo_trap (cy_ex s) \<noteq> None \<Longrightarrow> eo_next (cy_ex s) = ex_mem_empty"
    "exmem_valid (eo_next (cy_ex s)) \<Longrightarrow> ex_fields_ok (pl_id_ex s) (cy_ex s)"
  using execute_fields [of "pl_id_ex s" "pl_ex_mem s" "pl_mem_wb s" "cpu_cp0 s"] idex_wf(1) [OF assms]
  by (auto simp: cy_ex_def split: if_splits)

lemma cy_ex_valid:
  assumes "exmem_valid (eo_next (cy_ex s))"
  shows "idex_valid (pl_id_ex s)" "idex_early_trap (pl_id_ex s) = None" "mo_trap (cy_mem s) = None"
    "cy_ex s = execute (pl_id_ex s) (pl_ex_mem s) (pl_mem_wb s) (cpu_cp0 s)"
proof -
  show nt: "mo_trap (cy_mem s) = None" using assms by (simp add: cy_ex_def split: if_splits)
  then show ex: "cy_ex s = execute (pl_id_ex s) (pl_ex_mem s) (pl_mem_wb s) (cpu_cp0 s)"
    by (simp add: cy_ex_def)
  show v: "idex_valid (pl_id_ex s)" using assms unfolding ex by (rule contrapos_pp) (simp add: execute_bubble)
  show "idex_early_trap (pl_id_ex s) = None"
    using assms ex v by (cases "idex_early_trap (pl_id_ex s)") (simp_all add: execute_def Let_def)
qed

lemma drain_trap_step:
  assumes t: "mo_trap (cy_mem s) = Some t"
  shows "drain (pl_after s) = drain s"
proof -
  have tr: "cy_trap s = Some t" "cy_flush s" using t by (simp_all add: cy_trap_def cy_flush_def)
  have "mo_next (cy_mem s) = mem_wb_empty" using t memory_access_trap by (simp add: cy_mem_def)
  then have "cy_arch s = \<lparr>a_regs = wb_regs (pl_mem_wb s) (cpu_regs s), a_mem = cy_ram s, a_cp0 = cpu_cp0 s, a_pc = pl_next s\<rparr>"
    by (simp add: cy_arch_def wb_regs_def wb_writes_def)
  moreover have "cy_ex s = ex_outcome_empty" using t by (simp add: cy_ex_def)
  ultimately show ?thesis
    using t tr by (simp add: drain_after drain_trap pl_next_flush pl_step_cp0 arch_raise_def)
qed

text \<open>The cycle theorem: one clock is one architectural step, or none.\<close>

lemma drain_step:
  assumes inv: "pipe_inv s"
  shows "drain (pl_after s) = (if commits s then snd (arch_step (drain s)) else drain s)"
proof (cases "mo_trap (cy_mem s)")
  case (Some t)
  then show ?thesis by (simp add: drain_trap_step commits_def)
next
  case None
  show ?thesis
  proof (cases "idex_valid (pl_id_ex s)")
    case False
    then have "cy_ex s = ex_outcome_empty" by (simp add: cy_ex_def execute_bubble)
    moreover from this None have "\<not> cy_flush s" "cy_trap s = None" by (simp_all add: cy_flush_def cy_trap_def)
    moreover have "cpu_cp0 (cy_state s) = a_cp0 (cy_arch s)" by (simp add: cy_arch_def)
    ultimately show ?thesis
      using None False pl_next_straight [OF inv]
      by (simp add: drain_after drain_no_trap commits_def pl_step_cp0) (simp add: cy_arch_def)
  next
    case True
    with None have c: "commits s" by (simp add: commits_def)
    have tr: "cy_trap s = eo_trap (cy_ex s)" using None by (simp add: cy_trap_def)
    have cp: "a_cp0 (cy_arch s) = cpu_cp0 s" by (simp add: cy_arch_def)
    have ex0: "eo_trap (cy_ex s) \<noteq> None \<Longrightarrow> eo_next (cy_ex s) = ex_mem_empty"
      using cy_ex_fields(1) inv by (simp add: pipe_inv_def)
    have "drain (pl_after s) = snd (finish_ex (cy_ex s) (fall_through (cpu_mem s) (idex_pc (pl_id_ex s))) (cy_arch s))"
    proof (cases "cy_flush s")
      case False
      then show ?thesis
        using True tr pl_next_straight [OF inv]
        by (auto simp: drain_after pl_step_cp0 cy_flush_def finish_ex_def step_outcome_def split_beta cp)
    next
      case f: True
      then show ?thesis
        using True tr ex0
        by (cases "eo_trap (cy_ex s)")
           (auto simp: drain_after pl_step_cp0 pl_next_flush cy_flush_def finish_ex_def step_outcome_def split_beta cp arch_raise_def)
    qed
    with c show ?thesis
      by (simp add: drain_no_trap [OF None] commit_step [OF inv c])
  qed
qed

section \<open>The invariant is preserved\<close>

lemma after_if_ok:
  assumes inv: "pipe_inv s"
  shows "if_ok (pl_after s)"
proof (cases "cy_flush s")
  case True
  then show ?thesis by (simp add: if_ok_def pl_step_flush)
next
  case nf: False
  show ?thesis
  proof (cases "cy_stall s")
    case True
    have "ifid_valid (pl_if_id s)" using stall_facts(2) [OF _ True] inv by (simp add: pipe_inv_def)
    then have eq: "mem_read_word (cy_ram s) (ifid_pc (pl_if_id s)) = mem_read_word (cpu_mem s) (ifid_pc (pl_if_id s))"
      and i: "if_ok s" using inv by (simp_all add: pipe_inv_def stable_ok_def)
    show ?thesis
      unfolding if_ok_def pl_step_stall [OF nf True] pl_step_mem pl_fetch_cong [OF eq]
      using i by (simp only: if_ok_def)
  next
    case False
    show ?thesis
      by (simp add: if_ok_def pl_step_normal [OF nf False] pl_step_mem)
  qed
qed

lemma after_id_ok:
  assumes inv: "pipe_inv s"
  shows "id_ok (pl_after s)"
proof (cases "\<not> cy_flush s \<and> \<not> cy_stall s \<and> ifid_valid (pl_if_id s)")
  case False
  then have "\<not> idex_valid (pl_id_ex (pl_after s))"
    by (cases "cy_flush s"; cases "cy_stall s")
       (simp_all add: pl_step_flush pl_step_stall pl_step_normal cy_id_def id_outcome_empty_def)
  then show ?thesis by (simp add: id_ok_def)
next
  case True
  then have nf: "\<not> cy_flush s" and ns: "\<not> cy_stall s" and v: "ifid_valid (pl_if_id s)" by simp_all
  note n = pl_step_normal [OF nf ns]
  let ?p = "ifid_pc (pl_if_id s)"
  have eq: "mem_read_word (cy_ram s) ?p = mem_read_word (cpu_mem s) ?p"
    and i: "pl_if_id s = pl_fetch (cpu_mem s) ?p" "cpu_pc s = ?p + 4"
    using inv v by (simp_all add: pipe_inv_def stable_ok_def if_ok_def)
  have "cy_id s = pl_decode (pl_if_id s) (wb_regs (pl_mem_wb s) (cpu_regs s))"
    using v by (simp add: cy_id_def)
  also have "\<dots> = pl_decode (pl_fetch (cy_ram s) ?p) (wb_regs (pl_mem_wb s) (cpu_regs s))"
    using i(1) pl_fetch_cong [OF eq] by simp
  finally have id: "cy_id s = pl_decode (pl_fetch (cy_ram s) ?p) (wb_regs (pl_mem_wb s) (cpu_regs s))" .
  show ?thesis
    by (simp add: id_ok_def n id pl_step_mem pl_step_regs i(2) Let_def split: option.split)
qed

lemma after_dest_ok:
  assumes inv: "pipe_inv s"
  shows "dest_ok (pl_after s)"
proof -
  have id: "id_ok s" and d: "dest_ok s" using inv by (simp_all add: pipe_inv_def)
  have "exmem_valid (eo_next (cy_ex s)) \<Longrightarrow>
      gpr_index (exmem_write_reg (eo_next (cy_ex s)))
      \<and> c_mem_to_reg (exmem_ctrl (eo_next (cy_ex s))) = c_mem_read (exmem_ctrl (eo_next (cy_ex s)))"
  proof -
    assume v: "exmem_valid (eo_next (cy_ex s))"
    then have f: "ex_fields_ok (pl_id_ex s) (cy_ex s)" by (rule cy_ex_fields(2) [OF id])
    have "idex_valid (pl_id_ex s) \<and> idex_early_trap (pl_id_ex s) = None"
      using cy_ex_valid [OF v] by simp
    then have "idex_ctrl (pl_id_ex s) = derive_control (idex_decoded (pl_id_ex s))"
      using idex_wf(2) [OF id] by blast
    with f show ?thesis by (simp add: ex_fields_ok_def control_mem_to_reg)
  qed
  moreover have "memwb_valid (mo_next (cy_mem s)) \<Longrightarrow> gpr_index (memwb_write_reg (mo_next (cy_mem s)))"
  proof -
    assume v: "memwb_valid (mo_next (cy_mem s))"
    then have nt: "mo_trap (cy_mem s) = None"
      using memory_access_trap [of "pl_ex_mem s" "cpu_mem s"]
      by (cases "mo_trap (cy_mem s)") (auto simp: cy_mem_def)
    note nx = memory_access_next [OF nt [unfolded cy_mem_def], folded cy_mem_def]
    from v nx d show ?thesis by (simp add: dest_ok_def)
  qed
  ultimately show ?thesis by (simp add: dest_ok_def pl_step_ex_mem pl_step_mem_wb)
qed

lemma load_write_reg:
  assumes id: "id_ok s" and v: "exmem_valid (eo_next (cy_ex s))" and ld: "c_mem_read (exmem_ctrl (eo_next (cy_ex s)))"
  shows "exmem_write_reg (eo_next (cy_ex s)) = idex_rt (pl_id_ex s)" "c_mem_read (idex_ctrl (pl_id_ex s))"
    "idex_valid (pl_id_ex s)"
proof -
  let ?ie = "pl_id_ex s"
  have t: "idex_valid ?ie \<and> idex_early_trap ?ie = None"
    using cy_ex_valid [OF v] by simp
  then show "idex_valid ?ie" by simp
  note w = idex_wf [OF id t [THEN conjunct1] t [THEN conjunct2]]
  from cy_ex_fields(2) [OF id v] ld show r: "c_mem_read (idex_ctrl ?ie)"
    by (simp add: ex_fields_ok_def)
  then have op: "di_opcode (idex_decoded ?ie) \<in> {OpLW, OpLBU, OpLHU}"
    using w control_load_iff by simp
  then have I: "di_format (idex_decoded ?ie) = FmtI" "format_of (di_opcode (idex_decoded ?ie)) = FmtI"
    "di_opcode (idex_decoded ?ie) \<notin> {OpBEQ, OpBNE}"
    using w(1) by (auto elim!: wf_instr_cases)
  obtain aop where "alu_control (idex_decoded ?ie) = Some aop"
    using i_type_op_imm [OF I(2)] I(1) by (auto simp: alu_control_def)
  note out = execute_imm_outcome [OF w(4) I this refl refl]
  show "exmem_write_reg (eo_next (cy_ex s)) = idex_rt ?ie"
    using cy_ex_valid(4) [OF v] op I(1) by (auto simp: out Let_def w(3) instr_rt_def)
qed

lemma after_load_ok:
  assumes inv: "pipe_inv s"
  shows "load_ok (pl_after s)"
proof -
  have id: "id_ok s" and ifo: "if_ok s" using inv by (simp_all add: pipe_inv_def)
  {
    assume v: "exmem_valid (eo_next (cy_ex s))" and ld: "c_mem_read (exmem_ctrl (eo_next (cy_ex s)))"
      and v': "idex_valid (pl_id_ex (pl_after s))" and e': "idex_early_trap (pl_id_ex (pl_after s)) = None"
    note r = load_write_reg [OF id v ld]
    have nf: "\<not> cy_flush s"
      using v' pl_step_flush(2) [of s] by (cases "cy_flush s") simp_all
    then have ns: "\<not> cy_stall s"
      using v' pl_step_stall(2) [of s] by (cases "cy_stall s") simp_all
    have fv: "ifid_valid (pl_if_id s)"
      using v' pl_step_normal(1) [OF nf ns]
      by (cases "ifid_valid (pl_if_id s)") (simp_all add: cy_id_def id_outcome_empty_def)
    then have i: "pl_id_ex (pl_after s) = io_next (pl_decode (pl_if_id s) (wb_regs (pl_mem_wb s) (cpu_regs s)))"
      by (simp add: pl_step_normal [OF nf ns] cy_id_def)
    with e' obtain d where nff: "\<not> ifid_fetch_fault (pl_if_id s)" and d: "decode (ifid_instr (pl_if_id s)) = Some d"
      by (auto simp: pl_decode_early split: if_splits option.splits)
    then have dec: "idex_decoded (pl_id_ex (pl_after s)) = d"
      by (simp add: i pl_decode_def Let_def)
    have "\<not> load_use_hazard (pl_id_ex s) (pl_if_id s)" using ns by (simp add: cy_stall_def)
    then have "idex_rt (pl_id_ex s) = 0 \<or> idx_int (idex_rt (pl_id_ex s)) \<noteq> src_a (source_registers_of d)
        \<and> idx_int (idex_rt (pl_id_ex s)) \<noteq> src_b (source_registers_of d)"
      using r fv nff d by (auto simp: load_use_hazard_def Let_def)
    then have "let src = source_registers_of (idex_decoded (pl_id_ex (pl_after s))); dst = exmem_write_reg (eo_next (cy_ex s))
       in dst = 0 \<or> idx_int dst \<noteq> src_a src \<and> idx_int dst \<noteq> src_b src"
      by (simp add: r(1) dec Let_def)
  }
  then show ?thesis by (simp add: load_ok_def pl_step_ex_mem)
qed

lemma cy_ram_drain: "cy_ram s = a_mem (drain s)"
  by (simp add: drain_def a_mem_finish_mem cy_ram_def)

lemma id_ok_successor:
  assumes "id_ok s" "if_ok s" "idex_valid (pl_id_ex s)" "ifid_valid (pl_if_id s)"
  shows "ifid_pc (pl_if_id s) = idex_pc (pl_id_ex s) + 4" "cpu_pc s = idex_pc (pl_id_ex s) + 8"
  using assms by (auto simp: id_ok_def if_ok_def Let_def split: option.splits)

lemma jump_no_store:
  assumes id: "id_ok s" and v: "idex_valid (pl_id_ex s)" and nf: "\<not> ifid_valid (pl_if_id s)"
  shows "cy_ram (pl_after s) = cpu_mem (pl_after s)"
proof -
  let ?r = "pl_fetch (cpu_mem s) (idex_pc (pl_id_ex s))"
  have ie: "pl_id_ex s = io_next (pl_decode ?r (cpu_regs s))" and j: "io_jump (pl_decode ?r (cpu_regs s)) \<noteq> None"
    using id v nf by (auto simp: id_ok_def Let_def split: option.splits)
  from j obtain d where d: "\<not> ifid_fetch_fault ?r" "decode (ifid_instr ?r) = Some d" "di_format d = FmtJ"
    by (auto simp: pl_decode_def Let_def split: if_splits option.splits)
  then have "idex_ctrl (io_next (pl_decode ?r (cpu_regs s))) = derive_control d"
    by (auto simp add: pl_decode_def Let_def)
  with ie d(3) have "\<not> c_mem_write (idex_ctrl (pl_id_ex s))"
    by (simp add: derive_control_def control_init_def Let_def)
  then have "\<not> (exmem_valid (eo_next (cy_ex s)) \<and> c_mem_write (exmem_ctrl (eo_next (cy_ex s))))"
    using cy_ex_fields(2) [OF id] by (auto simp: ex_fields_ok_def)
  then show ?thesis
    by (simp add: cy_ram_def pl_step_ex_mem memory_access_ram)
qed

lemma after_stable_ok:
  assumes inv: "pipe_inv s" and safe: "commits s \<Longrightarrow> fetch_safe (drain s)"
  shows "stable_ok (pl_after s)"
proof (cases "commits s \<and> ifid_valid (pl_if_id s)")
  case False
  have "cy_ram (pl_after s) = cpu_mem (pl_after s)"
  proof (cases "commits s")
    case True
    with False inv show ?thesis by (intro jump_no_store) (simp_all add: pipe_inv_def commits_def)
  next
    case nc: False
    then have "\<not> exmem_valid (eo_next (cy_ex s))"
      using cy_ex_valid(1,3) [of s] by (auto simp: commits_def)
    then show ?thesis by (simp add: cy_ram_def pl_step_ex_mem memory_access_ram)
  qed
  then show ?thesis by (simp add: stable_ok_def)
next
  case True
  then have c: "commits s" and fv: "ifid_valid (pl_if_id s)" by simp_all
  let ?pc = "idex_pc (pl_id_ex s)"
  have v: "idex_valid (pl_id_ex s)" and nt: "mo_trap (cy_mem s) = None" using c by (simp_all add: commits_def)
  have io: "id_ok s" "if_ok s" using inv by (simp_all add: pipe_inv_def)
  note succ = id_ok_successor [OF io v fv]
  have after: "cy_ram (pl_after s) = a_mem (snd (arch_step (drain s)))"
    by (simp add: cy_ram_drain drain_step [OF inv] c)
  have before: "cpu_mem (pl_after s) = a_mem (drain s)"
    by (simp add: pl_step_mem cy_ram_drain)
  have "a_pc (drain s) = ?pc" using v by (simp add: drain_no_trap [OF nt] cy_arch_def pl_next_def)
  with safe [OF c] have same: "mem_read_word (cy_ram (pl_after s)) p = mem_read_word (cpu_mem (pl_after s)) p"
    if "p = ?pc + 4 \<or> p = ?pc + 8" for p
    using that unfolding after before fetch_safe_def Let_def by auto
  have "idex_valid (pl_id_ex (pl_after s)) \<Longrightarrow> idex_pc (pl_id_ex (pl_after s)) = ?pc + 4"
    using pl_step_flush(2) [of s] pl_step_stall(2) [of s] pl_step_normal(1) [of s] fv succ(1)
    by (cases "cy_flush s"; cases "cy_stall s") (simp_all add: cy_id_def)
  moreover have "ifid_valid (pl_if_id (pl_after s)) \<Longrightarrow>
      ifid_pc (pl_if_id (pl_after s)) = ?pc + 4 \<or> ifid_pc (pl_if_id (pl_after s)) = ?pc + 8"
    using pl_step_flush(1) [of s] pl_step_stall(1) [of s] pl_step_normal(2) [of s] succ
    by (cases "cy_flush s"; cases "cy_stall s") (simp_all split: if_splits)
  ultimately show ?thesis using same unfolding stable_ok_def by blast
qed

lemma pipe_inv_step:
  assumes "pipe_inv s" "commits s \<Longrightarrow> fetch_safe (drain s)"
  shows "pipe_inv (pl_after s)"
  using assms after_if_ok after_id_ok after_dest_ok after_load_ok after_stable_ok [OF assms]
  by (simp add: pipe_inv_def pl_step_regs)

section \<open>Many cycles\<close>

abbreviation pl_cycles :: "nat \<Rightarrow> pl_cpu \<Rightarrow> pl_cpu" where
  "pl_cycles n s \<equiv> (pl_after ^^ n) s"

abbreviation arch_steps :: "nat \<Rightarrow> arch \<Rightarrow> arch" where
  "arch_steps n A \<equiv> ((\<lambda>A. snd (arch_step A)) ^^ n) A"

text \<open>Instructions executed in the first \<open>n\<close> cycles.\<close>

fun commit_count :: "nat \<Rightarrow> pl_cpu \<Rightarrow> nat" where
  "commit_count 0 s = 0"
| "commit_count (Suc n) s = (if commits s then Suc (commit_count n (pl_after s)) else commit_count n (pl_after s))"

text \<open>Every step of the single-cycle run up to \<open>k\<close> leaves the next two words alone.\<close>

fun fetch_safe_upto :: "nat \<Rightarrow> arch \<Rightarrow> bool" where
  "fetch_safe_upto 0 A \<longleftrightarrow> True"
| "fetch_safe_upto (Suc k) A \<longleftrightarrow> fetch_safe A \<and> fetch_safe_upto k (snd (arch_step A))"

lemma fetch_safe_upto_mono: "fetch_safe_upto n A \<Longrightarrow> m \<le> n \<Longrightarrow> fetch_safe_upto m A"
proof (induction n arbitrary: m A)
  case (Suc n)
  then show ?case by (cases m) simp_all
qed simp

lemma pipeline_simulation:
  assumes "pipe_inv s" "fetch_safe_upto (commit_count n s) (drain s)"
  shows "pipe_inv (pl_cycles n s) \<and> drain (pl_cycles n s) = arch_steps (commit_count n s) (drain s)"
  using assms
proof (induction n arbitrary: s)
  case 0
  then show ?case by simp
next
  case (Suc n)
  have "commits s \<Longrightarrow> fetch_safe (drain s)"
    using Suc.prems(2) by simp
  then have inv: "pipe_inv (pl_after s)" by (rule pipe_inv_step [OF Suc.prems(1)])
  have "fetch_safe_upto (commit_count n (pl_after s)) (drain (pl_after s))"
    using Suc.prems(2) by (cases "commits s") (simp_all add: drain_step [OF Suc.prems(1)])
  from Suc.IH [OF inv this] show ?case
    by (cases "commits s") (simp_all only: funpow_Suc_start commit_count.simps drain_step [OF Suc.prems(1)] if_True if_False)
qed

section \<open>Progress\<close>

lemma no_trap_bubble: "\<not> exmem_valid (pl_ex_mem s) \<Longrightarrow> mo_trap (cy_mem s) = None"
  by (simp add: cy_mem_def memory_access_def)

lemma no_commit_bubble: "\<not> commits s \<Longrightarrow> \<not> exmem_valid (pl_ex_mem (pl_after s))"
  using cy_ex_valid(1,3) [of s] by (auto simp: commits_def pl_step_ex_mem)

lemma idle_cycle:
  assumes "\<not> idex_valid (pl_id_ex s)" "mo_trap (cy_mem s) = None"
  shows "idex_valid (pl_id_ex (pl_after s)) = ifid_valid (pl_if_id s)"
    "\<not> ifid_valid (pl_if_id s) \<Longrightarrow> ifid_valid (pl_if_id (pl_after s))"
proof -
  have "cy_ex s = ex_outcome_empty" using assms(1) by (simp add: cy_ex_def execute_bubble)
  with assms have nf: "\<not> cy_flush s" and ns: "\<not> cy_stall s"
    by (simp_all add: cy_flush_def cy_trap_def cy_stall_def load_use_hazard_def)
  show "idex_valid (pl_id_ex (pl_after s)) = ifid_valid (pl_if_id s)"
    "\<not> ifid_valid (pl_if_id s) \<Longrightarrow> ifid_valid (pl_if_id (pl_after s))"
    by (simp_all add: pl_step_normal [OF nf ns] cy_id_def id_outcome_empty_def)
qed

text \<open>An instruction executes at least every fourth cycle.\<close>

lemma commit_within_two:
  assumes "\<not> exmem_valid (pl_ex_mem s)"
  shows "commits s \<or> commits (pl_after s) \<or> commits (pl_after (pl_after s))"
proof (cases "idex_valid (pl_id_ex s)")
  case True
  then show ?thesis using no_trap_bubble [OF assms] by (simp add: commits_def)
next
  case False
  note i = idle_cycle [OF False no_trap_bubble [OF assms]]
  have nc: "\<not> commits s" using False by (simp add: commits_def)
  note b = no_commit_bubble [OF nc]
  show ?thesis
  proof (cases "ifid_valid (pl_if_id s)")
    case True
    with i(1) no_trap_bubble [OF b] show ?thesis by (simp add: commits_def)
  next
    case nf: False
    with i have n: "\<not> idex_valid (pl_id_ex (pl_after s))" and v: "ifid_valid (pl_if_id (pl_after s))" by simp_all
    then have "\<not> commits (pl_after s)" by (simp add: commits_def)
    from no_trap_bubble [OF no_commit_bubble [OF this]] idle_cycle(1) [OF n no_trap_bubble [OF b]] v
    show ?thesis by (simp add: commits_def)
  qed
qed

lemma commit_count_add: "commit_count (m + n) s = commit_count m s + commit_count n (pl_cycles m s)"
  by (induction m arbitrary: s) (simp_all add: funpow_Suc_start del: funpow.simps)

lemma commit_within_four: "1 \<le> commit_count 4 s"
proof (cases "commits s")
  case True
  then show ?thesis by (simp add: numeral_eq_Suc)
next
  case False
  from commit_within_two [OF no_commit_bubble [OF this]]
  show ?thesis by (auto simp: numeral_eq_Suc)
qed

lemma commit_rate: "k \<le> commit_count (4 * k) s"
proof (induction k arbitrary: s)
  case (Suc k)
  have "commit_count (4 * Suc k) s = commit_count 4 s + commit_count (4 * k) (pl_cycles 4 s)"
    using commit_count_add [of 4 "4 * k" s] by simp
  with Suc.IH [of "pl_cycles 4 s"] commit_within_four [of s] show ?case by simp
qed simp

lemma commit_count_le: "commit_count n s \<le> n"
  by (induction n arbitrary: s) (auto intro: le_SucI)

section \<open>Where the pipeline starts\<close>

definition pl_empty :: "pl_cpu \<Rightarrow> bool" where
  "pl_empty s \<longleftrightarrow> pl_if_id s = if_id_empty \<and> pl_id_ex s = id_ex_empty \<and> pl_ex_mem s = ex_mem_empty
     \<and> pl_mem_wb s = mem_wb_empty"

lemma pl_empty_inv: "pl_empty s \<Longrightarrow> regs_wf (cpu_regs s) \<Longrightarrow> pipe_inv s"
  by (simp add: pl_empty_def pipe_inv_def if_ok_def id_ok_def dest_ok_def load_ok_def stable_ok_def)

lemma pl_empty_drain: "pl_empty s \<Longrightarrow> drain s = arch_of s"
  by (simp add: pl_empty_def drain_def arch_of_def pl_next_def wb_regs_def wb_writes_def)

lemma pl_empty_create: "pl_empty (pl_create n)"
  by (simp add: pl_empty_def pl_create_def cpu.defs pl_cpu.defs sc_create_def)

lemma pl_empty_reset: "pl_empty (pl_reset b s)"
  by (simp add: pl_empty_def pl_reset_def)

lemma pl_empty_load: "pl_load_program ws a s = Some (ok, s') \<Longrightarrow> pl_empty s \<Longrightarrow> pl_empty s'"
  by (auto simp: pl_load_program_def pl_empty_def split: option.splits if_splits)

end
