(* ===== verification/RunEquivalence.thy ===== *)
theory RunEquivalence
  imports PipelineRefinement
begin

text \<open>
  \<open>run\<close> on both back ends. A cycle that commits reports what the single-cycle CPU reports, an
  exception of MEM one cycle later and the self-jump halt two cycles later; \<open>halt_ok\<close> says that a
  flagged self-jump in EX/MEM or MEM/WB has only itself behind it. The main theorem runs the
  pipeline and the single-cycle CPU to the same result in the same architectural state.
\<close>

unbundle bit_operations_syntax

section \<open>The single-cycle object and its architectural state\<close>

text \<open>What an execute function returns, with the object seen through \<open>arch_of\<close>.\<close>

definition exec_view :: "bool \<times> u32 \<times> step_result \<times> cpu \<Rightarrow> bool \<times> u32 \<times> step_result \<times> arch" where
  "exec_view x = (fst x, fst (snd x), exec_exc x, arch_of (exec_state x))"

lemma exec_view_distrib:
  "exec_view (if c then x else y) = (if c then exec_view x else exec_view y)"
  "exec_view (case p of None \<Rightarrow> x | Some a \<Rightarrow> f a) = (case p of None \<Rightarrow> exec_view x | Some a \<Rightarrow> exec_view (f a))"
  "exec_view (ok, np, e, s) = (ok, np, e, arch_of s)"
  by (simp_all add: exec_view_def split: option.split)

lemma exec_rtype_arch:
  assumes "arch_of s = arch_of s'"
  shows "exec_view (exec_rtype d pc4 np e s) = exec_view (exec_rtype d pc4 np e s')"
proof -
  have "cpu_regs s = cpu_regs s'" "cpu_cp0 s = cpu_cp0 s'"
    using assms by (simp_all add: arch_of_def)
  with assms show ?thesis
    by (simp add: exec_rtype_def Let_def split_beta sc_raise_eq exec_view_distrib cong: if_cong option.case_cong split del: if_split)
qed

lemma exec_itype_arch:
  assumes "arch_of s = arch_of s'" "cpu_ctrl s = cpu_ctrl s'"
  shows "exec_view (exec_itype d pc4 np e s) = exec_view (exec_itype d pc4 np e s')"
proof -
  have "cpu_regs s = cpu_regs s'" "cpu_cp0 s = cpu_cp0 s'" "cpu_mem s = cpu_mem s'"
    using assms by (simp_all add: arch_of_def)
  with assms show ?thesis
    by (simp add: exec_itype_def exec_branch_def exec_imm_result_def Let_def split_beta sc_raise_eq
        exec_view_distrib
        cong: if_cong option.case_cong split del: if_split)
qed

lemma arch_of_hidden [simp]:
  "arch_of (s\<lparr>cpu_ps := p\<rparr>) = arch_of s" "arch_of (s\<lparr>cpu_cycle := n\<rparr>) = arch_of s"
  by (simp_all add: arch_of_def)

lemma arch_of_begin_gen: "arch_of (sc_begin d p w (s\<lparr>cpu_cycle := n\<rparr>)) = arch_of s"
  by (simp add: arch_of_def)

lemma sc_step_arch: "arch_step (arch_of s) = (fst (sc_step s), arch_of (snd (sc_step s)))"
proof -
  have a: "cpu_mem s = a_mem (arch_of s)" "cpu_pc s = a_pc (arch_of s)" "cpu_regs s = a_regs (arch_of s)"
    "cpu_cp0 s = a_cp0 (arch_of s)"
    by (simp_all add: arch_of_def)
  show ?thesis
  proof (cases "mem_read_word (cpu_mem s) (cpu_pc s)")
    case None
    then show ?thesis by (simp add: arch_step_fetch_fault a arch_raise_def) (simp add: sc_step_simps arch_of_def)
  next
    case (Some w)
    show ?thesis
    proof (cases "decode w")
      case None
      with Some show ?thesis by (simp add: arch_step_reserved a arch_raise_def) (simp add: sc_step_simps arch_of_def)
    next
      case d: (Some d)
      let ?s = "sc_begin d (cpu_pc s) w (s\<lparr>cpu_cycle := Suc (cpu_cycle s)\<rparr>)"
      let ?s' = "sc_begin d (cpu_pc s) w ((cpu_of (arch_of s))\<lparr>cpu_cycle := 1\<rparr>)"
      have same: "arch_of ?s = arch_of ?s'" "cpu_ctrl ?s = cpu_ctrl ?s'"
        by (simp_all add: arch_of_begin_gen)
      have okr: "di_format d = FmtR \<Longrightarrow> fst (exec_rtype d pc4 np e t)"
        and oki: "di_format d = FmtI \<Longrightarrow> fst (exec_itype d pc4 np e t)" for pc4 np e t
        using exec_rtype_ok exec_itype_ok decode_wf [OF d] by blast+
      note R = exec_rtype_arch [OF same(1), of d "cpu_pc s + 4" "cpu_pc s + 4" StOk]
      note I = exec_itype_arch [OF same, of d "cpu_pc s + 4" "cpu_pc s + 4" StOk]
      show ?thesis
        using R I Some d okr oki
        by (cases "di_format d")
           (simp_all add: exec_view_def arch_step_fetch [of "arch_of s" w d] a [symmetric] sc_step_simps step_outcome_def
              arch_of_begin_gen arch_raise_def)
    qed
  qed
qed

lemma sc_run_arch:
  "run_steps arch_step n (arch_of s) = (fst (run_steps sc_step n s), arch_of (snd (run_steps sc_step n s)))"
proof (induction n arbitrary: s)
  case (Suc n)
  obtain r t where s: "sc_step s = (r, t)" by (cases "sc_step s")
  with Suc.IH [of t] sc_step_arch [of s] show ?case by simp
qed simp

section \<open>Self-jumps\<close>

text \<open>A J or JAL that targets its own address: the halting idiom of both back ends.\<close>

definition self_jump :: "memory \<Rightarrow> u32 \<Rightarrow> bool" where
  "self_jump m p = (case mem_read_word m p of
       None \<Rightarrow> False
     | Some w \<Rightarrow> (case decode w of
           None \<Rightarrow> False
         | Some d \<Rightarrow> di_format d = FmtJ \<and> jump_target (p + 4) d = p))"

lemma self_jump_cases:
  assumes "self_jump m p"
  obtains w d where "mem_read_word m p = Some w" "decode w = Some d" "di_format d = FmtJ"
    "jump_target (p + 4) d = p"
  using assms by (auto simp: self_jump_def split: option.splits)

lemma decode_jump_iff:
  "(\<exists>d. decode w = Some d \<and> di_format d = FmtJ) \<longleftrightarrow>
   opcode_of (ucast (bits w 31 26)) = OpJ \<or> opcode_of (ucast (bits w 31 26)) = OpJAL"
  using format_of_J [of "opcode_of (ucast (bits w 31 26))"]
  by (cases "format_of (opcode_of (ucast (bits w 31 26)))") (auto simp: decode_def Let_def split: if_splits)

lemma decode_jump_target: "decode w = Some d \<Longrightarrow> di_format d = FmtJ \<Longrightarrow> j_target (get_j d) = bits w 25 0"
  by (auto simp: decode_def Let_def get_j_def split: instr_format.splits if_splits)

lemma fetch_halt_iff [simp]: "ifid_is_halt (pl_fetch m p) \<longleftrightarrow> self_jump m p"
proof (cases "mem_read_word m p")
  case None
  then show ?thesis by (simp add: pl_fetch_def self_jump_def if_id_empty_def Let_def)
next
  case (Some w)
  have "ifid_is_halt (pl_fetch m p) \<longleftrightarrow>
      (opcode_of (ucast (bits w 31 26)) = OpJ \<or> opcode_of (ucast (bits w 31 26)) = OpJAL)
      \<and> ((p + 4) AND 0xF0000000) OR push_bit 2 (bits w 25 0) = p"
    using Some by (simp add: pl_fetch_def if_id_empty_def Let_def opcode_field_bits target_field_bits)
  also have "\<dots> \<longleftrightarrow> self_jump m p"
    unfolding decode_jump_iff [symmetric] self_jump_def
    using Some decode_jump_target [of w] by (auto simp: jump_target_def split: option.splits)
  finally show ?thesis .
qed

lemma decode_halt_iff:
  "idex_is_halt (io_next (pl_decode (pl_fetch m p) R)) \<longleftrightarrow> self_jump m p"
proof (cases "mem_read_word m p")
  case None
  then show ?thesis by (simp add: pl_decode_def Let_def id_ex_empty_def self_jump_def)
next
  case (Some w)
  then show ?thesis
    by (cases "decode w") (simp_all add: pl_decode_def Let_def id_ex_empty_def, simp add: self_jump_def)
qed

lemma arch_step_self_jump:
  assumes "self_jump (a_mem A) (a_pc A)"
  shows "fst (arch_step A) = StHalt" "a_pc (snd (arch_step A)) = a_pc A" "a_mem (snd (arch_step A)) = a_mem A"
    "regs_wf (a_regs A) \<Longrightarrow> snd (arch_step (snd (arch_step A))) = snd (arch_step A)"
proof -
  obtain w d where d: "mem_read_word (a_mem A) (a_pc A) = Some w" "decode w = Some d" "di_format d = FmtJ"
    "jump_target (a_pc A + 4) d = a_pc A"
    using assms by (rule self_jump_cases)
  note st = arch_step_fetch [OF d(1,2)]
  show "fst (arch_step A) = StHalt" and pc: "a_pc (snd (arch_step A)) = a_pc A"
    and mem: "a_mem (snd (arch_step A)) = a_mem A"
    using d by (simp_all add: st step_outcome_def)
  assume wf: "regs_wf (a_regs A)"
  let ?B = "snd (arch_step A)"
  have "mem_read_word (a_mem ?B) (a_pc ?B) = Some w" using d(1) by (simp add: mem pc)
  note st' = arch_step_fetch [OF this d(2)]
  have "regs_write kRa v (regs_write kRa v (a_regs A)) = regs_write kRa v (a_regs A)" for v
    by (simp add: regs_write_def)
  then show "snd (arch_step ?B) = ?B"
    unfolding st' using d by (simp add: pc mem st step_outcome_def)
qed

text \<open>A self-jump in ID/EX goes through EX without trap, redirect or memory access.\<close>

lemma self_jump_execute:
  assumes inv: "pipe_inv s" and c: "commits s" and j: "self_jump (cpu_mem s) (idex_pc (pl_id_ex s))"
  shows "\<not> cy_flush s" "cy_trap s = None" "exmem_valid (eo_next (cy_ex s))" "exmem_is_halt (eo_next (cy_ex s))"
    "exmem_pc (eo_next (cy_ex s)) = idex_pc (pl_id_ex s)"
    "\<not> c_mem_read (exmem_ctrl (eo_next (cy_ex s)))" "\<not> c_mem_write (exmem_ctrl (eo_next (cy_ex s)))"
    "pl_next (pl_after s) = idex_pc (pl_id_ex s)"
proof -
  let ?p = "idex_pc (pl_id_ex s)"
  from c have v: "idex_valid (pl_id_ex s)" and nt: "mo_trap (cy_mem s) = None" by (simp_all add: commits_def)
  obtain w d where d: "mem_read_word (cpu_mem s) ?p = Some w" "decode w = Some d" "di_format d = FmtJ"
    "jump_target (?p + 4) d = ?p"
    using j by (rule self_jump_cases)
  have ie: "pl_id_ex s = io_next (pl_decode (pl_fetch (cpu_mem s) ?p) (cpu_regs s))"
    using inv v by (simp add: pipe_inv_def id_ok_def Let_def)
  have h: "idex_holds d ?p (pl_id_ex s)"
    using pl_decode_holds(1) [OF d(1,2), of "cpu_regs s", folded ie] .
  have halt: "idex_is_halt (pl_id_ex s)"
    using decode_halt_iff [of "cpu_mem s" ?p "cpu_regs s", folded ie] j by simp
  have hh: "idex_ctrl (pl_id_ex s) = derive_control d" "idex_decoded (pl_id_ex s) = d"
    using h by (simp_all add: idex_holds_def)
  have ex: "cy_ex s = (let ops = forward_operands (pl_id_ex s) (pl_ex_mem s) (pl_mem_wb s)
      in ex_jump (pl_id_ex s) (ex_outcome_empty\<lparr>eo_forwarded := opr_paths ops, eo_next := ex_common (pl_id_ex s) ops\<rparr>))"
    using nt d(3) by (simp add: cy_ex_def execute_dispatch [OF h] Let_def ex_jump_def)
  have ctl: "\<not> c_mem_read (derive_control d)" "\<not> c_mem_write (derive_control d)"
    using d(3) by (simp_all add: derive_control_def control_init_def Let_def)
  show nf: "\<not> cy_flush s" and "cy_trap s = None"
    using nt by (simp_all add: cy_flush_def cy_trap_def ex Let_def ex_jump_def)
  show "exmem_valid (eo_next (cy_ex s))" "exmem_is_halt (eo_next (cy_ex s))"
    "exmem_pc (eo_next (cy_ex s)) = ?p"
    "\<not> c_mem_read (exmem_ctrl (eo_next (cy_ex s)))" "\<not> c_mem_write (exmem_ctrl (eo_next (cy_ex s)))"
    using halt ctl hh by (simp_all add: ex Let_def ex_jump_def)
  show "pl_next (pl_after s) = ?p"
    using pl_next_straight [OF inv nf] v pl_decode_holds(4) [OF d(1,2), of regs_init] d(3,4)
    by (simp add: fall_through_def)
qed

section \<open>A flagged self-jump has only itself behind it\<close>

definition halt_ok :: "pl_cpu \<Rightarrow> bool" where
  "halt_ok s \<longleftrightarrow>
     (exmem_valid (pl_ex_mem s) \<and> exmem_is_halt (pl_ex_mem s) \<longrightarrow>
        self_jump (cpu_mem s) (exmem_pc (pl_ex_mem s)) \<and> pl_next s = exmem_pc (pl_ex_mem s)
        \<and> \<not> c_mem_read (exmem_ctrl (pl_ex_mem s)) \<and> \<not> c_mem_write (exmem_ctrl (pl_ex_mem s)))
   \<and> (memwb_valid (pl_mem_wb s) \<and> memwb_is_halt (pl_mem_wb s) \<longrightarrow>
        self_jump (cpu_mem s) (memwb_pc (pl_mem_wb s)) \<and> pl_next s = memwb_pc (pl_mem_wb s)
        \<and> (exmem_valid (pl_ex_mem s) \<longrightarrow>
             exmem_is_halt (pl_ex_mem s) \<and> exmem_pc (pl_ex_mem s) = memwb_pc (pl_mem_wb s)))"

lemma memory_access_idle:
  assumes "\<not> (exmem_valid x \<and> (c_mem_read (exmem_ctrl x) \<or> c_mem_write (exmem_ctrl x)))"
  shows "mo_trap (fst (memory_access x m)) = None" "snd (memory_access x m) = m"
  using assms by (auto simp: memory_access_def Let_def)

text \<open>If the drained state is at a self-jump and MEM does not trap, it stays there.\<close>

lemma at_self_jump_step:
  assumes inv: "pipe_inv s" and nt: "mo_trap (cy_mem s) = None" and j: "self_jump (cy_ram s) (pl_next s)"
  shows "pl_next (pl_after s) = pl_next s" "cy_trap s = None"
    "exmem_valid (eo_next (cy_ex s)) \<Longrightarrow> exmem_is_halt (eo_next (cy_ex s)) \<and> exmem_pc (eo_next (cy_ex s)) = pl_next s"
    "cy_ram (pl_after s) = cy_ram s"
proof -
  have "pl_next (pl_after s) = pl_next s \<and> cy_trap s = None
    \<and> (exmem_valid (eo_next (cy_ex s)) \<longrightarrow> exmem_is_halt (eo_next (cy_ex s)) \<and> exmem_pc (eo_next (cy_ex s)) = pl_next s)
    \<and> cy_ram (pl_after s) = cy_ram s"
  proof (cases "idex_valid (pl_id_ex s)")
    case True
    then have c: "commits s" and p: "pl_next s = idex_pc (pl_id_ex s)" using nt by (simp_all add: commits_def pl_next_def)
    have "mem_read_word (cy_ram s) (idex_pc (pl_id_ex s)) = mem_read_word (cpu_mem s) (idex_pc (pl_id_ex s))"
      using inv True by (simp add: pipe_inv_def stable_ok_def)
    with j p have "self_jump (cpu_mem s) (idex_pc (pl_id_ex s))" by (simp add: self_jump_def)
    note e = self_jump_execute [OF inv c this]
    have "cy_ram (pl_after s) = cy_ram s"
      using e(7) by (simp add: cy_ram_def [of "pl_after s"] pl_step_ex_mem pl_step_mem memory_access_ram)
    with e p show ?thesis by simp
  next
    case False
    then have ex: "cy_ex s = ex_outcome_empty" by (simp add: cy_ex_def execute_bubble)
    with nt have nf: "\<not> cy_flush s" "cy_trap s = None" by (simp_all add: cy_flush_def cy_trap_def)
    have "cy_ram (pl_after s) = cy_ram s"
      by (simp add: cy_ram_def [of "pl_after s"] pl_step_ex_mem pl_step_mem ex memory_access_ram)
    with nf False ex show ?thesis by (simp add: pl_next_straight [OF inv])
  qed
  then show "pl_next (pl_after s) = pl_next s" "cy_trap s = None"
    "exmem_valid (eo_next (cy_ex s)) \<Longrightarrow> exmem_is_halt (eo_next (cy_ex s)) \<and> exmem_pc (eo_next (cy_ex s)) = pl_next s"
    "cy_ram (pl_after s) = cy_ram s" by blast+
qed

lemma idex_self_jump:
  assumes "id_ok s" "idex_valid (pl_id_ex s)" "idex_is_halt (pl_id_ex s)"
  shows "self_jump (cpu_mem s) (idex_pc (pl_id_ex s))"
proof -
  have "pl_id_ex s = io_next (pl_decode (pl_fetch (cpu_mem s) (idex_pc (pl_id_ex s))) (cpu_regs s))"
    using assms(1,2) by (simp add: id_ok_def Let_def)
  then show ?thesis using decode_halt_iff assms(3) by metis
qed

lemma halt_ok_step:
  assumes inv: "pipe_inv s" and h: "halt_ok s"
  shows "halt_ok (pl_after s)"
proof -
  have "self_jump (cy_ram s) (exmem_pc (eo_next (cy_ex s))) \<and> pl_next (pl_after s) = exmem_pc (eo_next (cy_ex s))
        \<and> \<not> c_mem_read (exmem_ctrl (eo_next (cy_ex s))) \<and> \<not> c_mem_write (exmem_ctrl (eo_next (cy_ex s)))"
    if v: "exmem_valid (eo_next (cy_ex s))" and hl: "exmem_is_halt (eo_next (cy_ex s))"
  proof -
    have id: "id_ok s" using inv by (simp add: pipe_inv_def)
    note cv = cy_ex_valid [OF v]
    then have c: "commits s" by (simp add: commits_def)
    have "idex_is_halt (pl_id_ex s)"
      using cy_ex_fields(2) [OF id v] hl by (simp add: ex_fields_ok_def)
    then have j: "self_jump (cpu_mem s) (idex_pc (pl_id_ex s))" by (rule idex_self_jump [OF id cv(1)])
    moreover have "mem_read_word (cy_ram s) (idex_pc (pl_id_ex s)) = mem_read_word (cpu_mem s) (idex_pc (pl_id_ex s))"
      using inv cv(1) by (simp add: pipe_inv_def stable_ok_def)
    ultimately have "self_jump (cy_ram s) (idex_pc (pl_id_ex s))" by (simp add: self_jump_def)
    with self_jump_execute [OF inv c j] show ?thesis by simp
  qed
  moreover have "self_jump (cy_ram s) (memwb_pc (mo_next (cy_mem s)))
      \<and> pl_next (pl_after s) = memwb_pc (mo_next (cy_mem s))
      \<and> (exmem_valid (eo_next (cy_ex s)) \<longrightarrow> exmem_is_halt (eo_next (cy_ex s))
           \<and> exmem_pc (eo_next (cy_ex s)) = memwb_pc (mo_next (cy_mem s)))"
    if v: "memwb_valid (mo_next (cy_mem s))" and hl: "memwb_is_halt (mo_next (cy_mem s))"
  proof -
    have nt: "mo_trap (cy_mem s) = None"
      using v memory_access_trap [of "pl_ex_mem s" "cpu_mem s"]
      by (cases "mo_trap (cy_mem s)") (auto simp: cy_mem_def)
    note nx = memory_access_next [OF nt [unfolded cy_mem_def], folded cy_mem_def]
    from v hl nx have x: "exmem_valid (pl_ex_mem s)" "exmem_is_halt (pl_ex_mem s)" by simp_all
    with h have j: "self_jump (cpu_mem s) (exmem_pc (pl_ex_mem s))" and p: "pl_next s = exmem_pc (pl_ex_mem s)"
      and nw: "\<not> c_mem_write (exmem_ctrl (pl_ex_mem s))" by (simp_all add: halt_ok_def)
    have "cy_ram s = cpu_mem s" using nw by (simp add: cy_ram_def memory_access_ram)
    with j p have "self_jump (cy_ram s) (pl_next s)" by simp
    with at_self_jump_step [OF inv nt this] nx x p show ?thesis by simp
  qed
  ultimately show ?thesis by (simp add: halt_ok_def pl_step_ex_mem pl_step_mem_wb pl_step_mem)
qed

text \<open>When the pipeline reports Halt, the single-cycle CPU would halt at the drained state.\<close>

lemma halt_precise:
  assumes inv: "pipe_inv s" and h: "halt_ok s" and r: "fst (pl_step s) = StHalt"
  shows "self_jump (a_mem (drain s)) (a_pc (drain s))"
proof -
  from r have w: "memwb_valid (pl_mem_wb s)" "memwb_is_halt (pl_mem_wb s)" and t: "cy_trap s = None"
    by (auto simp: pl_step_result split: if_splits)
  have nt: "mo_trap (cy_mem s) = None" using t by (auto simp: cy_trap_def split: if_splits)
  have "\<not> (exmem_valid (pl_ex_mem s) \<and> c_mem_write (exmem_ctrl (pl_ex_mem s)))"
    using h w by (auto simp: halt_ok_def)
  then have "cy_ram s = cpu_mem s" by (simp add: cy_ram_def memory_access_ram)
  then show ?thesis
    using h w by (simp add: drain_no_trap [OF nt] cy_arch_def halt_ok_def)
qed

section \<open>Results\<close>

lemma commit_outcome:
  assumes inv: "pipe_inv s" and c: "commits s"
  shows "arch_step (drain s) =
    (if cy_trap s \<noteq> None \<or> mo_trap (cy_mem (pl_after s)) \<noteq> None then StException
     else if a_pc (drain (pl_after s)) = a_pc (drain s) then StHalt else StOk, drain (pl_after s))"
proof -
  from c have nt: "mo_trap (cy_mem s) = None" by (simp add: commits_def)
  have st: "arch_step (drain s) =
      finish_ex (cy_ex s) (fall_through (cpu_mem s) (idex_pc (pl_id_ex s))) (drain s)"
    by (simp add: drain_no_trap [OF nt] commit_step [OF inv c])
  then have d: "drain (pl_after s) = snd (finish_ex (cy_ex s) (fall_through (cpu_mem s) (idex_pc (pl_id_ex s))) (drain s))"
    by (simp add: drain_step [OF inv] c)
  have tr: "cy_trap s = eo_trap (cy_ex s)" using nt by (simp add: cy_trap_def)
  have m: "mo_trap (cy_mem (pl_after s)) = mo_trap (fst (memory_access (eo_next (cy_ex s)) (a_mem (drain s))))"
    by (simp add: cy_mem_def [of "pl_after s"] pl_step_ex_mem pl_step_mem cy_ram_drain)
  show ?thesis
    unfolding st d tr m
    by (simp add: finish_ex_def step_outcome_def split_beta finish_mem_def Let_def split: option.split)
qed

definition calm :: "pl_cpu \<Rightarrow> bool" where
  "calm s \<longleftrightarrow> mo_trap (cy_mem s) = None \<and> \<not> (memwb_valid (pl_mem_wb s) \<and> memwb_is_halt (pl_mem_wb s))
     \<and> \<not> (exmem_valid (pl_ex_mem s) \<and> exmem_is_halt (pl_ex_mem s))"

lemma mem_next_calm:
  assumes "calm s"
  shows "\<not> (memwb_valid (mo_next (cy_mem s)) \<and> memwb_is_halt (mo_next (cy_mem s)))"
proof -
  have nt: "mo_trap (cy_mem s) = None" using assms by (simp add: calm_def)
  note nx = memory_access_next [OF nt [unfolded cy_mem_def], folded cy_mem_def]
  show ?thesis using assms nx by (auto simp: calm_def)
qed

lemma wait_cycle:
  assumes "pipe_inv s" "calm s" "\<not> commits s"
  shows "fst (pl_step s) = StOk" "calm (pl_after s)" "drain (pl_after s) = drain s"
proof -
  have nv: "\<not> idex_valid (pl_id_ex s)" and nt: "mo_trap (cy_mem s) = None"
    using assms(2,3) by (simp_all add: commits_def calm_def)
  then have ex: "cy_ex s = ex_outcome_empty" by (simp add: cy_ex_def execute_bubble)
  show "fst (pl_step s) = StOk"
    using assms(2) nt ex by (simp add: pl_step_result cy_trap_def calm_def)
  show "drain (pl_after s) = drain s" using drain_step [OF assms(1)] assms(3) by simp
  have "\<not> exmem_valid (pl_ex_mem (pl_after s))" by (rule no_commit_bubble [OF assms(3)])
  then show "calm (pl_after s)"
    using mem_next_calm [OF assms(2)] no_trap_bubble by (simp add: calm_def pl_step_mem_wb)
qed

lemma commit_straight:
  assumes inv: "pipe_inv s" and calm: "calm s" and c: "commits s"
    and ne: "fst (arch_step (drain s)) \<noteq> StException" and nj: "\<not> self_jump (a_mem (drain s)) (a_pc (drain s))"
  shows "fst (pl_step s) = StOk" "calm (pl_after s)" "drain (pl_after s) = snd (arch_step (drain s))"
proof -
  note o = commit_outcome [OF inv c]
  have t: "cy_trap s = None" and m: "mo_trap (cy_mem (pl_after s)) = None"
    using ne o by (auto split: if_splits)
  show "fst (pl_step s) = StOk" using calm t by (simp add: pl_step_result calm_def)
  show "drain (pl_after s) = snd (arch_step (drain s))" using drain_step [OF inv] c by simp
  have nt: "mo_trap (cy_mem s) = None" and v: "idex_valid (pl_id_ex s)" using c by (simp_all add: commits_def)
  have id: "id_ok s" using inv by (simp add: pipe_inv_def)
  have pc: "a_pc (drain s) = idex_pc (pl_id_ex s)"
    using v by (simp add: drain_no_trap [OF nt] cy_arch_def pl_next_def)
  have rd: "mem_read_word (cy_ram s) (idex_pc (pl_id_ex s)) = mem_read_word (cpu_mem s) (idex_pc (pl_id_ex s))"
    using inv v by (simp add: pipe_inv_def stable_ok_def)
  have "\<not> (exmem_valid (eo_next (cy_ex s)) \<and> exmem_is_halt (eo_next (cy_ex s)))"
  proof
    assume h: "exmem_valid (eo_next (cy_ex s)) \<and> exmem_is_halt (eo_next (cy_ex s))"
    have "idex_is_halt (pl_id_ex s)" using cy_ex_fields(2) [OF id] h by (simp add: ex_fields_ok_def)
    then have "self_jump (cpu_mem s) (idex_pc (pl_id_ex s))" by (rule idex_self_jump [OF id v])
    with nj rd show False by (simp add: self_jump_def pc cy_ram_drain [symmetric])
  qed
  then show "calm (pl_after s)"
    using m mem_next_calm [OF calm] by (simp add: calm_def pl_step_mem_wb pl_step_ex_mem)
qed

lemma commit_ok:
  assumes "pipe_inv s" "calm s" "commits s" and ok: "fst (arch_step (drain s)) = StOk"
  shows "fst (pl_step s) = StOk" "calm (pl_after s)" "drain (pl_after s) = snd (arch_step (drain s))"
  using commit_straight [OF assms(1-3)] ok arch_step_self_jump(1) [of "drain s"] by auto

text \<open>
  A single-cycle halt that is not a self-jump: the pipeline keeps executing the instruction for ever.
\<close>

lemma other_halt_runs_on:
  assumes "pipe_inv s" "halt_ok s" "calm s" "drain s = A" "arch_step A = (StHalt, A)"
    "\<not> self_jump (a_mem A) (a_pc A)"
  shows "fst (run_steps pl_step n s) = StOk"
  using assms(1-4)
proof (induction n arbitrary: s)
  case (Suc n)
  have "fetch_safe A" using assms(5) by (simp add: fetch_safe_def)
  with Suc.prems have inv: "pipe_inv (pl_after s)" and h: "halt_ok (pl_after s)"
    using pipe_inv_step halt_ok_step by auto
  have "fst (pl_step s) = StOk \<and> calm (pl_after s) \<and> drain (pl_after s) = A"
    using wait_cycle [OF Suc.prems(1,3)] commit_straight [OF Suc.prems(1,3)] Suc.prems(4) assms(5,6)
    by (cases "commits s") simp_all
  with Suc.IH [OF inv h] show ?case by (simp add: split_beta)
qed simp

lemma commit_exception:
  assumes inv: "pipe_inv s" and calm: "calm s" and c: "commits s" and ex: "fst (arch_step (drain s)) = StException"
  shows "\<exists>n. n \<le> 2 \<and> fst (run_steps pl_step n s) = StException
    \<and> drain (snd (run_steps pl_step n s)) = snd (arch_step (drain s))"
proof -
  note o = commit_outcome [OF inv c]
  have d: "drain (pl_after s) = snd (arch_step (drain s))" using drain_step [OF inv] c by simp
  obtain r s1 where s1: "pl_step s = (r, s1)" by (cases "pl_step s")
  show ?thesis
  proof (cases "cy_trap s")
    case (Some t)
    then have "r = StException" using s1 pl_step_result [of s] by simp
    with d s1 show ?thesis by (intro exI [of _ 1]) simp
  next
    case None
    then have "r = StOk" using s1 calm pl_step_result [of s] by (simp add: calm_def)
    from None ex o have m: "mo_trap (cy_mem s1) \<noteq> None" using s1 by (auto split: if_splits)
    obtain r2 s2 where s2: "pl_step s1 = (r2, s2)" by (cases "pl_step s1")
    have "r2 = StException" using m s2 pl_step_result [of s1] by (simp add: cy_trap_def)
    moreover have "drain s2 = drain s1"
      using m drain_trap_step [of s1] s2 by auto
    ultimately show ?thesis
      using s1 s2 \<open>r = StOk\<close> d by (intro exI [of _ 2]) (simp add: numeral_2_eq_2)
  qed
qed

text \<open>A calm pipeline reaches its next commit within four cycles, all reported \<open>Ok\<close>.\<close>

lemma wait_commit:
  assumes "pipe_inv s" "halt_ok s" "calm s" "commit_count g s \<noteq> 0"
  shows "\<exists>j<g. \<exists>s'. run_steps pl_step j s = (StOk, s') \<and> pipe_inv s' \<and> halt_ok s' \<and> calm s'
    \<and> commits s' \<and> drain s' = drain s"
  using assms
proof (induction g arbitrary: s)
  case 0
  then show ?case by simp
next
  case (Suc g)
  show ?case
  proof (cases "commits s")
    case True
    with Suc.prems show ?thesis by (intro exI [of _ 0]) simp
  next
    case False
    note w = wait_cycle [OF Suc.prems(1,3) False]
    have inv: "pipe_inv (pl_after s)" using pipe_inv_step [OF Suc.prems(1)] False by simp
    have cc: "commit_count g (pl_after s) \<noteq> 0" using Suc.prems(4) False by simp
    from Suc.IH [OF inv halt_ok_step [OF Suc.prems(1,2)] w(2) cc] obtain j s' where j: "j < g"
      "run_steps pl_step j (pl_after s) = (StOk, s')" "pipe_inv s' \<and> halt_ok s' \<and> calm s' \<and> commits s'"
      "drain s' = drain (pl_after s)" by blast
    obtain s1 where "pl_step s = (StOk, s1)" using w(1) by (cases "pl_step s") simp
    with j w(3) show ?thesis by (intro exI [of _ "Suc j"]) simp
  qed
qed

text \<open>From a commit of a self-jump, the pipeline halts two cycles later in the state after the jump.\<close>

lemma commit_halt:
  assumes inv: "pipe_inv s" and h: "halt_ok s" and calm: "calm s" and c: "commits s"
    and j: "self_jump (a_mem (drain s)) (a_pc (drain s))"
  shows "\<exists>s'. run_steps pl_step 3 s = (StHalt, s') \<and> drain s' = snd (arch_step (drain s))"
proof -
  have v: "idex_valid (pl_id_ex s)" and nt: "mo_trap (cy_mem s) = None" using c by (simp_all add: commits_def)
  have pc: "a_pc (drain s) = idex_pc (pl_id_ex s)"
    using v by (simp add: drain_no_trap [OF nt] cy_arch_def pl_next_def)
  have "mem_read_word (cy_ram s) (idex_pc (pl_id_ex s)) = mem_read_word (cpu_mem s) (idex_pc (pl_id_ex s))"
    using inv v by (simp add: pipe_inv_def stable_ok_def)
  with j have jc: "self_jump (cpu_mem s) (idex_pc (pl_id_ex s))"
    by (simp add: cy_ram_drain [symmetric] self_jump_def pc)
  have safe: "fetch_safe A" if "self_jump (a_mem A) (a_pc A)" for A
    using arch_step_self_jump(3) [OF that] by (simp add: fetch_safe_def)
  note e = self_jump_execute [OF inv c jc]
  define s1 where "s1 = pl_after s"
  have inv1: "pipe_inv s1" unfolding s1_def by (rule pipe_inv_step [OF inv]) (use j safe in simp)
  have h1: "halt_ok s1" unfolding s1_def by (rule halt_ok_step [OF inv h])
  have d1: "drain s1 = snd (arch_step (drain s))" using drain_step [OF inv] c by (simp add: s1_def)
  have x1: "exmem_valid (pl_ex_mem s1)" "exmem_is_halt (pl_ex_mem s1)"
    using e by (simp_all add: s1_def pl_step_ex_mem)
  have r1: "fst (pl_step s) = StOk" using calm e(2) by (simp add: pl_step_result calm_def)
  have j1: "self_jump (a_mem (drain s1)) (a_pc (drain s1))"
    using arch_step_self_jump(2,3) [OF j] j by (simp add: d1)
  have nm: "\<not> (exmem_valid (pl_ex_mem s1) \<and> (c_mem_read (exmem_ctrl (pl_ex_mem s1)) \<or> c_mem_write (exmem_ctrl (pl_ex_mem s1))))"
    using h1 x1 by (simp add: halt_ok_def)
  have nt1: "mo_trap (cy_mem s1) = None" and ram1: "cy_ram s1 = cpu_mem s1"
    using memory_access_idle [OF nm] by (simp_all add: cy_mem_def cy_ram_def)
  have pn1: "self_jump (cy_ram s1) (pl_next s1)"
    using j1 by (simp add: drain_no_trap [OF nt1] cy_arch_def)
  note a1 = at_self_jump_step [OF inv1 nt1 pn1]
  have "\<not> (memwb_valid (pl_mem_wb s1) \<and> memwb_is_halt (pl_mem_wb s1))"
    using mem_next_calm [OF calm] by (simp add: s1_def pl_step_mem_wb)
  then have r2: "fst (pl_step s1) = StOk" using a1(2) by (simp add: pl_step_result)
  define s2 where "s2 = pl_after s1"
  have inv2: "pipe_inv s2" unfolding s2_def by (rule pipe_inv_step [OF inv1]) (use j1 safe in simp)
  have h2: "halt_ok s2" unfolding s2_def by (rule halt_ok_step [OF inv1 h1])
  note nx = memory_access_next [OF nt1 [unfolded cy_mem_def], folded cy_mem_def]
  have w2: "memwb_valid (pl_mem_wb s2)" "memwb_is_halt (pl_mem_wb s2)"
    using nx x1 by (simp_all add: s2_def pl_step_mem_wb)
  have wf: "regs_wf (a_regs (drain s))"
    using inv by (simp add: drain_no_trap [OF nt] cy_arch_def pipe_inv_def)
  have fp: "snd (arch_step (drain s1)) = drain s1"
    using arch_step_self_jump(4) [OF j wf] by (simp add: d1)
  have d2: "drain s2 = drain s1" using drain_step [OF inv1] fp by (simp add: s2_def)
  have nm2: "\<not> (exmem_valid (pl_ex_mem s2) \<and> (c_mem_read (exmem_ctrl (pl_ex_mem s2)) \<or> c_mem_write (exmem_ctrl (pl_ex_mem s2))))"
    using h2 w2 by (auto simp: halt_ok_def)
  have nt2: "mo_trap (cy_mem s2) = None" and ram2: "cy_ram s2 = cpu_mem s2"
    using memory_access_idle [OF nm2] by (simp_all add: cy_mem_def cy_ram_def)
  have "self_jump (cy_ram s2) (pl_next s2)" using h2 w2 ram2 by (simp add: halt_ok_def)
  note a2 = at_self_jump_step [OF inv2 nt2 this]
  have r3: "fst (pl_step s2) = StHalt" using a2(2) w2 by (simp add: pl_step_result)
  have d3: "drain (pl_after s2) = drain s1" using drain_step [OF inv2] fp d2 by simp
  have "run_steps pl_step 3 s = (StHalt, pl_after s2)"
    using r1 r2 r3 by (simp add: numeral_3_eq_3 split_beta s1_def s2_def prod_eq_iff)
  with d3 d1 show ?thesis by simp
qed

section \<open>Running to the end\<close>

text \<open>
  The programs both back ends run alike, checked step by step along the single-cycle run: no step
  overwrites the two words that follow it, and a step that halts does so by a self-jump.
\<close>

fun run_safe :: "nat \<Rightarrow> arch \<Rightarrow> bool" where
  "run_safe 0 A \<longleftrightarrow> True"
| "run_safe (Suc k) A \<longleftrightarrow>
     fetch_safe A \<and> (fst (arch_step A) = StHalt \<longrightarrow> self_jump (a_mem A) (a_pc A))
     \<and> run_safe k (snd (arch_step A))"

lemma arch_step_no_fault: "fst (arch_step A) \<noteq> StFault"
  by (simp add: arch_step_def split_beta sc_step_no_fault)

lemma run_equivalence:
  assumes "pipe_inv s" "halt_ok s" "calm s" "run_steps arch_step k (drain s) = (r, B)" "r \<noteq> StOk"
    "run_safe k (drain s)"
  shows "\<exists>s'. run_steps pl_step (4 * k + 3) s = (r, s') \<and> drain s' = B"
  using assms
proof (induction k arbitrary: s)
  case 0
  then show ?case by simp
next
  case (Suc k)
  have "commit_count 4 s \<noteq> 0" using commit_within_four [of s] by simp
  from wait_commit [OF Suc.prems(1-3) this] obtain j s' where j: "j < 4" "run_steps pl_step j s = (StOk, s')"
    "pipe_inv s'" "halt_ok s'" "calm s'" "commits s'" and d: "drain s' = drain s" by blast
  obtain r1 B1 where st: "arch_step (drain s) = (r1, B1)" by (cases "arch_step (drain s)")
  have safe: "fetch_safe (drain s')" and hj: "r1 = StHalt \<Longrightarrow> self_jump (a_mem (drain s')) (a_pc (drain s'))"
    and rest: "run_safe k B1" using Suc.prems(6) st d by simp_all
  have fin: "\<exists>t. run_steps pl_step (4 * Suc k + 3) s = (r, t) \<and> drain t = B"
    if "run_steps pl_step n s' = (r, t)" "drain t = B" "j + n \<le> 4 * Suc k + 3" for n t
    using run_steps_then [OF j(2), of n] that run_steps_mono [OF _ Suc.prems(5) that(3), of pl_step s t] by simp
  show ?case
  proof (cases r1)
    case StOk
    then have ok: "fst (arch_step (drain s')) = StOk" using st d by simp
    note co = commit_ok [OF j(3,5,6) ok]
    have inv1: "pipe_inv (pl_after s')" using pipe_inv_step [OF j(3)] safe by simp
    have d1: "drain (pl_after s') = B1" using co(3) st d by simp
    have "run_steps arch_step k (drain (pl_after s')) = (r, B)" using Suc.prems(4) st StOk d1 by simp
    from Suc.IH [OF inv1 halt_ok_step [OF j(3,4)] co(2) this Suc.prems(5)] rest d1 obtain t where
      t: "run_steps pl_step (4 * k + 3) (pl_after s') = (r, t)" "drain t = B" by auto
    have "run_steps pl_step (Suc (4 * k + 3)) s' = (r, t)"
      unfolding run_steps.simps(2) split_beta using co(1) t(1) by simp
    from fin [OF this t(2)] j(1) show ?thesis by simp
  next
    case StException
    then have "r = StException" "B = B1" using Suc.prems(4) st by simp_all
    moreover have "fst (arch_step (drain s')) = StException" using st StException d by simp
    note commit_exception [OF j(3,5,6) this]
    ultimately obtain n where "n \<le> 2" "fst (run_steps pl_step n s') = r" "drain (snd (run_steps pl_step n s')) = B"
      using st d by auto
    with fin [of n "snd (run_steps pl_step n s')"] j(1) show ?thesis by (simp add: prod_eq_iff)
  next
    case StHalt
    then have "r = StHalt" "B = B1" using Suc.prems(4) st by simp_all
    with commit_halt [OF j(3-6) hj [OF StHalt]] st d obtain t where
      "run_steps pl_step 3 s' = (r, t)" "drain t = B" by auto
    with fin [of 3 t] j(1) show ?thesis by simp
  next
    case StFault
    then show ?thesis using arch_step_no_fault [of "drain s"] st by simp
  qed
qed

lemma pl_empty_calm: "pl_empty s \<Longrightarrow> calm s \<and> halt_ok s"
  by (simp add: pl_empty_def calm_def halt_ok_def no_trap_bubble)

section \<open>Traps carry the address of their instruction\<close>

lemma execute_trap_pc:
  assumes "eo_trap (execute ie exm mwb k) = Some t"
  shows "tr_pc t = idex_pc ie"
proof (cases "idex_early_trap ie")
  case (Some code)
  with assms show ?thesis by (auto simp: execute_def Let_def split: if_splits)
next
  case None
  have alu: "eo_trap (ex_alu ie ops out) = Some t \<Longrightarrow> eo_trap out = None \<Longrightarrow> tr_pc t = idex_pc ie" for ops out
    by (auto simp: ex_alu_def Let_def split: option.splits if_splits)
  have rest: "eo_trap (ex_jump ie out) = eo_trap out" "eo_trap (ex_branch ie ops out) = eo_trap out"
    "eo_trap (ex_register_jump ie ops out) = eo_trap out" "eo_trap (ex_cop0 ie ops k out) = eo_trap out" for ops out
    by (simp_all add: ex_jump_def ex_branch_def ex_register_jump_def ex_cop0_def Let_def)
  have trap: "eo_trap (ex_trap ie out) = Some t \<Longrightarrow> tr_pc t = idex_pc ie" for out
    by (auto simp: ex_trap_def Let_def)
  have drop: "eo_trap (if b then out\<lparr>eo_next := x\<rparr> else out) = eo_trap out" for b out x by simp
  from assms None show ?thesis
    unfolding execute_def Let_def by (auto simp: drop rest dest!: alu trap split: if_splits)
qed

lemma memory_trap_pc: "mo_trap (fst (memory_access x m)) = Some t \<Longrightarrow> tr_pc t = exmem_pc x"
  by (auto simp: memory_access_def Let_def split_beta split: option.splits if_splits)

section \<open>Properties\<close>

text \<open>C1: Running a program to its first exception or halt gives the same result on both back ends: from the same architectural state with an empty pipeline, if the single-cycle CPU stops within \<open>k\<close> steps, the five-stage pipeline stops with the same result within \<open>4 * k + 3\<close> cycles, and its drained state (registers, memory, coprocessor 0 and program counter) is the single-cycle CPU's. The program must not overwrite the two words after a running instruction and must halt by a J or JAL to itself.\<close>

theorem pipeline_run_equivalence:
  assumes "pl_empty p" and "regs_wf (cpu_regs p)" and "arch_of p = arch_of c"
    and "op_run sc_ops k c = (r, c')" and "r \<noteq> StOk" and "run_safe k (arch_of c)"
  shows "\<exists>p'. op_run pl_ops (4 * k + 3) p = (r, p') \<and> drain p' = arch_of c'"
proof -
  have "run_steps arch_step k (drain p) = (r, arch_of c')"
    using sc_run_arch [of k c] assms(1,3,4) by (simp add: op_run_def sc_ops_def pl_empty_drain)
  then show ?thesis
    using run_equivalence [of p k r "arch_of c'"] pl_empty_inv pl_empty_calm assms
    by (simp add: op_run_def pl_ops_def pl_empty_drain)
qed

text \<open>A program with a load-use hazard, a store and a self-jump.\<close>

definition demo_words :: "u32 list" where
  "demo_words = [0x24080005, 0xAC080020, 0x8C090020, 0x01285020, 0x08000004]"

definition demo_sc :: cpu where
  "demo_sc = snd (the (sc_load_program demo_words 0 (sc_create 64)))"

definition demo_pl :: pl_cpu where
  "demo_pl = snd (the (pl_load_program demo_words 0 (pl_create 64)))"

lemma demo_facts:
  "arch_of demo_pl = arch_of demo_sc" "pl_empty demo_pl" "regs_wf (cpu_regs demo_pl)"
  "fst (op_run sc_ops 5 demo_sc) = StHalt" "run_safe 5 (arch_of demo_sc)"
  "regs_read (cpu_regs (snd (op_run sc_ops 5 demo_sc))) 10 = 10"
  by code_simp+

lemma pipeline_run_equivalence_witness:
  "\<exists>p'. op_run pl_ops 23 demo_pl = (StHalt, p') \<and> regs_read (a_regs (drain p')) 10 = 10"
proof -
  obtain c' where c: "op_run sc_ops 5 demo_sc = (StHalt, c')" using demo_facts(4) by (cases "op_run sc_ops 5 demo_sc") simp
  then have "regs_read (a_regs (arch_of c')) 10 = 10" using demo_facts(6) by (simp add: arch_of_def)
  with pipeline_run_equivalence [OF demo_facts(2,3,1) c] demo_facts(5) show ?thesis by auto
qed


lemma demo_fetch_safe: "fetch_safe_upto 4 (arch_of demo_sc)"
  by code_simp



text \<open>A program whose first instruction is a misaligned load.\<close>

definition fault_pl :: pl_cpu where
  "fault_pl = snd (the (pl_load_program [0x8C080001, 0x24090001] 0 (pl_create 64)))"

lemma run_steps_cycles:
  "fst (run_steps f n c) = StOk \<Longrightarrow> run_steps f n c = (StOk, ((\<lambda>c. snd (f c)) ^^ n) c)"
proof (induction n arbitrary: c)
  case (Suc n)
  then show ?case by (cases "f c") (simp add: funpow_Suc_start del: funpow.simps split: if_splits)
qed simp

lemma fault_facts:
  "pl_empty fault_pl" "regs_wf (cpu_regs fault_pl)" "commit_count 3 fault_pl = 1" "fetch_safe_upto 1 (arch_of fault_pl)"
  "fst (run_steps pl_step 3 fault_pl) = StOk" "fst (run_steps pl_step 4 fault_pl) = StException"
  by code_simp+


end
