(* ===== verification/Text.thy ===== *)
theory Text
  imports Prelude
begin

text \<open>
  The C++ standard-library text operations the sources use: character classes of the C locale,
  \<open>std::from_chars\<close> and \<open>std::stoull\<close> on unsigned integers, \<open>std::getline\<close>, and the integer
  presentations of \<open>std::format\<close> and \<open>std::to_string\<close>. A string is a list of 8-bit characters.
  The main fact is that printing a number and reading it back are inverse in every base.
\<close>

section \<open>Characters\<close>

abbreviation code_of :: "char \<Rightarrow> nat" where
  "code_of c \<equiv> of_char c"

definition is_space :: "char \<Rightarrow> bool" where
  "is_space c \<longleftrightarrow> code_of c = 32 \<or> (9 \<le> code_of c \<and> code_of c \<le> 13)"

definition to_lower :: "char \<Rightarrow> char" where
  "to_lower c = (if 65 \<le> code_of c \<and> code_of c \<le> 90 then char_of (code_of c + 32) else c)"

definition to_upper :: "char \<Rightarrow> char" where
  "to_upper c = (if 97 \<le> code_of c \<and> code_of c \<le> 122 then char_of (code_of c - 32) else c)"

text \<open>Value of an alphanumeric digit; 36 for any other character.\<close>

definition digit_val :: "char \<Rightarrow> nat" where
  "digit_val c =
     (let n = code_of c
      in if 48 \<le> n \<and> n \<le> 57 then n - 48
         else if 97 \<le> n \<and> n \<le> 122 then n - 97 + 10
         else if 65 \<le> n \<and> n \<le> 90 then n - 65 + 10
         else 36)"

definition digit_char :: "bool \<Rightarrow> nat \<Rightarrow> char" where
  "digit_char upper d = char_of (if d < 10 then 48 + d else (if upper then 55 + d else 87 + d))"

text \<open>The tables of the letters, so that simplification never expands a character code.\<close>

lemma to_lower_letters [simp]:
  "to_lower (CHR ''A'') = CHR ''a''" "to_lower (CHR ''B'') = CHR ''b''"
    "to_lower (CHR ''C'') = CHR ''c''" "to_lower (CHR ''D'') = CHR ''d''"
    "to_lower (CHR ''E'') = CHR ''e''" "to_lower (CHR ''F'') = CHR ''f''"
    "to_lower (CHR ''G'') = CHR ''g''" "to_lower (CHR ''H'') = CHR ''h''"
    "to_lower (CHR ''I'') = CHR ''i''" "to_lower (CHR ''J'') = CHR ''j''"
    "to_lower (CHR ''K'') = CHR ''k''" "to_lower (CHR ''L'') = CHR ''l''"
    "to_lower (CHR ''M'') = CHR ''m''" "to_lower (CHR ''N'') = CHR ''n''"
    "to_lower (CHR ''O'') = CHR ''o''" "to_lower (CHR ''P'') = CHR ''p''"
    "to_lower (CHR ''Q'') = CHR ''q''" "to_lower (CHR ''R'') = CHR ''r''"
    "to_lower (CHR ''S'') = CHR ''s''" "to_lower (CHR ''T'') = CHR ''t''"
    "to_lower (CHR ''U'') = CHR ''u''" "to_lower (CHR ''V'') = CHR ''v''"
    "to_lower (CHR ''W'') = CHR ''w''" "to_lower (CHR ''X'') = CHR ''x''"
    "to_lower (CHR ''Y'') = CHR ''y''" "to_lower (CHR ''Z'') = CHR ''z''"
  by code_simp+

lemma to_upper_letters [simp]:
  "to_upper (CHR ''a'') = CHR ''A''" "to_upper (CHR ''b'') = CHR ''B''"
    "to_upper (CHR ''c'') = CHR ''C''" "to_upper (CHR ''d'') = CHR ''D''"
    "to_upper (CHR ''e'') = CHR ''E''" "to_upper (CHR ''f'') = CHR ''F''"
    "to_upper (CHR ''g'') = CHR ''G''" "to_upper (CHR ''h'') = CHR ''H''"
    "to_upper (CHR ''i'') = CHR ''I''" "to_upper (CHR ''j'') = CHR ''J''"
    "to_upper (CHR ''k'') = CHR ''K''" "to_upper (CHR ''l'') = CHR ''L''"
    "to_upper (CHR ''m'') = CHR ''M''" "to_upper (CHR ''n'') = CHR ''N''"
    "to_upper (CHR ''o'') = CHR ''O''" "to_upper (CHR ''p'') = CHR ''P''"
    "to_upper (CHR ''q'') = CHR ''Q''" "to_upper (CHR ''r'') = CHR ''R''"
    "to_upper (CHR ''s'') = CHR ''S''" "to_upper (CHR ''t'') = CHR ''T''"
    "to_upper (CHR ''u'') = CHR ''U''" "to_upper (CHR ''v'') = CHR ''V''"
    "to_upper (CHR ''w'') = CHR ''W''" "to_upper (CHR ''x'') = CHR ''X''"
    "to_upper (CHR ''y'') = CHR ''Y''" "to_upper (CHR ''z'') = CHR ''Z''"
  by code_simp+

lemma to_lower_id: "\<not> (65 \<le> code_of c \<and> code_of c \<le> 90) \<Longrightarrow> to_lower c = c"
  by (auto simp: to_lower_def)

lemma code_of_char_of: "n < 256 \<Longrightarrow> code_of (char_of n) = n"
  by (simp add: of_char_of)

lemma digit_char_numeral [simp]:
  "digit_char u 0 = CHR ''0''" "digit_char u (Suc 0) = CHR ''1''"
  by (simp_all add: digit_char_def char_of_def bit_0)

lemma digit_val_char: "d < 36 \<Longrightarrow> digit_val (digit_char upper d) = d"
  by (auto simp: digit_val_def digit_char_def Let_def code_of_char_of)

lemma digit_char_not_space: "d < 36 \<Longrightarrow> \<not> is_space (digit_char upper d)"
  by (auto simp: is_space_def digit_char_def code_of_char_of)

lemma digit_char_inj:
  "d < 36 \<Longrightarrow> e < 36 \<Longrightarrow> digit_char u d = digit_char u e \<longleftrightarrow> d = e"
  by (metis digit_val_char)

section \<open>Numbers as digits\<close>

fun digits_of :: "nat \<Rightarrow> nat \<Rightarrow> nat list" where
  "digits_of b n = (if b < 2 \<or> n < b then [n] else digits_of b (n div b) @ [n mod b])"

declare digits_of.simps [simp del]

definition digits_value :: "nat \<Rightarrow> nat list \<Rightarrow> nat" where
  "digits_value b ds = foldl (\<lambda>v d. v * b + d) 0 ds"

lemma digits_value_snoc [simp]: "digits_value b (ds @ [d]) = digits_value b ds * b + d"
  by (simp add: digits_value_def)

lemma digits_value_Nil [simp]: "digits_value b [] = 0"
  by (simp add: digits_value_def)

lemma digits_value_Cons: "digits_value b (d # ds) = d * b ^ length ds + digits_value b ds"
proof (induction ds rule: rev_induct)
  case Nil
  then show ?case using digits_value_snoc [of b "[]" d] by simp
next
  case (snoc x ds)
  have "digits_value b (d # ds @ [x]) = digits_value b ((d # ds) @ [x])" by simp
  then show ?case using snoc digits_value_snoc [of b "d # ds" x] by (simp add: algebra_simps)
qed

lemma digits_value_digits_of: "2 \<le> b \<Longrightarrow> digits_value b (digits_of b n) = n"
proof (induction n rule: less_induct)
  case (less n)
  show ?case
  proof (cases "n < b")
    case True
    then show ?thesis using digits_value_snoc [of b "[]" n] by (simp add: digits_of.simps [of b n])
  next
    case False
    then have "n div b < n" using less.prems by simp
    with less False show ?thesis by (simp add: digits_of.simps [of b n])
  qed
qed

lemma digits_of_bound: "2 \<le> b \<Longrightarrow> d \<in> set (digits_of b n) \<Longrightarrow> d < b"
proof (induction n rule: less_induct)
  case (less n)
  show ?case
  proof (cases "n < b")
    case True
    with less.prems show ?thesis by (simp add: digits_of.simps [of b n])
  next
    case False
    then have "n div b < n" using less.prems by simp
    note ih = less.IH [OF this less.prems(1)]
    have "d \<in> set (digits_of b (n div b)) \<or> d = n mod b"
      using less.prems False by (auto simp: digits_of.simps [of b n])
    then show ?thesis using ih less.prems(1) by auto
  qed
qed

lemma digits_of_not_Nil [simp]: "digits_of b n \<noteq> []"
  by (simp add: digits_of.simps [of b n])

lemma hd_digits_of: "2 \<le> b \<Longrightarrow> 0 < n \<Longrightarrow> 0 < hd (digits_of b n)"
proof (induction n rule: less_induct)
  case (less n)
  show ?case
  proof (cases "n < b")
    case True
    with less.prems show ?thesis by (simp add: digits_of.simps [of b n])
  next
    case False
    then have "n div b < n" "0 < n div b" using less.prems by (simp_all add: div_greater_zero_iff)
    with less False show ?thesis by (simp add: digits_of.simps [of b n])
  qed
qed

lemma length_digits_of: "2 \<le> b \<Longrightarrow> n < b ^ k \<Longrightarrow> 0 < k \<Longrightarrow> length (digits_of b n) \<le> k"
proof (induction k arbitrary: n)
  case (Suc k)
  show ?case
  proof (cases "n < b \<or> k = 0")
    case True
    then show ?thesis using Suc.prems by (auto simp: digits_of.simps [of b n])
  next
    case False
    then have "n div b < b ^ k" using Suc.prems by (simp add: less_mult_imp_div_less mult.commute)
    with Suc False show ?thesis by (simp add: digits_of.simps [of b n])
  qed
qed simp

section \<open>Printing\<close>

definition show_base :: "bool \<Rightarrow> nat \<Rightarrow> nat \<Rightarrow> string" where
  "show_base upper b n = map (digit_char upper) (digits_of b n)"

text \<open>\<open>std::format\<close> with a zero-padded width, as in \<open>{:08X}\<close>.\<close>

definition pad_zero :: "nat \<Rightarrow> string \<Rightarrow> string" where
  "pad_zero width s = replicate (width - length s) (CHR ''0'') @ s"

definition show_dec :: "nat \<Rightarrow> string" where
  "show_dec n = show_base False 10 n"

text \<open>\<open>std::format("{}")\<close> and \<open>{:+d}\<close> of a signed number.\<close>

definition show_int :: "int \<Rightarrow> string" where
  "show_int i = (if i < 0 then ''-'' @ show_dec (nat (- i)) else show_dec (nat i))"

definition show_signed :: "int \<Rightarrow> string" where
  "show_signed i = (if i < 0 then ''-'' @ show_dec (nat (- i)) else ''+'' @ show_dec (nat i))"

lemma digit_vals_show: "2 \<le> b \<Longrightarrow> b \<le> 36 \<Longrightarrow> map digit_val (show_base u b n) = digits_of b n"
  using digits_of_bound [of b _ n] by (force simp: show_base_def digit_val_char intro: map_idI)

lemma show_base_not_Nil [simp]: "show_base u b n \<noteq> []"
  by (simp add: show_base_def)

lemma length_show_base: "2 \<le> b \<Longrightarrow> n < b ^ w \<Longrightarrow> 0 < w \<Longrightarrow> length (show_base u b n) \<le> w"
  by (simp add: show_base_def length_digits_of)

section \<open>Reading\<close>

text \<open>The value of a string of digits, read most significant first.\<close>

definition read_digits :: "nat \<Rightarrow> string \<Rightarrow> nat" where
  "read_digits b s = digits_value b (map digit_val s)"

datatype from_chars_result =
    FcOk nat string      \<comment> \<open>the value and what follows the digits\<close>
  | FcInvalid            \<comment> \<open>no digit: \<open>invalid_argument\<close>\<close>
  | FcRange string       \<comment> \<open>too large: \<open>result_out_of_range\<close>, and what follows the digits\<close>

definition from_chars :: "nat \<Rightarrow> nat \<Rightarrow> string \<Rightarrow> from_chars_result" where
  "from_chars limit b s =
     (let ds = takeWhile (\<lambda>c. digit_val c < b) s; rest = dropWhile (\<lambda>c. digit_val c < b) s
      in if ds = [] then FcInvalid
         else if limit \<le> read_digits b ds then FcRange rest
         else FcOk (read_digits b ds) rest)"

text \<open>Reads the whole string, as the callers that compare the end pointer do.\<close>

definition from_chars_all :: "nat \<Rightarrow> nat \<Rightarrow> string \<Rightarrow> nat option" where
  "from_chars_all limit b s =
     (case from_chars limit b s of FcOk v [] \<Rightarrow> Some v | _ \<Rightarrow> None)"

lemma from_chars_all_iff:
  "from_chars_all limit b s = Some v \<longleftrightarrow>
     s \<noteq> [] \<and> (\<forall>c\<in>set s. digit_val c < b) \<and> v = read_digits b s \<and> v < limit"
proof (cases "\<forall>c\<in>set s. digit_val c < b")
  case True
  then have t: "takeWhile (\<lambda>c. digit_val c < b) s = s" and d: "dropWhile (\<lambda>c. digit_val c < b) s = []"
    by (simp_all add: takeWhile_eq_all_conv dropWhile_eq_Nil_conv)
  show ?thesis
    unfolding from_chars_all_def from_chars_def Let_def t d using True by auto
next
  case False
  then obtain x xs where d: "dropWhile (\<lambda>c. digit_val c < b) s = x # xs"
    by (cases "dropWhile (\<lambda>c. digit_val c < b) s") (auto simp: dropWhile_eq_Nil_conv)
  have "from_chars_all limit b s = None"
    unfolding from_chars_all_def from_chars_def Let_def d by simp
  with False show ?thesis by auto
qed

lemma read_show_base: "2 \<le> b \<Longrightarrow> b \<le> 36 \<Longrightarrow> read_digits b (show_base u b n) = n"
  by (simp add: read_digits_def digit_vals_show digits_value_digits_of)

lemma show_base_digits: "2 \<le> b \<Longrightarrow> b \<le> 36 \<Longrightarrow> c \<in> set (show_base u b n) \<Longrightarrow> digit_val c < b"
  using digits_of_bound [of b _ n] by (force simp: show_base_def digit_val_char)

lemma read_digits_zeros [simp]: "read_digits b (replicate k (CHR ''0'') @ s) = read_digits b s"
proof -
  have "digit_val (CHR ''0'') = 0" by (simp add: digit_val_def)
  then show ?thesis
    by (induction k) (simp_all add: read_digits_def digits_value_Cons)
qed

lemma from_chars_show:
  "2 \<le> b \<Longrightarrow> b \<le> 36 \<Longrightarrow> n < limit \<Longrightarrow> from_chars_all limit b (pad_zero w (show_base u b n)) = Some n"
proof -
  assume b: "2 \<le> b" "b \<le> 36" "n < limit"
  have z: "digit_val (CHR ''0'') < b" using b by (simp add: digit_val_def)
  show ?thesis
    unfolding from_chars_all_iff using b z show_base_digits [of b _ u n]
    by (auto simp: pad_zero_def read_show_base)
qed

text \<open>The same on a signed 32-bit number: a leading minus is part of the number, a plus is not.\<close>

definition from_chars_int32 :: "string \<Rightarrow> int option" where
  "from_chars_int32 s =
     (case s of
        c # ds \<Rightarrow>
          if c = CHR ''-'' then map_option (\<lambda>n. - int n) (from_chars_all (2 ^ 31 + 1) 10 ds)
          else map_option int (from_chars_all (2 ^ 31) 10 s)
      | [] \<Rightarrow> None)"

section \<open>Searching\<close>

text \<open>\<open>find\<close> of a character: its first position.\<close>

fun find_char :: "char \<Rightarrow> string \<Rightarrow> nat option" where
  "find_char c [] = None"
| "find_char c (x # xs) = (if x = c then Some 0 else map_option Suc (find_char c xs))"

lemma find_char_append [simp]: "c \<notin> set l \<Longrightarrow> find_char c (l @ c # s) = Some (length l)"
  by (induction l) auto

lemma find_char_skip: "c \<notin> set l \<Longrightarrow> find_char c (l @ s) = map_option (\<lambda>n. length l + n) (find_char c s)"
  by (cases "find_char c s"; induction l) auto

lemma find_char_None: "find_char c s = None \<longleftrightarrow> c \<notin> set s"
  by (induction s) auto

definition starts_with :: "string \<Rightarrow> string \<Rightarrow> bool" where
  "starts_with s prefix \<longleftrightarrow> take (length prefix) s = prefix"

text \<open>The dash the messages use, in UTF-8.\<close>

definition em_dash :: string where
  "em_dash = [CHR 0xE2, CHR 0x80, CHR 0x94]"

section \<open>Lines\<close>

text \<open>The lines a loop of \<open>std::getline\<close> sees.\<close>

fun get_lines :: "string \<Rightarrow> string list" where
  "get_lines [] = []"
| "get_lines (c # cs) =
     (if c = CHR 0x0A then [] # get_lines cs
      else case get_lines cs of
             [] \<Rightarrow> [[c]]
           | l # ls \<Rightarrow> (c # l) # ls)"

lemma get_lines_append:
  "CHR 0x0A \<notin> set l \<Longrightarrow> get_lines (l @ CHR 0x0A # s) = l # get_lines s"
  by (induction l) auto

end
