(* ===== verification/NumberConverter.thy ===== *)
theory NumberConverter
  imports Text
begin

text \<open>
  The number converter of the text front end: \<open>parse_base\<close> (\<open>src/nsc/parse.cpp\<close>), the formatters
  (\<open>src/nsc/format.cpp\<close>) and the class \<open>Converter\<close> (\<open>src/nsc/converter.cpp\<close>). The contract between
  the converter and its parser and printer is the locale \<open>radix_codec\<close>.
\<close>

unbundle bit_operations_syntax

section \<open>Parsing\<close>

definition digit_value :: "char \<Rightarrow> int" where
  "digit_value c =
     (let n = int (code_of c)
      in if 48 \<le> n \<and> n \<le> 57 then n - 48
         else if 97 \<le> n \<and> n \<le> 122 then n - 97 + 10
         else if 65 \<le> n \<and> n \<le> 90 then n - 65 + 10
         else -1)"

text \<open>\<open>std::stoull\<close> on a string of digits of the base: it throws only when the value does not fit.\<close>

definition stoull :: "nat \<Rightarrow> string \<Rightarrow> u64 option" where
  "stoull base s = (let v = read_digits base s in if v < 2 ^ 64 then Some (of_nat v) else None)"

definition parse_base :: "string \<Rightarrow> nat \<Rightarrow> u64 option" where
  "parse_base str base =
     (if str = [] then None
      else if list_ex (\<lambda>c. digit_value c < 0 \<or> int base \<le> digit_value c) str then None
      else stoull base str)"

section \<open>Formatting\<close>

text \<open>The loop of \<open>to_binary\<close>: least significant digit first.\<close>

function binary_loop :: "u64 \<Rightarrow> string \<Rightarrow> string" where
  "binary_loop v out =
     (if 0 < v then binary_loop (drop_bit 1 v) (out @ [if v AND 1 = 1 then CHR ''1'' else CHR ''0''])
      else out)"
  by auto

lemma unat_drop_bit_1: "unat (drop_bit 1 (v :: u64)) = unat v div 2"
proof -
  have "unat (drop_bit 1 v) = drop_bit 1 (take_bit LENGTH(64) (unat v))"
    by (simp only: unsigned_drop_bit_eq)
  moreover have "unat v < 2 ^ 64" using unsigned_less [of v] by simp
  ultimately show ?thesis by (simp only: take_bit_eq_mod drop_bit_eq_div) simp
qed

lemmas unat_halve = unat_drop_bit_1 unat_drop_bit_1 [unfolded One_nat_def]

termination binary_loop
proof (relation "measure (\<lambda>(v, out). unat v)")
  fix v :: u64 and out :: string
  assume "0 < v"
  then have "unat v \<noteq> 0" by (auto simp: unat_eq_0)
  then show "((drop_bit 1 v, out @ [if v AND 1 = 1 then CHR ''1'' else CHR ''0'']), v, out)
      \<in> measure (\<lambda>(v, out). unat v)"
    by (simp add: unat_halve del: drop_bit_eq_div)
qed simp

declare binary_loop.simps [simp del]

definition to_binary :: "u64 \<Rightarrow> string" where
  "to_binary v = (if v = 0 then ''0'' else rev (binary_loop v []))"

definition to_hex :: "u64 \<Rightarrow> string" where
  "to_hex v = show_base True 16 (unat v)"

definition to_decimal :: "u64 \<Rightarrow> string" where
  "to_decimal v = show_dec (unat v)"

text \<open>The two loops of \<open>group_bits\<close>.\<close>

function pad_nibble :: "string \<Rightarrow> string" where
  "pad_nibble bits = (if length bits mod 4 \<noteq> 0 then pad_nibble (CHR ''0'' # bits) else bits)"
  by auto

lemma mod4_cases: "(n :: nat) mod 4 \<in> {0, 1, 2, 3}"
proof -
  have "n mod 4 < 4" by simp
  then show ?thesis by auto
qed

termination pad_nibble
proof (relation "measure (\<lambda>bits. (4 - length bits mod 4) mod 4)")
  fix bits :: string
  assume "length bits mod 4 \<noteq> 0"
  then show "(CHR ''0'' # bits, bits) \<in> measure (\<lambda>bits. (4 - length bits mod 4) mod 4)"
    using mod4_cases [of "length bits"] by (auto simp: mod_Suc)
qed simp

declare pad_nibble.simps [simp del]

fun group_from :: "nat \<Rightarrow> string \<Rightarrow> string" where
  "group_from i [] = []"
| "group_from i (c # cs) = (if 0 < i \<and> i mod 4 = 0 then [CHR '' '', c] else [c]) @ group_from (Suc i) cs"

definition group_bits :: "u64 \<Rightarrow> string" where
  "group_bits v = group_from 0 (pad_nibble (to_binary v))"

section \<open>The converter\<close>

datatype base = Binary | Decimal | Hex

definition base_value :: "base \<Rightarrow> nat" where
  "base_value b = (case b of Binary \<Rightarrow> 2 | Decimal \<Rightarrow> 10 | Hex \<Rightarrow> 16)"

record converter =
  conv_value :: u64

definition conv_init :: converter where
  "conv_init = \<lparr>conv_value = 0\<rparr>"

definition conv_update :: "string \<Rightarrow> base \<Rightarrow> converter \<Rightarrow> bool \<times> converter" where
  "conv_update text b c =
     (case parse_base text (base_value b) of
        Some v \<Rightarrow> (True, c\<lparr>conv_value := v\<rparr>)
      | None \<Rightarrow> (False, c))"

definition conv_as :: "base \<Rightarrow> converter \<Rightarrow> string" where
  "conv_as b c =
     (case b of Binary \<Rightarrow> to_binary (conv_value c) | Decimal \<Rightarrow> to_decimal (conv_value c)
              | Hex \<Rightarrow> to_hex (conv_value c))"

definition conv_bits :: "converter \<Rightarrow> string" where
  "conv_bits c = group_bits (conv_value c)"

section \<open>The parser in closed form\<close>

lemma digit_value_val: "(digit_value c < 0 \<or> int b \<le> digit_value c) \<longleftrightarrow> b \<le> digit_val c" if "b \<le> 36"
  using that by (auto simp: digit_value_def digit_val_def Let_def)

lemma parse_base_Some:
  assumes "b \<le> 36"
  shows "parse_base s b = Some v \<longleftrightarrow>
    s \<noteq> [] \<and> (\<forall>c\<in>set s. digit_val c < b) \<and> read_digits b s < 2 ^ 64 \<and> v = of_nat (read_digits b s)"
proof -
  have "list_ex (\<lambda>c. digit_value c < 0 \<or> int b \<le> digit_value c) s \<longleftrightarrow> \<not> (\<forall>c\<in>set s. digit_val c < b)"
    using digit_value_val [OF assms] by (auto simp: list_ex_iff not_less)
  then show ?thesis by (auto simp: parse_base_def stoull_def Let_def)
qed

section \<open>Binary is a base like the others\<close>

lemma and_1_mod2: "unat ((v :: u64) AND 1) = unat v mod 2"
  using and_mask_unat [of v 1] by (simp add: mask_eq_exp_minus_1)

lemma binary_loop_digits:
  "binary_loop v out = out @ (if v = 0 then [] else rev (show_base True 2 (unat v)))"
proof (induction v out rule: binary_loop.induct)
  case (1 v out)
  show ?case
  proof (cases "v = 0")
    case True
    then show ?thesis by (simp add: binary_loop.simps)
  next
    case False
    then have pos: "0 < v" by (simp add: word_neq_0_conv)
    let ?c = "if v AND 1 = 1 then CHR ''1'' else CHR ''0''"
    have bit: "(v AND 1 = 1) \<longleftrightarrow> unat v mod 2 = 1"
      by (simp add: word_unat_eq_iff and_1_mod2)
    have c: "?c = digit_char True (unat v mod 2)"
      using bit mod2_eq_if [of "unat v"] by auto
    have h: "binary_loop (drop_bit 1 v) (out @ [?c]) =
        (out @ [?c]) @ (if drop_bit 1 v = 0 then [] else rev (show_base True 2 (unat (drop_bit 1 v))))"
      by (rule 1 [OF pos])
    have u: "unat v \<noteq> 0" using False by (simp add: unat_eq_0)
    have d0: "drop_bit 1 v = 0 \<longleftrightarrow> unat v < 2"
      unfolding word_unat_eq_iff unat_drop_bit_1 by (auto simp: div_eq_0_iff)
    have "show_base True 2 (unat v) =
        (if unat v < 2 then [?c] else show_base True 2 (unat v div 2) @ [?c])"
      using c by (simp add: show_base_def digits_of.simps [of 2 "unat v"])
    with h d0 False pos show ?thesis
      by (simp add: binary_loop.simps [of v out] unat_halve del: drop_bit_eq_div)
  qed
qed

lemma to_binary_show: "to_binary v = show_base True 2 (unat v)"
  by (simp add: to_binary_def binary_loop_digits show_base_def digits_of.simps [of 2 0])

lemma conv_as_show: "conv_as b c = show_base (b \<noteq> Decimal) (base_value b) (unat (conv_value c))"
  by (cases b) (simp_all add: conv_as_def to_binary_show to_decimal_def to_hex_def show_dec_def base_value_def)

section \<open>The contract between converter, parser and printer\<close>

text \<open>A codec of a set of numbers in several radices: every printed number is read back.\<close>

locale radix_codec =
  fixes dec :: "string \<Rightarrow> 'b \<Rightarrow> 'v option"
    and enc :: "'b \<Rightarrow> 'v \<Rightarrow> string"
  assumes dec_enc: "dec (enc b v) b = Some v"
begin

lemma enc_inj: "enc b v = enc b w \<Longrightarrow> v = w"
  using dec_enc by (metis option.inject)

text \<open>Reading a text and printing it in another radix, then back, recovers the first printing.\<close>

lemma transcode:
  assumes "dec s b = Some v"
  shows "dec (enc b' v) b' = dec s b"
  using assms by (simp add: dec_enc)

end

lemma parse_base_show:
  assumes "2 \<le> base_value b"
  shows "parse_base (conv_as b \<lparr>conv_value = v\<rparr>) (base_value b) = Some v"
proof -
  have r: "2 \<le> base_value b" "base_value b \<le> 36" by (cases b; simp add: base_value_def)+
  have "unat v < 2 ^ 64" using unsigned_less [of v] by simp
  then show ?thesis
    unfolding parse_base_Some [OF r(2)] conv_as_show
    using r show_base_digits [of "base_value b" _ "b \<noteq> Decimal" "unat v"] by (simp add: read_show_base)
qed

interpretation radix: radix_codec "\<lambda>s b. parse_base s (base_value b)" "\<lambda>b v. conv_as b \<lparr>conv_value = v\<rparr>"
proof
  fix b and v :: u64
  have "2 \<le> base_value b" by (cases b) (simp_all add: base_value_def)
  then show "parse_base (conv_as b \<lparr>conv_value = v\<rparr>) (base_value b) = Some v"
    by (rule parse_base_show)
qed

section \<open>Nibble groups\<close>

lemma pad_nibble_step: "length s mod 4 \<noteq> 0 \<Longrightarrow> pad_nibble s = pad_nibble (CHR ''0'' # s)"
  by (subst pad_nibble.simps) simp

lemma pad_nibble_stop: "length s mod 4 = 0 \<Longrightarrow> pad_nibble s = s"
  by (subst pad_nibble.simps) simp

lemma pad_nibble_zeros: "\<exists>k. k < 4 \<and> pad_nibble s = replicate k (CHR ''0'') @ s \<and> length (pad_nibble s) mod 4 = 0"
proof -
  let ?z = "CHR ''0''"
  consider "length s mod 4 = 0" | "length s mod 4 = 3" | "length s mod 4 = 2" | "length s mod 4 = 1"
    using mod4_cases [of "length s"] by auto
  then show ?thesis
  proof cases
    case 1
    then show ?thesis by (intro exI [of _ 0]) (simp add: pad_nibble_stop)
  next
    case 2
    then have l: "length (?z # s) mod 4 = 0" by (simp add: mod_Suc)
    have "pad_nibble s = ?z # s" using 2 l by (subst pad_nibble_step) (simp_all add: pad_nibble_stop)
    with l show ?thesis by (intro exI [of _ 1]) simp
  next
    case 3
    then have l: "length (?z # s) mod 4 = 3" "length (?z # ?z # s) mod 4 = 0" by (simp_all add: mod_Suc)
    have "pad_nibble s = pad_nibble (?z # s)" using 3 by (intro pad_nibble_step) simp
    also have "\<dots> = pad_nibble (?z # ?z # s)" using l(1) by (intro pad_nibble_step) simp
    also have "\<dots> = ?z # ?z # s" by (rule pad_nibble_stop [OF l(2)])
    finally have p: "pad_nibble s = replicate 2 ?z @ s" by (simp only: numeral_2_eq_2 replicate.simps append.simps)
    have "length (replicate 2 ?z @ s) mod 4 = 0"
      using l(2) by (simp only: numeral_2_eq_2 replicate.simps append.simps)
    with p show ?thesis by (intro exI [of _ 2]) simp
  next
    case 4
    then have l: "length (?z # s) mod 4 = 2" "length (?z # ?z # s) mod 4 = 3" "length (?z # ?z # ?z # s) mod 4 = 0"
      by (simp_all add: mod_Suc)
    have "pad_nibble s = pad_nibble (?z # s)" using 4 by (intro pad_nibble_step) simp
    also have "\<dots> = pad_nibble (?z # ?z # s)" using l(1) by (intro pad_nibble_step) simp
    also have "\<dots> = pad_nibble (?z # ?z # ?z # s)" using l(2) by (intro pad_nibble_step) simp
    also have "\<dots> = ?z # ?z # ?z # s" by (rule pad_nibble_stop [OF l(3)])
    finally have p: "pad_nibble s = replicate 3 ?z @ s" by (simp only: numeral_3_eq_3 replicate.simps append.simps)
    have "length (replicate 3 ?z @ s) mod 4 = 0"
      using l(3) by (simp only: numeral_3_eq_3 replicate.simps append.simps)
    with p show ?thesis by (intro exI [of _ 3]) simp
  qed
qed

lemma group_from_filter: "CHR '' '' \<notin> set s \<Longrightarrow> filter (\<lambda>c. c \<noteq> CHR '' '') (group_from i s) = s"
  by (induction s arbitrary: i) auto

section \<open>Properties\<close>



end
