(* ===== verification/ProgramLoader.thy ===== *)
theory ProgramLoader
  imports Text
begin

text \<open>
  The hex program loader (\<open>include/mips/program_loader.h\<close>, \<open>src/mips/program_loader.cpp\<close>): one
  32-bit word per line, comments from \<open>#\<close> to the end of the line, blank lines ignored, and the
  first line that is not a word reported by its number. A stream is the list of its characters;
  opening a file is the parameter \<open>open_file\<close> of \<open>load_hex_file\<close>.
\<close>

section \<open>The loader\<close>

record hex_program =
  hp_words :: "u32 list"
  hp_error :: "string option"

definition hp_ok :: "hex_program \<Rightarrow> bool" where
  "hp_ok p \<longleftrightarrow> hp_error p = None"

text \<open>Strip the comment, then all whitespace.\<close>

definition hex_clean :: "string \<Rightarrow> string" where
  "hex_clean line = filter (\<lambda>c. \<not> is_space c) (takeWhile (\<lambda>c. c \<noteq> CHR ''#'') line)"

text \<open>Drop an optional \<open>0x\<close> prefix; a bare \<open>0x\<close> is kept and fails to parse.\<close>

definition hex_token :: "string \<Rightarrow> string" where
  "hex_token clean =
     (if 2 < length clean \<and> clean ! 0 = CHR ''0'' \<and> (clean ! 1 = CHR ''x'' \<or> clean ! 1 = CHR ''X'')
      then drop 2 clean else clean)"

text \<open>The loop of \<open>parse_hex_program\<close>: \<open>n\<close> lines are read, \<open>ws\<close> are the words so far.\<close>

fun parse_hex_lines :: "nat \<Rightarrow> u32 list \<Rightarrow> string list \<Rightarrow> hex_program" where
  "parse_hex_lines n ws [] = \<lparr>hp_words = ws, hp_error = None\<rparr>"
| "parse_hex_lines n ws (line # rest) =
     (let clean = hex_clean line
      in if clean = [] then parse_hex_lines (Suc n) ws rest
         else case from_chars_all (2 ^ 32) 16 (hex_token clean) of
                None \<Rightarrow> \<lparr>hp_words = [], hp_error = Some (''Bad hex on line '' @ show_dec (Suc n))\<rparr>
              | Some v \<Rightarrow> parse_hex_lines (Suc n) (ws @ [of_nat v]) rest)"

definition parse_hex_program :: "string \<Rightarrow> hex_program" where
  "parse_hex_program input = parse_hex_lines 0 [] (get_lines input)"

definition load_hex_file :: "(string \<Rightarrow> string option) \<Rightarrow> string \<Rightarrow> hex_program" where
  "load_hex_file open_file path =
     (case open_file path of
        None \<Rightarrow> \<lparr>hp_words = [], hp_error = Some (''Cannot open '' @ [CHR 0x27] @ path @ [CHR 0x27])\<rparr>
      | Some input \<Rightarrow> parse_hex_program input)"

section \<open>Listings\<close>

text \<open>
  The reading of one line: \<open>Some None\<close> is a blank or comment line, \<open>Some (Some w)\<close> a word, \<open>None\<close> a
  line the format does not allow.
\<close>

definition hex_line :: "string \<Rightarrow> u32 option option" where
  "hex_line line =
     (let t = hex_token (hex_clean line)
      in if hex_clean line = [] then Some None
         else if (\<forall>c\<in>set t. digit_val c < 16) \<and> t \<noteq> [] \<and> read_digits 16 t < 2 ^ 32
              then Some (Some (of_nat (read_digits 16 t)))
              else None)"

lemma parse_hex_lines_Cons:
  "parse_hex_lines n ws (l # ls) =
     (case hex_line l of
        None \<Rightarrow> \<lparr>hp_words = [], hp_error = Some (''Bad hex on line '' @ show_dec (Suc n))\<rparr>
      | Some None \<Rightarrow> parse_hex_lines (Suc n) ws ls
      | Some (Some w) \<Rightarrow> parse_hex_lines (Suc n) (ws @ [w]) ls)"
proof -
  let ?t = "hex_token (hex_clean l)"
  have "from_chars_all (2 ^ 32) 16 ?t =
      (if (\<forall>c\<in>set ?t. digit_val c < 16) \<and> ?t \<noteq> [] \<and> read_digits 16 ?t < 2 ^ 32
       then Some (read_digits 16 ?t) else None)"
    using from_chars_all_iff [of "2 ^ 32" 16 ?t] by (cases "from_chars_all (2 ^ 32) 16 ?t") auto
  then show ?thesis by (simp add: hex_line_def Let_def)
qed

declare parse_hex_lines.simps(2) [simp del]

lemma parse_hex_lines_good:
  assumes "list_all2 (\<lambda>l e. hex_line l = Some e) ls es"
  shows "parse_hex_lines n ws (ls @ later) =
    parse_hex_lines (n + length ls) (ws @ List.map_filter id es) later"
  using assms
proof (induction ls es arbitrary: n ws rule: list_all2_induct)
  case (Cons l ls e es)
  then show ?case
    by (cases e) (simp_all add: parse_hex_lines_Cons map_filter_simps)
qed (simp add: map_filter_simps)

lemma parse_hex_lines_ok:
  "hp_ok (parse_hex_lines n ws ls) \<longleftrightarrow> (\<forall>l\<in>set ls. hex_line l \<noteq> None)"
proof (induction ls arbitrary: n ws)
  case (Cons l ls)
  show ?case
  proof (cases "hex_line l")
    case None
    then show ?thesis by (simp add: parse_hex_lines_Cons hp_ok_def)
  next
    case (Some e)
    with Cons show ?thesis by (cases e) (simp_all add: parse_hex_lines_Cons)
  qed
qed (simp add: hp_ok_def)

text \<open>An error leaves no words behind.\<close>

lemma parse_hex_lines_error: "\<not> hp_ok (parse_hex_lines n ws ls) \<Longrightarrow> hp_words (parse_hex_lines n ws ls) = []"
proof (induction ls arbitrary: n ws)
  case (Cons l ls)
  show ?case
  proof (cases "hex_line l")
    case None
    then show ?thesis by (simp add: parse_hex_lines_Cons)
  next
    case (Some e)
    with Cons show ?thesis by (cases e) (simp_all add: parse_hex_lines_Cons)
  qed
qed (simp add: hp_ok_def)

text \<open>A printed listing: each line an optional word, with or without prefix, and a comment.\<close>

record hex_entry =
  he_word :: "u32 option"
  he_prefix :: bool
  he_upper :: bool
  he_comment :: string

definition listing_line :: "hex_entry \<Rightarrow> string" where
  "listing_line e =
     (case he_word e of
        None \<Rightarrow> []
      | Some w \<Rightarrow> (if he_prefix e then ''0x'' else []) @ pad_zero 8 (show_base (he_upper e) 16 (unat w)) @ '' '')
     @ ''#'' @ he_comment e"

definition listing :: "hex_entry list \<Rightarrow> string" where
  "listing es = concat (map (\<lambda>e. listing_line e @ [CHR 0x0A]) es)"

abbreviation one_line :: "string \<Rightarrow> bool" where
  "one_line s \<equiv> CHR 0x0A \<notin> set s"

lemma hex_digit_char:
  assumes "digit_val c < 16"
  shows "\<not> is_space c" "c \<noteq> CHR ''#''" "c \<noteq> CHR 0x0A" "c \<noteq> CHR ''x''" "c \<noteq> CHR ''X''"
proof -
  show "\<not> is_space c"
    using assms by (auto simp: digit_val_def is_space_def Let_def split: if_splits)
  show "c \<noteq> CHR ''#''" "c \<noteq> CHR 0x0A" "c \<noteq> CHR ''x''" "c \<noteq> CHR ''X''"
    using assms by (auto simp: digit_val_def Let_def)
qed

lemma hex_text:
  "c \<in> set (pad_zero 8 (show_base u 16 (unat (w :: u32)))) \<Longrightarrow> digit_val c < 16"
  using show_base_digits [of 16 c u "unat w"]
  by (auto simp: pad_zero_def digit_val_def [of "CHR ''0''"])

lemma hex_line_entry: "hex_line (listing_line e) = Some (he_word e)"
proof (cases "he_word e")
  case None
  then show ?thesis by (simp add: listing_line_def hex_line_def hex_clean_def)
next
  case (Some w)
  let ?t = "pad_zero 8 (show_base (he_upper e) 16 (unat w))"
  let ?s = "(if he_prefix e then ''0x'' else []) @ ?t"
  have d: "c \<in> set ?t \<Longrightarrow> digit_val c < 16" for c by (rule hex_text)
  have t: "?t \<noteq> []" "read_digits 16 ?t = unat w"
    by (simp_all add: pad_zero_def read_show_base)
  have c: "hex_clean (listing_line e) = ?s"
  proof -
    have h: "\<forall>c\<in>set (?s @ '' ''). c \<noteq> CHR ''#''" using d hex_digit_char(2) by auto
    have "hex_clean (listing_line e) = filter (\<lambda>c. \<not> is_space c) (?s @ '' '')"
    proof -
      have l: "listing_line e = (?s @ '' '') @ CHR ''#'' # he_comment e"
        by (simp add: listing_line_def Some)
      have "takeWhile (\<lambda>c. c \<noteq> CHR ''#'') ((?s @ '' '') @ CHR ''#'' # he_comment e) = ?s @ '' ''"
        by (subst takeWhile_append2) (use h in auto)
      then show ?thesis by (simp only: hex_clean_def l)
    qed
    also have "\<dots> = ?s"
    proof -
      have "\<forall>c\<in>set ?s. \<not> is_space c" using d hex_digit_char(1) by (auto simp: is_space_def)
      then have "filter (\<lambda>c. \<not> is_space c) ?s = ?s" by (simp only: filter_id_conv)
      moreover have "is_space (CHR '' '')" by (simp add: is_space_def)
      ultimately show ?thesis by (simp only: filter_append) simp
    qed
    finally show ?thesis .
  qed
  have tok: "hex_token ?s = ?t"
  proof (cases "he_prefix e")
    case True
    then show ?thesis using t by (simp add: hex_token_def)
  next
    case False
    have "2 < length ?t \<Longrightarrow> ?t ! 1 \<in> set ?t" by (intro nth_mem) simp
    then have "2 < length ?t \<Longrightarrow> ?t ! 1 \<noteq> CHR ''x'' \<and> ?t ! 1 \<noteq> CHR ''X''"
      using d hex_digit_char(4,5) by blast
    then show ?thesis unfolding hex_token_def using False by auto
  qed
  have "unat w < 2 ^ 32" by simp
  with c tok t d Some show ?thesis by (simp add: hex_line_def Let_def)
qed

lemma listing_lines:
  assumes "\<forall>e\<in>set es. one_line (he_comment e)"
  shows "get_lines (listing es @ s) = map listing_line es @ get_lines s"
  using assms
proof (induction es)
  case (Cons e es)
  have "one_line (listing_line e)"
    using Cons.prems hex_digit_char(3) hex_text
    by (fastforce simp: listing_line_def split: option.splits)
  with Cons show ?case
    by (simp add: listing_def get_lines_append)
qed (simp add: listing_def)

section \<open>Property\<close>

text \<open>C7: A printed listing (words with or without prefix, in either case of the digits, comments and comment-only lines) is read back as exactly its words. Appending a line that is not blank and not a hex word that fits in 32 bits makes the loader report the number of that line and return no words, whatever follows it; and the loader reports an error exactly when some line is of that kind.\<close>

theorem hex_listing_round_trip:
  assumes "\<forall>e\<in>set es. one_line (he_comment e)" "one_line bad" "hex_line bad = None"
  shows "parse_hex_program (listing es) = \<lparr>hp_words = List.map_filter he_word es, hp_error = None\<rparr>
    \<and> parse_hex_program (listing es @ bad @ [CHR 0x0A] @ later) =
        \<lparr>hp_words = [], hp_error = Some (''Bad hex on line '' @ show_dec (Suc (length es)))\<rparr>
    \<and> (hp_ok (parse_hex_program input) \<longleftrightarrow> (\<forall>l\<in>set (get_lines input). hex_line l \<noteq> None))"
proof -
  have a: "list_all2 (\<lambda>l e. hex_line l = Some e) (map listing_line es) (map he_word es)"
    by (simp add: list_all2_conv_all_nth hex_line_entry)
  have m: "List.map_filter id (map he_word es) = List.map_filter he_word es"
    by (simp add: map_filter_def filter_map o_def)
  have "get_lines (listing es) = map listing_line es"
    using listing_lines [OF assms(1), of "[]"] by simp
  then have 1: "parse_hex_program (listing es) = \<lparr>hp_words = List.map_filter he_word es, hp_error = None\<rparr>"
    using parse_hex_lines_good [OF a, of 0 "[]" "[]"] by (simp add: parse_hex_program_def m)
  have "get_lines (listing es @ bad @ [CHR 0x0A] @ later) = map listing_line es @ bad # get_lines later"
    using listing_lines [OF assms(1)] get_lines_append [OF assms(2)] by simp
  then have 2: "parse_hex_program (listing es @ bad @ [CHR 0x0A] @ later) =
      \<lparr>hp_words = [], hp_error = Some (''Bad hex on line '' @ show_dec (Suc (length es)))\<rparr>"
    using parse_hex_lines_good [OF a, of 0 "[]"]
    by (simp add: parse_hex_program_def parse_hex_lines_Cons assms(3))
  from 1 2 parse_hex_lines_ok show ?thesis unfolding parse_hex_program_def by blast
qed

definition demo_listing :: "hex_entry list" where
  "demo_listing =
    [\<lparr>he_word = None, he_prefix = False, he_upper = False, he_comment = ''demo''\<rparr>,
     \<lparr>he_word = Some 0x2008000A, he_prefix = True, he_upper = True, he_comment = ''addi''\<rparr>]"

lemma hex_listing_round_trip_witness:
  "hp_words (parse_hex_program (listing demo_listing)) = [0x2008000A]
   \<and> hp_error (parse_hex_program (listing demo_listing @ ''12g'' @ [CHR 0x0A])) = Some ''Bad hex on line 3''"
proof -
  have b: "hex_line ''12g'' = None"
    by (simp add: hex_line_def hex_clean_def hex_token_def is_space_def digit_val_def)
  have p: "\<forall>e\<in>set demo_listing. one_line (he_comment e)" "one_line ''12g''"
    by (simp_all add: demo_listing_def)
  have n: "show_dec 3 = ''3''"
    by (simp add: show_dec_def show_base_def digits_of.simps [of 10 3] digit_char_def char_of_def bit_numeral_rec bit_0)
  show ?thesis
    using hex_listing_round_trip [OF p b, of "[]" "[]"] n
    by (simp add: demo_listing_def map_filter_simps numeral_3_eq_3)
qed

end
