(* ===== verification/Assembler.thy ===== *)
theory Assembler
  imports Decoder Registers Text
begin

text \<open>
  The two-pass assembler (\<open>include/nsc_qt/assembler.h\<close>, \<open>src/nsc_qt/assembler.cpp\<close>): operand
  parsers, the encoders and their tables, the first pass that collects labels and lines, and the
  second pass that encodes each line or stops at the first line in error. The constant hash maps
  are association lists, a \<open>std::optional\<close> is an option and the closure \<open>err\<close> the left of a sum.
  \<open>int32_t\<close> values are integers, with \<open>to_i32\<close> at every conversion from unsigned.
\<close>

unbundle bit_operations_syntax

section \<open>Operands\<close>

definition to_i32 :: "int \<Rightarrow> int" where
  "to_i32 i = sint (word_of_int i :: u32)"

lemma to_i32_id [simp]: "- 2147483648 \<le> i \<Longrightarrow> i < 2147483648 \<Longrightarrow> to_i32 i = i"
  by (simp add: to_i32_def signed_of_int signed_take_bit_int_eq_self)

lemma to_i32_wrap: "2147483648 \<le> i \<Longrightarrow> i < 4294967296 \<Longrightarrow> to_i32 i = i - 4294967296"
proof -
  assume h: "2147483648 \<le> i" "i < 4294967296"
  have "(word_of_int i :: u32) = word_of_int (i - 4294967296)"
    by (simp flip: word_of_int_eq_iff add: take_bit_int_def word_of_int_eq_iff mod_diff_right_eq)
  then have "to_i32 i = to_i32 (i - 4294967296)" by (simp only: to_i32_def)
  also have "\<dots> = i - 4294967296" using h by (intro to_i32_id) simp_all
  finally show ?thesis .
qed

definition kRegMap :: "(string \<times> u8) list" where
  "kRegMap =
    [(''zero'', 0), (''at'', 1), (''v0'', 2), (''v1'', 3), (''a0'', 4), (''a1'', 5), (''a2'', 6), (''a3'', 7),
     (''t0'', 8), (''t1'', 9), (''t2'', 10), (''t3'', 11), (''t4'', 12), (''t5'', 13), (''t6'', 14), (''t7'', 15),
     (''s0'', 16), (''s1'', 17), (''s2'', 18), (''s3'', 19), (''s4'', 20), (''s5'', 21), (''s6'', 22), (''s7'', 23),
     (''t8'', 24), (''t9'', 25), (''k0'', 26), (''k1'', 27), (''gp'', 28), (''sp'', 29), (''fp'', 30), (''ra'', 31)]"

definition is_digit :: "char \<Rightarrow> bool" where
  "is_digit c \<longleftrightarrow> 48 \<le> code_of c \<and> code_of c \<le> 57"

definition parse_reg :: "string \<Rightarrow> u8 option" where
  "parse_reg tok =
     (case tok of
        [] \<Rightarrow> None
      | d # name \<Rightarrow>
          if d \<noteq> CHR ''$'' then None
          else if name \<noteq> [] \<and> is_digit (hd name) then
            (case from_chars_int32 name of
               Some n \<Rightarrow> if 0 \<le> n \<and> n < 32 then Some (word_of_int n) else None
             | None \<Rightarrow> None)
          else map_of kRegMap name)"

definition has_hex_prefix :: "string \<Rightarrow> bool" where
  "has_hex_prefix tok \<longleftrightarrow>
     2 < length tok \<and> tok ! 0 = CHR ''0'' \<and> (tok ! 1 = CHR ''x'' \<or> tok ! 1 = CHR ''X'')"

definition parse_imm :: "string \<Rightarrow> int option" where
  "parse_imm tok =
     (if tok = [] then None
      else let neg = (hd tok = CHR ''-'');
               t = (if neg then tl tok else tok);
               val = (if has_hex_prefix t
                      then map_option (\<lambda>u. to_i32 (int u)) (from_chars_all (2 ^ 32) 16 (drop 2 t))
                      else from_chars_int32 t)
           in map_option (\<lambda>v. if neg then to_i32 (- v) else v) val)"

definition parse_mem_operand :: "string \<Rightarrow> (int \<times> u8) option" where
  "parse_mem_operand tok =
     (case (find_char (CHR ''('') tok, find_char (CHR '')'') tok) of
        (Some lp, Some rp) \<Rightarrow>
          if rp < lp then None
          else (case (parse_imm (take lp tok), parse_reg (take (rp - lp - 1) (drop (lp + 1) tok))) of
                  (Some imm, Some reg) \<Rightarrow> Some (imm, reg)
                | _ \<Rightarrow> None)
      | _ \<Rightarrow> None)"

definition kSimm16Min :: int where "kSimm16Min = -32768"
definition kSimm16Max :: int where "kSimm16Max = 32767"
definition kUimm16Max :: int where "kUimm16Max = 0xFFFF"
definition kJumpTargetMax :: int where "kJumpTargetMax = 0x03FFFFFF"

definition fits_simm16 :: "int \<Rightarrow> bool" where
  "fits_simm16 v \<longleftrightarrow> kSimm16Min \<le> v \<and> v \<le> kSimm16Max"

definition fits_uimm16 :: "int \<Rightarrow> bool" where
  "fits_uimm16 v \<longleftrightarrow> 0 \<le> v \<and> v \<le> kUimm16Max"

section \<open>Encoders and tables\<close>

definition enc_r :: "u8 \<Rightarrow> u8 \<Rightarrow> u8 \<Rightarrow> u8 \<Rightarrow> u8 \<Rightarrow> u32" where
  "enc_r rs rt rd shamt funct =
     push_bit 21 (ucast (rs AND 0x1F)) OR push_bit 16 (ucast (rt AND 0x1F))
     OR push_bit 11 (ucast (rd AND 0x1F)) OR push_bit 6 (ucast (shamt AND 0x1F))
     OR ucast (funct AND 0x3F)"

definition enc_i :: "u8 \<Rightarrow> u8 \<Rightarrow> u8 \<Rightarrow> u16 \<Rightarrow> u32" where
  "enc_i op rs rt imm =
     push_bit 26 (ucast (op AND 0x3F)) OR push_bit 21 (ucast (rs AND 0x1F))
     OR push_bit 16 (ucast (rt AND 0x1F)) OR ucast imm"

definition enc_j :: "u8 \<Rightarrow> u32 \<Rightarrow> u32" where
  "enc_j op target = push_bit 26 (ucast (op AND 0x3F)) OR (target AND 0x03FFFFFF)"

definition kR3Map :: "(string \<times> u8) list" where
  "kR3Map =
    [(''add'', 0x20), (''addu'', 0x21), (''sub'', 0x22), (''subu'', 0x23), (''and'', 0x24),
     (''or'', 0x25), (''xor'', 0x26), (''nor'', 0x27), (''slt'', 0x2A), (''sltu'', 0x2B)]"

definition kShiftMap :: "(string \<times> u8) list" where
  "kShiftMap = [(''sll'', 0x00), (''srl'', 0x02), (''sra'', 0x03)]"

definition kVShiftMap :: "(string \<times> u8) list" where
  "kVShiftMap = [(''sllv'', 0x04), (''srlv'', 0x06)]"

definition kIArithMap :: "(string \<times> u8) list" where
  "kIArithMap =
    [(''addi'', 0x08), (''addiu'', 0x09), (''slti'', 0x0A), (''sltiu'', 0x0B),
     (''andi'', 0x0C), (''ori'', 0x0D), (''xori'', 0x0E)]"

definition zero_extends_imm :: "string \<Rightarrow> bool" where
  "zero_extends_imm mn \<longleftrightarrow> mn = ''andi'' \<or> mn = ''ori'' \<or> mn = ''xori''"

definition kMemMap :: "(string \<times> u8) list" where
  "kMemMap = [(''lw'', 0x23), (''lbu'', 0x24), (''lhu'', 0x25), (''sw'', 0x2B)]"

definition kBranchMap :: "(string \<times> u8) list" where
  "kBranchMap = [(''beq'', 0x04), (''bne'', 0x05)]"

definition kJumpMap :: "(string \<times> u8) list" where
  "kJumpMap = [(''j'', 0x02), (''jal'', 0x03)]"

section \<open>Lines and the first pass\<close>

definition trim_char :: "char \<Rightarrow> bool" where
  "trim_char c \<longleftrightarrow> c = CHR '' '' \<or> c = CHR 0x09 \<or> c = CHR 0x0D \<or> c = CHR 0x0A"

definition trim :: "string \<Rightarrow> string" where
  "trim s = rev (dropWhile trim_char (rev (dropWhile trim_char s)))"

text \<open>The loop of \<open>tokenise\<close> with its current token \<open>cur\<close>.\<close>

fun tokenise_loop :: "string list \<Rightarrow> string \<Rightarrow> string \<Rightarrow> string list" where
  "tokenise_loop toks cur [] = (if cur \<noteq> [] then toks @ [cur] else toks)"
| "tokenise_loop toks cur (c # cs) =
     (if c = CHR '','' \<or> c = CHR '' '' \<or> c = CHR 0x09 then
        (if cur \<noteq> [] then tokenise_loop (toks @ [cur]) [] cs else tokenise_loop toks cur cs)
      else tokenise_loop toks (cur @ [c]) cs)"

definition tokenise :: "string \<Rightarrow> string list" where
  "tokenise line = tokenise_loop [] [] line"

record asm_line =
  al_lineno :: nat
  al_mnemonic :: string
  al_operands :: "string list"

type_synonym labels = "string \<rightharpoonup> u32"

definition make_error :: "nat \<Rightarrow> string \<Rightarrow> string" where
  "make_error lineno msg = ''line '' @ show_dec lineno @ '': '' @ msg"

text \<open>A line without its comment and surrounding blanks.\<close>

definition strip_line :: "string \<Rightarrow> string" where
  "strip_line raw = trim (case find_char (CHR ''#'') raw of Some h \<Rightarrow> take h raw | None \<Rightarrow> raw)"

text \<open>The label test: the labels with a possible new one, and what is left of the line.\<close>

definition take_label :: "nat \<Rightarrow> labels \<Rightarrow> string \<Rightarrow> labels \<times> string" where
  "take_label n labels raw =
     (case find_char (CHR '':'') raw of
        Some colon \<Rightarrow>
          (let lbl = trim (take colon raw)
           in (if lbl \<noteq> [] then labels(lbl \<mapsto> of_nat n) else labels, trim (drop (colon + 1) raw)))
      | None \<Rightarrow> (labels, raw))"

fun asm_pass1 :: "nat \<Rightarrow> labels \<Rightarrow> asm_line list \<Rightarrow> string list \<Rightarrow> labels \<times> asm_line list" where
  "asm_pass1 lineno labels lines [] = (labels, lines)"
| "asm_pass1 lineno labels lines (raw # rest) =
     (let lineno = Suc lineno; raw = strip_line raw
      in if raw = [] then asm_pass1 lineno labels lines rest
         else (case take_label (length lines) labels raw of (labels, raw) \<Rightarrow>
                 (case tokenise raw of
                    [] \<Rightarrow> asm_pass1 lineno labels lines rest
                  | mn # ops \<Rightarrow>
                      asm_pass1 lineno labels
                        (lines @ [\<lparr>al_lineno = lineno, al_mnemonic = map to_lower mn, al_operands = ops\<rparr>]) rest)))"

section \<open>The second pass\<close>

definition asm_r3 :: "u8 \<Rightarrow> string list \<Rightarrow> string + u32" where
  "asm_r3 fn ops =
     (case ops of
        [a, b, c] \<Rightarrow>
          (case (parse_reg a, parse_reg b, parse_reg c) of
             (Some rd, Some rs, Some rt) \<Rightarrow> Inr (enc_r rs rt rd 0 fn)
           | _ \<Rightarrow> Inl ''bad register'')
      | _ \<Rightarrow> Inl ''expected $rd, $rs, $rt'')"

definition asm_shift :: "u8 \<Rightarrow> string list \<Rightarrow> string + u32" where
  "asm_shift fn ops =
     (case ops of
        [a, b, c] \<Rightarrow>
          (case (parse_reg a, parse_reg b, parse_imm c) of
             (Some rd, Some rt, Some imm) \<Rightarrow>
               if imm < 0 \<or> 31 < imm then Inl ''shift amount out of range''
               else Inr (enc_r 0 rt rd (word_of_int imm) fn)
           | _ \<Rightarrow> Inl ''bad operands'')
      | _ \<Rightarrow> Inl ''expected $rd, $rt, shamt'')"

definition asm_vshift :: "u8 \<Rightarrow> string list \<Rightarrow> string + u32" where
  "asm_vshift fn ops =
     (case ops of
        [a, b, c] \<Rightarrow>
          (case (parse_reg a, parse_reg b, parse_reg c) of
             (Some rd, Some rt, Some rs) \<Rightarrow> Inr (enc_r rs rt rd 0 fn)
           | _ \<Rightarrow> Inl ''bad register'')
      | _ \<Rightarrow> Inl ''expected $rd, $rt, $rs'')"

definition asm_jr :: "string list \<Rightarrow> string + u32" where
  "asm_jr ops =
     (case ops of
        [a] \<Rightarrow> (case parse_reg a of Some rs \<Rightarrow> Inr (enc_r rs 0 0 0 0x08) | None \<Rightarrow> Inl ''bad register'')
      | _ \<Rightarrow> Inl ''expected $rs'')"

definition asm_jalr :: "string list \<Rightarrow> string + u32" where
  "asm_jalr ops =
     (case ops of
        [a, b] \<Rightarrow>
          (case (parse_reg a, parse_reg b) of
             (Some rd, Some rs) \<Rightarrow> Inr (enc_r rs 0 rd 0 0x09)
           | _ \<Rightarrow> Inl ''bad register'')
      | _ \<Rightarrow> Inl ''expected $rd, $rs'')"

definition asm_iarith :: "string \<Rightarrow> u8 \<Rightarrow> string list \<Rightarrow> string + u32" where
  "asm_iarith mn op ops =
     (case ops of
        [a, b, c] \<Rightarrow>
          (case (parse_reg a, parse_reg b, parse_imm c) of
             (Some rt, Some rs, Some imm) \<Rightarrow>
               if zero_extends_imm mn \<and> \<not> fits_uimm16 imm then Inl ''immediate out of range (0 to 65535)''
               else if \<not> zero_extends_imm mn \<and> \<not> fits_simm16 imm
                 then Inl ''immediate out of range (-32768 to 32767)''
               else Inr (enc_i op rs rt (word_of_int imm))
           | _ \<Rightarrow> Inl ''bad operands'')
      | _ \<Rightarrow> Inl ''expected $rt, $rs, imm'')"

definition asm_lui :: "string list \<Rightarrow> string + u32" where
  "asm_lui ops =
     (case ops of
        [a, b] \<Rightarrow>
          (case (parse_reg a, parse_imm b) of
             (Some rt, Some imm) \<Rightarrow>
               if \<not> fits_uimm16 imm then Inl ''immediate out of range (0 to 65535)''
               else Inr (enc_i 0x0F 0 rt (word_of_int imm))
           | _ \<Rightarrow> Inl ''bad operands'')
      | _ \<Rightarrow> Inl ''expected $rt, imm'')"

definition asm_mem :: "u8 \<Rightarrow> string list \<Rightarrow> string + u32" where
  "asm_mem op ops =
     (case ops of
        [a, b] \<Rightarrow>
          (case parse_reg a of
             None \<Rightarrow> Inl ''bad register''
           | Some rt \<Rightarrow>
               (case parse_mem_operand b of
                  None \<Rightarrow> Inl ''expected imm($rs)''
                | Some (imm, rs) \<Rightarrow>
                    if \<not> fits_simm16 imm then Inl ''offset out of range (-32768 to 32767)''
                    else Inr (enc_i op rs rt (word_of_int imm))))
      | _ \<Rightarrow> Inl ''expected $rt, imm($rs)'')"

definition undefined_label :: "string \<Rightarrow> string" where
  "undefined_label l = ''undefined label '' @ [CHR 0x27] @ l @ [CHR 0x27]"

text \<open>The offset of a branch: a number as written, or the distance to a label from the next line.\<close>

definition branch_offset :: "labels \<Rightarrow> nat \<Rightarrow> string \<Rightarrow> int option" where
  "branch_offset labels idx op =
     (case parse_imm op of
        Some imm \<Rightarrow> Some imm
      | None \<Rightarrow> map_option (\<lambda>t. sint t - to_i32 (int (idx + 1))) (labels op))"

definition asm_branch :: "labels \<Rightarrow> nat \<Rightarrow> u8 \<Rightarrow> string list \<Rightarrow> string + u32" where
  "asm_branch labels idx opc ops =
     (case ops of
        [a, b, c] \<Rightarrow>
          (case (parse_reg a, parse_reg b) of
             (Some rs, Some rt) \<Rightarrow>
               (case branch_offset labels idx c of
                  None \<Rightarrow> Inl (undefined_label c)
                | Some off \<Rightarrow>
                    if \<not> fits_simm16 off
                    then Inl ''branch offset out of range (-32768 to 32767 instructions)''
                    else Inr (enc_i opc rs rt (word_of_int off)))
           | _ \<Rightarrow> Inl ''bad register'')
      | _ \<Rightarrow> Inl ''expected $rs, $rt, label'')"

definition asm_jump :: "labels \<Rightarrow> u8 \<Rightarrow> string list \<Rightarrow> string + u32" where
  "asm_jump labels opc ops =
     (case ops of
        [a] \<Rightarrow>
          (case parse_imm a of
             Some imm \<Rightarrow>
               if imm < 0 \<or> kJumpTargetMax < imm then Inl ''jump target out of range (0 to 0x3FFFFFF)''
               else Inr (enc_j opc (word_of_int imm))
           | None \<Rightarrow>
               (case labels a of
                  None \<Rightarrow> Inl (undefined_label a)
                | Some t \<Rightarrow>
                    if (word_of_int kJumpTargetMax :: u32) < t
                    then Inl ''jump target out of range (0 to 0x3FFFFFF)''
                    else Inr (enc_j opc t)))
      | _ \<Rightarrow> Inl ''expected target'')"

text \<open>The dispatch of the second pass, in the order of its tests.\<close>

definition encode_line :: "labels \<Rightarrow> nat \<Rightarrow> string \<Rightarrow> string list \<Rightarrow> string + u32" where
  "encode_line labels idx mn ops =
     (if mn = ''nop'' then Inr 0
      else case map_of kR3Map mn of Some fn \<Rightarrow> asm_r3 fn ops | None \<Rightarrow>
      (case map_of kShiftMap mn of Some fn \<Rightarrow> asm_shift fn ops | None \<Rightarrow>
      (case map_of kVShiftMap mn of Some fn \<Rightarrow> asm_vshift fn ops | None \<Rightarrow>
      (if mn = ''jr'' then asm_jr ops
       else if mn = ''jalr'' then asm_jalr ops
       else case map_of kIArithMap mn of Some op \<Rightarrow> asm_iarith mn op ops | None \<Rightarrow>
      (if mn = ''lui'' then asm_lui ops
       else case map_of kMemMap mn of Some op \<Rightarrow> asm_mem op ops | None \<Rightarrow>
      (case map_of kBranchMap mn of Some op \<Rightarrow> asm_branch labels idx op ops | None \<Rightarrow>
      (case map_of kJumpMap mn of Some op \<Rightarrow> asm_jump labels op ops | None \<Rightarrow>
         Inl (''unknown instruction '' @ [CHR 0x27] @ mn @ [CHR 0x27]))))))))"

record assembler_result =
  ar_words :: "u32 list"
  ar_error :: "string option"

fun asm_pass2 :: "labels \<Rightarrow> nat \<Rightarrow> u32 list \<Rightarrow> asm_line list \<Rightarrow> assembler_result" where
  "asm_pass2 labels idx ws [] = \<lparr>ar_words = ws, ar_error = None\<rparr>"
| "asm_pass2 labels idx ws (ln # rest) =
     (case encode_line labels idx (al_mnemonic ln) (al_operands ln) of
        Inl msg \<Rightarrow> \<lparr>ar_words = [], ar_error = Some (make_error (al_lineno ln) msg)\<rparr>
      | Inr w \<Rightarrow> asm_pass2 labels (Suc idx) (ws @ [w]) rest)"

definition assemble :: "string \<Rightarrow> assembler_result" where
  "assemble source =
     (case asm_pass1 0 Map.empty [] (get_lines source) of (labels, lines) \<Rightarrow>
        if lines = [] then \<lparr>ar_words = [], ar_error = Some ''no instructions found''\<rparr>
        else asm_pass2 labels 0 [] lines)"

section \<open>The encoders against the decoder\<close>

lemma map_of_cases: "map_of xs k = Some v \<Longrightarrow> (k, v) \<in> set xs"
  by (rule map_of_SomeD)

lemma bit_masks_int [word_field]:
  "bit (0x1F :: int) n \<longleftrightarrow> n < 5" "bit (0x3F :: int) n \<longleftrightarrow> n < 6" "bit (0x03FFFFFF :: int) n \<longleftrightarrow> n < 26"
proof -
  have "(0x1F :: int) = mask 5" "(0x3F :: int) = mask 6" "(0x03FFFFFF :: int) = mask 26"
    by (simp_all add: mask_eq_exp_minus_1)
  note h = this
  show "bit (0x1F :: int) n \<longleftrightarrow> n < 5" "bit (0x3F :: int) n \<longleftrightarrow> n < 6"
    "bit (0x03FFFFFF :: int) n \<longleftrightarrow> n < 26"
    unfolding h bit_mask_iff by auto
qed

lemma and_0x3F_id: "unat x < 64 \<Longrightarrow> x AND 0x3F = (x :: u8)"
  using and_mask_unat [of x 6] by (simp add: word_unat_eq_iff mask_eq_exp_minus_1)

lemma enc_r_bits:
  "bits (enc_r rs rt rd sh fn) 31 26 = 0"
  "bits (enc_r rs rt rd sh fn) 25 21 = ucast (rs AND 0x1F)"
  "bits (enc_r rs rt rd sh fn) 20 16 = ucast (rt AND 0x1F)"
  "bits (enc_r rs rt rd sh fn) 15 11 = ucast (rd AND 0x1F)"
  "bits (enc_r rs rt rd sh fn) 10 6 = ucast (sh AND 0x1F)"
  "bits (enc_r rs rt rd sh fn) 5 0 = ucast (fn AND 0x3F)"
  by (rule bit_word_eqI, auto simp: enc_r_def bit_simps word_field)+

lemma enc_i_bits:
  "bits (enc_i op rs rt imm) 31 26 = ucast (op AND 0x3F)"
  "bits (enc_i op rs rt imm) 25 21 = ucast (rs AND 0x1F)"
  "bits (enc_i op rs rt imm) 20 16 = ucast (rt AND 0x1F)"
  "bits (enc_i op rs rt imm) 15 0 = ucast imm"
  by (rule bit_word_eqI, auto simp: enc_i_def bit_simps word_field dest: bit_imp_le_length)+

lemma enc_j_bits:
  "bits (enc_j op target) 31 26 = ucast (op AND 0x3F)"
  "bits (enc_j op target) 25 0 = target AND 0x03FFFFFF"
  by (rule bit_word_eqI, auto simp: enc_j_def bit_simps word_field)+

lemma ucast_twice: "ucast (ucast (x :: u8) :: u32) = x" "ucast (ucast (y :: u16) :: u32) = y"
  by (rule bit_word_eqI, auto simp: bit_simps dest: bit_imp_le_length)+

lemma enc_r_decode:
  assumes "gpr_index rs" "gpr_index rt" "gpr_index rd" "gpr_index sh" "unat fn < 64"
    "implemented_special (funct_of fn)"
  shows "decode (enc_r rs rt rd sh fn) =
    Some \<lparr>di_raw = enc_r rs rt rd sh fn, di_opcode = OpSPECIAL, di_format = FmtR,
      di_fields = RF \<lparr>r_rs = rs, r_rt = rt, r_rd = rd, r_shamt = sh, r_funct = funct_of fn\<rparr>\<rparr>"
  using assms
  by (simp add: decode_def enc_r_bits and_0x1F_id and_0x3F_id opcode_of_def format_of_def Let_def
      ucast_twice)

lemma enc_i_decode:
  assumes "gpr_index rs" "gpr_index rt" "unat op < 64" "format_of (opcode_of op) = FmtI"
  shows "decode (enc_i op rs rt imm) =
    Some \<lparr>di_raw = enc_i op rs rt imm, di_opcode = opcode_of op, di_format = FmtI,
      di_fields = IF \<lparr>i_rs = rs, i_rt = rt, i_imm = imm\<rparr>\<rparr>"
  using assms by (simp add: decode_def enc_i_bits and_0x1F_id and_0x3F_id Let_def ucast_twice)

lemma enc_j_decode:
  assumes "unat op < 64" "format_of (opcode_of op) = FmtJ" "unat target < 2 ^ 26"
  shows "decode (enc_j op target) =
    Some \<lparr>di_raw = enc_j op target, di_opcode = opcode_of op, di_format = FmtJ,
      di_fields = JF \<lparr>j_target = target\<rparr>\<rparr>"
proof -
  have "target AND 0x03FFFFFF = target"
    using and_mask_unat [of target 26] assms(3) by (simp add: word_unat_eq_iff mask_eq_exp_minus_1)
  then show ?thesis using assms(1,2) by (simp add: decode_def enc_j_bits and_0x3F_id Let_def ucast_twice)
qed

section \<open>Operand values\<close>

lemma parse_reg_gpr: "parse_reg s = Some r \<Longrightarrow> gpr_index r"
proof -
  assume p: "parse_reg s = Some r"
  obtain d name where s: "s = d # name" using p by (cases s) (simp_all add: parse_reg_def)
  consider n where "0 \<le> n" "n < 32" "r = word_of_int n" | "map_of kRegMap name = Some r"
    using p by (auto simp: parse_reg_def s split: if_splits option.splits)
  then show ?thesis
  proof cases
    case 1
    then show ?thesis by (simp add: unsigned_of_int take_bit_eq_mod)
  next
    case 2
    then have "(name, r) \<in> set kRegMap" by (rule map_of_cases)
    then show ?thesis by (auto simp: kRegMap_def)
  qed
qed

lemma sint_word_of_int_u16: "fits_simm16 v \<Longrightarrow> sint (word_of_int v :: u16) = v"
  by (simp add: fits_simm16_def kSimm16Min_def kSimm16Max_def signed_of_int signed_take_bit_int_eq_self)

lemma uint_word_of_int_u16: "fits_uimm16 v \<Longrightarrow> uint (word_of_int v :: u16) = v"
  by (simp add: fits_uimm16_def kUimm16Max_def unsigned_of_int take_bit_int_eq_self)

text \<open>
  What an instruction operates on, in the order the assembly language writes it: registers, a
  number as the CPU extends it, a memory operand.
\<close>

datatype operand_val = VReg u8 | VNum int | VMem int u8

definition operand_view :: "decoded_instr \<Rightarrow> operand_val list" where
  "operand_view d =
     (case di_fields d of
        RF r \<Rightarrow>
          (if r_funct r \<in> {FnSLL, FnSRL, FnSRA} then [VReg (r_rd r), VReg (r_rt r), VNum (uint (r_shamt r))]
           else if r_funct r \<in> {FnSLLV, FnSRLV} then [VReg (r_rd r), VReg (r_rt r), VReg (r_rs r)]
           else if r_funct r = FnJR then [VReg (r_rs r)]
           else if r_funct r = FnJALR then [VReg (r_rd r), VReg (r_rs r)]
           else [VReg (r_rd r), VReg (r_rs r), VReg (r_rt r)])
      | IF i \<Rightarrow>
          (if di_opcode d \<in> {OpLW, OpLBU, OpLHU, OpSW} then [VReg (i_rt i), VMem (sint (i_imm i)) (i_rs i)]
           else if di_opcode d = OpLUI then [VReg (i_rt i), VNum (uint (i_imm i))]
           else if di_opcode d \<in> {OpBEQ, OpBNE} then [VReg (i_rs i), VReg (i_rt i), VNum (sint (i_imm i))]
           else if di_opcode d \<in> {OpANDI, OpORI, OpXORI} then [VReg (i_rt i), VReg (i_rs i), VNum (uint (i_imm i))]
           else [VReg (i_rt i), VReg (i_rs i), VNum (sint (i_imm i))])
      | JF j \<Rightarrow> [VNum (uint (j_target j))])"

definition operand_means :: "labels \<Rightarrow> nat \<Rightarrow> opcode \<Rightarrow> string \<Rightarrow> operand_val \<Rightarrow> bool" where
  "operand_means labels idx op s v =
     (case v of
        VReg r \<Rightarrow> parse_reg s = Some r
      | VMem n r \<Rightarrow> parse_mem_operand s = Some (n, r)
      | VNum n \<Rightarrow>
          (if op \<in> {OpBEQ, OpBNE} then branch_offset labels idx s = Some n
           else if op \<in> {OpJ, OpJAL} then
             parse_imm s = Some n \<or> parse_imm s = None \<and> map_option uint (labels s) = Some n
           else parse_imm s = Some n))"

text \<open>The word is the instruction the line names, on the operands the line writes.\<close>

definition encodes :: "labels \<Rightarrow> nat \<Rightarrow> string \<Rightarrow> string list \<Rightarrow> u32 \<Rightarrow> bool" where
  "encodes labels idx mn ops w \<longleftrightarrow>
     (case decode w of
        None \<Rightarrow> False
      | Some d \<Rightarrow> mnemonic d = map to_upper mn
          \<and> list_all2 (operand_means labels idx (di_opcode d)) ops (operand_view d))"

lemmas encode_tables = kR3Map_def kShiftMap_def kVShiftMap_def kIArithMap_def kMemMap_def
  kBranchMap_def kJumpMap_def

text \<open>One rule per format: what is left to check is the name and the operands.\<close>

lemma encodes_R:
  assumes "gpr_index rs" "gpr_index rt" "gpr_index rd" "gpr_index sh" "unat fn < 64"
    "implemented_special (funct_of fn)"
    "mnemonic \<lparr>di_raw = enc_r rs rt rd sh fn, di_opcode = OpSPECIAL, di_format = FmtR,
      di_fields = RF \<lparr>r_rs = rs, r_rt = rt, r_rd = rd, r_shamt = sh, r_funct = funct_of fn\<rparr>\<rparr> = map to_upper mn"
    "list_all2 (operand_means labels idx OpSPECIAL) ops
      (operand_view \<lparr>di_raw = enc_r rs rt rd sh fn, di_opcode = OpSPECIAL, di_format = FmtR,
        di_fields = RF \<lparr>r_rs = rs, r_rt = rt, r_rd = rd, r_shamt = sh, r_funct = funct_of fn\<rparr>\<rparr>)"
  shows "encodes labels idx mn ops (enc_r rs rt rd sh fn)"
  using assms by (simp add: encodes_def enc_r_decode)

lemma encodes_I:
  assumes "gpr_index rs" "gpr_index rt" "unat opc < 64" "format_of (opcode_of opc) = FmtI"
    "mnemonic \<lparr>di_raw = enc_i opc rs rt imm, di_opcode = opcode_of opc, di_format = FmtI,
      di_fields = IF \<lparr>i_rs = rs, i_rt = rt, i_imm = imm\<rparr>\<rparr> = map to_upper mn"
    "list_all2 (operand_means labels idx (opcode_of opc)) ops
      (operand_view \<lparr>di_raw = enc_i opc rs rt imm, di_opcode = opcode_of opc, di_format = FmtI,
        di_fields = IF \<lparr>i_rs = rs, i_rt = rt, i_imm = imm\<rparr>\<rparr>)"
  shows "encodes labels idx mn ops (enc_i opc rs rt imm)"
  using assms by (simp add: encodes_def enc_i_decode)

lemma encodes_J:
  assumes "unat opc < 64" "format_of (opcode_of opc) = FmtJ" "unat target < 2 ^ 26"
    "mnemonic \<lparr>di_raw = enc_j opc target, di_opcode = opcode_of opc, di_format = FmtJ,
      di_fields = JF \<lparr>j_target = target\<rparr>\<rparr> = map to_upper mn"
    "list_all2 (operand_means labels idx (opcode_of opc)) ops
      (operand_view \<lparr>di_raw = enc_j opc target, di_opcode = opcode_of opc, di_format = FmtJ,
        di_fields = JF \<lparr>j_target = target\<rparr>\<rparr>)"
  shows "encodes labels idx mn ops (enc_j opc target)"
  using assms by (simp add: encodes_def enc_j_decode)

lemmas encode_view = mnemonic_def get_r_def operand_view_def operand_means_def opcode_of_def
  funct_of_def implemented_special_def format_of_def

lemma asm_r3_sound:
  assumes "map_of kR3Map mn = Some fn" "asm_r3 fn ops = Inr w"
  shows "encodes labels idx mn ops w"
proof -
  obtain a b c rd rs rt where o: "ops = [a, b, c]" "parse_reg a = Some rd" "parse_reg b = Some rs"
    "parse_reg c = Some rt" "w = enc_r rs rt rd 0 fn"
    using assms(2) by (auto simp: asm_r3_def split: list.splits option.splits)
  note g = o(2-4) [THEN parse_reg_gpr]
  have "(mn, fn) \<in> set kR3Map" using assms(1) by (rule map_of_cases)
  then show ?thesis
    unfolding o(5) using g o(1-4)
    by (intro encodes_R) (auto simp: encode_tables encode_view)
qed

lemma asm_vshift_sound:
  assumes "map_of kVShiftMap mn = Some fn" "asm_vshift fn ops = Inr w"
  shows "encodes labels idx mn ops w"
proof -
  obtain a b c rd rs rt where o: "ops = [a, b, c]" "parse_reg a = Some rd" "parse_reg b = Some rt"
    "parse_reg c = Some rs" "w = enc_r rs rt rd 0 fn"
    using assms(2) by (auto simp: asm_vshift_def split: list.splits option.splits)
  note g = o(2-4) [THEN parse_reg_gpr]
  have "(mn, fn) \<in> set kVShiftMap" using assms(1) by (rule map_of_cases)
  then show ?thesis
    unfolding o(5) using g o(1-4)
    by (intro encodes_R) (auto simp: encode_tables encode_view)
qed

lemma asm_shift_sound:
  assumes "map_of kShiftMap mn = Some fn" "asm_shift fn ops = Inr w"
  shows "encodes labels idx mn ops w"
proof -
  obtain a b c rd rt imm where o: "ops = [a, b, c]" "parse_reg a = Some rd" "parse_reg b = Some rt"
    "parse_imm c = Some imm" "w = enc_r 0 rt rd (word_of_int imm) fn" "0 \<le> imm" "imm \<le> 31"
    using assms(2) by (auto simp: asm_shift_def not_le split: list.splits option.splits if_splits)
  note g = o(2-3) [THEN parse_reg_gpr]
  have u: "uint (word_of_int imm :: u8) = imm" using o(6,7) by (simp add: unsigned_of_int take_bit_int_eq_self)
  then have s: "gpr_index (word_of_int imm)" using o(6,7) by (simp add: unat_eq_nat_uint)
  have "(mn, fn) \<in> set kShiftMap" using assms(1) by (rule map_of_cases)
  then show ?thesis
    unfolding o(5) using g s u o(1-4)
    by (intro encodes_R) (auto simp: encode_tables encode_view)
qed

lemma asm_jr_sound: "asm_jr ops = Inr w \<Longrightarrow> encodes labels idx ''jr'' ops w"
proof -
  assume "asm_jr ops = Inr w"
  then obtain a rs where o: "ops = [a]" "parse_reg a = Some rs" "w = enc_r rs 0 0 0 8"
    by (auto simp: asm_jr_def split: list.splits option.splits)
  then show ?thesis unfolding o(3) using parse_reg_gpr [OF o(2)]
    by (intro encodes_R) (simp_all add: encode_view)
qed

lemma asm_jalr_sound: "asm_jalr ops = Inr w \<Longrightarrow> encodes labels idx ''jalr'' ops w"
proof -
  assume "asm_jalr ops = Inr w"
  then obtain a b rd rs where o: "ops = [a, b]" "parse_reg a = Some rd" "parse_reg b = Some rs"
      "w = enc_r rs 0 rd 0 9"
    by (auto simp: asm_jalr_def split: list.splits option.splits)
  note g = o(2,3) [THEN parse_reg_gpr]
  show ?thesis unfolding o(4) using g o(1-3)
    by (intro encodes_R) (simp_all add: encode_view)
qed

lemma asm_iarith_sound:
  assumes "map_of kIArithMap mn = Some opc" "asm_iarith mn opc ops = Inr w"
  shows "encodes labels idx mn ops w"
proof -
  obtain a b c rt rs imm where o: "ops = [a, b, c]" "parse_reg a = Some rt" "parse_reg b = Some rs"
    "parse_imm c = Some imm" "w = enc_i opc rs rt (word_of_int imm)"
    and fit: "if zero_extends_imm mn then fits_uimm16 imm else fits_simm16 imm"
    using assms(2) by (auto simp: asm_iarith_def split: list.splits option.splits if_splits)
  note g = o(2-3) [THEN parse_reg_gpr]
  have v: "if zero_extends_imm mn then uint (word_of_int imm :: u16) = imm else sint (word_of_int imm :: u16) = imm"
    using fit by (simp add: uint_word_of_int_u16 sint_word_of_int_u16 split: if_splits)
  have "(mn, opc) \<in> set kIArithMap" using assms(1) by (rule map_of_cases)
  then show ?thesis
    unfolding o(5) using g v o(1-4)
    by (intro encodes_I) (auto simp: encode_tables encode_view zero_extends_imm_def)
qed

lemma asm_lui_sound: "asm_lui ops = Inr w \<Longrightarrow> encodes labels idx ''lui'' ops w"
proof -
  assume "asm_lui ops = Inr w"
  then obtain a b rt imm where o: "ops = [a, b]" "parse_reg a = Some rt" "parse_imm b = Some imm"
      "w = enc_i 0x0F 0 rt (word_of_int imm)" "fits_uimm16 imm"
    by (auto simp: asm_lui_def split: list.splits option.splits if_splits)
  note g = o(2) [THEN parse_reg_gpr] and u = uint_word_of_int_u16 [OF o(5)]
  show ?thesis unfolding o(4) using g u o(1-3)
    by (intro encodes_I) (simp_all add: encode_view)
qed

lemma parse_mem_gpr: "parse_mem_operand s = Some (n, r) \<Longrightarrow> gpr_index r"
  by (auto simp: parse_mem_operand_def split: option.splits if_splits dest: parse_reg_gpr)

lemma asm_mem_sound:
  assumes "map_of kMemMap mn = Some opc" "asm_mem opc ops = Inr w"
  shows "encodes labels idx mn ops w"
proof -
  obtain a b rt rs imm where o: "ops = [a, b]" "parse_reg a = Some rt" "parse_mem_operand b = Some (imm, rs)"
    "w = enc_i opc rs rt (word_of_int imm)" "fits_simm16 imm"
    using assms(2) by (auto simp: asm_mem_def split: list.splits option.splits if_splits)
  note g = o(2) [THEN parse_reg_gpr] o(3) [THEN parse_mem_gpr] and v = sint_word_of_int_u16 [OF o(5)]
  have "(mn, opc) \<in> set kMemMap" using assms(1) by (rule map_of_cases)
  then show ?thesis
    unfolding o(4) using g v o(1-3)
    by (intro encodes_I) (auto simp: encode_tables encode_view)
qed

lemma asm_branch_sound:
  assumes "map_of kBranchMap mn = Some opc" "asm_branch labels idx opc ops = Inr w"
  shows "encodes labels idx mn ops w"
proof -
  obtain a b c rs rt off where o: "ops = [a, b, c]" "parse_reg a = Some rs" "parse_reg b = Some rt"
    "branch_offset labels idx c = Some off" "w = enc_i opc rs rt (word_of_int off)" "fits_simm16 off"
    using assms(2) by (auto simp: asm_branch_def split: list.splits option.splits if_splits)
  note g = o(2-3) [THEN parse_reg_gpr] and v = sint_word_of_int_u16 [OF o(6)]
  have "(mn, opc) \<in> set kBranchMap" using assms(1) by (rule map_of_cases)
  then show ?thesis
    unfolding o(5) using g v o(1-4)
    by (intro encodes_I) (auto simp: encode_tables encode_view)
qed

lemma asm_jump_sound:
  assumes "map_of kJumpMap mn = Some opc" "asm_jump labels opc ops = Inr w"
  shows "encodes labels idx mn ops w"
proof -
  obtain a where a: "ops = [a]" using assms(2) by (auto simp: asm_jump_def split: list.splits)
  have m: "(mn, opc) \<in> set kJumpMap" using assms(1) by (rule map_of_cases)
  obtain t where t: "w = enc_j opc t" "unat t < 2 ^ 26"
    "parse_imm a = Some (uint t) \<or> parse_imm a = None \<and> map_option uint (labels a) = Some (uint t)"
  proof (cases "parse_imm a")
    case (Some imm)
    then have h: "0 \<le> imm" "imm \<le> kJumpTargetMax" "w = enc_j opc (word_of_int imm)"
      using assms(2) by (auto simp: asm_jump_def a split: if_splits)
    have u: "uint (word_of_int imm :: u32) = imm"
      using h(1,2) by (simp add: unsigned_of_int take_bit_int_eq_self kJumpTargetMax_def)
    then have "unat (word_of_int imm :: u32) < 2 ^ 26"
      using h(1,2) by (simp add: unat_eq_nat_uint kJumpTargetMax_def)
    with h(3) u Some show ?thesis by (intro that [of "word_of_int imm"]) simp_all
  next
    case None
    then obtain t where h: "labels a = Some t" "\<not> (word_of_int kJumpTargetMax :: u32) < t" "w = enc_j opc t"
      using assms(2) by (auto simp: asm_jump_def a split: option.splits if_splits)
    have "unat t \<le> 0x03FFFFFF"
      using h(2) by (simp add: kJumpTargetMax_def not_less word_le_nat_alt)
    with h None show ?thesis by (intro that [of t]) simp_all
  qed
  from m show ?thesis
    unfolding t(1) using t(2,3) a
    by (intro encodes_J) (auto simp: encode_tables encode_view)
qed

lemma encode_line_sound:
  assumes "encode_line labels idx mn ops = Inr w" "mn \<noteq> ''nop''"
  shows "encodes labels idx mn ops w"
  using assms unfolding encode_line_def
  by (auto split: option.splits if_splits intro: asm_r3_sound asm_shift_sound asm_vshift_sound
      asm_jr_sound asm_jalr_sound asm_iarith_sound asm_lui_sound asm_mem_sound asm_branch_sound asm_jump_sound)

section \<open>The whole source\<close>

lemma asm_pass2_spec:
  "case asm_pass2 labels idx ws lines of r \<Rightarrow>
     (ar_error r = None \<longrightarrow> (\<exists>vs. ar_words r = ws @ vs \<and> length vs = length lines
        \<and> (\<forall>i<length lines. encode_line labels (idx + i) (al_mnemonic (lines ! i)) (al_operands (lines ! i)) = Inr (vs ! i))))
     \<and> (\<forall>e. ar_error r = Some e \<longrightarrow> ar_words r = []
        \<and> (\<exists>i msg. i < length lines \<and> e = make_error (al_lineno (lines ! i)) msg
           \<and> encode_line labels (idx + i) (al_mnemonic (lines ! i)) (al_operands (lines ! i)) = Inl msg
           \<and> (\<forall>j<i. \<exists>w. encode_line labels (idx + j) (al_mnemonic (lines ! j)) (al_operands (lines ! j)) = Inr w)))"
proof (induction lines arbitrary: idx ws)
  case (Cons ln lines)
  show ?case
  proof (cases "encode_line labels idx (al_mnemonic ln) (al_operands ln)")
    case (Inl msg)
    then show ?thesis by (auto intro!: exI [of _ 0])
  next
    case (Inr w)
    let ?r = "asm_pass2 labels (Suc idx) (ws @ [w]) lines"
    note ih = Cons [of "Suc idx" "ws @ [w]"]
    have r: "asm_pass2 labels idx ws (ln # lines) = ?r" by (simp add: Inr)
    show ?thesis
    proof (cases "ar_error ?r")
      case None
      then obtain vs where v: "ar_words ?r = (ws @ [w]) @ vs" "length vs = length lines"
        "\<forall>i<length lines. encode_line labels (Suc idx + i) (al_mnemonic (lines ! i)) (al_operands (lines ! i)) = Inr (vs ! i)"
        using ih by auto
      have "\<forall>i<length (ln # lines). encode_line labels (idx + i) (al_mnemonic ((ln # lines) ! i))
          (al_operands ((ln # lines) ! i)) = Inr ((w # vs) ! i)"
        using v(3) Inr by (auto simp: nth_Cons split: nat.split)
      with v None show ?thesis unfolding r by (auto intro!: exI [of _ "w # vs"])
    next
      case (Some e)
      then obtain i msg where i: "ar_words ?r = []" "i < length lines" "e = make_error (al_lineno (lines ! i)) msg"
        "encode_line labels (Suc idx + i) (al_mnemonic (lines ! i)) (al_operands (lines ! i)) = Inl msg"
        "\<forall>j<i. \<exists>w. encode_line labels (Suc idx + j) (al_mnemonic (lines ! j)) (al_operands (lines ! j)) = Inr w"
        using ih by auto
      have "\<forall>j<Suc i. \<exists>w. encode_line labels (idx + j) (al_mnemonic ((ln # lines) ! j))
          (al_operands ((ln # lines) ! j)) = Inr w"
        using i(5) Inr by (auto simp: nth_Cons split: nat.split)
      with i Some show ?thesis unfolding r by (auto intro!: exI [of _ "Suc i"] exI [of _ msg])
    qed
  qed
qed simp

text \<open>The first pass: line numbers, and where each label points.\<close>

text \<open>The label a source line defines.\<close>

definition line_label :: "string \<Rightarrow> string option" where
  "line_label raw =
     (case find_char (CHR '':'') (strip_line raw) of
        Some colon \<Rightarrow> (let lbl = trim (take colon (strip_line raw)) in if lbl \<noteq> [] then Some lbl else None)
      | None \<Rightarrow> None)"

text \<open>One step of the first pass.\<close>

definition pass1_line :: "labels \<times> asm_line list \<Rightarrow> nat \<times> string \<Rightarrow> labels \<times> asm_line list" where
  "pass1_line st nr = asm_pass1 (fst nr) (fst st) (snd st) [snd nr]"

lemma trim_Nil [simp]: "trim [] = []"
  by (simp add: trim_def)

lemma asm_pass1_step:
  "asm_pass1 n labels lines (raw # rest) =
     (case pass1_line (labels, lines) (n, raw) of (labels', lines') \<Rightarrow> asm_pass1 (Suc n) labels' lines' rest)"
  by (simp add: pass1_line_def Let_def split: prod.splits list.splits)

lemma pass1_line_fst:
  "fst (pass1_line (labels, lines) (n, raw)) =
     (case line_label raw of Some l \<Rightarrow> labels(l \<mapsto> of_nat (length lines)) | None \<Rightarrow> labels)"
proof (cases "strip_line raw = []")
  case True
  then show ?thesis by (simp add: pass1_line_def line_label_def)
next
  case False
  have "fst (pass1_line (labels, lines) (n, raw)) = fst (take_label (length lines) labels (strip_line raw))"
    using False by (simp add: pass1_line_def Let_def split: prod.splits list.splits)
  then show ?thesis
    by (simp add: take_label_def line_label_def Let_def split: option.splits)
qed

lemma pass1_line_snd:
  "\<exists>new. snd (pass1_line (labels, lines) (n, raw)) = lines @ new \<and> length new \<le> 1
     \<and> (\<forall>ln\<in>set new. al_lineno ln = Suc n)"
  by (simp add: pass1_line_def Let_def split: prod.splits list.splits)

lemma asm_pass1_append:
  "asm_pass1 n labels lines (pre @ post) =
     (case asm_pass1 n labels lines pre of (labels', lines') \<Rightarrow> asm_pass1 (n + length pre) labels' lines' post)"
proof (induction pre arbitrary: n labels lines)
  case (Cons raw pre)
  then show ?case by (simp only: append_Cons asm_pass1_step) (simp add: split_beta)
qed simp

lemma asm_pass1_keeps:
  "\<forall>r\<in>set post. line_label r \<noteq> Some l \<Longrightarrow> fst (asm_pass1 n labels lines post) l = labels l"
proof (induction post arbitrary: n labels lines)
  case (Cons raw post)
  then show ?case
    by (simp only: asm_pass1_step) (auto simp: split_beta pass1_line_fst split: option.splits)
qed simp

lemma asm_pass1_prefix: "\<exists>new. snd (asm_pass1 n labels lines rest) = lines @ new"
proof (induction rest arbitrary: n labels lines)
  case (Cons raw rest)
  obtain new where "snd (pass1_line (labels, lines) (n, raw)) = lines @ new"
    using pass1_line_snd by blast
  with Cons show ?case by (simp only: asm_pass1_step split_beta) (metis append_assoc)
qed simp

lemma asm_pass1_lineno:
  "\<forall>ln\<in>set lines. al_lineno ln \<le> n \<Longrightarrow>
   \<forall>ln\<in>set (snd (asm_pass1 n labels lines rest)). al_lineno ln \<le> n + length rest"
proof (induction rest arbitrary: n labels lines)
  case (Cons raw rest)
  obtain new where s: "snd (pass1_line (labels, lines) (n, raw)) = lines @ new" "\<forall>ln\<in>set new. al_lineno ln = Suc n"
    using pass1_line_snd by blast
  then have "\<forall>ln\<in>set (lines @ new). al_lineno ln \<le> Suc n" using Cons.prems by auto
  with Cons.IH [of "lines @ new" "Suc n"] s show ?case
    by (simp only: asm_pass1_step split_beta) simp
qed simp

text \<open>A label names the instruction that follows it: the number of instructions before its line.\<close>

lemma label_position:
  assumes "line_label raw = Some l" "\<forall>r\<in>set post. line_label r \<noteq> Some l"
  shows "fst (asm_pass1 n labels lines (pre @ raw # post)) l =
    Some (of_nat (length (snd (asm_pass1 n labels lines pre))))"
proof -
  obtain labels' lines' where p: "asm_pass1 n labels lines pre = (labels', lines')" by fastforce
  have "fst (asm_pass1 n labels lines (pre @ raw # post)) l = fst (asm_pass1 (n + length pre) labels' lines' (raw # post)) l"
    by (simp only: asm_pass1_append p prod.case)
  also have "\<dots> = fst (pass1_line (labels', lines') (n + length pre, raw)) l"
    using asm_pass1_keeps [OF assms(2)] by (simp only: asm_pass1_step split_beta)
  also have "\<dots> = Some (of_nat (length lines'))"
    using assms(1) by (simp add: pass1_line_fst)
  finally show ?thesis by (simp add: p)
qed

section \<open>Properties\<close>

definition asm_labels :: "string \<Rightarrow> labels" where
  "asm_labels source = fst (asm_pass1 0 Map.empty [] (get_lines source))"

definition asm_lines :: "string \<Rightarrow> asm_line list" where
  "asm_lines source = snd (asm_pass1 0 Map.empty [] (get_lines source))"

lemma assemble_unfold:
  "assemble source =
     (if asm_lines source = [] then \<lparr>ar_words = [], ar_error = Some ''no instructions found''\<rparr>
      else asm_pass2 (asm_labels source) 0 [] (asm_lines source))"
  by (simp add: assemble_def asm_lines_def asm_labels_def split_beta)

lemma assemble_ok:
  assumes "ar_error (assemble source) = None"
  shows "length (ar_words (assemble source)) = length (asm_lines source)"
    and "i < length (asm_lines source) \<Longrightarrow>
      encode_line (asm_labels source) i (al_mnemonic (asm_lines source ! i)) (al_operands (asm_lines source ! i)) =
        Inr (ar_words (assemble source) ! i)"
proof -
  have n: "asm_lines source \<noteq> []" using assms by (auto simp: assemble_unfold)
  then show "length (ar_words (assemble source)) = length (asm_lines source)"
    and "i < length (asm_lines source) \<Longrightarrow>
      encode_line (asm_labels source) i (al_mnemonic (asm_lines source ! i)) (al_operands (asm_lines source ! i)) =
        Inr (ar_words (assemble source) ! i)"
    using assms asm_pass2_spec [of "asm_labels source" 0 "[]" "asm_lines source"]
    by (auto simp: assemble_unfold)
qed


lemmas eval_asm = assemble_def strip_line_def trim_def trim_char_def take_label_def tokenise_def
  encode_line_def encode_tables parse_reg_def is_digit_def kRegMap_def to_lower_id
  parse_imm_def has_hex_prefix_def Let_def from_chars_int32_def from_chars_all_def from_chars_def
  digit_val_def read_digits_def digits_value_def zero_extends_imm_def fits_uimm16_def
  fits_simm16_def kSimm16Min_def kSimm16Max_def kUimm16Max_def


text \<open>A negated hexadecimal operand is reduced modulo 2^32 before the range checks see it, and a doubled minus sign is accepted: both operands below lie outside what the assembly language allows, yet the lines assemble to additions of 1 and of 5 instead of being refused.\<close>

theorem out_of_range_operands_accepted:
  "parse_imm ''-0xFFFFFFFF'' = Some 1 \<and> parse_imm ''--5'' = Some 5
   \<and> assemble ''addi $t0, $zero, -0xFFFFFFFF'' = \<lparr>ar_words = [0x20080001], ar_error = None\<rparr>
   \<and> assemble ''addi $t0, $zero, --5'' = \<lparr>ar_words = [0x20080005], ar_error = None\<rparr>"
proof -
  have p: "parse_imm ''-0xFFFFFFFF'' = Some 1" "parse_imm ''--5'' = Some 5"
    by (simp_all add: eval_asm to_i32_wrap)
  have w: "enc_i 8 0 8 1 = 0x20080001" "enc_i 8 0 8 5 = 0x20080005" by code_simp+
  then show ?thesis
    using p by (simp add: eval_asm asm_iarith_def to_i32_wrap)
qed

end
