(* ===== verification/Disassembler.thy ===== *)
theory Disassembler
  imports Decoder Registers Text
begin

text \<open>
  The disassembler (\<open>include/mips/disassembler.h\<close>, \<open>src/mips/disassembler.cpp\<close>): the text of a
  decoded instruction. Reading an alternative the variant does not hold throws; \<open>to_string\<close> catches
  it and returns three question marks. \<open>try_mnemonic\<close> is \<open>None\<close> in that case.
\<close>

unbundle bit_operations_syntax

section \<open>The printer\<close>

definition holds_r :: "decoded_instr \<Rightarrow> bool" where
  "holds_r d = (case di_fields d of RF _ \<Rightarrow> True | _ \<Rightarrow> False)"

definition try_mnemonic :: "decoded_instr \<Rightarrow> string option" where
  "try_mnemonic d =
     (if (di_format d = FmtR \<or> di_opcode d = OpCOP0) \<and> \<not> holds_r d then None else Some (mnemonic d))"

definition lower_mnemonic :: "decoded_instr \<Rightarrow> string option" where
  "lower_mnemonic d = map_option (map to_lower) (try_mnemonic d)"

definition reg_text :: "u8 \<Rightarrow> string" where
  "reg_text i = ''$'' @ register_abi_name i"

definition comma :: string where
  "comma = '', ''"

definition r_text :: "string \<Rightarrow> r_fields \<Rightarrow> string" where
  "r_text mn r =
     (let rd = reg_text (r_rd r); rs = reg_text (r_rs r); rt = reg_text (r_rt r)
      in case r_funct r of
           FnSLL \<Rightarrow> mn @ '' '' @ rd @ comma @ rt @ comma @ show_dec (unat (r_shamt r))
         | FnSRL \<Rightarrow> mn @ '' '' @ rd @ comma @ rt @ comma @ show_dec (unat (r_shamt r))
         | FnSRA \<Rightarrow> mn @ '' '' @ rd @ comma @ rt @ comma @ show_dec (unat (r_shamt r))
         | FnSLLV \<Rightarrow> mn @ '' '' @ rd @ comma @ rt @ comma @ rs
         | FnSRLV \<Rightarrow> mn @ '' '' @ rd @ comma @ rt @ comma @ rs
         | FnJR \<Rightarrow> mn @ '' '' @ rs
         | FnJALR \<Rightarrow> mn @ '' '' @ rd @ comma @ rs
         | _ \<Rightarrow> mn @ '' '' @ rd @ comma @ rs @ comma @ rt)"

definition i_text :: "string \<Rightarrow> opcode \<Rightarrow> i_fields \<Rightarrow> string" where
  "i_text mn op i =
     (let rs = reg_text (i_rs i); rt = reg_text (i_rt i); simm = sign_extend (i_imm i)
      in if op \<in> {OpLW, OpLBU, OpLHU, OpSW} then
           mn @ '' '' @ rt @ comma @ show_int simm @ ''('' @ rs @ '')''
         else if op = OpLUI then
           mn @ '' '' @ rt @ comma @ ''0x'' @ pad_zero 4 (show_base True 16 (unat (i_imm i)))
         else if op = OpBEQ \<or> op = OpBNE then
           mn @ '' '' @ rs @ comma @ rt @ comma @ show_signed simm
         else mn @ '' '' @ rt @ comma @ rs @ comma @ show_signed simm)"

definition jump_address :: "u32 \<Rightarrow> u32 \<Rightarrow> u32" where
  "jump_address pc target = ((pc + 4) AND 0xF0000000) OR push_bit 2 target"

definition j_text :: "string \<Rightarrow> u32 \<Rightarrow> j_fields \<Rightarrow> string" where
  "j_text mn pc j =
     mn @ '' 0x'' @ pad_zero 8 (show_base True 16 (unat (jump_address pc (j_target j))))"

definition dis_to_string :: "decoded_instr \<Rightarrow> u32 \<Rightarrow> string" where
  "dis_to_string d pc =
     (case lower_mnemonic d of
        None \<Rightarrow> ''???''
      | Some mn \<Rightarrow>
          (case di_format d of
             FmtR \<Rightarrow> (case di_fields d of RF r \<Rightarrow> r_text mn r | _ \<Rightarrow> ''???'')
           | FmtI \<Rightarrow> (case di_fields d of IF i \<Rightarrow> i_text mn (di_opcode d) i | _ \<Rightarrow> ''???'')
           | FmtJ \<Rightarrow> (case di_fields d of JF j \<Rightarrow> j_text mn pc j | _ \<Rightarrow> ''???'')
           | FmtUnknown \<Rightarrow> mn @ '' ???''))"

section \<open>Decoded instructions print without a fallback\<close>

lemma try_mnemonic_wf: "wf_instr d \<Longrightarrow> try_mnemonic d = Some (mnemonic d)"
  by (cases d rule: wf_instr_cases) (auto simp: try_mnemonic_def holds_r_def format_of_def)

lemma lower_mnemonic_wf: "wf_instr d \<Longrightarrow> lower_mnemonic d = Some (map to_lower (mnemonic d))"
  by (simp add: lower_mnemonic_def try_mnemonic_wf)

lemma dis_R: "wf_instr d \<Longrightarrow> di_fields d = RF r \<Longrightarrow> dis_to_string d pc = r_text (map to_lower (mnemonic d)) r"
  by (auto simp: dis_to_string_def lower_mnemonic_wf wf_instr_def)

lemma dis_I: "wf_instr d \<Longrightarrow> di_fields d = IF i \<Longrightarrow>
    dis_to_string d pc = i_text (map to_lower (mnemonic d)) (di_opcode d) i"
  by (auto simp: dis_to_string_def lower_mnemonic_wf wf_instr_def)

lemma dis_J: "wf_instr d \<Longrightarrow> di_fields d = JF j \<Longrightarrow> dis_to_string d pc = j_text (map to_lower (mnemonic d)) pc j"
  by (auto simp: dis_to_string_def lower_mnemonic_wf wf_instr_def)

text \<open>
  A coprocessor-0 word decodes to the R format, and \<open>mnemonic\<close> tests the format before the opcode:
  the names of MFC0, MTC0 and ERET are never produced for a decoded instruction.
\<close>

lemma mnemonic_cop0:
  assumes "decode w = Some d" "di_opcode d = OpCOP0"
  shows "mnemonic d \<notin> {''MFC0'', ''MTC0'', ''ERET'', ''COP0''}"
proof -
  have "di_format d = FmtR" using decode_format [OF assms(1)] assms(2) by (simp add: format_of_def)
  then show ?thesis by (cases "r_funct (get_r d)") (simp_all add: mnemonic_def)
qed

lemma cop0_funct:
  assumes "decode w = Some d" "di_opcode d = OpCOP0"
  obtains r where "di_fields d = RF r" "di_format d = FmtR" "get_r d = r" "r_shamt r = 0"
    "r_funct r = funct_of (ucast (bits w 5 0))" "r_rs r = ucast (bits w 25 21)"
    "r_rt r = ucast (bits w 20 16)" "r_rd r = ucast (bits w 15 11)"
proof -
  have op: "opcode_of (ucast (bits w 31 26)) = OpCOP0"
    using decode_opcode [OF assms(1)] assms(2) by simp
  have f: "format_of OpCOP0 = FmtR" by (simp add: format_of_def)
  let ?r = "\<lparr>r_rs = ucast (bits w 25 21), r_rt = ucast (bits w 20 16), r_rd = ucast (bits w 15 11),
    r_shamt = 0, r_funct = funct_of (ucast (bits w 5 0))\<rparr>"
  have "di_fields d = RF ?r" "di_format d = FmtR"
    using assms(1) by (auto simp: decode_def Let_def op f)
  then show ?thesis by (intro that [of ?r]) (simp_all add: get_r_def)
qed

section \<open>Property\<close>

text \<open>No decoded coprocessor-0 instruction is named as one: the format test of \<open>mnemonic\<close> shadows its COP0 branch. A register move from or to coprocessor 0 (low six bits zero) disassembles to a shift of the same two registers by zero, and ERET to a three-register instruction named by question marks.\<close>

theorem cop0_never_named:
  assumes "decode w = Some d" "di_opcode d = OpCOP0"
  shows "mnemonic d \<notin> {''MFC0'', ''MTC0'', ''ERET'', ''COP0''}
    \<and> (bits w 5 0 = 0 \<longrightarrow>
        dis_to_string d pc = ''sll '' @ reg_text (r_rd (get_r d)) @ comma @ reg_text (r_rt (get_r d)) @ comma @ ''0'')
    \<and> (bits w 5 0 = 0x18 \<longrightarrow>
        dis_to_string d pc = ''??? '' @ reg_text (r_rd (get_r d)) @ comma @ reg_text (r_rs (get_r d)) @ comma @ reg_text (r_rt (get_r d)))"
proof -
  obtain r where r: "di_fields d = RF r" "di_format d = FmtR" "get_r d = r" "r_shamt r = 0"
    "r_funct r = funct_of (ucast (bits w 5 0))" by (rule cop0_funct [OF assms])
  have z: "show_dec 0 = ''0''" by (simp add: show_dec_def show_base_def digits_of.simps [of 10 0])
  have "dis_to_string d pc = r_text (map to_lower (mnemonic d)) r"
    by (rule dis_R [OF decode_wf [OF assms(1)] r(1)])
  moreover have "r_text (map to_lower (mnemonic d)) r =
      ''sll '' @ reg_text (r_rd r) @ comma @ reg_text (r_rt r) @ comma @ ''0''" if h: "bits w 5 0 = 0"
  proof -
    have f: "r_funct r = FnSLL" using r(5) h by (simp add: funct_of_def)
    then have m: "map to_lower (mnemonic d) = ''sll''" using r by (simp add: mnemonic_def to_lower_id)
    show ?thesis unfolding r_text_def Let_def m f using r(4) z by simp
  qed
  moreover have "r_text (map to_lower (mnemonic d)) r =
      ''??? '' @ reg_text (r_rd r) @ comma @ reg_text (r_rs r) @ comma @ reg_text (r_rt r)"
    if h: "bits w 5 0 = 0x18"
  proof -
    have f: "r_funct r = FnERET" using r(5) h by (simp add: funct_of_def)
    then have m: "map to_lower (mnemonic d) = ''???''" using r by (simp add: mnemonic_def to_lower_id)
    show ?thesis unfolding r_text_def Let_def m f by simp
  qed
  ultimately show ?thesis
    using mnemonic_cop0 [OF assms] r(3) by simp
qed

text \<open>\<open>mfc0 $v0, $13\<close>, a read of the cause register.\<close>

lemma cop0_never_named_witness:
  "\<exists>d. decode 0x40026800 = Some d \<and> dis_to_string d 0 = ''sll $t5, $v0, 0''"
proof -
  have f: "bits 0x40026800 5 0 = 0" "bits 0x40026800 31 26 = 0x10" "bits 0x40026800 15 11 = 13"
    "bits 0x40026800 20 16 = 2" by code_simp+
  obtain d where d: "decode 0x40026800 = Some d" "di_opcode d = OpCOP0"
    using f by (simp add: decode_def format_of_def opcode_of_def Let_def)
  obtain r where r: "get_r d = r" "r_rt r = ucast (bits (0x40026800 :: u32) 20 16)" "r_rd r = ucast (bits (0x40026800 :: u32) 15 11)"
    by (rule cop0_funct [OF d])
  have "register_abi_name 13 = ''t5''" "register_abi_name 2 = ''v0''" by code_simp+
  then show ?thesis
    using cop0_never_named [OF d, of 0] d f r by (simp add: reg_text_def comma_def)
qed

end
