(* ===== verification/AssembledPrograms.thy ===== *)
theory AssembledPrograms
  imports Assembler Disassembler SingleCycle
begin

text \<open>
  The assembler together with the parts its output meets: the CPU, on which a branch or jump to a
  label must reach the instruction the label stands before, and the disassembler, whose text is
  assembled again. The second composition holds for register instructions, shifts, memory
  instructions, \<open>lui\<close> and negative signed immediates; the disassembler writes the other signed
  immediates with a plus sign, which the assembler refuses.
\<close>

unbundle bit_operations_syntax

section \<open>Labels on the CPU\<close>

lemma encodes_decode:
  assumes "encodes labels idx mn ops w"
  obtains d where "decode w = Some d" "mnemonic d = map to_upper mn"
    "list_all2 (operand_means labels idx (di_opcode d)) ops (operand_view d)"
  using assms by (auto simp: encodes_def split: option.splits)

lemma mnemonic_branch:
  assumes "wf_instr d"
  shows "mnemonic d = ''BEQ'' \<longleftrightarrow> di_opcode d = OpBEQ" "mnemonic d = ''BNE'' \<longleftrightarrow> di_opcode d = OpBNE"
    "mnemonic d = ''J'' \<longleftrightarrow> di_opcode d = OpJ" "mnemonic d = ''JAL'' \<longleftrightarrow> di_opcode d = OpJAL"
proof -
  have "(mnemonic d = ''BEQ'' \<longleftrightarrow> di_opcode d = OpBEQ) \<and> (mnemonic d = ''BNE'' \<longleftrightarrow> di_opcode d = OpBNE)
    \<and> (mnemonic d = ''J'' \<longleftrightarrow> di_opcode d = OpJ) \<and> (mnemonic d = ''JAL'' \<longleftrightarrow> di_opcode d = OpJAL)"
    using assms
  proof (cases d rule: wf_instr_cases)
    case (Special r)
    then show ?thesis by (cases "r_funct r") (simp_all add: mnemonic_def)
  next
    case (Cop0 r)
    then show ?thesis by (cases "r_funct r") (simp_all add: mnemonic_def)
  next
    case (Imm i)
    then show ?thesis by (cases "di_opcode d") (simp_all add: mnemonic_def format_of_def)
  next
    case (Jump j)
    then show ?thesis by (auto simp: mnemonic_def)
  qed
  then show "mnemonic d = ''BEQ'' \<longleftrightarrow> di_opcode d = OpBEQ" "mnemonic d = ''BNE'' \<longleftrightarrow> di_opcode d = OpBNE"
    "mnemonic d = ''J'' \<longleftrightarrow> di_opcode d = OpJ" "mnemonic d = ''JAL'' \<longleftrightarrow> di_opcode d = OpJAL"
    by blast+
qed

lemma word_of_int_sint: "word_of_int (sint (x :: 'a :: len word)) = x"
  by (metis scast_eq scast_id)

text \<open>The byte offset of a branch from the line after it to the line of a label.\<close>

lemma branch_distance:
  fixes t :: u32
  assumes "sint imm = sint t - to_i32 (int (idx + 1))"
  shows "base + 4 * of_nat idx + 4 + push_bit 2 (sext32 imm) = base + 4 * t"
proof -
  have i: "(word_of_int (to_i32 (int (idx + 1))) :: u32) = of_nat (idx + 1)"
    by (simp only: to_i32_def word_of_int_sint) simp
  have "sext32 imm = t - of_nat (idx + 1)"
    by (simp only: sext32_def sign_extend_def assms wi_hom_sub [symmetric] word_of_int_sint i)
  then have "t = sext32 imm + of_nat idx + 1" by simp
  then show ?thesis by (simp add: push_bit_eq_mult distrib_left)
qed

lemma alu_sub_zero: "alu_value (alu_execute AluSUBU a b sh) = 0 \<longleftrightarrow> a = b"
  by (simp add: alu_value_execute alu_compute_def)

lemma sc_step_branch:
  assumes "mem_read_word (cpu_mem s) (cpu_pc s) = Some w" "decode w = Some d"
    "di_opcode d = OpBEQ \<or> di_opcode d = OpBNE" "di_fields d = IF i"
  shows "cpu_pc (snd (sc_step s)) =
    (if (di_opcode d = OpBEQ) = (regs_read (cpu_regs s) (i_rs i) = regs_read (cpu_regs s) (i_rt i))
     then cpu_pc s + 4 + push_bit 2 (sext32 (i_imm i)) else cpu_pc s + 4)"
proof -
  have f: "di_format d = FmtI" using decode_format [OF assms(2)] assms(3) by (auto simp: format_of_def)
  have c: "alu_control d = Some AluSUBU"
    using assms(3) f by (auto simp: alu_control_def i_type_op_def)
  show ?thesis
    using assms(3) by (auto simp: sc_step_def assms(1,2) f Let_def exec_itype_def exec_branch_def c
        alu_sub_zero sc_finish_def get_i_def assms(4))
qed

lemma sc_step_jump:
  assumes "mem_read_word (cpu_mem s) (cpu_pc s) = Some w" "decode w = Some d"
    "di_opcode d = OpJ \<or> di_opcode d = OpJAL" "di_fields d = JF j"
  shows "cpu_pc (snd (sc_step s)) = ((cpu_pc s + 4) AND 0xF0000000) OR push_bit 2 (j_target j)"
proof -
  have f: "di_format d = FmtJ" using decode_format [OF assms(2)] assms(3) by (auto simp: format_of_def)
  show ?thesis
    by (simp add: sc_step_def assms(1,2) f Let_def sc_finish_def jump_target_def get_j_def assms(4))
qed


text \<open>A countdown loop: the branch at index 1 goes back to the label at index 0.\<close>

definition loop_source :: string where
  "loop_source = ''loop: addi $t0, $t0, -1'' @ [CHR 0x0A] @ ''bne $t0, $zero, loop''"

definition loop_cpu :: cpu where
  "loop_cpu = (sc_create 16)\<lparr>cpu_regs := regs_write 8 5 regs_init,
     cpu_mem := snd (mem_write_word (mem_create 16) 4 0x1500FFFE), cpu_pc := 4\<rparr>"

lemma loop_assembled:
  "assemble loop_source = \<lparr>ar_words = [0x2108FFFF, 0x1500FFFE], ar_error = None\<rparr>"
  "asm_lines loop_source =
    [\<lparr>al_lineno = 1, al_mnemonic = ''addi'', al_operands = [''$t0'', ''$t0'', ''-1'']\<rparr>,
     \<lparr>al_lineno = 2, al_mnemonic = ''bne'', al_operands = [''$t0'', ''$zero'', ''loop'']\<rparr>]"
  "asm_labels loop_source = [''loop'' \<mapsto> 0]" "parse_imm ''loop'' = None"
proof -
  have w: "enc_i 8 8 8 (- 1) = 0x2108FFFF" "enc_i 5 8 0 (- 2) = 0x1500FFFE" by code_simp+
  have p: "asm_pass1 0 Map.empty [] (get_lines loop_source) =
      ([''loop'' \<mapsto> 0], [\<lparr>al_lineno = 1, al_mnemonic = ''addi'', al_operands = [''$t0'', ''$t0'', ''-1'']\<rparr>,
        \<lparr>al_lineno = 2, al_mnemonic = ''bne'', al_operands = [''$t0'', ''$zero'', ''loop'']\<rparr>])"
    by (simp add: loop_source_def strip_line_def trim_def trim_char_def take_label_def tokenise_def to_lower_id)
  then show "asm_lines loop_source =
      [\<lparr>al_lineno = 1, al_mnemonic = ''addi'', al_operands = [''$t0'', ''$t0'', ''-1'']\<rparr>,
       \<lparr>al_lineno = 2, al_mnemonic = ''bne'', al_operands = [''$t0'', ''$zero'', ''loop'']\<rparr>]"
    "asm_labels loop_source = [''loop'' \<mapsto> 0]"
    by (simp_all add: asm_lines_def asm_labels_def)
  show l: "parse_imm ''loop'' = None" by (simp add: eval_asm)
  show "assemble loop_source = \<lparr>ar_words = [0x2108FFFF, 0x1500FFFE], ar_error = None\<rparr>"
    unfolding assemble_def p using w
    by (simp add: eval_asm asm_iarith_def asm_branch_def branch_offset_def)
qed


section \<open>Assembling the disassembly\<close>

text \<open>Characters that are part of a token and never of a comment, label or separator.\<close>

definition plain :: "char \<Rightarrow> bool" where
  "plain c \<longleftrightarrow> digit_val c < 36 \<or> c \<in> set ''$()-+?''"

lemma plain_char:
  assumes "plain c"
  shows "c \<noteq> CHR 0x0A" "c \<noteq> CHR ''#''" "c \<noteq> CHR '':''" "c \<noteq> CHR '',''" "c \<noteq> CHR '' ''" "c \<noteq> CHR 0x09"
    "c \<noteq> CHR 0x0D" "\<not> trim_char c"
proof -
  have n: "\<not> plain (CHR 0x0A)" "\<not> plain (CHR ''#'')" "\<not> plain (CHR '':'')" "\<not> plain (CHR '','')"
    "\<not> plain (CHR '' '')" "\<not> plain (CHR 0x09)" "\<not> plain (CHR 0x0D)"
    by (simp_all add: plain_def digit_val_def)
  then show "c \<noteq> CHR 0x0A" "c \<noteq> CHR ''#''" "c \<noteq> CHR '':''" "c \<noteq> CHR '',''" "c \<noteq> CHR '' ''" "c \<noteq> CHR 0x09"
    "c \<noteq> CHR 0x0D" using assms by auto
  then show "\<not> trim_char c" by (simp add: trim_char_def)
qed

abbreviation token :: "string \<Rightarrow> bool" where
  "token s \<equiv> s \<noteq> [] \<and> (\<forall>c\<in>set s. plain c)"

fun join_ops :: "string list \<Rightarrow> string" where
  "join_ops [] = []"
| "join_ops [t] = t"
| "join_ops (t # ts) = t @ comma @ join_ops ts"

definition asm_text :: "string \<Rightarrow> string list \<Rightarrow> string" where
  "asm_text mn ops = mn @ '' '' @ join_ops ops"

lemma tokenise_loop_token:
  "\<forall>c\<in>set t. plain c \<Longrightarrow> tokenise_loop toks cur (t @ s) = tokenise_loop toks (cur @ t) s"
  by (induction t arbitrary: cur) (simp_all add: plain_char)

lemma tokenise_join:
  "\<forall>t\<in>set ops. token t \<Longrightarrow> tokenise_loop toks [] (join_ops ops) = toks @ ops"
proof (induction ops arbitrary: toks rule: join_ops.induct)
  case (2 t)
  then show ?case using tokenise_loop_token [of t toks "[]" "[]"] by simp
next
  case (3 t u ts)
  then show ?case
    using tokenise_loop_token [of t toks "[]" "comma @ join_ops (u # ts)"] by (simp add: comma_def)
qed simp

lemma tokenise_asm_text:
  "token mn \<Longrightarrow> \<forall>t\<in>set ops. token t \<Longrightarrow> tokenise (asm_text mn ops) = mn # ops"
  using tokenise_loop_token [of mn "[]" "[]" "'' '' @ join_ops ops"] tokenise_join [of ops "[mn]"]
  by (simp add: tokenise_def asm_text_def)

lemma join_ops_chars:
  "\<forall>t\<in>set ops. token t \<Longrightarrow> \<forall>c\<in>set (join_ops ops). plain c \<or> c = CHR '' '' \<or> c = CHR '',''"
  by (induction ops rule: join_ops.induct) (auto simp: comma_def)

lemma join_ops_last: "\<forall>t\<in>set ops. token t \<Longrightarrow> ops \<noteq> [] \<Longrightarrow> join_ops ops \<noteq> [] \<and> plain (last (join_ops ops))"
  by (induction ops rule: join_ops.induct) auto

lemma get_lines_one: "CHR 0x0A \<notin> set s \<Longrightarrow> s \<noteq> [] \<Longrightarrow> get_lines s = [s]"
proof (induction s)
  case (Cons c s)
  then show ?case by (cases s) auto
qed simp

lemma asm_text_line:
  assumes "token mn" "\<forall>t\<in>set ops. token t" "ops \<noteq> []"
  shows "get_lines (asm_text mn ops) = [asm_text mn ops]" "strip_line (asm_text mn ops) = asm_text mn ops"
    "find_char (CHR '':'') (asm_text mn ops) = None"
proof -
  let ?s = "asm_text mn ops"
  have ch: "\<forall>c\<in>set ?s. plain c \<or> c = CHR '' '' \<or> c = CHR '',''"
    using join_ops_chars [OF assms(2)] assms(1) by (auto simp: asm_text_def)
  have no: "CHR 0x0A \<notin> set ?s" "CHR ''#'' \<notin> set ?s" "CHR '':'' \<notin> set ?s"
    using ch plain_char(1-3) by fastforce+
  have hd: "?s \<noteq> []" "plain (hd ?s)" using assms(1) by (auto simp: asm_text_def hd_append)
  have la: "plain (last ?s)" using join_ops_last [OF assms(2,3)] by (simp add: asm_text_def)
  show "get_lines ?s = [?s]" by (rule get_lines_one [OF no(1) hd(1)])
  show "find_char (CHR '':'') ?s = None" using no(3) by (simp add: find_char_None)
  have "dropWhile trim_char ?s = ?s"
    using hd plain_char(8) by (metis dropWhile.simps(2) list.exhaust_sel)
  moreover have "dropWhile trim_char (rev ?s) = rev ?s"
    using hd(1) la plain_char(8) by (metis dropWhile.simps(2) hd_rev list.exhaust_sel rev_is_Nil_conv)
  ultimately have "trim ?s = ?s" by (simp add: trim_def)
  then show "strip_line ?s = ?s" using no(2) by (simp add: strip_line_def find_char_None [THEN iffD2])
qed

lemma assemble_one:
  assumes "token mn" "\<forall>t\<in>set ops. token t" "ops \<noteq> []"
  shows "assemble (asm_text mn ops) =
    (case encode_line Map.empty 0 (map to_lower mn) ops of
       Inl msg \<Rightarrow> \<lparr>ar_words = [], ar_error = Some (make_error 1 msg)\<rparr>
     | Inr w \<Rightarrow> \<lparr>ar_words = [w], ar_error = None\<rparr>)"
proof -
  have ne: "asm_text mn ops \<noteq> []" using assms(1) by (auto simp: asm_text_def)
  show ?thesis
    by (simp add: assemble_def asm_text_line [OF assms] take_label_def tokenise_asm_text [OF assms(1,2)] ne
        split: sum.split)
qed

lemma all_gprs:
  assumes "\<forall>n\<in>set [0..<32]. P (of_nat n :: u8)" "gpr_index i"
  shows "P i"
proof -
  have "unat i \<in> set [0..<32]" using assms(2) by simp
  then show ?thesis using assms(1) by fastforce
qed

lemma token_reg_text: "gpr_index i \<Longrightarrow> token (reg_text i)"
proof (rule all_gprs [of "\<lambda>i. token (reg_text i)"])
  show "\<forall>n\<in>set [0..<32]. token (reg_text (of_nat n))" by code_simp
qed

lemma parse_reg_text [simp]: "gpr_index i \<Longrightarrow> parse_reg (reg_text i) = Some i"
proof (rule all_gprs [of "\<lambda>i. parse_reg (reg_text i) = Some i"])
  have "\<forall>n\<in>set [0..<32]. reg_text (of_nat n) = ''$'' @ abi_names ! n" by code_simp
  moreover have "\<forall>n\<in>set [0..<32]. \<not> is_digit (hd (abi_names ! n)) \<and> map_of kRegMap (abi_names ! n) = Some (of_nat n)"
    by code_simp
  ultimately show "\<forall>n\<in>set [0..<32]. parse_reg (reg_text (of_nat n)) = Some (of_nat n)"
    by (simp add: parse_reg_def)
qed

lemma digits_10: "c \<in> set (show_dec n) \<Longrightarrow> digit_val c < 10"
  unfolding show_dec_def by (rule show_base_digits) simp_all

lemma decimal_parse:
  assumes "n < 2147483648"
  shows "from_chars_int32 (show_dec n) = Some (int n)" "\<not> has_hex_prefix (show_dec n)"
    "hd (show_dec n) \<noteq> CHR ''-''" "show_dec n \<noteq> []"
proof -
  show ne: "show_dec n \<noteq> []" by (simp add: show_dec_def)
  have no: "CHR ''-'' \<notin> set (show_dec n)" "CHR ''x'' \<notin> set (show_dec n)" "CHR ''X'' \<notin> set (show_dec n)"
    using digits_10 [of "CHR ''-''" n] digits_10 [of "CHR ''x''" n] digits_10 [of "CHR ''X''" n]
    by (auto simp: digit_val_def)
  show hd: "hd (show_dec n) \<noteq> CHR ''-''" using no(1) hd_in_set [OF ne] by metis
  have "from_chars_all (2 ^ 31) 10 (show_dec n) = Some n"
    using from_chars_show [of 10 n "2 ^ 31" 0 False] assms by (simp add: show_dec_def pad_zero_def)
  with hd ne show "from_chars_int32 (show_dec n) = Some (int n)"
    by (cases "show_dec n") (auto simp: from_chars_int32_def)
  show "\<not> has_hex_prefix (show_dec n)"
  proof
    assume h: "has_hex_prefix (show_dec n)"
    then have "show_dec n ! 1 \<in> set (show_dec n)" "show_dec n ! 1 \<in> {CHR ''x'', CHR ''X''}"
      by (auto simp: has_hex_prefix_def intro!: nth_mem)
    with no(2,3) show False by fastforce
  qed
qed

lemma parse_imm_show_dec: "n < 2147483648 \<Longrightarrow> parse_imm (show_dec n) = Some (int n)"
  using decimal_parse [of n] by (simp add: parse_imm_def)

lemma parse_imm_negative: "0 < n \<Longrightarrow> n < 2147483648 \<Longrightarrow> parse_imm (''-'' @ show_dec n) = Some (- int n)"
  using decimal_parse [of n] by (simp add: parse_imm_def)

lemma parse_imm_show_int: "- 32768 \<le> v \<Longrightarrow> v < 65536 \<Longrightarrow> parse_imm (show_int v) = Some v"
  using parse_imm_show_dec [of "nat v"] parse_imm_negative [of "nat (- v)"] by (simp add: show_int_def)

lemma parse_imm_plus: "parse_imm (CHR ''+'' # s) = None"
  by (simp add: parse_imm_def has_hex_prefix_def from_chars_int32_def from_chars_all_def from_chars_def
      digit_val_def)

lemma parse_imm_hex: "n < 65536 \<Longrightarrow> parse_imm (''0x'' @ pad_zero 4 (show_base True 16 n)) = Some (int n)"
proof -
  assume n: "n < 65536"
  have "from_chars_all (2 ^ 32) 16 (pad_zero 4 (show_base True 16 n)) = Some n"
    using from_chars_show [of 16 n "2 ^ 32" 4 True] n by simp
  moreover have "pad_zero 4 (show_base True 16 n) \<noteq> []" by (simp add: pad_zero_def)
  ultimately show ?thesis using n by (simp add: parse_imm_def has_hex_prefix_def)
qed

lemma digit_plain: "digit_val c < 16 \<Longrightarrow> plain c"
  by (simp add: plain_def)

lemma plain_dec: "c \<in> set (show_dec n) \<Longrightarrow> plain c"
  using digits_10 [of c n] by (simp add: plain_def)

lemma token_show_dec [simp]: "token (show_dec n)"
  by (auto simp: plain_dec) (simp add: show_dec_def)

lemma token_show_int: "token (show_int v)" "token (show_signed v)"
  using token_show_dec by (auto simp: show_int_def show_signed_def) (auto simp: plain_def)

lemma token_hex: "token (''0x'' @ pad_zero 4 (show_base True 16 n))"
proof -
  have "\<forall>c\<in>set (show_base True 16 n). plain c" using show_base_digits [of 16 _ True n] by (simp add: digit_plain)
  moreover have "plain (CHR ''0'')" "plain (CHR ''x'')" by (simp_all add: plain_def digit_val_def)
  ultimately show ?thesis by (auto simp: pad_zero_def)
qed

text \<open>The memory operand, whose parentheses enclose the register.\<close>

lemma show_int_chars: "c \<in> set (show_int v) \<Longrightarrow> digit_val c < 10 \<or> c = CHR ''-''"
  using digits_10 by (auto simp: show_int_def split: if_splits)

lemma parse_mem_text:
  assumes "gpr_index r" "- 32768 \<le> v" "v < 65536"
  shows "parse_mem_operand (show_int v @ ''('' @ reg_text r @ '')'') = Some (v, r)"
proof -
  have n: "CHR ''('' \<notin> set (show_int v)" "CHR '')'' \<notin> set (show_int v)"
    using show_int_chars [of _ v] by (fastforce simp: digit_val_def)+
  have "\<forall>n\<in>set [0..<32]. CHR '')'' \<notin> set (reg_text (of_nat n))" by code_simp
  then have r: "CHR '')'' \<notin> set (reg_text r)"
    by (rule all_gprs [of "\<lambda>i. CHR '')'' \<notin> set (reg_text i)"]) (rule assms(1))
  have "CHR '')'' \<notin> set (show_int v @ ''('' @ reg_text r)" using n r by simp
  then have "find_char (CHR '')'') ((show_int v @ ''('' @ reg_text r) @ CHR '')'' # []) =
      Some (length (show_int v @ ''('' @ reg_text r))" by (rule find_char_append)
  then have rp: "find_char (CHR '')'') (show_int v @ ''('' @ reg_text r @ '')'') =
      Some (length (show_int v) + 1 + length (reg_text r))" by simp
  have lp: "find_char (CHR ''('') (show_int v @ ''('' @ reg_text r @ '')'') = Some (length (show_int v))"
    using find_char_append [OF n(1), of "reg_text r @ '')''"] by simp
  show ?thesis
    using assms by (simp add: parse_mem_operand_def lp [simplified] rp [simplified] parse_imm_show_int)
qed

section \<open>Which instructions survive the round trip\<close>

text \<open>The operand texts of the disassembler.\<close>

definition r_ops :: "r_fields \<Rightarrow> string list" where
  "r_ops r =
     (let rd = reg_text (r_rd r); rs = reg_text (r_rs r); rt = reg_text (r_rt r)
      in if r_funct r \<in> {FnSLL, FnSRL, FnSRA} then [rd, rt, show_dec (unat (r_shamt r))]
         else if r_funct r \<in> {FnSLLV, FnSRLV} then [rd, rt, rs]
         else if r_funct r = FnJR then [rs]
         else if r_funct r = FnJALR then [rd, rs]
         else [rd, rs, rt])"

lemma r_text_ops: "r_text mn r = asm_text mn (r_ops r)"
  by (cases "r_funct r") (simp_all add: r_text_def r_ops_def asm_text_def Let_def)

definition i_ops :: "opcode \<Rightarrow> i_fields \<Rightarrow> string list" where
  "i_ops op i =
     (let rs = reg_text (i_rs i); rt = reg_text (i_rt i); simm = sign_extend (i_imm i)
      in if op \<in> {OpLW, OpLBU, OpLHU, OpSW} then [rt, show_int simm @ ''('' @ rs @ '')'']
         else if op = OpLUI then [rt, ''0x'' @ pad_zero 4 (show_base True 16 (unat (i_imm i)))]
         else if op = OpBEQ \<or> op = OpBNE then [rs, rt, show_signed simm]
         else [rt, rs, show_signed simm])"

lemma i_text_ops: "i_text mn op i = asm_text mn (i_ops op i)"
  by (simp add: i_text_def i_ops_def asm_text_def Let_def)

lemma token_r_ops:
  "gpr_index (r_rs r) \<Longrightarrow> gpr_index (r_rt r) \<Longrightarrow> gpr_index (r_rd r) \<Longrightarrow> \<forall>t\<in>set (r_ops r). token t"
  using token_show_dec by (simp add: r_ops_def Let_def token_reg_text)

lemma token_i_ops: "gpr_index (i_rs i) \<Longrightarrow> gpr_index (i_rt i) \<Longrightarrow> \<forall>t\<in>set (i_ops op i). token t"
proof -
  assume g: "gpr_index (i_rs i)" "gpr_index (i_rt i)"
  have "plain (CHR ''('')" "plain (CHR '')'')" by (simp_all add: plain_def)
  then show ?thesis
    using g token_reg_text token_show_int token_hex by (simp add: i_ops_def Let_def ball_Un)
qed

text \<open>
  The instructions whose text the assembler takes back: everything but system calls, breakpoints,
  coprocessor moves, jumps (printed as byte addresses), non-negative signed immediates (printed
  with a plus sign) and negative logical ones (printed sign-extended).
\<close>

definition reassembles :: "decoded_instr \<Rightarrow> bool" where
  "reassembles d \<longleftrightarrow>
     (case di_fields d of
        RF r \<Rightarrow> di_opcode d = OpSPECIAL \<and> r_funct r \<notin> {FnSYSCALL, FnBREAK}
      | IF i \<Rightarrow> di_opcode d \<in> {OpLW, OpLBU, OpLHU, OpSW, OpLUI}
          \<or> di_opcode d \<in> {OpADDI, OpADDIU, OpSLTI, OpSLTIU, OpBEQ, OpBNE} \<and> sint (i_imm i) < 0
      | JF j \<Rightarrow> False)"

definition same_instr :: "decoded_instr \<Rightarrow> u32 \<Rightarrow> bool" where
  "same_instr d w \<longleftrightarrow>
     (case decode w of None \<Rightarrow> False | Some d' \<Rightarrow> mnemonic d' = mnemonic d \<and> operand_view d' = operand_view d)"

lemma same_instr_R:
  assumes "gpr_index rs" "gpr_index rt" "gpr_index rd" "gpr_index sh" "unat fn < 64"
    "implemented_special (funct_of fn)"
    "mnemonic \<lparr>di_raw = enc_r rs rt rd sh fn, di_opcode = OpSPECIAL, di_format = FmtR,
      di_fields = RF \<lparr>r_rs = rs, r_rt = rt, r_rd = rd, r_shamt = sh, r_funct = funct_of fn\<rparr>\<rparr> = mnemonic d"
    "operand_view \<lparr>di_raw = enc_r rs rt rd sh fn, di_opcode = OpSPECIAL, di_format = FmtR,
        di_fields = RF \<lparr>r_rs = rs, r_rt = rt, r_rd = rd, r_shamt = sh, r_funct = funct_of fn\<rparr>\<rparr> = operand_view d"
  shows "same_instr d (enc_r rs rt rd sh fn)"
  using assms by (simp add: same_instr_def enc_r_decode)

lemma same_instr_I:
  assumes "gpr_index rs" "gpr_index rt" "unat opc < 64" "format_of (opcode_of opc) = FmtI"
    "mnemonic \<lparr>di_raw = enc_i opc rs rt imm, di_opcode = opcode_of opc, di_format = FmtI,
      di_fields = IF \<lparr>i_rs = rs, i_rt = rt, i_imm = imm\<rparr>\<rparr> = mnemonic d"
    "operand_view \<lparr>di_raw = enc_i opc rs rt imm, di_opcode = opcode_of opc, di_format = FmtI,
        di_fields = IF \<lparr>i_rs = rs, i_rt = rt, i_imm = imm\<rparr>\<rparr> = operand_view d"
  shows "same_instr d (enc_i opc rs rt imm)"
  using assms by (simp add: same_instr_def enc_i_decode)

text \<open>Encoding the printed operands of a register instruction.\<close>

definition fn_code :: "funct_code \<Rightarrow> u8" where
  "fn_code f =
     (case f of FnSLL \<Rightarrow> 0x00 | FnSRL \<Rightarrow> 0x02 | FnSRA \<Rightarrow> 0x03 | FnSLLV \<Rightarrow> 0x04 | FnSRLV \<Rightarrow> 0x06
      | FnJR \<Rightarrow> 0x08 | FnJALR \<Rightarrow> 0x09 | FnSYSCALL \<Rightarrow> 0x0C | FnBREAK \<Rightarrow> 0x0D | FnADD \<Rightarrow> 0x20
      | FnADDU \<Rightarrow> 0x21 | FnSUB \<Rightarrow> 0x22 | FnSUBU \<Rightarrow> 0x23 | FnAND \<Rightarrow> 0x24 | FnOR \<Rightarrow> 0x25
      | FnXOR \<Rightarrow> 0x26 | FnNOR \<Rightarrow> 0x27 | FnSLT \<Rightarrow> 0x2A | FnSLTU \<Rightarrow> 0x2B | FnERET \<Rightarrow> 0x18
      | FnReserved v \<Rightarrow> v)"

lemma funct_of_fn_code: "implemented_special f \<Longrightarrow> funct_of (fn_code f) = f \<and> unat (fn_code f) < 64"
  by (cases f) (simp_all add: fn_code_def funct_of_def implemented_special_def)

text \<open>The canonical word of a register instruction: unused fields zero.\<close>

definition r_word :: "r_fields \<Rightarrow> u32" where
  "r_word r =
     (let fn = fn_code (r_funct r)
      in if r_funct r \<in> {FnSLL, FnSRL, FnSRA} then enc_r 0 (r_rt r) (r_rd r) (r_shamt r) fn
         else if r_funct r = FnJR then enc_r (r_rs r) 0 0 0 fn
         else if r_funct r = FnJALR then enc_r (r_rs r) 0 (r_rd r) 0 fn
         else enc_r (r_rs r) (r_rt r) (r_rd r) 0 fn)"

lemma same_instr_r_word:
  assumes "wf_instr d" "di_opcode d = OpSPECIAL" "di_fields d = RF r" "implemented_special (r_funct r)"
  shows "same_instr d (r_word r)"
proof -
  have d: "get_r d = r" "di_format d = FmtR" "gpr_index (r_rs r)" "gpr_index (r_rt r)" "gpr_index (r_rd r)"
    "gpr_index (r_shamt r)"
    using assms(1-3) by (auto simp: wf_instr_def get_r_def)
  note f = funct_of_fn_code [OF assms(4)]
  have m: "mnemonic \<lparr>di_raw = w, di_opcode = OpSPECIAL, di_format = FmtR,
      di_fields = RF \<lparr>r_rs = a, r_rt = b, r_rd = c, r_shamt = sh, r_funct = f\<rparr>\<rparr> = mnemonic d" if "r_funct r = f" for w a b c sh f
    using that assms(3) d(2) by (simp add: mnemonic_def get_r_def)
  have "gpr_index 0" by simp
  then show ?thesis
    using d(3-6) f assms(4) unfolding r_word_def Let_def
    by (auto intro!: same_instr_R simp: m operand_view_def assms(3))
qed

lemma encode_r_ops:
  assumes "wf_instr d" "di_opcode d = OpSPECIAL" "di_fields d = RF r" "r_funct r \<notin> {FnSYSCALL, FnBREAK}"
  shows "encode_line Map.empty 0 (map to_lower (mnemonic d)) (r_ops r) = Inr (r_word r)"
proof -
  have d: "get_r d = r" "di_format d = FmtR" "gpr_index (r_rs r)" "gpr_index (r_rt r)" "gpr_index (r_rd r)"
    "gpr_index (r_shamt r)" "implemented_special (r_funct r)"
    using assms(1-3) by (auto simp: wf_instr_def get_r_def)
  have sh: "parse_imm (show_dec (unat (r_shamt r))) = Some (int (unat (r_shamt r)))"
    using d(6) by (intro parse_imm_show_dec) simp
  have w: "(word_of_int (int (unat (r_shamt r))) :: u8) = r_shamt r" "(word_of_nat (unat (r_shamt r)) :: u8) = r_shamt r" "\<not> 31 < unat (r_shamt r)"
    using d(6) by simp_all
  define f where "f = r_funct r"
  have m: "mnemonic d = mnemonic \<lparr>di_raw = 0, di_opcode = OpSPECIAL, di_format = FmtR,
      di_fields = RF \<lparr>r_rs = 0, r_rt = 0, r_rd = 0, r_shamt = 0, r_funct = f\<rparr>\<rparr>"
    using assms(3) d(2) by (simp add: mnemonic_def get_r_def f_def)
  show ?thesis
    using assms(4) d(7) unfolding m r_ops_def r_word_def Let_def f_def [symmetric]
    by (cases f)
       (simp_all add: mnemonic_def get_r_def d(3-6) encode_line_def encode_tables asm_r3_def asm_shift_def
         asm_vshift_def asm_jr_def asm_jalr_def sh w to_lower_id implemented_special_def fn_code_def del: of_nat_unat)
qed

definition i_word :: "opcode \<Rightarrow> i_fields \<Rightarrow> u32" where
  "i_word op i =
     (let code = (case op of OpBEQ \<Rightarrow> 0x04 | OpBNE \<Rightarrow> 0x05 | OpADDI \<Rightarrow> 0x08 | OpADDIU \<Rightarrow> 0x09
        | OpSLTI \<Rightarrow> 0x0A | OpSLTIU \<Rightarrow> 0x0B | OpLUI \<Rightarrow> 0x0F | OpLW \<Rightarrow> 0x23 | OpLBU \<Rightarrow> 0x24
        | OpLHU \<Rightarrow> 0x25 | _ \<Rightarrow> 0x2B)
      in enc_i code (if op = OpLUI then 0 else i_rs i) (i_rt i) (i_imm i))"

lemma sint_u16_bounds: "- 32768 \<le> sint (x :: u16)" "sint (x :: u16) < 32768"
  using sint_greater_eq [of x] sint_less [of x] by simp_all

lemma imm_word: "(word_of_int (sint (x :: u16)) :: u16) = x"
  by (rule word_of_int_sint)

lemma parse_imm_signed_neg: "sint (x :: u16) < 0 \<Longrightarrow> parse_imm (show_signed (sint x)) = Some (sint x)"
  using parse_imm_negative [of "nat (- sint x)"] sint_u16_bounds [of x] by (simp add: show_signed_def)

lemma i_opcode_cases:
  assumes "di_fields d = IF i" "reassembles d"
  shows "di_opcode d \<in> {OpLW, OpLBU, OpLHU, OpSW}
    \<or> di_opcode d = OpLUI
    \<or> di_opcode d \<in> {OpADDI, OpADDIU, OpSLTI, OpSLTIU} \<and> sint (i_imm i) < 0
    \<or> di_opcode d \<in> {OpBEQ, OpBNE} \<and> sint (i_imm i) < 0"
  using assms by (auto simp: reassembles_def)

lemma encode_i_ops:
  assumes "wf_instr d" "di_fields d = IF i" "reassembles d"
  shows "encode_line Map.empty 0 (map to_lower (mnemonic d)) (i_ops (di_opcode d) i) = Inr (i_word (di_opcode d) i)"
proof -
  have d: "di_format d = FmtI" "gpr_index (i_rs i)" "gpr_index (i_rt i)"
    using assms(1,2) by (auto simp: wf_instr_def)
  have fit: "fits_simm16 (sint (i_imm i))" "fits_uimm16 (uint (i_imm i))"
    using sint_u16_bounds [of "i_imm i"] uint_bounded [of "i_imm i"]
    by (simp_all add: fits_simm16_def kSimm16Min_def kSimm16Max_def fits_uimm16_def kUimm16Max_def)
  have mem: "parse_mem_operand (show_int (sint (i_imm i)) @ ''('' @ reg_text (i_rs i) @ '')'') = Some (sint (i_imm i), i_rs i)"
    using parse_mem_text [OF d(2)] sint_u16_bounds [of "i_imm i"] by simp
  have "unat (i_imm i) < 65536" using unsigned_less [of "i_imm i"] by simp
  then have lui: "parse_imm (''0x'' @ pad_zero 4 (show_base True 16 (unat (i_imm i)))) = Some (uint (i_imm i))"
    using parse_imm_hex by simp
  note simps = mnemonic_def d i_ops_def i_word_def Let_def encode_line_def encode_tables to_lower_id
    sign_extend_def imm_word fit
  from i_opcode_cases [OF assms(2,3)] show ?thesis
  proof (elim disjE conjE)
    assume o: "di_opcode d \<in> {OpLW, OpLBU, OpLHU, OpSW}"
    then show ?thesis by (elim insertE emptyE) (simp_all add: simps asm_mem_def mem [simplified])
  next
    assume o: "di_opcode d = OpLUI"
    then show ?thesis by (simp add: simps asm_lui_def lui [simplified])
  next
    assume o: "di_opcode d \<in> {OpADDI, OpADDIU, OpSLTI, OpSLTIU}" "sint (i_imm i) < 0"
    note p = parse_imm_signed_neg [OF o(2)]
    from o(1) show ?thesis
      by (elim insertE emptyE) (simp_all add: simps asm_iarith_def p zero_extends_imm_def)
  next
    assume o: "di_opcode d \<in> {OpBEQ, OpBNE}" "sint (i_imm i) < 0"
    note p = parse_imm_signed_neg [OF o(2)]
    from o(1) show ?thesis
      by (elim insertE emptyE) (simp_all add: simps asm_branch_def branch_offset_def p)
  qed
qed

lemma same_instr_i_word:
  assumes "wf_instr d" "di_fields d = IF i" "reassembles d"
  shows "same_instr d (i_word (di_opcode d) i)"
proof -
  have d: "di_format d = FmtI" "gpr_index (i_rs i)" "gpr_index (i_rt i)"
    using assms(1,2) by (auto simp: wf_instr_def)
  have "di_opcode d \<in> {OpLW, OpLBU, OpLHU, OpSW, OpLUI, OpADDI, OpADDIU, OpSLTI, OpSLTIU, OpBEQ, OpBNE}"
    using i_opcode_cases [OF assms(2,3)] by auto
  then show ?thesis
    unfolding i_word_def Let_def
    by (elim insertE) (use d assms(2) in \<open>auto intro!: same_instr_I simp: opcode_of_def format_of_def
        mnemonic_def operand_view_def\<close>)
qed

lemma token_mnemonic:
  assumes "wf_instr d"
  shows "token (map to_lower (mnemonic d))"
proof -
  have p: "plain (CHR ''?'')" by (simp add: plain_def)
  have a: "\<forall>c\<in>set ''abcdefghijklmnopqrstuvwxyz0''. plain c" by (simp add: plain_def digit_val_def)
  from assms show ?thesis
  proof (cases d rule: wf_instr_cases)
    case (Special r)
    then show ?thesis using a p by (cases "r_funct r") (simp_all add: mnemonic_def to_lower_id)
  next
    case (Cop0 r)
    then show ?thesis using a p by (cases "r_funct r") (simp_all add: mnemonic_def to_lower_id)
  next
    case (Imm i)
    then show ?thesis using a p by (cases "di_opcode d") (simp_all add: mnemonic_def format_of_def to_lower_id)
  next
    case (Jump j)
    then show ?thesis using a p by (auto simp: mnemonic_def to_lower_id)
  qed
qed

lemma signed_imm_fields:
  assumes "wf_instr d" "di_opcode d \<in> {OpADDI, OpADDIU, OpSLTI, OpSLTIU}"
  obtains i where "di_fields d = IF i" "get_i d = i" "di_format d = FmtI" "gpr_index (i_rs i)" "gpr_index (i_rt i)"
  using assms(1) by (cases d rule: wf_instr_cases) (use assms(2) that in auto)

lemma to_lower_idem: "to_lower (to_lower c) = to_lower c"
  by (auto simp: to_lower_def code_of_char_of)

text \<open>C10: Assembling the disassembly of an instruction gives one word that is the same instruction on the same operands, for every SPECIAL instruction except system calls and breakpoints, every load and store, \<open>lui\<close>, and the signed immediate instructions and branches with a negative immediate. The disassembly of a signed immediate instruction with a non-negative immediate is refused: it is printed with a plus sign, which the assembler does not read.\<close>

theorem reassembled_disassembly:
  assumes "decode w = Some d"
  shows "(reassembles d \<longrightarrow> (\<exists>v. assemble (dis_to_string d pc) = \<lparr>ar_words = [v], ar_error = None\<rparr> \<and> same_instr d v))
    \<and> (di_opcode d \<in> {OpADDI, OpADDIU, OpSLTI, OpSLTIU} \<and> 0 \<le> sint (i_imm (get_i d)) \<longrightarrow>
        assemble (dis_to_string d pc) = \<lparr>ar_words = [], ar_error = Some ''line 1: bad operands''\<rparr>)"
proof (intro conjI impI)
  have wf: "wf_instr d" by (rule decode_wf [OF assms])
  note tm = token_mnemonic [OF wf]
  have low: "map (to_lower \<circ> to_lower) xs = map to_lower xs" for xs
    by (simp add: to_lower_idem)
  {
    assume r: "reassembles d"
    show "\<exists>v. assemble (dis_to_string d pc) = \<lparr>ar_words = [v], ar_error = None\<rparr> \<and> same_instr d v"
      using wf
    proof (cases d rule: wf_instr_cases)
      case (Special f)
      then have s: "r_funct f \<notin> {FnSYSCALL, FnBREAK}" using r by (simp add: reassembles_def)
      have "r_ops f \<noteq> []" by (simp add: r_ops_def Let_def)
      then have "assemble (dis_to_string d pc) = \<lparr>ar_words = [r_word f], ar_error = None\<rparr>"
        using assemble_one [OF tm token_r_ops] Special encode_r_ops [OF wf Special(3,1) s]
        by (simp add: dis_R [OF wf Special(1)] r_text_ops low)
      with same_instr_r_word [OF wf Special(3,1,4)] show ?thesis by blast
    next
      case (Imm i)
      have "i_ops (di_opcode d) i \<noteq> []" by (simp add: i_ops_def Let_def)
      then have "assemble (dis_to_string d pc) = \<lparr>ar_words = [i_word (di_opcode d) i], ar_error = None\<rparr>"
        using assemble_one [OF tm token_i_ops] Imm encode_i_ops [OF wf Imm(1) r]
        by (simp add: dis_I [OF wf Imm(1)] i_text_ops low)
      with same_instr_i_word [OF wf Imm(1) r] show ?thesis by blast
    qed (use r in \<open>simp_all add: reassembles_def\<close>)
  }
  assume n: "di_opcode d \<in> {OpADDI, OpADDIU, OpSLTI, OpSLTIU} \<and> 0 \<le> sint (i_imm (get_i d))"
  then obtain i where i: "di_fields d = IF i" "get_i d = i" "di_format d = FmtI" "gpr_index (i_rs i)" "gpr_index (i_rt i)"
    using signed_imm_fields [OF wf] by metis
  have "i_ops (di_opcode d) i \<noteq> []" by (simp add: i_ops_def Let_def)
  moreover have "encode_line Map.empty 0 (map to_lower (mnemonic d)) (i_ops (di_opcode d) i) = Inl ''bad operands''"
  proof -
    have p: "parse_imm (show_signed (sint (i_imm i))) = None"
      using n i(2) by (simp add: show_signed_def parse_imm_plus)
    from n [THEN conjunct1] show ?thesis
      by (elim insertE emptyE) (simp_all add: i i_ops_def Let_def mnemonic_def encode_line_def encode_tables
          asm_iarith_def sign_extend_def p)
  qed
  moreover have "make_error 1 ''bad operands'' = ''line 1: bad operands''"
    by (simp add: make_error_def show_dec_def show_base_def digits_of.simps [of 10])
  ultimately show "assemble (dis_to_string d pc) = \<lparr>ar_words = [], ar_error = Some ''line 1: bad operands''\<rparr>"
    using assemble_one [OF tm token_i_ops] i
    by (simp add: dis_I [OF wf i(1)] i_text_ops low)
qed

lemma reassembled_disassembly_witness:
  "\<exists>d v. decode 0x8FA8FFFC = Some d \<and> assemble (dis_to_string d 0) = \<lparr>ar_words = [v], ar_error = None\<rparr>
     \<and> same_instr d v"
proof -
  have f: "bits 0x8FA8FFFC 31 26 = 0x23" by code_simp
  obtain d i where d: "decode 0x8FA8FFFC = Some d" "di_opcode d = OpLW" "di_fields d = IF i"
    by (simp add: decode_def f opcode_of_def format_of_def)
  have "reassembles d" by (simp add: reassembles_def d)
  with reassembled_disassembly [OF d(1), of 0] d(1) show ?thesis by blast
qed

end
