(* ===== verification/ElfLoader.thy ===== *)
theory ElfLoader
  imports Pipeline Text
begin

text \<open>
  The ELF32 loader (\<open>include/mips/elf_loader.h\<close>, \<open>src/mips/elf_loader.cpp\<close>). An input stream is its
  bytes, a read position, its state flag and whether it can seek; the headers are read as the
  little-endian packed structs of the source. 64-bit sums of 32-bit fields do not wrap, so the
  model adds natural numbers. The loader writes through the \<open>processor\<close> interface; its correctness
  is proved in that locale and instantiated on both CPUs.
\<close>

unbundle bit_operations_syntax

section \<open>Constants and on-disk structures\<close>

definition kElfMag0 :: u8 where "kElfMag0 = 0x7f"
definition kElfMag1 :: u8 where "kElfMag1 = of_nat (code_of (CHR ''E''))"
definition kElfMag2 :: u8 where "kElfMag2 = of_nat (code_of (CHR ''L''))"
definition kElfMag3 :: u8 where "kElfMag3 = of_nat (code_of (CHR ''F''))"
definition kElfClass32 :: u8 where "kElfClass32 = 1"
definition kElfData2LSB :: u8 where "kElfData2LSB = 1"
definition kEmMips :: u16 where "kEmMips = 8"
definition kEtExec :: u16 where "kEtExec = 2"
definition kEtRel :: u16 where "kEtRel = 1"
definition kPtLoad :: u32 where "kPtLoad = 1"
definition kAddressSpaceEnd :: nat where "kAddressSpaceEnd = 0x100000000"

definition le16 :: "u8 list \<Rightarrow> nat \<Rightarrow> u16" where
  "le16 bs i = ucast (bs ! i) OR push_bit 8 (ucast (bs ! (i + 1)))"

definition le32 :: "u8 list \<Rightarrow> nat \<Rightarrow> u32" where
  "le32 bs i = join_word (bs ! i) (bs ! (i + 1)) (bs ! (i + 2)) (bs ! (i + 3))"

record elf_ehdr =
  e_ident :: "u8 list"
  e_type :: u16
  e_machine :: u16
  e_version :: u32
  e_entry :: u32
  e_phoff :: u32
  e_shoff :: u32
  e_flags :: u32
  e_ehsize :: u16
  e_phentsize :: u16
  e_phnum :: u16
  e_shentsize :: u16
  e_shnum :: u16
  e_shstrndx :: u16

definition kEhdrSize :: nat where "kEhdrSize = 52"
definition kPhdrSize :: nat where "kPhdrSize = 32"

definition ehdr_of :: "u8 list \<Rightarrow> elf_ehdr" where
  "ehdr_of bs =
     \<lparr>e_ident = take 16 bs, e_type = le16 bs 16, e_machine = le16 bs 18, e_version = le32 bs 20,
      e_entry = le32 bs 24, e_phoff = le32 bs 28, e_shoff = le32 bs 32, e_flags = le32 bs 36,
      e_ehsize = le16 bs 40, e_phentsize = le16 bs 42, e_phnum = le16 bs 44,
      e_shentsize = le16 bs 46, e_shnum = le16 bs 48, e_shstrndx = le16 bs 50\<rparr>"

record elf_phdr =
  p_type :: u32
  p_offset :: u32
  p_vaddr :: u32
  p_paddr :: u32
  p_filesz :: u32
  p_memsz :: u32
  p_flags :: u32
  p_align :: u32

definition phdr_of :: "u8 list \<Rightarrow> elf_phdr" where
  "phdr_of bs =
     \<lparr>p_type = le32 bs 0, p_offset = le32 bs 4, p_vaddr = le32 bs 8, p_paddr = le32 bs 12,
      p_filesz = le32 bs 16, p_memsz = le32 bs 20, p_flags = le32 bs 24, p_align = le32 bs 28\<rparr>"

section \<open>Streams\<close>

record in_stream =
  is_data :: "u8 list"
  is_pos :: nat
  is_good :: bool
  is_seekable :: bool

text \<open>\<open>istream::read\<close> of \<open>n\<close> bytes: all of them, or the stream goes bad.\<close>

definition stream_read :: "nat \<Rightarrow> in_stream \<Rightarrow> u8 list option \<times> in_stream" where
  "stream_read n s =
     (if is_good s \<and> is_pos s + n \<le> length (is_data s)
      then (Some (take n (drop (is_pos s) (is_data s))), s\<lparr>is_pos := is_pos s + n\<rparr>)
      else (None, s\<lparr>is_good := False\<rparr>))"

text \<open>\<open>seekg\<close> from the start. The loader only seeks inside the file, where every library agrees.\<close>

definition stream_seek :: "nat \<Rightarrow> in_stream \<Rightarrow> in_stream" where
  "stream_seek off s =
     (if is_good s \<and> is_seekable s \<and> off \<le> length (is_data s) then s\<lparr>is_pos := off\<rparr>
      else s\<lparr>is_good := False\<rparr>)"

definition stream_size :: "in_stream \<Rightarrow> nat option \<times> in_stream" where
  "stream_size s =
     (let s = s\<lparr>is_good := True\<rparr>; s = stream_seek (length (is_data s)) s
      in if \<not> is_good s then (None, s) else (Some (is_pos s), s))"

definition hex_text :: "nat \<Rightarrow> string" where
  "hex_text v = show_base False 16 v"

section \<open>Images\<close>

record elf_segment =
  seg_vaddr :: u32
  seg_filesz :: u32
  seg_memsz :: u32
  seg_data :: "u8 list"

record elf_image =
  img_segments :: "elf_segment list"
  img_entry :: u32
  img_error :: "string option"

definition img_empty :: elf_image where
  "img_empty = \<lparr>img_segments = [], img_entry = 0, img_error = None\<rparr>"

definition img_ok :: "elf_image \<Rightarrow> bool" where
  "img_ok img \<longleftrightarrow> img_error img = None"

text \<open>The checks on the file header up to the program-header table.\<close>

definition check_ehdr :: "elf_ehdr \<Rightarrow> string option" where
  "check_ehdr eh =
     (if e_ident eh ! 0 \<noteq> kElfMag0 \<or> e_ident eh ! 1 \<noteq> kElfMag1 \<or> e_ident eh ! 2 \<noteq> kElfMag2
         \<or> e_ident eh ! 3 \<noteq> kElfMag3 then Some ''not an ELF file (bad magic)''
      else if e_ident eh ! 4 \<noteq> kElfClass32 then Some ''only ELF32 is supported (got ELF64)''
      else if e_ident eh ! 5 \<noteq> kElfData2LSB then
        Some (''only little-endian MIPS ELF (mipsel) is supported; '' @
              ''recompile with mipsel-linux-gnu-gcc or mipsel-linux-musl-gcc'')
      else if e_machine eh \<noteq> kEmMips then
        Some (''ELF machine type is not MIPS (e_machine='' @ show_dec (unat (e_machine eh)) @ '')'')
      else if e_type eh \<noteq> kEtExec \<and> e_type eh \<noteq> kEtRel then
        Some ''only ET_EXEC and ET_REL ELF types are supported''
      else if e_phnum eh = 0 \<or> e_phoff eh = 0 then
        Some (''ELF has no program headers '' @ em_dash @ '' is this a relocatable object '' @
              ''without a linker script?  Use -static -Ttext=0x0 or link '' @ ''with a MEMORY script.'')
      else None)"

text \<open>The checks on the table against the length of the file.\<close>

definition check_table :: "elf_ehdr \<Rightarrow> nat \<Rightarrow> string option" where
  "check_table eh file_size =
     (if unat (e_phentsize eh) \<noteq> kPhdrSize then
        Some (''unsupported program-header entry size (e_phentsize='' @ show_dec (unat (e_phentsize eh)) @
              '', expected '' @ show_dec kPhdrSize @ '')'')
      else if file_size < unat (e_phoff eh) + unat (e_phnum eh) * unat (e_phentsize eh) then
        Some (''program-header table ('' @ show_dec (unat (e_phnum eh)) @ '' entries at file offset 0x'' @
              hex_text (unat (e_phoff eh)) @ '') extends past the end of the file'')
      else None)"

text \<open>One \<open>PT_LOAD\<close> entry: its checks, and its file content if it has any.\<close>

definition read_segment :: "nat \<Rightarrow> nat \<Rightarrow> elf_phdr \<Rightarrow> in_stream \<Rightarrow> (string + elf_segment) \<times> in_stream" where
  "read_segment file_size i ph s =
     (let vaddr = unat (p_vaddr ph); memsz = unat (p_memsz ph); filesz = unat (p_filesz ph);
          offset = unat (p_offset ph);
          seg = \<lparr>seg_vaddr = p_vaddr ph, seg_filesz = p_filesz ph, seg_memsz = p_memsz ph, seg_data = []\<rparr>
      in if memsz < filesz then
           (Inl (''segment '' @ show_dec i @ '' has p_memsz (0x'' @ hex_text memsz @
                 '') smaller than p_filesz (0x'' @ hex_text filesz @ '')''), s)
         else if kAddressSpaceEnd < vaddr + memsz then
           (Inl (''segment '' @ show_dec i @ '' at 0x'' @ hex_text vaddr @ '' (0x'' @ hex_text memsz @
                 '' bytes) wraps past the end of the 32-bit '' @ ''address space''), s)
         else if 0 < filesz then
           (if file_size < offset + filesz then
              (Inl (''segment '' @ show_dec i @ '' data (0x'' @ hex_text filesz @ '' bytes at file offset 0x'' @
                    hex_text offset @ '') extends past the end of the file''), s)
            else let s = stream_seek offset s
                 in if \<not> is_good s then
                      (Inl (''failed to seek to segment '' @ show_dec i @ '' data (offset 0x'' @
                            hex_text offset @ '')''), s)
                    else (case stream_read filesz s of
                            (None, s) \<Rightarrow> (Inl (''failed to read segment '' @ show_dec i @ '' data''), s)
                          | (Some bytes, s) \<Rightarrow> (Inr (seg\<lparr>seg_data := bytes\<rparr>), s)))
         else (Inr seg, s))"

text \<open>The loop over the program headers: \<open>i\<close> is the next entry, the first argument how many are left.\<close>

fun read_phdrs :: "nat \<Rightarrow> nat \<Rightarrow> elf_ehdr \<Rightarrow> nat \<Rightarrow> elf_image \<Rightarrow> in_stream \<Rightarrow> elf_image" where
  "read_phdrs 0 i eh file_size img s = img"
| "read_phdrs (Suc n) i eh file_size img s =
     (let s = stream_seek (unat (e_phoff eh) + i * unat (e_phentsize eh)) s
      in if \<not> is_good s then
           img\<lparr>img_error := Some (''failed to seek to program header '' @ show_dec i)\<rparr>
         else case stream_read kPhdrSize s of
           (None, s) \<Rightarrow> img\<lparr>img_error := Some (''failed to read program header '' @ show_dec i)\<rparr>
         | (Some bytes, s) \<Rightarrow>
             (let ph = phdr_of bytes
              in if p_type ph \<noteq> kPtLoad then read_phdrs n (Suc i) eh file_size img s
                 else if p_filesz ph = 0 \<and> p_memsz ph = 0 then read_phdrs n (Suc i) eh file_size img s
                 else case read_segment file_size i ph s of
                   (Inl e, s) \<Rightarrow> img\<lparr>img_error := Some e\<rparr>
                 | (Inr seg, s) \<Rightarrow>
                     read_phdrs n (Suc i) eh file_size (img\<lparr>img_segments := img_segments img @ [seg]\<rparr>) s))"

definition parse_elf :: "in_stream \<Rightarrow> elf_image" where
  "parse_elf s =
     (case stream_read kEhdrSize s of
        (None, s) \<Rightarrow> img_empty\<lparr>img_error := Some ''failed to read ELF header (file too short)''\<rparr>
      | (Some bytes, s) \<Rightarrow>
          (let eh = ehdr_of bytes
           in case check_ehdr eh of
                Some e \<Rightarrow> img_empty\<lparr>img_error := Some e\<rparr>
              | None \<Rightarrow>
                  (case stream_size s of
                     (None, s) \<Rightarrow> img_empty\<lparr>img_error :=
                       Some ''cannot determine the size of the ELF input (stream is not seekable)''\<rparr>
                   | (Some file_size, s) \<Rightarrow>
                       (case check_table eh file_size of
                          Some e \<Rightarrow> img_empty\<lparr>img_error := Some e\<rparr>
                        | None \<Rightarrow>
                            (let img = read_phdrs (unat (e_phnum eh)) 0 eh file_size
                                         (img_empty\<lparr>img_entry := e_entry eh\<rparr>) s
                             in if img_error img = None \<and> img_segments img = []
                                then img\<lparr>img_error := Some (''ELF has no PT_LOAD segments '' @ em_dash @ '' nothing to load'')\<rparr>
                                else img)))))"

text \<open>\<open>open_file\<close> is the content of a path, if it can be opened.\<close>

definition load_elf_file :: "(string \<Rightarrow> u8 list option) \<Rightarrow> string \<Rightarrow> elf_image" where
  "load_elf_file open_file path =
     (case open_file path of
        None \<Rightarrow> img_empty\<lparr>img_error := Some (''cannot open '' @ [CHR 0x27] @ path @ [CHR 0x27])\<rparr>
      | Some bytes \<Rightarrow> parse_elf \<lparr>is_data = bytes, is_pos = 0, is_good = True, is_seekable = True\<rparr>)"

section \<open>Loading into a processor\<close>

text \<open>The byte loops: consecutive writes from an address, stopping at the first that fails.\<close>

fun write_bytes :: "u32 \<Rightarrow> u8 list \<Rightarrow> memory \<Rightarrow> bool \<times> memory" where
  "write_bytes a [] m = (True, m)"
| "write_bytes a (b # bs) m =
     (case mem_write_byte m a b of (ok, m') \<Rightarrow> if \<not> ok then (False, m') else write_bytes (a + 1) bs m')"

definition load_segment :: "elf_segment \<Rightarrow> memory \<Rightarrow> bool \<times> memory" where
  "load_segment seg m =
     (case write_bytes (seg_vaddr seg) (take (unat (seg_filesz seg)) (seg_data seg)) m of
        (ok, m) \<Rightarrow>
          if \<not> ok then (False, m)
          else write_bytes (seg_vaddr seg + seg_filesz seg)
                 (replicate (unat (seg_memsz seg) - unat (seg_filesz seg)) 0) m)"

definition segment_out_of_range :: "elf_segment \<Rightarrow> memory \<Rightarrow> string" where
  "segment_out_of_range seg m =
     ''segment at 0x'' @ hex_text (unat (seg_vaddr seg)) @ '' extends outside the '' @
     ''processor'' @ [CHR 0x27] @ ''s address space (0x'' @ hex_text (mem_size m) @
     '' bytes); increase mem_bytes in the IProcessor constructor''"

fun load_segments :: "elf_segment list \<Rightarrow> memory \<Rightarrow> string option \<times> memory" where
  "load_segments [] m = (None, m)"
| "load_segments (seg # segs) m =
     (case load_segment seg m of
        (ok, m') \<Rightarrow> if \<not> ok then (Some (segment_out_of_range seg m'), m') else load_segments segs m')"

text \<open>The result flag, the error text (\<open>None\<close> when it is not set) and the processor.\<close>

definition load_elf_into_processor ::
  "('c, 'z) processor_ops_scheme \<Rightarrow> 'c \<Rightarrow> elf_image \<Rightarrow> bool \<times> string option \<times> 'c" where
  "load_elf_into_processor ops c img =
     (if \<not> img_ok img then
        (False, Some (case img_error img of Some e \<Rightarrow> e | None \<Rightarrow> ''unknown ELF error''), c)
      else case load_segments (img_segments img) (op_mem ops c) of
        (Some e, m) \<Rightarrow> (False, Some e, op_put_mem ops m c)
      | (None, m) \<Rightarrow> (True, None, op_set_pc ops (img_entry img) (op_put_mem ops m c)))"

definition load_elf_file_into_processor ::
  "(string \<Rightarrow> u8 list option) \<Rightarrow> ('c, 'z) processor_ops_scheme \<Rightarrow> 'c \<Rightarrow> string \<Rightarrow> bool \<times> string option \<times> 'c" where
  "load_elf_file_into_processor open_file ops c path =
     load_elf_into_processor ops c (load_elf_file open_file path)"

section \<open>What the parser accepts\<close>

definition phdr_at :: "u8 list \<Rightarrow> elf_ehdr \<Rightarrow> nat \<Rightarrow> elf_phdr" where
  "phdr_at data eh i = phdr_of (take kPhdrSize (drop (unat (e_phoff eh) + i * kPhdrSize) data))"

definition loadable :: "elf_phdr \<Rightarrow> bool" where
  "loadable ph \<longleftrightarrow> p_type ph = kPtLoad \<and> \<not> (p_filesz ph = 0 \<and> p_memsz ph = 0)"

text \<open>The bounds a loadable entry must satisfy, and the segment it then describes.\<close>

definition phdr_ok :: "u8 list \<Rightarrow> elf_phdr \<Rightarrow> bool" where
  "phdr_ok data ph \<longleftrightarrow>
     unat (p_filesz ph) \<le> unat (p_memsz ph) \<and> unat (p_vaddr ph) + unat (p_memsz ph) \<le> kAddressSpaceEnd
     \<and> (0 < unat (p_filesz ph) \<longrightarrow> unat (p_offset ph) + unat (p_filesz ph) \<le> length data)"

definition segment_of :: "u8 list \<Rightarrow> elf_phdr \<Rightarrow> elf_segment" where
  "segment_of data ph =
     \<lparr>seg_vaddr = p_vaddr ph, seg_filesz = p_filesz ph, seg_memsz = p_memsz ph,
      seg_data = take (unat (p_filesz ph)) (drop (unat (p_offset ph)) data)\<rparr>"

abbreviation live :: "u8 list \<Rightarrow> in_stream \<Rightarrow> bool" where
  "live data s \<equiv> is_data s = data \<and> is_good s \<and> is_seekable s"

lemma stream_read_live:
  "live data s \<Longrightarrow> is_pos s + n \<le> length data \<Longrightarrow>
   stream_read n s = (Some (take n (drop (is_pos s) data)), s\<lparr>is_pos := is_pos s + n\<rparr>)"
  by (simp add: stream_read_def)

lemma stream_seek_live: "live data s \<Longrightarrow> off \<le> length data \<Longrightarrow> stream_seek off s = s\<lparr>is_pos := off\<rparr>"
  by (simp add: stream_seek_def)

lemma read_segment_ok:
  assumes "live data s" "phdr_ok data ph"
  obtains s' where "read_segment (length data) i ph s = (Inr (segment_of data ph), s')" "live data s'"
proof (cases "0 < unat (p_filesz ph)")
  case True
  then have "unat (p_offset ph) + unat (p_filesz ph) \<le> length data"
    using assms(2) by (simp add: phdr_ok_def)
  with assms True show ?thesis
    by (intro that [of "s\<lparr>is_pos := unat (p_offset ph) + unat (p_filesz ph)\<rparr>"])
       (simp_all add: read_segment_def Let_def phdr_ok_def stream_seek_live stream_read_live segment_of_def)
next
  case False
  with assms show ?thesis
    by (intro that [of s]) (simp_all add: read_segment_def Let_def phdr_ok_def segment_of_def)
qed

lemma read_segment_bad: "\<not> phdr_ok data ph \<Longrightarrow> \<exists>e s'. read_segment (length data) i ph s = (Inl e, s')"
  by (auto simp: read_segment_def Let_def phdr_ok_def)

lemma read_phdrs_spec:
  assumes "live data s" "unat (e_phentsize eh) = kPhdrSize" "img_error img = None"
    "unat (e_phoff eh) + (i + n) * kPhdrSize \<le> length data"
  shows "img_entry (read_phdrs n i eh (length data) img s) = img_entry img
    \<and> (let phs = filter loadable (map (phdr_at data eh) [i..<i + n])
       in if \<forall>ph\<in>set phs. phdr_ok data ph
          then img_error (read_phdrs n i eh (length data) img s) = None
            \<and> img_segments (read_phdrs n i eh (length data) img s) = img_segments img @ map (segment_of data) phs
          else img_error (read_phdrs n i eh (length data) img s) \<noteq> None)"
  using assms
proof (induction n arbitrary: i img s)
  case (Suc n)
  let ?off = "unat (e_phoff eh) + i * kPhdrSize"
  have off: "?off + kPhdrSize \<le> length data" using Suc.prems(4) by (simp add: algebra_simps)
  let ?s = "s\<lparr>is_pos := ?off + kPhdrSize\<rparr>" and ?ph = "phdr_at data eh i"
  have seek: "stream_seek (unat (e_phoff eh) + i * unat (e_phentsize eh)) s = s\<lparr>is_pos := ?off\<rparr>"
    using stream_seek_live [OF Suc.prems(1), of ?off] off Suc.prems(2) by simp
  have rd: "stream_read kPhdrSize (s\<lparr>is_pos := ?off\<rparr>) = (Some (take kPhdrSize (drop ?off data)), ?s)"
    using stream_read_live [of "s\<lparr>is_pos := ?off\<rparr>" data kPhdrSize] off Suc.prems(1) by simp
  have live: "live data ?s" using Suc.prems(1) by simp
  have tab: "unat (e_phoff eh) + (Suc i + n) * kPhdrSize \<le> length data" using Suc.prems(4) by simp
  have upt: "[i..<i + Suc n] = i # [Suc i..<Suc i + n]" by (simp add: upt_conv_Cons)
  have step: "read_phdrs (Suc n) i eh (length data) img s =
      (if \<not> loadable ?ph then read_phdrs n (Suc i) eh (length data) img ?s
       else case read_segment (length data) i ?ph ?s of
         (Inl e, s) \<Rightarrow> img\<lparr>img_error := Some e\<rparr>
       | (Inr seg, s) \<Rightarrow>
           read_phdrs n (Suc i) eh (length data) (img\<lparr>img_segments := img_segments img @ [seg]\<rparr>) s)"
    using Suc.prems(1) by (simp add: seek rd loadable_def phdr_at_def Let_def)
  show ?case
  proof (cases "loadable ?ph")
    case False
    then show ?thesis
      using Suc.IH [OF live Suc.prems(2,3) tab] unfolding step upt by simp
  next
    case True
    show ?thesis
    proof (cases "phdr_ok data ?ph")
      case False
      then obtain e s' where "read_segment (length data) i ?ph ?s = (Inl e, s')" using read_segment_bad by blast
      with True False show ?thesis unfolding step upt by (auto simp: Let_def)
    next
      case ok: True
      obtain s' where r: "read_segment (length data) i ?ph ?s = (Inr (segment_of data ?ph), s')" "live data s'"
        by (rule read_segment_ok [OF live ok])
      show ?thesis
        using Suc.IH [OF r(2) Suc.prems(2) _ tab, of "img\<lparr>img_segments := img_segments img @ [segment_of data ?ph]\<rparr>"]
          Suc.prems(3) True ok r(1) unfolding step upt by (simp add: Let_def)
    qed
  qed
qed simp

definition accepts_elf :: "u8 list \<Rightarrow> bool" where
  "accepts_elf data \<longleftrightarrow>
     (let eh = ehdr_of (take kEhdrSize data);
          phs = filter loadable (map (phdr_at data eh) [0..<unat (e_phnum eh)])
      in kEhdrSize \<le> length data \<and> check_ehdr eh = None \<and> check_table eh (length data) = None
         \<and> phs \<noteq> [] \<and> (\<forall>ph\<in>set phs. phdr_ok data ph))"

definition elf_segments :: "u8 list \<Rightarrow> elf_segment list" where
  "elf_segments data =
     (let eh = ehdr_of (take kEhdrSize data)
      in map (segment_of data) (filter loadable (map (phdr_at data eh) [0..<unat (e_phnum eh)])))"

lemma check_table_None:
  "check_table eh n = None \<Longrightarrow> unat (e_phentsize eh) = kPhdrSize
     \<and> unat (e_phoff eh) + unat (e_phnum eh) * kPhdrSize \<le> n"
  by (auto simp: check_table_def split: if_splits)

lemma parse_elf_spec:
  assumes "live data s" "is_pos s = 0"
  shows "img_ok (parse_elf s) \<longleftrightarrow> accepts_elf data"
    and "accepts_elf data \<Longrightarrow> img_segments (parse_elf s) = elf_segments data
      \<and> img_entry (parse_elf s) = e_entry (ehdr_of (take kEhdrSize data))"
proof -
  let ?eh = "ehdr_of (take kEhdrSize data)"
  let ?phs = "filter loadable (map (phdr_at data ?eh) [0..<unat (e_phnum ?eh)])"
  have "(img_ok (parse_elf s) \<longleftrightarrow> accepts_elf data)
    \<and> (accepts_elf data \<longrightarrow> img_segments (parse_elf s) = elf_segments data \<and> img_entry (parse_elf s) = e_entry ?eh)"
  proof (cases "kEhdrSize \<le> length data \<and> check_ehdr ?eh = None \<and> check_table ?eh (length data) = None")
    case False
    then show ?thesis
      using assms by (auto simp: parse_elf_def stream_read_def stream_size_def stream_seek_def accepts_elf_def
          img_ok_def Let_def split: option.splits)
  next
    case True
    let ?img = "img_empty\<lparr>img_entry := e_entry ?eh\<rparr>" and ?s = "s\<lparr>is_good := True, is_pos := length data\<rparr>"
    let ?r = "read_phdrs (unat (e_phnum ?eh)) 0 ?eh (length data) ?img ?s"
    have p: "parse_elf s = (if img_error ?r = None \<and> img_segments ?r = []
        then ?r\<lparr>img_error := Some (''ELF has no PT_LOAD segments '' @ em_dash @ '' nothing to load'')\<rparr> else ?r)"
      using assms True by (simp add: parse_elf_def stream_read_live stream_size_def stream_seek_def Let_def)
    have "live data ?s" "img_error ?img = None" using assms by (simp_all add: img_empty_def)
    note r = read_phdrs_spec [OF this(1) _ this(2), of ?eh 0 "unat (e_phnum ?eh)"]
    have e: "img_entry ?img = e_entry ?eh" "img_segments ?img = []" by (simp_all add: img_empty_def)
    have "img_entry ?r = e_entry ?eh" "if \<forall>ph\<in>set ?phs. phdr_ok data ph
        then img_error ?r = None \<and> img_segments ?r = map (segment_of data) ?phs else img_error ?r \<noteq> None"
    proof -
      have "unat (e_phentsize ?eh) = kPhdrSize" "unat (e_phoff ?eh) + (0 + unat (e_phnum ?eh)) * kPhdrSize \<le> length data"
        using check_table_None [of ?eh "length data"] True by simp_all
      note r' = r [OF this, unfolded Let_def e append_Nil add_0]
      show "img_entry ?r = e_entry ?eh" by (rule r' [THEN conjunct1])
      show "if \<forall>ph\<in>set ?phs. phdr_ok data ph
        then img_error ?r = None \<and> img_segments ?r = map (segment_of data) ?phs else img_error ?r \<noteq> None"
        by (rule r' [THEN conjunct2])
    qed
    then show ?thesis
      using True unfolding p by (auto simp: accepts_elf_def elf_segments_def img_ok_def Let_def split: if_splits)
  qed
  then show "img_ok (parse_elf s) \<longleftrightarrow> accepts_elf data"
    and "accepts_elf data \<Longrightarrow> img_segments (parse_elf s) = elf_segments data \<and> img_entry (parse_elf s) = e_entry ?eh"
    by blast+
qed

text \<open>What \<open>ElfSegment\<close> documents, and what keeps the address arithmetic from wrapping.\<close>

definition seg_wf :: "elf_segment \<Rightarrow> bool" where
  "seg_wf seg \<longleftrightarrow>
     length (seg_data seg) = unat (seg_filesz seg) \<and> unat (seg_filesz seg) \<le> unat (seg_memsz seg)
     \<and> 0 < unat (seg_memsz seg) \<and> unat (seg_vaddr seg) + unat (seg_memsz seg) \<le> kAddressSpaceEnd"

lemma elf_segments_wf: "accepts_elf data \<Longrightarrow> seg \<in> set (elf_segments data) \<Longrightarrow> seg_wf seg"
proof -
  assume "accepts_elf data" "seg \<in> set (elf_segments data)"
  then obtain ph where p: "seg = segment_of data ph" "loadable ph" "phdr_ok data ph"
    by (auto simp: accepts_elf_def elf_segments_def Let_def)
  have "0 < unat (p_memsz ph)"
    using p(2,3) by (auto simp: loadable_def phdr_ok_def unat_eq_0 intro: gr0I)
  with p show ?thesis by (auto simp: seg_wf_def segment_of_def phdr_ok_def)
qed

section \<open>What loading does to memory\<close>

lemma write_bytes_append:
  "write_bytes a (xs @ ys) m =
     (case write_bytes a xs m of
        (ok, m') \<Rightarrow> if \<not> ok then (False, m') else write_bytes (a + of_nat (length xs)) ys m')"
  by (induction xs arbitrary: a m) (simp_all add: split_beta ac_simps)

lemma mem_size_write_bytes [simp]: "mem_size (snd (write_bytes a bs m)) = mem_size m"
proof (induction bs arbitrary: a m)
  case (Cons b bs)
  then show ?case by (simp add: split_beta)
qed simp

lemma unat_suc_small: "unat (a :: u32) + k \<le> 4294967296 \<Longrightarrow> 1 < k \<Longrightarrow> unat (a + 1) = unat a + 1"
  using unat_add_small [of a 1] by simp

lemma write_bytes_ok:
  "unat a + length bs \<le> 4294967296 \<Longrightarrow>
   fst (write_bytes a bs m) \<longleftrightarrow> bs = [] \<or> unat a + length bs \<le> mem_size m"
proof (induction bs arbitrary: a m)
  case (Cons b bs)
  let ?m = "snd (mem_write_byte m a b)"
  have s: "write_bytes a (b # bs) m = (if fst (mem_write_byte m a b) then write_bytes (a + 1) bs ?m else (False, ?m))"
    by (simp add: split_beta)
  show ?case
  proof (cases "bs = []")
    case True
    then show ?thesis unfolding s by (simp add: mem_write_byte_ok_iff Suc_le_eq)
  next
    case False
    then have "0 < length bs" by simp
    then have u: "unat (a + 1) = unat a + 1" using Cons.prems by (intro unat_suc_small [of _ "length (b # bs)"]) simp_all
    then have "fst (write_bytes (a + 1) bs ?m) \<longleftrightarrow> unat a + 1 + length bs \<le> mem_size m"
      using Cons.IH [of "a + 1" ?m] Cons.prems False by simp
    then show ?thesis using False unfolding s by (auto simp: mem_write_byte_ok_iff)
  qed
qed simp

lemma write_bytes_read:
  "unat a + length bs \<le> 4294967296 \<Longrightarrow> fst (write_bytes a bs m) \<Longrightarrow>
   mem_read_byte (snd (write_bytes a bs m)) x =
     (if unat a \<le> unat x \<and> unat x < unat a + length bs then Some (bs ! (unat x - unat a))
      else mem_read_byte m x)"
proof (induction bs arbitrary: a m)
  case (Cons b bs)
  let ?m = "snd (mem_write_byte m a b)"
  have s: "write_bytes a (b # bs) m = (if fst (mem_write_byte m a b) then write_bytes (a + 1) bs ?m else (False, ?m))"
    by (simp add: split_beta)
  then have ok: "fst (mem_write_byte m a b)" "fst (write_bytes (a + 1) bs ?m)"
    using Cons.prems(2) by (auto split: if_splits)
  have h: "mem_read_byte ?m x = (if a = x then Some b else mem_read_byte m x)"
    using ok(1) by (simp add: mem_read_byte_write_byte mem_write_byte_ok_iff)
  show ?case
  proof (cases "bs = []")
    case True
    then show ?thesis using ok h unfolding s by (auto simp: word_unat_eq_iff)
  next
    case False
    then have "0 < length bs" by simp
    then have u: "unat (a + 1) = unat a + 1" using Cons.prems(1) by (intro unat_suc_small [of _ "length (b # bs)"]) simp_all
    have "mem_read_byte (snd (write_bytes (a + 1) bs ?m)) x =
        (if unat a + 1 \<le> unat x \<and> unat x < unat a + 1 + length bs then Some (bs ! (unat x - (unat a + 1)))
         else if a = x then Some b else mem_read_byte m x)"
      using Cons.IH [of "a + 1" ?m] Cons.prems(1) ok(2) unfolding u h by simp
    moreover have "unat a \<noteq> unat x \<longleftrightarrow> a \<noteq> x" by (simp add: word_unat_eq_iff)
    ultimately show ?thesis using ok(1) unfolding s by (auto simp: nth_Cons' Suc_le_eq)
  qed
qed auto

text \<open>The memory image of a segment: file content, then zeros.\<close>

definition seg_bytes :: "elf_segment \<Rightarrow> u8 list" where
  "seg_bytes seg = seg_data seg @ replicate (unat (seg_memsz seg) - unat (seg_filesz seg)) 0"

definition seg_covers :: "elf_segment \<Rightarrow> u32 \<Rightarrow> bool" where
  "seg_covers seg a \<longleftrightarrow>
     unat (seg_vaddr seg) \<le> unat a \<and> unat a < unat (seg_vaddr seg) + unat (seg_memsz seg)"

text \<open>The byte a list of segments puts at an address: the last segment that covers it decides.\<close>

fun image_byte :: "elf_segment list \<Rightarrow> u32 \<Rightarrow> u8 option" where
  "image_byte [] a = None"
| "image_byte (seg # segs) a =
     (case image_byte segs a of
        Some v \<Rightarrow> Some v
      | None \<Rightarrow> if seg_covers seg a then Some (seg_bytes seg ! (unat a - unat (seg_vaddr seg))) else None)"

lemma load_segment_bytes:
  "seg_wf seg \<Longrightarrow> load_segment seg m = write_bytes (seg_vaddr seg) (seg_bytes seg) m"
proof -
  assume wf: "seg_wf seg"
  then have "(of_nat (length (seg_data seg)) :: u32) = seg_filesz seg" by (simp add: seg_wf_def)
  with wf show ?thesis by (simp add: load_segment_def seg_bytes_def write_bytes_append seg_wf_def split: prod.split)
qed

lemma length_seg_bytes: "seg_wf seg \<Longrightarrow> length (seg_bytes seg) = unat (seg_memsz seg)"
  by (simp add: seg_bytes_def seg_wf_def)

lemma load_segments_spec:
  assumes "\<forall>seg\<in>set segs. seg_wf seg"
  shows "fst (load_segments segs m) = None \<longleftrightarrow>
      (\<forall>seg\<in>set segs. unat (seg_vaddr seg) + unat (seg_memsz seg) \<le> mem_size m)"
    and "fst (load_segments segs m) = None \<Longrightarrow>
      mem_read_byte (snd (load_segments segs m)) a =
        (case image_byte segs a of Some v \<Rightarrow> Some v | None \<Rightarrow> mem_read_byte m a)"
    and "mem_size (snd (load_segments segs m)) = mem_size m"
proof -
  have "(fst (load_segments segs m) = None \<longleftrightarrow>
      (\<forall>seg\<in>set segs. unat (seg_vaddr seg) + unat (seg_memsz seg) \<le> mem_size m))
    \<and> (fst (load_segments segs m) = None \<longrightarrow> mem_read_byte (snd (load_segments segs m)) a =
        (case image_byte segs a of Some v \<Rightarrow> Some v | None \<Rightarrow> mem_read_byte m a))
    \<and> mem_size (snd (load_segments segs m)) = mem_size m"
    using assms
  proof (induction segs arbitrary: m)
    case (Cons seg segs)
    let ?w = "write_bytes (seg_vaddr seg) (seg_bytes seg) m"
    have wf: "seg_wf seg" "\<forall>seg\<in>set segs. seg_wf seg" using Cons.prems by simp_all
    have len: "unat (seg_vaddr seg) + length (seg_bytes seg) \<le> 4294967296" "seg_bytes seg \<noteq> []"
      using wf(1) length_seg_bytes [OF wf(1)] by (auto simp: seg_wf_def kAddressSpaceEnd_def)
    have s: "load_segments (seg # segs) m =
        (if fst ?w then load_segments segs (snd ?w) else (Some (segment_out_of_range seg (snd ?w)), snd ?w))"
      by (simp add: load_segment_bytes [OF wf(1)] split_beta)
    have ok: "fst ?w \<longleftrightarrow> unat (seg_vaddr seg) + unat (seg_memsz seg) \<le> mem_size m"
      using write_bytes_ok [OF len(1)] len(2) by (simp add: length_seg_bytes [OF wf(1)])
    note ih = Cons.IH [OF wf(2), of "snd ?w"]
    show ?case
    proof (cases "fst ?w")
      case True
      have "mem_read_byte (snd ?w) a =
          (if seg_covers seg a then Some (seg_bytes seg ! (unat a - unat (seg_vaddr seg))) else mem_read_byte m a)"
        using write_bytes_read [OF len(1) True] by (simp add: seg_covers_def length_seg_bytes [OF wf(1)])
      with ih True ok show ?thesis unfolding s by (auto split: option.splits)
    next
      case False
      with ok show ?thesis unfolding s by simp
    qed
  qed simp
  then show "fst (load_segments segs m) = None \<longleftrightarrow>
      (\<forall>seg\<in>set segs. unat (seg_vaddr seg) + unat (seg_memsz seg) \<le> mem_size m)"
    and "fst (load_segments segs m) = None \<Longrightarrow>
      mem_read_byte (snd (load_segments segs m)) a =
        (case image_byte segs a of Some v \<Rightarrow> Some v | None \<Rightarrow> mem_read_byte m a)"
    and "mem_size (snd (load_segments segs m)) = mem_size m" by blast+
qed

text \<open>The contract of the loader over any processor.\<close>

definition loads_image :: "('c, 'z) processor_ops_scheme \<Rightarrow> 'c \<Rightarrow> elf_image \<Rightarrow> bool" where
  "loads_image ops c img \<longleftrightarrow>
     (case load_elf_into_processor ops c img of (ok, err, c') \<Rightarrow>
        (ok \<longleftrightarrow> (\<forall>seg\<in>set (img_segments img).
            unat (seg_vaddr seg) + unat (seg_memsz seg) \<le> mem_size (op_mem ops c)))
        \<and> (ok \<longleftrightarrow> err = None)
        \<and> op_pc ops c' = (if ok then img_entry img else op_pc ops c)
        \<and> op_regs ops c' = op_regs ops c
        \<and> (ok \<longrightarrow> (\<forall>a. mem_read_byte (op_mem ops c') a =
              (case image_byte (img_segments img) a of Some v \<Rightarrow> Some v | None \<Rightarrow> mem_read_byte (op_mem ops c) a))))"

context processor
begin

lemma load_elf_contract:
  assumes "img_ok img" "\<forall>seg\<in>set (img_segments img). seg_wf seg"
  shows "loads_image ops c img"
proof -
  obtain e m where l: "load_segments (img_segments img) (op_mem ops c) = (e, m)" by fastforce
  note spec = load_segments_spec [OF assms(2), of "op_mem ops c"]
  show ?thesis
    using spec(1) spec(2) l assms(1)
    by (cases e) (simp_all add: loads_image_def load_elf_into_processor_def pc_set_pc regs_set_pc mem_set_pc
        mem_put_mem pc_put_mem regs_put_mem)
qed

end

section \<open>Properties\<close>


text \<open>A file with one segment: four bytes of content and four of zeros, at address 16.\<close>

definition demo_elf :: "u8 list" where
  "demo_elf =
    [127, 69, 76, 70, 1, 1, 1, 0, 0, 0, 0, 0, 0, 0, 0, 0,
     2, 0, 8, 0, 1, 0, 0, 0, 16, 0, 0, 0, 52, 0, 0, 0,
     0, 0, 0, 0, 0, 0, 0, 0, 52, 0, 32, 0, 1, 0, 0, 0,
     0, 0, 0, 0, 1, 0, 0, 0, 84, 0, 0, 0, 16, 0, 0, 0,
     0, 0, 0, 0, 4, 0, 0, 0, 8, 0, 0, 0, 5, 0, 0, 0,
     4, 0, 0, 0, 10, 0, 8, 32]"

lemma demo_elf_headers:
  "ehdr_of (take kEhdrSize demo_elf) =
     \<lparr>e_ident = take 16 demo_elf, e_type = 2, e_machine = 8, e_version = 1, e_entry = 16, e_phoff = 52,
      e_shoff = 0, e_flags = 0, e_ehsize = 52, e_phentsize = 32, e_phnum = 1, e_shentsize = 0,
      e_shnum = 0, e_shstrndx = 0\<rparr>"
  "phdr_of (take 32 (drop 52 demo_elf)) =
     \<lparr>p_type = 1, p_offset = 84, p_vaddr = 16, p_paddr = 0, p_filesz = 4, p_memsz = 8, p_flags = 5, p_align = 4\<rparr>"
  "length demo_elf = 88" "take 4 (drop 84 demo_elf) = [10, 0, 8, 32]"
  by code_simp+

lemma demo_elf_accepted:
  "accepts_elf demo_elf"
  "elf_segments demo_elf = [\<lparr>seg_vaddr = 16, seg_filesz = 4, seg_memsz = 8, seg_data = [10, 0, 8, 32]\<rparr>]"
proof -
  have id: "take 16 demo_elf ! 0 = kElfMag0 \<and> take 16 demo_elf ! 1 = kElfMag1 \<and> take 16 demo_elf ! 2 = kElfMag2
      \<and> take 16 demo_elf ! 3 = kElfMag3 \<and> take 16 demo_elf ! 4 = kElfClass32 \<and> take 16 demo_elf ! 5 = kElfData2LSB"
    by code_simp
  have sz: "kEhdrSize \<le> 88" by (simp add: kEhdrSize_def)
  have p: "phdr_at demo_elf (ehdr_of (take kEhdrSize demo_elf)) 0 =
      \<lparr>p_type = 1, p_offset = 84, p_vaddr = 16, p_paddr = 0, p_filesz = 4, p_memsz = 8, p_flags = 5, p_align = 4\<rparr>"
    using demo_elf_headers(2) by (simp add: phdr_at_def demo_elf_headers(1) kPhdrSize_def)
  show "accepts_elf demo_elf"
    using id p sz by (simp add: accepts_elf_def Let_def demo_elf_headers check_ehdr_def check_table_def kEmMips_def
        kEtExec_def kPhdrSize_def loadable_def kPtLoad_def phdr_ok_def kAddressSpaceEnd_def)
  show "elf_segments demo_elf = [\<lparr>seg_vaddr = 16, seg_filesz = 4, seg_memsz = 8, seg_data = [10, 0, 8, 32]\<rparr>]"
    using p demo_elf_headers(4) by (simp add: elf_segments_def Let_def demo_elf_headers(1) loadable_def
        kPtLoad_def segment_of_def)
qed

abbreviation file_stream :: "u8 list \<Rightarrow> in_stream" where
  "file_stream data \<equiv> \<lparr>is_data = data, is_pos = 0, is_good = True, is_seekable = True\<rparr>"


text \<open>C12: Loading an accepted ELF file into either CPU succeeds exactly when every segment, its zero-filled tail included, lies inside the memory. Then the program counter is the entry point, every byte of memory is the byte the last covering segment puts there (file content, then zeros) or its old value where no segment lies, and the registers are untouched; otherwise an error is reported and neither the program counter nor the registers change.\<close>

theorem elf_load_contract:
  assumes "img_ok (parse_elf (file_stream data))"
  shows "loads_image sc_ops c (parse_elf (file_stream data)) \<and> loads_image pl_ops p (parse_elf (file_stream data))"
proof -
  have "accepts_elf data" using parse_elf_spec(1) [of "file_stream data" data] assms by simp
  then have "\<forall>seg\<in>set (img_segments (parse_elf (file_stream data))). seg_wf seg"
    using parse_elf_spec(2) [of "file_stream data" data] elf_segments_wf by simp
  with assms show ?thesis by (simp add: sc.load_elf_contract pl.load_elf_contract)
qed

lemma elf_load_contract_witness:
  "case load_elf_into_processor pl_ops (pl_create 64) (parse_elf (file_stream demo_elf)) of (ok, err, c) \<Rightarrow>
     ok \<and> op_pc pl_ops c = 16 \<and> mem_read_byte (op_mem pl_ops c) 18 = Some 8 \<and> mem_read_byte (op_mem pl_ops c) 22 = Some 0"
proof -
  let ?img = "parse_elf (file_stream demo_elf)"
  have a: "img_ok ?img" "img_segments ?img = elf_segments demo_elf" "img_entry ?img = 16"
    using parse_elf_spec [of "file_stream demo_elf" demo_elf] demo_elf_accepted(1) demo_elf_headers(1) by simp_all
  have m: "mem_size (op_mem pl_ops (pl_create 64)) = 64"
    by (simp add: pl_ops_def pl_create_def sc_create_def mem_create_def mem_size_def cpu.extend_def)
  have b: "image_byte (img_segments ?img) 18 = Some 8" "image_byte (img_segments ?img) 22 = Some 0"
    by (simp_all add: a(2) demo_elf_accepted(2) seg_covers_def seg_bytes_def)
  obtain ok err c where r: "load_elf_into_processor pl_ops (pl_create 64) ?img = (ok, err, c)"
    by (cases "load_elf_into_processor pl_ops (pl_create 64) ?img")
  have "loads_image pl_ops (pl_create 64) ?img"
    using elf_load_contract [OF a(1)] by blast
  then have ok: "ok" and c: "op_pc pl_ops c = 16" "mem_read_byte (op_mem pl_ops c) x =
      (case image_byte (img_segments ?img) x of Some v \<Rightarrow> Some v | None \<Rightarrow> mem_read_byte (op_mem pl_ops (pl_create 64)) x)" for x
    by (simp_all add: loads_image_def r m a(3)) (simp_all add: a(2) demo_elf_accepted(2))
  show ?thesis using ok c b by (simp add: r)
qed

end
