(* ===== verification/GdbPacket.thy ===== *)
theory GdbPacket
  imports Text
begin

text \<open>
  The packet layer of the debug stub (\<open>include/mips/gdb_stub.h\<close>, \<open>src/mips/gdb_stub.cpp\<close>): hex
  fields, checksums and escapes, the buffered byte reader, the non-blocking poll and
  \<open>recv_packet\<close>. The connection is the unread bytes of the receive buffer, the results the
  remaining \<open>recv\<close> calls will give (an exhausted list is a closed connection) and the bytes handed
  to \<open>send\<close>. Whether a send succeeds is not modelled: no caller looks at it.
\<close>

unbundle bit_operations_syntax

section \<open>Hex fields\<close>

definition hex_byte :: "u8 \<Rightarrow> string" where
  "hex_byte b = pad_zero 2 (show_base False 16 (unat b))"

definition checksum :: "string \<Rightarrow> u8" where
  "checksum data = foldl (\<lambda>sum c. sum + of_nat (code_of c)) 0 data"

definition to_hex_le :: "u32 \<Rightarrow> string" where
  "to_hex_le v =
     hex_byte (ucast (v AND 0xFF)) @ hex_byte (ucast (drop_bit 8 v AND 0xFF)) @
     hex_byte (ucast (drop_bit 16 v AND 0xFF)) @ hex_byte (ucast (drop_bit 24 v AND 0xFF))"

definition parse_hex :: "string \<Rightarrow> u32 option" where
  "parse_hex s = (if s = [] then None else map_option of_nat (from_chars_all (2 ^ 32) 16 s))"

definition parse_hex_byte :: "string \<Rightarrow> nat \<Rightarrow> u8 option" where
  "parse_hex_byte s off =
     (if length s < off + 2 then None
      else map_option of_nat (from_chars_all (2 ^ 32) 16 (take 2 (drop off s))))"

definition checksum_matches :: "string \<Rightarrow> char \<Rightarrow> char \<Rightarrow> bool" where
  "checksum_matches data hi lo =
     (case parse_hex_byte [hi, lo] 0 of Some expected \<Rightarrow> expected = checksum data | None \<Rightarrow> False)"

definition xor_0x20 :: "char \<Rightarrow> char" where
  "xor_0x20 c = char_of (code_of c XOR 0x20)"

text \<open>Braces introduce an escaped character; \<open>None\<close> when the payload ends inside an escape.\<close>

fun unescape :: "string \<Rightarrow> string option" where
  "unescape [] = Some []"
| "unescape (c # cs) =
     (if c \<noteq> CHR ''}'' then map_option ((#) c) (unescape cs)
      else case cs of
             [] \<Rightarrow> None
           | e # rest \<Rightarrow> map_option ((#) (xor_0x20 e)) (unescape rest))"

section \<open>The connection\<close>

text \<open>What a \<open>recv\<close> call gives: bytes, an interrupted call, no data yet, or an error.\<close>

datatype recv_result = RecvBytes string | RecvEintr | RecvAgain | RecvError

record conn =
  cn_rx :: string
  cn_in :: "recv_result list"
  cn_out :: string

definition kRxSize :: nat where "kRxSize = 4096"
definition kMaxPacketSize :: nat where "kMaxPacketSize = 0x4000"

text \<open>
  One \<open>recv\<close> with room for \<open>n\<close> bytes: \<open>None\<close> for a closed or failed connection. Bytes beyond the
  room stay in the kernel for the next call.
\<close>

datatype recv_kind = GotBytes string | GotEintr | GotAgain | GotClosed

definition recv_once :: "nat \<Rightarrow> recv_result list \<Rightarrow> recv_kind \<times> recv_result list" where
  "recv_once n ins =
     (case ins of
        [] \<Rightarrow> (GotClosed, [])
      | RecvBytes bs # rest \<Rightarrow>
          if bs = [] then (GotClosed, rest)
          else (GotBytes (take n bs), if length bs \<le> n then rest else RecvBytes (drop n bs) # rest)
      | RecvEintr # rest \<Rightarrow> (GotEintr, rest)
      | RecvAgain # rest \<Rightarrow> (GotAgain, rest)
      | RecvError # rest \<Rightarrow> (GotClosed, rest))"

definition result_size :: "recv_result \<Rightarrow> nat" where
  "result_size r = (case r of RecvBytes bs \<Rightarrow> Suc (length bs) | _ \<Rightarrow> 1)"

definition in_size :: "recv_result list \<Rightarrow> nat" where
  "in_size ins = sum_list (map result_size ins)"

lemma in_size_simps [simp]: "in_size [] = 0" "in_size (r # rs) = result_size r + in_size rs"
  by (simp_all add: in_size_def)

lemma result_size_pos [simp]: "0 < result_size r"
  by (simp add: result_size_def split: recv_result.split)

text \<open>The loop of \<open>read_byte\<close> that refills an empty buffer.\<close>

function refill :: "recv_result list \<Rightarrow> (string \<times> recv_result list) option" where
  "refill ins =
     (case recv_once kRxSize ins of
        (GotBytes bs, rest) \<Rightarrow> Some (bs, rest)
      | (GotEintr, rest) \<Rightarrow> refill rest
      | _ \<Rightarrow> None)"
  by auto

lemma recv_eintr_size: "recv_once n ins = (GotEintr, rest) \<Longrightarrow> in_size rest < in_size ins"
  by (cases ins) (auto simp: recv_once_def split: recv_result.splits if_splits)

termination refill
proof (relation "measure in_size")
  fix ins :: "recv_result list" and k rest
  assume "(k, rest) = recv_once kRxSize ins" "k = GotEintr"
  then show "(rest, ins) \<in> measure in_size"
    using recv_eintr_size [of kRxSize ins rest] by simp
qed simp

declare refill.simps [simp del]

definition read_byte :: "conn \<Rightarrow> (char \<times> conn) option" where
  "read_byte cn =
     (case cn_rx cn of
        c # rx \<Rightarrow> Some (c, cn\<lparr>cn_rx := rx\<rparr>)
      | [] \<Rightarrow> (case refill (cn_in cn) of
                Some (c # rx, ins) \<Rightarrow> Some (c, cn\<lparr>cn_rx := rx, cn_in := ins\<rparr>)
              | _ \<Rightarrow> None))"

definition conn_size :: "conn \<Rightarrow> nat" where
  "conn_size cn = length (cn_rx cn) + in_size (cn_in cn)"

lemma recv_bytes_size:
  "0 < n \<Longrightarrow> recv_once n ins = (GotBytes bs, rest) \<Longrightarrow> bs \<noteq> [] \<and> length bs + in_size rest \<le> in_size ins"
  by (cases ins) (auto simp: recv_once_def result_size_def split: recv_result.splits if_splits)

lemma refill_size: "refill ins = Some (bs, rest) \<Longrightarrow> bs \<noteq> [] \<and> length bs + in_size rest \<le> in_size ins"
proof (induction ins arbitrary: bs rest rule: refill.induct)
  case (1 ins)
  obtain k ins' where r: "recv_once kRxSize ins = (k, ins')" by fastforce
  show ?case
  proof (cases k)
    case (GotBytes xs)
    then show ?thesis
      using 1(2) r recv_bytes_size [of kRxSize ins xs ins'] by (simp add: refill.simps [of ins] kRxSize_def)
  next
    case GotEintr
    then have e: "refill ins' = Some (bs, rest)" using 1(2) by (simp add: refill.simps [of ins] r)
    have "bs \<noteq> [] \<and> length bs + in_size rest \<le> in_size ins'" by (rule 1(1) [OF r [symmetric] GotEintr e])
    moreover have "in_size ins' < in_size ins" using recv_eintr_size r GotEintr by simp
    ultimately show ?thesis by simp
  qed (use 1(2) r in \<open>simp_all add: refill.simps [of ins]\<close>)
qed

lemma read_byte_size: "read_byte cn = Some (c, cn') \<Longrightarrow> conn_size cn' < conn_size cn \<and> cn_out cn' = cn_out cn"
  by (auto simp: read_byte_def conn_size_def dest!: refill_size split: list.splits option.splits)

section \<open>Polling and packets\<close>

datatype input_poll = PollIdle | PollInterrupt | PollClosed

abbreviation ctrl_c :: char where
  "ctrl_c \<equiv> CHR 0x03"

definition poll_input :: "conn \<Rightarrow> input_poll \<times> conn" where
  "poll_input cn =
     (let rx = (if length (cn_rx cn) = kRxSize then [] else cn_rx cn)
      in case recv_once (kRxSize - length rx) (cn_in cn) of
           (k, ins) \<Rightarrow>
             (let closed = (k = GotClosed);
                  rx = (case k of GotBytes bs \<Rightarrow> rx @ bs | _ \<Rightarrow> rx)
              in case find_char ctrl_c rx of
                   Some i \<Rightarrow> (PollInterrupt, cn\<lparr>cn_rx := drop (i + 1) rx, cn_in := ins\<rparr>)
                 | None \<Rightarrow> (if closed then PollClosed else PollIdle, cn\<lparr>cn_rx := rx, cn_in := ins\<rparr>)))"

definition send_raw :: "string \<Rightarrow> conn \<Rightarrow> conn" where
  "send_raw s cn = cn\<lparr>cn_out := cn_out cn @ s\<rparr>"

definition frame_packet :: "string \<Rightarrow> string" where
  "frame_packet data = ''$'' @ data @ ''#'' @ hex_byte (checksum data)"

definition send_packet :: "string \<Rightarrow> conn \<Rightarrow> conn" where
  "send_packet data cn = send_raw (frame_packet data) cn"

definition send_ok :: "conn \<Rightarrow> conn" where
  "send_ok = send_packet ''OK''"

definition send_empty :: "conn \<Rightarrow> conn" where
  "send_empty = send_packet []"

definition send_error :: "u8 \<Rightarrow> conn \<Rightarrow> conn" where
  "send_error code = send_packet (''E'' @ hex_byte code)"

definition send_signal :: "nat \<Rightarrow> conn \<Rightarrow> conn" where
  "send_signal sig = send_packet (''S'' @ pad_zero 2 (show_base False 16 sig))"

datatype recv_status = RsPacket string | RsInterrupt | RsClosed

text \<open>Skip to the next dollar sign.\<close>

function skip_noise :: "conn \<Rightarrow> (recv_status option) \<times> conn" where
  "skip_noise cn =
     (case read_byte cn of
        None \<Rightarrow> (Some RsClosed, cn)
      | Some (c, cn') \<Rightarrow>
          if c = ctrl_c then (Some RsInterrupt, cn')
          else if c \<noteq> CHR ''$'' then skip_noise cn' else (None, cn'))"
  by auto

termination skip_noise
  by (relation "measure conn_size") (auto dest: read_byte_size)

declare skip_noise.simps [simp del]

text \<open>Read up to the hash sign, storing at most \<open>kMaxPacketSize\<close> characters.\<close>

function read_payload :: "string \<Rightarrow> bool \<Rightarrow> conn \<Rightarrow> (string \<times> bool \<times> conn) option" where
  "read_payload out too_long cn =
     (case read_byte cn of
        None \<Rightarrow> None
      | Some (c, cn') \<Rightarrow>
          if c = CHR ''#'' then Some (out, too_long, cn')
          else if length out < kMaxPacketSize then read_payload (out @ [c]) too_long cn'
          else read_payload out True cn')"
  by auto

termination read_payload
  by (relation "measure (\<lambda>(out, too_long, cn). conn_size cn)") (auto dest: read_byte_size)

declare read_payload.simps [simp del]

lemma skip_noise_size: "skip_noise cn = (None, cn') \<Longrightarrow> conn_size cn' < conn_size cn"
proof (induction cn rule: skip_noise.induct)
  case (1 cn)
  then show ?case
    by (cases "read_byte cn") (fastforce simp: skip_noise.simps [of cn] dest: read_byte_size split: if_splits)+
qed

lemma read_payload_size: "read_payload out lg cn = Some (p, b, cn') \<Longrightarrow> conn_size cn' < conn_size cn"
proof (induction out lg cn rule: read_payload.induct)
  case (1 out lg cn)
  then show ?case
    by (cases "read_byte cn")
       (fastforce simp: read_payload.simps [of out lg cn] dest: read_byte_size split: if_splits)+
qed

text \<open>One attempt at a packet: a final status, or another round after a refusal.\<close>

definition recv_attempt :: "conn \<Rightarrow> recv_status option \<times> conn" where
  "recv_attempt cn =
     (case skip_noise cn of
        (Some st, cn) \<Rightarrow> (Some st, cn)
      | (None, cn) \<Rightarrow>
          (case read_payload [] False cn of
             None \<Rightarrow> (Some RsClosed, cn)
           | Some (out, too_long, cn) \<Rightarrow>
               (case read_byte cn of
                  None \<Rightarrow> (Some RsClosed, cn)
                | Some (hi, cn) \<Rightarrow>
                    (case read_byte cn of
                       None \<Rightarrow> (Some RsClosed, cn)
                     | Some (lo, cn) \<Rightarrow>
                         if \<not> too_long \<and> checksum_matches out hi lo then
                           (case unescape out of
                              Some decoded \<Rightarrow> (Some (RsPacket decoded), send_raw ''+'' cn)
                            | None \<Rightarrow> (None, send_raw ''-'' cn))
                         else (None, send_raw ''-'' cn)))))"

lemma conn_size_send [simp]: "conn_size (send_raw s cn) = conn_size cn"
  by (simp add: send_raw_def conn_size_def)

lemma recv_attempt_size: "recv_attempt cn = (None, cn') \<Longrightarrow> conn_size cn' < conn_size cn"
  by (auto simp: recv_attempt_def split: prod.splits option.splits if_splits
      dest!: skip_noise_size read_payload_size read_byte_size)

function recv_packet :: "conn \<Rightarrow> recv_status \<times> conn" where
  "recv_packet cn =
     (case recv_attempt cn of (Some st, cn') \<Rightarrow> (st, cn') | (None, cn') \<Rightarrow> recv_packet cn')"
  by auto

termination recv_packet
  by (relation "measure conn_size") (auto intro: recv_attempt_size [OF sym])

declare recv_packet.simps [simp del]

section \<open>The byte stream behind the buffer\<close>

text \<open>
  The bytes still to be read, whatever the sizes of the receive calls that deliver them. Every
  reader is characterised by it: buffering and interrupted calls are invisible.
\<close>

fun chunk_bytes :: "recv_result list \<Rightarrow> string" where
  "chunk_bytes [] = []"
| "chunk_bytes (RecvBytes bs # rest) = (if bs = [] then [] else bs @ chunk_bytes rest)"
| "chunk_bytes (RecvEintr # rest) = chunk_bytes rest"
| "chunk_bytes (RecvAgain # rest) = []"
| "chunk_bytes (RecvError # rest) = []"

definition stream_of :: "conn \<Rightarrow> string" where
  "stream_of cn = cn_rx cn @ chunk_bytes (cn_in cn)"

lemma stream_of_send [simp]: "stream_of (send_raw s cn) = stream_of cn"
  by (simp add: stream_of_def send_raw_def)

lemma refill_stream:
  "case refill ins of None \<Rightarrow> chunk_bytes ins = [] | Some (bs, rest) \<Rightarrow> bs \<noteq> [] \<and> chunk_bytes ins = bs @ chunk_bytes rest"
proof (induction ins rule: chunk_bytes.induct)
  case (2 bs rest)
  have k: "0 < kRxSize" by (simp add: kRxSize_def)
  show ?case
    using k refill.simps [of "RecvBytes bs # rest"] by (cases "bs = []") (simp_all add: recv_once_def)
next
  case (3 rest)
  have "refill (RecvEintr # rest) = refill rest" by (subst refill.simps) (simp add: recv_once_def)
  with 3 show ?case by (cases "refill rest") auto
qed (simp_all add: refill.simps [of "[]"]
    refill.simps [of "RecvAgain # rest" for rest] refill.simps [of "RecvError # rest" for rest] recv_once_def)

lemma read_byte_Nil: "stream_of cn = [] \<Longrightarrow> read_byte cn = None"
  using refill_stream [of "cn_in cn"]
  by (auto simp: stream_of_def read_byte_def split: option.splits list.splits)

lemma read_byte_Cons:
  assumes "stream_of cn = c # s"
  obtains cn' where "read_byte cn = Some (c, cn')" "stream_of cn' = s" "cn_out cn' = cn_out cn"
proof (cases "cn_rx cn")
  case Nil
  then have b: "chunk_bytes (cn_in cn) = c # s" using assms by (simp add: stream_of_def)
  then obtain bs rest where r: "refill (cn_in cn) = Some (bs, rest)" "bs \<noteq> []" "c # s = bs @ chunk_bytes rest"
    using refill_stream [of "cn_in cn"] by (auto split: option.splits)
  then obtain rx where bs: "bs = c # rx" "s = rx @ chunk_bytes rest" by (cases bs) auto
  show ?thesis
    by (rule that [of "cn\<lparr>cn_rx := rx, cn_in := rest\<rparr>"]) (simp_all add: read_byte_def Nil r(1) bs stream_of_def)
next
  case (Cons x rx)
  then show ?thesis
    using assms by (intro that [of "cn\<lparr>cn_rx := rx\<rparr>"]) (auto simp: read_byte_def stream_of_def)
qed

lemma skip_noise_stream:
  assumes "stream_of cn = noise @ CHR ''$'' # s" "CHR ''$'' \<notin> set noise" "ctrl_c \<notin> set noise"
  obtains cn' where "skip_noise cn = (None, cn')" "stream_of cn' = s" "cn_out cn' = cn_out cn"
  using assms
proof (induction noise arbitrary: cn thesis)
  case Nil
  have "stream_of cn = CHR ''$'' # s" using Nil(2) by simp
  then obtain cn' where "read_byte cn = Some (CHR ''$'', cn')" "stream_of cn' = s" "cn_out cn' = cn_out cn"
    by (rule read_byte_Cons)
  with Nil(1) show ?case by (simp add: skip_noise.simps [of cn])
next
  case (Cons c noise)
  have "stream_of cn = c # (noise @ CHR ''$'' # s)" using Cons.prems(2) by simp
  then obtain cn' where r: "read_byte cn = Some (c, cn')" "stream_of cn' = noise @ CHR ''$'' # s" "cn_out cn' = cn_out cn"
    by (rule read_byte_Cons)
  have n: "CHR ''$'' \<notin> set noise" "ctrl_c \<notin> set noise" "c \<noteq> CHR ''$''" "c \<noteq> ctrl_c"
    using Cons.prems(3,4) by auto
  obtain cn2 where "skip_noise cn' = (None, cn2)" "stream_of cn2 = s" "cn_out cn2 = cn_out cn'"
    by (rule Cons.IH [OF _ r(2) n(1,2)])
  with r n(3,4) show ?case by (intro Cons.prems(1) [of cn2]) (simp_all add: skip_noise.simps [of cn])
qed

lemma read_payload_stream:
  assumes "stream_of cn = body @ CHR ''#'' # s" "CHR ''#'' \<notin> set body"
  obtains cn' where "read_payload out lg cn =
      Some (out @ take (kMaxPacketSize - length out) body, lg \<or> kMaxPacketSize - length out < length body, cn')"
    "stream_of cn' = s" "cn_out cn' = cn_out cn"
  using assms
proof (induction body arbitrary: cn out lg thesis)
  case Nil
  have "stream_of cn = CHR ''#'' # s" using Nil(2) by simp
  then obtain cn' where "read_byte cn = Some (CHR ''#'', cn')" "stream_of cn' = s" "cn_out cn' = cn_out cn"
    by (rule read_byte_Cons)
  with Nil(1) show ?case by (simp add: read_payload.simps [of out lg cn])
next
  case (Cons c body)
  have "stream_of cn = c # (body @ CHR ''#'' # s)" using Cons.prems(2) by simp
  then obtain cn' where r: "read_byte cn = Some (c, cn')" "stream_of cn' = body @ CHR ''#'' # s" "cn_out cn' = cn_out cn"
    by (rule read_byte_Cons)
  have n: "CHR ''#'' \<notin> set body" "c \<noteq> CHR ''#''" using Cons.prems(3) by auto
  show ?case
  proof (cases "length out < kMaxPacketSize")
    case True
    obtain cn2 where c2: "read_payload (out @ [c]) lg cn' =
        Some ((out @ [c]) @ take (kMaxPacketSize - length (out @ [c])) body,
          lg \<or> kMaxPacketSize - length (out @ [c]) < length body, cn2)"
      "stream_of cn2 = s" "cn_out cn2 = cn_out cn'"
      by (rule Cons.IH [OF _ r(2) n(1)])
    obtain k where k: "kMaxPacketSize - length out = Suc k" using True by (cases "kMaxPacketSize - length out") auto
    then have "kMaxPacketSize - Suc (length out) = k" by simp
    with c2 r n(2) True k show ?thesis by (intro Cons.prems(1) [of cn2]) (simp_all add: read_payload.simps [of out lg cn])
  next
    case False
    obtain cn2 where c2: "read_payload out True cn' =
        Some (out @ take (kMaxPacketSize - length out) body, True \<or> kMaxPacketSize - length out < length body, cn2)"
      "stream_of cn2 = s" "cn_out cn2 = cn_out cn'"
      by (rule Cons.IH [OF _ r(2) n(1)])
    with r n(2) False show ?thesis by (intro Cons.prems(1) [of cn2]) (simp_all add: read_payload.simps [of out lg cn])
  qed
qed

section \<open>Bytes as two hex digits\<close>

lemma length_hex_byte [simp]: "length (hex_byte b) = 2"
proof -
  have "unat b < 16 ^ 2" using unsigned_less [of b] by simp
  then have "length (digits_of 16 (unat b)) \<le> 2" by (intro length_digits_of) simp_all
  then show ?thesis by (simp add: hex_byte_def pad_zero_def show_base_def)
qed

lemma from_chars_hex_byte: "from_chars_all (2 ^ 32) 16 (hex_byte b) = Some (unat b)"
proof -
  have "unat b < 2 ^ LENGTH(8)" by (rule unsigned_less)
  then have "unat b < 2 ^ 32" by simp
  then show ?thesis unfolding hex_byte_def by (intro from_chars_show) simp_all
qed

lemma parse_hex_byte_at: "length xs = off \<Longrightarrow> parse_hex_byte (xs @ hex_byte b @ s) off = Some b"
  by (simp add: parse_hex_byte_def from_chars_hex_byte [simplified])

lemma checksum_matches_self: "hex_byte (checksum body) = [hi, lo] \<Longrightarrow> checksum_matches body hi lo"
  using parse_hex_byte_at [of "[]" 0 "checksum body" "[]"] by (simp add: checksum_matches_def)

section \<open>Escapes\<close>

text \<open>What the peer does before it frames a payload.\<close>

definition escape :: "string \<Rightarrow> string" where
  "escape data = concat (map (\<lambda>c. if c \<in> set ''}#$*'' then [CHR ''}'', xor_0x20 c] else [c]) data)"

lemma xor_0x20_specials:
  "xor_0x20 (CHR ''}'') = CHR '']''" "xor_0x20 (CHR ''#'') = CHR 0x03" "xor_0x20 (CHR ''$'') = CHR 0x04"
  "xor_0x20 (CHR ''*'') = CHR 0x0A"
  "xor_0x20 (CHR '']'') = CHR ''}''" "xor_0x20 (CHR 0x03) = CHR ''#''" "xor_0x20 (CHR 0x04) = CHR ''$''"
  "xor_0x20 (CHR 0x0A) = CHR ''*''"
  by code_simp+

lemma unescape_escape: "unescape (escape data) = Some data"
proof (induction data)
  case (Cons c data)
  show ?case
  proof (cases "c \<in> set ''}#$*''")
    case True
    with Cons show ?thesis by (auto simp: escape_def xor_0x20_specials)
  next
    case False
    with Cons show ?thesis by (simp add: escape_def)
  qed
qed (simp add: escape_def)

lemma hash_not_escaped: "CHR ''#'' \<notin> set (escape data)"
proof (induction data)
  case (Cons c data)
  then show ?case by (cases "c \<in> set ''}#$*''") (auto simp: escape_def xor_0x20_specials)
qed (simp add: escape_def)

section \<open>Delivery\<close>

text \<open>A frame the stub refuses: too long, with a wrong checksum, or ending inside an escape.\<close>

definition bad_frame :: "string \<times> char \<times> char \<Rightarrow> bool" where
  "bad_frame f \<longleftrightarrow>
     (case f of (body, hi, lo) \<Rightarrow> CHR ''#'' \<notin> set body \<and>
        (kMaxPacketSize < length body \<or> \<not> checksum_matches body hi lo \<or> unescape body = None))"

definition frame_bytes :: "string \<times> char \<times> char \<Rightarrow> string" where
  "frame_bytes f = (case f of (body, hi, lo) \<Rightarrow> ''$'' @ body @ ''#'' @ [hi, lo])"

definition quiet :: "string \<Rightarrow> bool" where
  "quiet noise \<longleftrightarrow> CHR ''$'' \<notin> set noise \<and> ctrl_c \<notin> set noise"

lemma recv_attempt_frame:
  assumes "stream_of cn = noise @ frame_bytes (body, hi, lo) @ rest" "quiet noise" "CHR ''#'' \<notin> set body"
  obtains cn' where "stream_of cn' = rest" "cn_out cn' = cn_out cn"
    "recv_attempt cn =
      (if length body \<le> kMaxPacketSize \<and> checksum_matches body hi lo then
         (case unescape body of
            Some d \<Rightarrow> (Some (RsPacket d), send_raw ''+'' cn')
          | None \<Rightarrow> (None, send_raw ''-'' cn'))
       else (None, send_raw ''-'' cn'))"
proof -
  have "stream_of cn = noise @ CHR ''$'' # (body @ CHR ''#'' # (hi # lo # rest))"
    using assms(1) by (simp add: frame_bytes_def)
  then obtain c1 where c1: "skip_noise cn = (None, c1)" "stream_of c1 = body @ CHR ''#'' # (hi # lo # rest)"
    "cn_out c1 = cn_out cn"
    using assms(2) by (elim skip_noise_stream) (simp_all add: quiet_def)
  obtain c2 where c2: "read_payload [] False c1 =
      Some (take kMaxPacketSize body, kMaxPacketSize < length body, c2)"
    "stream_of c2 = hi # lo # rest" "cn_out c2 = cn_out c1"
    using read_payload_stream [OF c1(2) assms(3), of "[]" False] by auto
  obtain c3 where c3: "read_byte c2 = Some (hi, c3)" "stream_of c3 = lo # rest" "cn_out c3 = cn_out c2"
    by (rule read_byte_Cons [OF c2(2)])
  obtain c4 where c4: "read_byte c3 = Some (lo, c4)" "stream_of c4 = rest" "cn_out c4 = cn_out c3"
    by (rule read_byte_Cons [OF c3(2)])
  have len: "length body \<le> kMaxPacketSize \<Longrightarrow> take kMaxPacketSize body = body" by simp
  show ?thesis
  proof (rule that [of c4])
    show "recv_attempt cn =
      (if length body \<le> kMaxPacketSize \<and> checksum_matches body hi lo then
         (case unescape body of
            Some d \<Rightarrow> (Some (RsPacket d), send_raw ''+'' c4)
          | None \<Rightarrow> (None, send_raw ''-'' c4))
       else (None, send_raw ''-'' c4))"
      using c1(1) c2(1) c3(1) c4(1) len
      by (cases "length body \<le> kMaxPacketSize") (simp_all add: recv_attempt_def not_less)
  qed (use c1 c2 c3 c4 in simp_all)
qed

lemma recv_packet_bad:
  assumes "stream_of cn = noise @ frame_bytes f @ rest" "quiet noise" "bad_frame f"
  obtains cn' where "recv_packet cn = recv_packet cn'" "stream_of cn' = rest" "cn_out cn' = cn_out cn @ ''-''"
proof -
  obtain body hi lo where f: "f = (body, hi, lo)" by (cases f)
  have h: "CHR ''#'' \<notin> set body" using assms(3) by (simp add: bad_frame_def f)
  obtain c where c: "stream_of c = rest" "cn_out c = cn_out cn" "recv_attempt cn =
      (if length body \<le> kMaxPacketSize \<and> checksum_matches body hi lo then
         (case unescape body of
            Some d \<Rightarrow> (Some (RsPacket d), send_raw ''+'' c)
          | None \<Rightarrow> (None, send_raw ''-'' c))
       else (None, send_raw ''-'' c))"
    by (rule recv_attempt_frame [OF assms(1) [unfolded f] assms(2) h])
  have "recv_attempt cn = (None, send_raw ''-'' c)"
    using assms(3) c(3) by (auto simp: bad_frame_def f)
  then have "recv_packet cn = recv_packet (send_raw ''-'' c)" by (simp add: recv_packet.simps [of cn])
  then show ?thesis using c(1,2) by (intro that [of "send_raw ''-'' c"]) (simp_all, simp add: send_raw_def)
qed

lemma recv_packet_good:
  assumes "stream_of cn = noise @ frame_packet (escape data) @ rest" "quiet noise"
    "length (escape data) \<le> kMaxPacketSize"
  obtains cn' where "recv_packet cn = (RsPacket data, cn')" "stream_of cn' = rest" "cn_out cn' = cn_out cn @ ''+''"
proof -
  obtain hi lo where hl: "hex_byte (checksum (escape data)) = [hi, lo]"
  proof -
    have "length (hex_byte (checksum (escape data))) = Suc (Suc 0)" by simp
    then show ?thesis using that by (auto simp: length_Suc_conv simp del: length_hex_byte)
  qed
  have s: "stream_of cn = noise @ frame_bytes (escape data, hi, lo) @ rest"
    using assms(1) by (simp add: frame_packet_def frame_bytes_def hl)
  obtain c where c: "stream_of c = rest" "cn_out c = cn_out cn" "recv_attempt cn =
      (if length (escape data) \<le> kMaxPacketSize \<and> checksum_matches (escape data) hi lo then
         (case unescape (escape data) of
            Some d \<Rightarrow> (Some (RsPacket d), send_raw ''+'' c)
          | None \<Rightarrow> (None, send_raw ''-'' c))
       else (None, send_raw ''-'' c))"
    by (rule recv_attempt_frame [OF s assms(2) hash_not_escaped])
  have "recv_packet cn = (RsPacket data, send_raw ''+'' c)"
    using c(3) assms(3) checksum_matches_self [OF hl] by (simp add: recv_packet.simps [of cn] unescape_escape)
  then show ?thesis using c(1,2) by (intro that [of "send_raw ''+'' c"]) (simp_all, simp add: send_raw_def)
qed

text \<open>C13: However the bytes of the connection are cut into receive calls, a payload of at most the advertised size that the peer escapes and frames is delivered unchanged and acknowledged, after any number of damaged frames (too long, wrong checksum, truncated escape) with noise between them, each of which is refused with one minus sign; nothing behind the frame is consumed.\<close>

theorem packet_delivery:
  assumes "stream_of cn = concat (map (\<lambda>(noise, f). noise @ frame_bytes f) bads) @ noise @ frame_packet (escape data) @ rest"
    "\<forall>(n, f)\<in>set bads. quiet n \<and> bad_frame f" "quiet noise" "length (escape data) \<le> kMaxPacketSize"
  shows "\<exists>cn'. recv_packet cn = (RsPacket data, cn') \<and> stream_of cn' = rest
    \<and> cn_out cn' = cn_out cn @ replicate (length bads) (CHR ''-'') @ ''+''"
  using assms
proof (induction bads arbitrary: cn)
  case Nil
  have "stream_of cn = noise @ frame_packet (escape data) @ rest" using Nil(1) by simp
  from recv_packet_good [OF this Nil(3,4)] show ?case by (metis append_Nil length_0_conv replicate_0)
next
  case (Cons b bads)
  obtain n f where b: "b = (n, f)" by (cases b)
  have s: "stream_of cn = n @ frame_bytes f @
      (concat (map (\<lambda>(noise, f). noise @ frame_bytes f) bads) @ noise @ frame_packet (escape data) @ rest)"
    using Cons.prems(1) by (simp add: b)
  obtain cn2 where c: "recv_packet cn = recv_packet cn2" "stream_of cn2 =
      concat (map (\<lambda>(noise, f). noise @ frame_bytes f) bads) @ noise @ frame_packet (escape data) @ rest"
    "cn_out cn2 = cn_out cn @ ''-''"
  proof -
    have "quiet n" "bad_frame f" using Cons.prems(2) by (simp_all add: b)
    from recv_packet_bad [OF s this] show ?thesis using that by blast
  qed
  have "\<exists>cn'. recv_packet cn2 = (RsPacket data, cn') \<and> stream_of cn' = rest
      \<and> cn_out cn' = cn_out cn2 @ replicate (length bads) (CHR ''-'') @ ''+''"
    using Cons.prems(2,3,4) by (intro Cons.IH [OF c(2)]) simp_all
  with c show ?case by simp
qed

lemma packet_delivery_witness:
  "\<exists>cn'. recv_packet \<lparr>cn_rx = ''+'', cn_in = [RecvBytes ''$g#00$g'', RecvEintr, RecvBytes ''#67''], cn_out = []\<rparr>
      = (RsPacket ''g'', cn') \<and> stream_of cn' = [] \<and> cn_out cn' = ''-+''"
proof -
  have c: "checksum ''g'' = 0x67" by (simp add: checksum_def)
  have z: "parse_hex_byte ''00'' 0 = Some 0"
    by (simp add: parse_hex_byte_def from_chars_all_def from_chars_def Let_def digit_val_def read_digits_def digits_value_def)
  have bad: "bad_frame (''g'', CHR ''0'', CHR ''0'')" by (simp add: bad_frame_def checksum_matches_def z c)
  have esc: "escape ''g'' = ''g''" by (simp add: escape_def)
  have hx: "hex_byte 0x67 = ''67''"
    by (simp add: hex_byte_def show_base_def digits_of.simps pad_zero_def digit_char_def char_of_def bit_0)
  show ?thesis
    using packet_delivery [of "\<lparr>cn_rx = ''+'', cn_in = [RecvBytes ''$g#00$g'', RecvEintr, RecvBytes ''#67''], cn_out = []\<rparr>"
        "[(''+'', (''g'', CHR ''0'', CHR ''0''))]" "[]" "''g''" "[]"] bad esc hx c
    by (simp add: stream_of_def frame_bytes_def frame_packet_def quiet_def kMaxPacketSize_def)
qed

end
