(* ===== verification/GdbStub.thy ===== *)
theory GdbStub
  imports GdbPacket Pipeline
begin

text \<open>
  The session of the debug stub (\<open>include/mips/gdb_stub.h\<close>, \<open>src/mips/gdb_stub.cpp\<close>): register
  and memory access, breakpoints, \<open>continue\<close> and \<open>step\<close>, the packet dispatcher, the event loop and
  \<open>listen\<close>, over any \<open>mips_ops\<close>. Running code may not stop, so \<open>continue\<close> and the loop take
  fuel and return \<open>None\<close> when it runs out; with a finite connection enough fuel always exists.
  No handler can throw, so the catch clause of the loop has no branch here.
\<close>

unbundle bit_operations_syntax

section \<open>State\<close>

definition kBreakWord :: u32 where "kBreakWord = 0x0000000D"
definition kSIGINT :: nat where "kSIGINT = 2"
definition kSIGILL :: nat where "kSIGILL = 4"
definition kSIGTRAP :: nat where "kSIGTRAP = 5"
definition kSIGFPE :: nat where "kSIGFPE = 8"
definition kSIGSEGV :: nat where "kSIGSEGV = 11"
definition kSIGSYS :: nat where "kSIGSYS = 12"
definition kNumRegs :: nat where "kNumRegs = 38"
definition kInterruptPollSteps :: nat where "kInterruptPollSteps = 1024"

record breakpoint =
  bp_addr :: u32
  bp_saved_word :: u32

record 'c gdb_stub =
  gs_cpu :: 'c
  gs_conn :: conn
  gs_breakpoints :: "breakpoint list"
  gs_running :: bool
  gs_detached :: bool
  gs_last_result :: step_result

abbreviation reply :: "(conn \<Rightarrow> conn) \<Rightarrow> 'c gdb_stub \<Rightarrow> 'c gdb_stub" where
  "reply f g \<equiv> g\<lparr>gs_conn := f (gs_conn g)\<rparr>"

section \<open>Registers\<close>

definition read_gdb_reg :: "('c, 'z) mips_ops_scheme \<Rightarrow> 'c \<Rightarrow> nat \<Rightarrow> u32" where
  "read_gdb_reg ops c n =
     (if n < 32 then regs_read (op_regs ops c) (of_nat n)
      else if n = 32 then cp0_status (op_cp0 ops c)
      else if n = 33 then op_lo ops c
      else if n = 34 then op_hi ops c
      else if n = 35 then cp0_bad_vaddr (op_cp0 ops c)
      else if n = 36 then cp0_cause (op_cp0 ops c)
      else if n = 37 then op_pc ops c
      else 0)"

definition write_gdb_reg :: "('c, 'z) mips_ops_scheme \<Rightarrow> nat \<Rightarrow> u32 \<Rightarrow> 'c \<Rightarrow> 'c" where
  "write_gdb_reg ops n v c =
     (if n < 32 then op_put_regs ops (regs_write (of_nat n) v (op_regs ops c)) c
      else if n = 32 then op_put_cp0 ops (cp0_write kRegStatus v (op_cp0 ops c)) c
      else if n = 33 then op_set_lo ops v c
      else if n = 34 then op_set_hi ops v c
      else if n = 36 then op_put_cp0 ops (cp0_write kRegCause v (op_cp0 ops c)) c
      else if n = 37 then op_set_pc ops v c
      else c)"

definition handle_read_regs :: "('c, 'z) mips_ops_scheme \<Rightarrow> 'c \<Rightarrow> string" where
  "handle_read_regs ops c = concat (map (\<lambda>i. to_hex_le (read_gdb_reg ops c i)) [0..<kNumRegs])"

text \<open>Four little-endian hex bytes.\<close>

definition parse_le :: "string \<Rightarrow> nat \<Rightarrow> u32 option" where
  "parse_le hex off =
     (case (parse_hex_byte hex off, parse_hex_byte hex (off + 2), parse_hex_byte hex (off + 4),
            parse_hex_byte hex (off + 6)) of
        (Some a, Some b, Some c, Some d) \<Rightarrow> Some (join_word a b c d)
      | _ \<Rightarrow> None)"

fun write_regs_loop :: "('c, 'z) mips_ops_scheme \<Rightarrow> string \<Rightarrow> nat \<Rightarrow> nat \<Rightarrow> 'c \<Rightarrow> bool \<times> 'c" where
  "write_regs_loop ops hex 0 i c = (True, c)"
| "write_regs_loop ops hex (Suc n) i c =
     (case parse_le hex (i * 8) of
        None \<Rightarrow> (False, c)
      | Some v \<Rightarrow> write_regs_loop ops hex n (Suc i) (write_gdb_reg ops i v c))"

definition handle_write_regs :: "('c, 'z) mips_ops_scheme \<Rightarrow> string \<Rightarrow> 'c \<Rightarrow> bool \<times> 'c" where
  "handle_write_regs ops hex c =
     (if length hex < kNumRegs * 8 then (False, c) else write_regs_loop ops hex kNumRegs 0 c)"

definition handle_read_reg :: "('c, 'z) mips_ops_scheme \<Rightarrow> string \<Rightarrow> 'c \<Rightarrow> string" where
  "handle_read_reg ops args c =
     (case parse_hex args of
        None \<Rightarrow> ''E01''
      | Some n \<Rightarrow> if kNumRegs \<le> unat n then ''E01'' else to_hex_le (read_gdb_reg ops c (unat n)))"

text \<open>As many of the four bytes as are present: the loop stops at the first that is not.\<close>

fun partial_le :: "string \<Rightarrow> nat \<Rightarrow> nat \<Rightarrow> u32 \<Rightarrow> u32" where
  "partial_le vs 0 b v = v"
| "partial_le vs (Suc n) b v =
     (case parse_hex_byte vs (b * 2) of
        None \<Rightarrow> v
      | Some byte \<Rightarrow> partial_le vs n (Suc b) (v OR push_bit (b * 8) (ucast byte)))"

definition handle_write_reg :: "('c, 'z) mips_ops_scheme \<Rightarrow> string \<Rightarrow> 'c \<Rightarrow> bool \<times> 'c" where
  "handle_write_reg ops args c =
     (case find_char (CHR ''='') args of
        None \<Rightarrow> (False, c)
      | Some eq \<Rightarrow>
          (case parse_hex (take eq args) of
             None \<Rightarrow> (False, c)
           | Some n \<Rightarrow>
               if kNumRegs \<le> unat n then (False, c)
               else (True, write_gdb_reg ops (unat n) (partial_le (drop (eq + 1) args) 4 0 0) c)))"

section \<open>Memory\<close>

text \<open>The loop of \<open>handle_read_mem\<close>: \<open>n\<close> bytes are left, \<open>out\<close> is what was read.\<close>

fun read_mem_loop :: "memory \<Rightarrow> nat \<Rightarrow> u32 \<Rightarrow> string \<Rightarrow> string" where
  "read_mem_loop m 0 a out = out"
| "read_mem_loop m (Suc n) a out =
     (case mem_read_byte m a of
        None \<Rightarrow> ''E02''
      | Some b \<Rightarrow> read_mem_loop m n (a + 1) (out @ hex_byte b))"

definition handle_read_mem :: "('c, 'z) mips_ops_scheme \<Rightarrow> string \<Rightarrow> 'c \<Rightarrow> string" where
  "handle_read_mem ops args c =
     (case find_char (CHR '','') args of
        None \<Rightarrow> ''E01''
      | Some comma \<Rightarrow>
          (case (parse_hex (take comma args), parse_hex (drop (comma + 1) args)) of
             (Some addr, Some len) \<Rightarrow>
               (let n = min len (of_nat (mem_size (op_mem ops c)))
                in read_mem_loop (op_mem ops c) (unat n) addr [])
           | _ \<Rightarrow> ''E01''))"

fun write_mem_loop :: "string \<Rightarrow> nat \<Rightarrow> nat \<Rightarrow> u32 \<Rightarrow> memory \<Rightarrow> bool \<times> memory" where
  "write_mem_loop hex 0 i a m = (True, m)"
| "write_mem_loop hex (Suc n) i a m =
     (case parse_hex_byte hex (i * 2) of
        None \<Rightarrow> (False, m)
      | Some byte \<Rightarrow>
          (case mem_write_byte m a byte of
             (ok, m') \<Rightarrow> if \<not> ok then (False, m') else write_mem_loop hex n (Suc i) (a + 1) m'))"

definition handle_write_mem :: "('c, 'z) mips_ops_scheme \<Rightarrow> string \<Rightarrow> 'c \<Rightarrow> bool \<times> 'c" where
  "handle_write_mem ops args c =
     (case (find_char (CHR '':'') args, find_char (CHR '','') args) of
        (Some colon, Some comma) \<Rightarrow>
          if colon < comma then (False, c)
          else (case (parse_hex (take comma args), parse_hex (take (colon - comma - 1) (drop (comma + 1) args))) of
                  (Some addr, Some len) \<Rightarrow>
                    (case write_mem_loop (drop (colon + 1) args) (unat len) 0 addr (op_mem ops c) of
                       (ok, m) \<Rightarrow> (ok, op_put_mem ops m c))
                | _ \<Rightarrow> (False, c))
      | _ \<Rightarrow> (False, c))"

section \<open>Breakpoints\<close>

definition insert_breakpoint :: "('c, 'z) mips_ops_scheme \<Rightarrow> u32 \<Rightarrow> 'c gdb_stub \<Rightarrow> bool \<times> 'c gdb_stub" where
  "insert_breakpoint ops addr g =
     (if list_ex (\<lambda>bp. bp_addr bp = addr) (gs_breakpoints g) then (True, g)
      else case mem_read_word (op_mem ops (gs_cpu g)) addr of
             None \<Rightarrow> (False, g)
           | Some word \<Rightarrow>
               (case mem_write_word (op_mem ops (gs_cpu g)) addr kBreakWord of
                  (ok, m) \<Rightarrow>
                    if \<not> ok then (False, g\<lparr>gs_cpu := op_put_mem ops m (gs_cpu g)\<rparr>)
                    else (True, g\<lparr>gs_cpu := op_put_mem ops m (gs_cpu g),
                      gs_breakpoints := gs_breakpoints g @ [\<lparr>bp_addr = addr, bp_saved_word = word\<rparr>]\<rparr>)))"

text \<open>The first entry for an address, and the list without it.\<close>

fun take_breakpoint :: "u32 \<Rightarrow> breakpoint list \<Rightarrow> (u32 \<times> breakpoint list) option" where
  "take_breakpoint addr [] = None"
| "take_breakpoint addr (bp # bps) =
     (if bp_addr bp = addr then Some (bp_saved_word bp, bps)
      else map_option (\<lambda>(w, rest). (w, bp # rest)) (take_breakpoint addr bps))"

definition remove_breakpoint :: "('c, 'z) mips_ops_scheme \<Rightarrow> u32 \<Rightarrow> 'c gdb_stub \<Rightarrow> bool \<times> 'c gdb_stub" where
  "remove_breakpoint ops addr g =
     (case take_breakpoint addr (gs_breakpoints g) of
        None \<Rightarrow> (False, g)
      | Some (word, rest) \<Rightarrow>
          (True, g\<lparr>gs_cpu := op_put_mem ops (snd (mem_write_word (op_mem ops (gs_cpu g)) addr word)) (gs_cpu g),
                   gs_breakpoints := rest\<rparr>))"

text \<open>The arguments \<open>type,addr,kind\<close>: an error, an unsupported type, or the address.\<close>

datatype bp_request = BpError | BpUnsupported | BpAddr u32

definition parse_breakpoint :: "string \<Rightarrow> bp_request" where
  "parse_breakpoint args =
     (case find_char (CHR '','') args of
        None \<Rightarrow> BpError
      | Some c1 \<Rightarrow>
          (case find_char (CHR '','') (drop (c1 + 1) args) of
             None \<Rightarrow> BpError
           | Some k \<Rightarrow>
               (case parse_hex (take c1 args) of
                  None \<Rightarrow> BpError
                | Some ty \<Rightarrow>
                    if ty \<noteq> 0 then BpUnsupported
                    else (case parse_hex (take k (drop (c1 + 1) args)) of
                            None \<Rightarrow> BpError
                          | Some addr \<Rightarrow> BpAddr addr))))"

definition handle_breakpoint_set :: "('c, 'z) mips_ops_scheme \<Rightarrow> string \<Rightarrow> 'c gdb_stub \<Rightarrow> 'c gdb_stub" where
  "handle_breakpoint_set ops args g =
     (case parse_breakpoint args of
        BpError \<Rightarrow> reply (send_error 1) g
      | BpUnsupported \<Rightarrow> reply send_empty g
      | BpAddr addr \<Rightarrow>
          (case insert_breakpoint ops addr g of (ok, g') \<Rightarrow> reply (if ok then send_ok else send_error 1) g'))"

definition handle_breakpoint_clear :: "('c, 'z) mips_ops_scheme \<Rightarrow> string \<Rightarrow> 'c gdb_stub \<Rightarrow> 'c gdb_stub" where
  "handle_breakpoint_clear ops args g =
     (case parse_breakpoint args of
        BpError \<Rightarrow> reply (send_error 1) g
      | BpUnsupported \<Rightarrow> reply send_empty g
      | BpAddr addr \<Rightarrow>
          (case remove_breakpoint ops addr g of (ok, g') \<Rightarrow> reply (if ok then send_ok else send_error 1) g'))"

section \<open>Running\<close>

definition exception_signal :: "exception_code \<Rightarrow> nat" where
  "exception_signal e =
     (case e of ExcBp \<Rightarrow> kSIGTRAP | ExcSys \<Rightarrow> kSIGSYS | ExcRI \<Rightarrow> kSIGILL | ExcOv \<Rightarrow> kSIGFPE
      | ExcAdEL \<Rightarrow> kSIGSEGV | ExcAdES \<Rightarrow> kSIGSEGV | _ \<Rightarrow> kSIGTRAP)"

definition stop_signal :: "('c, 'z) mips_ops_scheme \<Rightarrow> 'c gdb_stub \<Rightarrow> nat" where
  "stop_signal ops g =
     (case gs_last_result g of
        StException \<Rightarrow> exception_signal (cp0_last_exc (op_cp0 ops (gs_cpu g)))
      | _ \<Rightarrow> kSIGTRAP)"

definition thread_stop :: "nat \<Rightarrow> string" where
  "thread_stop sig = ''T'' @ pad_zero 2 (show_base False 16 sig) @ ''thread:01;''"

text \<open>The stop reply of an exception, then the PC put back to the EPC.\<close>

definition report_exception :: "('c, 'z) mips_ops_scheme \<Rightarrow> 'c gdb_stub \<Rightarrow> 'c gdb_stub" where
  "report_exception ops g =
     (let g = reply (send_packet (thread_stop (stop_signal ops g))) g
      in g\<lparr>gs_cpu := op_set_pc ops (cp0_epc (op_cp0 ops (gs_cpu g))) (gs_cpu g)\<rparr>)"

definition start_at :: "('c, 'z) mips_ops_scheme \<Rightarrow> string \<Rightarrow> 'c gdb_stub \<Rightarrow> 'c gdb_stub" where
  "start_at ops args g =
     (if args = [] then g
      else case parse_hex args of Some pc \<Rightarrow> g\<lparr>gs_cpu := op_set_pc ops pc (gs_cpu g)\<rparr> | None \<Rightarrow> g)"

definition step_cpu :: "('c, 'z) mips_ops_scheme \<Rightarrow> 'c gdb_stub \<Rightarrow> 'c gdb_stub" where
  "step_cpu ops g =
     (case op_step ops (gs_cpu g) of (r, c) \<Rightarrow> g\<lparr>gs_cpu := c, gs_last_result := r\<rparr>)"

text \<open>The body of the run loop after the poll: whether the run goes on, and the stub.\<close>

definition run_one :: "('c, 'z) mips_ops_scheme \<Rightarrow> 'c gdb_stub \<Rightarrow> bool \<times> 'c gdb_stub" where
  "run_one ops g =
     (let g = step_cpu ops g
      in case gs_last_result g of
           StHalt \<Rightarrow> (False, reply (send_signal kSIGTRAP) (g\<lparr>gs_running := False\<rparr>))
         | StException \<Rightarrow> (False, report_exception ops (g\<lparr>gs_running := False\<rparr>))
         | StFault \<Rightarrow> (False, reply (send_signal kSIGTRAP) (g\<lparr>gs_running := False\<rparr>))
         | StOk \<Rightarrow> (True, g))"

fun continue_loop :: "('c, 'z) mips_ops_scheme \<Rightarrow> nat \<Rightarrow> nat \<Rightarrow> 'c gdb_stub \<Rightarrow> 'c gdb_stub option" where
  "continue_loop ops 0 steps g = None"
| "continue_loop ops (Suc fuel) steps g =
     (if Suc steps mod kInterruptPollSteps = 0 then
        (case poll_input (gs_conn g) of
           (PollInterrupt, cn) \<Rightarrow> Some (reply (send_signal kSIGINT) (g\<lparr>gs_conn := cn, gs_running := False\<rparr>))
         | (PollClosed, cn) \<Rightarrow> Some (g\<lparr>gs_conn := cn, gs_running := False\<rparr>)
         | (PollIdle, cn) \<Rightarrow>
             (case run_one ops (g\<lparr>gs_conn := cn\<rparr>) of
                (go, g') \<Rightarrow> if go then continue_loop ops fuel (Suc steps) g' else Some g'))
      else
        (case run_one ops g of
           (go, g') \<Rightarrow> if go then continue_loop ops fuel (Suc steps) g' else Some g'))"

definition handle_continue :: "('c, 'z) mips_ops_scheme \<Rightarrow> nat \<Rightarrow> string \<Rightarrow> 'c gdb_stub \<Rightarrow> 'c gdb_stub option" where
  "handle_continue ops fuel args g =
     continue_loop ops fuel 0 ((start_at ops args g)\<lparr>gs_running := True\<rparr>)"

definition handle_step :: "('c, 'z) mips_ops_scheme \<Rightarrow> string \<Rightarrow> 'c gdb_stub \<Rightarrow> 'c gdb_stub" where
  "handle_step ops args g =
     (let g = step_cpu ops (start_at ops args g)
      in if gs_last_result g = StException then report_exception ops g
         else reply (send_signal kSIGTRAP) g)"

section \<open>Dispatch and the event loop\<close>

definition handle_query :: "string \<Rightarrow> conn \<Rightarrow> conn" where
  "handle_query args =
     (if starts_with args ''Supported'' then
        send_packet (''PacketSize='' @ show_base False 16 kMaxPacketSize @ '';swbreak+;hwbreak-'')
      else if args = ''Attached'' then send_packet ''1''
      else if args = ''C'' then send_packet ''QC0''
      else if starts_with args ''Symbol'' then send_ok
      else send_empty)"

definition dispatch :: "('c, 'z) mips_ops_scheme \<Rightarrow> nat \<Rightarrow> string \<Rightarrow> 'c gdb_stub \<Rightarrow> 'c gdb_stub option" where
  "dispatch ops fuel pkt g =
     (case pkt of
        [] \<Rightarrow> Some (reply send_empty g)
      | cmd # args \<Rightarrow>
          (let ok_or_error = (\<lambda>(ok, c). reply (if ok then send_ok else send_error 1) (g\<lparr>gs_cpu := c\<rparr>))
           in if cmd = CHR ''?'' then Some (reply (send_signal kSIGTRAP) g)
              else if cmd = CHR ''g'' then Some (reply (send_packet (handle_read_regs ops (gs_cpu g))) g)
              else if cmd = CHR ''G'' then Some (ok_or_error (handle_write_regs ops args (gs_cpu g)))
              else if cmd = CHR ''p'' then Some (reply (send_packet (handle_read_reg ops args (gs_cpu g))) g)
              else if cmd = CHR ''P'' then Some (ok_or_error (handle_write_reg ops args (gs_cpu g)))
              else if cmd = CHR ''m'' then Some (reply (send_packet (handle_read_mem ops args (gs_cpu g))) g)
              else if cmd = CHR ''M'' then Some (ok_or_error (handle_write_mem ops args (gs_cpu g)))
              else if cmd = CHR ''c'' then handle_continue ops fuel args g
              else if cmd = CHR ''s'' then Some (handle_step ops args g)
              else if cmd = CHR ''Z'' then Some (handle_breakpoint_set ops args g)
              else if cmd = CHR ''z'' then Some (handle_breakpoint_clear ops args g)
              else if cmd = CHR ''k'' \<or> cmd = CHR ''D'' then
                Some (reply send_ok (g\<lparr>gs_running := False, gs_detached := True\<rparr>))
              else if cmd = CHR ''H'' \<or> cmd = CHR ''T'' then Some (reply send_ok g)
              else if cmd = CHR ''q'' then Some (reply (handle_query args) g)
              else Some (reply send_empty g)))"

fun serve_loop :: "('c, 'z) mips_ops_scheme \<Rightarrow> nat \<Rightarrow> nat \<Rightarrow> 'c gdb_stub \<Rightarrow> 'c gdb_stub option" where
  "serve_loop ops fuel 0 g = None"
| "serve_loop ops fuel (Suc n) g =
     (if gs_detached g then Some g
      else case recv_packet (gs_conn g) of
             (RsClosed, cn) \<Rightarrow> Some (g\<lparr>gs_conn := cn\<rparr>)
           | (RsInterrupt, cn) \<Rightarrow> serve_loop ops fuel n (reply (send_signal kSIGINT) (g\<lparr>gs_conn := cn\<rparr>))
           | (RsPacket pkt, cn) \<Rightarrow>
               (case dispatch ops fuel pkt (g\<lparr>gs_conn := cn\<rparr>) of
                  None \<Rightarrow> None
                | Some g' \<Rightarrow> serve_loop ops fuel n g'))"

definition serve :: "('c, 'z) mips_ops_scheme \<Rightarrow> nat \<Rightarrow> nat \<Rightarrow> 'c gdb_stub \<Rightarrow> 'c gdb_stub option" where
  "serve ops fuel n g = serve_loop ops fuel n (g\<lparr>gs_last_result := StOk, gs_detached := False\<rparr>)"

section \<open>Listening\<close>

text \<open>What the socket calls give: descriptors (negative on failure) and the accepted connection's input.\<close>

record sock_env =
  se_socket :: int
  se_bind :: int
  se_accept :: int
  se_input :: "recv_result list"

record 'c gdb_server =
  sv_stub :: "'c gdb_stub"
  sv_server_fd :: int
  sv_client_fd :: int
  sv_closed :: "int list"

text \<open>The guard that runs on every exit once the listening socket exists.\<close>

definition close_sockets :: "'c gdb_server \<Rightarrow> 'c gdb_server" where
  "close_sockets sv =
     (let sv = (if 0 \<le> sv_client_fd sv then
                  sv\<lparr>sv_closed := sv_closed sv @ [sv_client_fd sv], sv_client_fd := -1\<rparr> else sv)
      in if 0 \<le> sv_server_fd sv then
           sv\<lparr>sv_closed := sv_closed sv @ [sv_server_fd sv], sv_server_fd := -1\<rparr> else sv)"

definition configure_client_socket :: "recv_result list \<Rightarrow> 'c gdb_stub \<Rightarrow> 'c gdb_stub" where
  "configure_client_socket ins g = g\<lparr>gs_conn := \<lparr>cn_rx = [], cn_in = ins, cn_out = []\<rparr>\<rparr>"

definition stub_listen :: "('c, 'z) mips_ops_scheme \<Rightarrow> nat \<Rightarrow> nat \<Rightarrow> sock_env \<Rightarrow> 'c gdb_server \<Rightarrow> 'c gdb_server option" where
  "stub_listen ops fuel n env sv =
     (let sv = sv\<lparr>sv_server_fd := se_socket env\<rparr>
      in if sv_server_fd sv < 0 then Some sv
         else if se_bind env < 0 then Some (close_sockets sv)
         else let sv = sv\<lparr>sv_client_fd := se_accept env\<rparr>
              in if sv_client_fd sv < 0 then Some (close_sockets sv)
                 else map_option (\<lambda>g. close_sockets (sv\<lparr>sv_stub := g\<rparr>))
                        (serve ops fuel n (configure_client_socket (se_input env) (sv_stub sv))))"

section \<open>Breakpoints do not change the program\<close>

text \<open>The patched words are break instructions, one entry per address.\<close>

definition bp_inv :: "('c, 'z) mips_ops_scheme \<Rightarrow> 'c gdb_stub \<Rightarrow> bool" where
  "bp_inv ops g \<longleftrightarrow>
     distinct (map bp_addr (gs_breakpoints g))
     \<and> (\<forall>bp\<in>set (gs_breakpoints g). mem_read_word (op_mem ops (gs_cpu g)) (bp_addr bp) = Some kBreakWord)"

text \<open>The program as the debugger sees it: saved words over the memory.\<close>

definition program_word :: "('c, 'z) mips_ops_scheme \<Rightarrow> 'c gdb_stub \<Rightarrow> u32 \<Rightarrow> u32 option" where
  "program_word ops g a =
     (case take_breakpoint a (gs_breakpoints g) of
        Some (w, _) \<Rightarrow> Some w
      | None \<Rightarrow> mem_read_word (op_mem ops (gs_cpu g)) a)"

lemma take_breakpoint_None: "take_breakpoint a bps = None \<longleftrightarrow> a \<notin> bp_addr ` set bps"
  by (induction bps) auto

lemma take_breakpoint_snoc:
  "map_option fst (take_breakpoint b (bps @ [bp])) =
     (case take_breakpoint b bps of Some (w, _) \<Rightarrow> Some w | None \<Rightarrow> if bp_addr bp = b then Some (bp_saved_word bp) else None)"
  by (induction bps) (auto split: option.splits)

lemma take_breakpoint_rest:
  assumes "take_breakpoint a bps = Some (w, rest)" "distinct (map bp_addr bps)"
  shows "bp_addr ` set bps = insert a (bp_addr ` set rest)" "a \<notin> bp_addr ` set rest"
    "distinct (map bp_addr rest)" "set rest \<subseteq> set bps"
    "b \<noteq> a \<Longrightarrow> map_option fst (take_breakpoint b rest) = map_option fst (take_breakpoint b bps)"
proof -
  have "bp_addr ` set bps = insert a (bp_addr ` set rest) \<and> a \<notin> bp_addr ` set rest
    \<and> distinct (map bp_addr rest) \<and> set rest \<subseteq> set bps
    \<and> (b \<noteq> a \<longrightarrow> map_option fst (take_breakpoint b rest) = map_option fst (take_breakpoint b bps))"
    using assms
  proof (induction bps arbitrary: rest)
    case (Cons bp bps)
    show ?case
    proof (cases "bp_addr bp = a")
      case True
      with Cons.prems show ?thesis by (auto simp: option.map_comp o_def split_beta)
    next
      case False
      then obtain r where r: "take_breakpoint a bps = Some (w, r)" "rest = bp # r"
        using Cons.prems(1) by auto
      have "distinct (map bp_addr bps)" "bp_addr bp \<notin> bp_addr ` set bps" using Cons.prems(2) by auto
      with Cons.IH [OF r(1)] False show ?thesis
        by (auto simp: r(2) option.map_comp o_def split_beta)
    qed
  qed simp
  then show "bp_addr ` set bps = insert a (bp_addr ` set rest)" "a \<notin> bp_addr ` set rest"
    "distinct (map bp_addr rest)" "set rest \<subseteq> set bps"
    "b \<noteq> a \<Longrightarrow> map_option fst (take_breakpoint b rest) = map_option fst (take_breakpoint b bps)"
    by blast+
qed

lemma program_word_alt:
  "program_word ops g a =
     (case map_option fst (take_breakpoint a (gs_breakpoints g)) of
        Some w \<Rightarrow> Some w | None \<Rightarrow> mem_read_word (op_mem ops (gs_cpu g)) a)"
  by (auto simp: program_word_def split: option.split)

text \<open>What inserting and removing promise.\<close>

definition breakpoint_contract :: "('c, 'z) mips_ops_scheme \<Rightarrow> 'c gdb_stub \<Rightarrow> u32 \<Rightarrow> bool" where
  "breakpoint_contract ops g a \<longleftrightarrow>
     (case insert_breakpoint ops a g of (ok, g') \<Rightarrow>
        bp_inv ops g' \<and> program_word ops g' = program_word ops g
        \<and> (ok \<longleftrightarrow> program_word ops g a \<noteq> None)
        \<and> (ok \<longrightarrow> mem_read_word (op_mem ops (gs_cpu g')) a = Some kBreakWord)
        \<and> (\<not> ok \<longrightarrow> g' = g))
     \<and> (case remove_breakpoint ops a g of (ok, g') \<Rightarrow>
        bp_inv ops g' \<and> program_word ops g' = program_word ops g
        \<and> (ok \<longleftrightarrow> a \<in> bp_addr ` set (gs_breakpoints g))
        \<and> (ok \<longrightarrow> mem_read_word (op_mem ops (gs_cpu g')) a = program_word ops g a
              \<and> a \<notin> bp_addr ` set (gs_breakpoints g'))
        \<and> (\<not> ok \<longrightarrow> g' = g))"

context mips_processor
begin

lemma insert_contract:
  assumes "bp_inv ops g"
  shows "case insert_breakpoint ops a g of (ok, g') \<Rightarrow>
        bp_inv ops g' \<and> program_word ops g' = program_word ops g
        \<and> (ok \<longleftrightarrow> program_word ops g a \<noteq> None)
        \<and> (ok \<longrightarrow> mem_read_word (op_mem ops (gs_cpu g')) a = Some kBreakWord)
        \<and> (\<not> ok \<longrightarrow> g' = g)"
proof (cases "a \<in> bp_addr ` set (gs_breakpoints g)")
  case True
  then have "list_ex (\<lambda>bp. bp_addr bp = a) (gs_breakpoints g)" by (auto simp: list_ex_iff)
  moreover have "take_breakpoint a (gs_breakpoints g) \<noteq> None" using True take_breakpoint_None by blast
  moreover have "mem_read_word (op_mem ops (gs_cpu g)) a = Some kBreakWord"
    using True assms by (auto simp: bp_inv_def)
  ultimately show ?thesis using assms by (auto simp: insert_breakpoint_def program_word_def)
next
  case False
  let ?m = "op_mem ops (gs_cpu g)"
  have ne: "\<not> list_ex (\<lambda>bp. bp_addr bp = a) (gs_breakpoints g)" using False by (auto simp: list_ex_iff)
  have tn: "take_breakpoint a (gs_breakpoints g) = None" using False take_breakpoint_None by blast
  show ?thesis
  proof (cases "mem_read_word ?m a")
    case None
    then show ?thesis using assms ne tn by (simp add: insert_breakpoint_def program_word_def)
  next
    case (Some w)
    obtain m where w: "mem_write_word ?m a kBreakWord = (True, m)"
      using ram.wr_ok_iff [of ?m a kBreakWord] Some by (cases "mem_write_word ?m a kBreakWord") auto
    have rd: "mem_read_word m b = (if a = b then Some kBreakWord else mem_read_word ?m b)" for b
      using ram.rd_wr [of ?m a kBreakWord b] Some w by simp
    let ?g = "g\<lparr>gs_cpu := op_put_mem ops m (gs_cpu g),
      gs_breakpoints := gs_breakpoints g @ [\<lparr>bp_addr = a, bp_saved_word = w\<rparr>]\<rparr>"
    have i: "insert_breakpoint ops a g = (True, ?g)" using ne Some w by (simp add: insert_breakpoint_def)
    have "bp_inv ops ?g" using assms False by (auto simp: bp_inv_def mem_put_mem rd)
    moreover have "program_word ops ?g = program_word ops g"
    proof
      fix b
      show "program_word ops ?g b = program_word ops g b"
        using tn Some by (auto simp: program_word_alt take_breakpoint_snoc mem_put_mem rd split: option.splits)
    qed
    ultimately show ?thesis
      unfolding i using Some tn rd by (auto simp: mem_put_mem program_word_def)
  qed
qed

lemma remove_contract:
  assumes "bp_inv ops g"
  shows "case remove_breakpoint ops a g of (ok, g') \<Rightarrow>
        bp_inv ops g' \<and> program_word ops g' = program_word ops g
        \<and> (ok \<longleftrightarrow> a \<in> bp_addr ` set (gs_breakpoints g))
        \<and> (ok \<longrightarrow> mem_read_word (op_mem ops (gs_cpu g')) a = program_word ops g a
              \<and> a \<notin> bp_addr ` set (gs_breakpoints g'))
        \<and> (\<not> ok \<longrightarrow> g' = g)"
proof (cases "take_breakpoint a (gs_breakpoints g)")
  case None
  then show ?thesis using assms take_breakpoint_None [of a "gs_breakpoints g"] by (auto simp: remove_breakpoint_def)
next
  case (Some wr)
  obtain w rest where t: "take_breakpoint a (gs_breakpoints g) = Some (w, rest)" using Some by (cases wr) auto
  let ?m = "op_mem ops (gs_cpu g)"
  have dist: "distinct (map bp_addr (gs_breakpoints g))" using assms by (simp add: bp_inv_def)
  note r = take_breakpoint_rest [OF t dist]
  have at: "a \<in> bp_addr ` set (gs_breakpoints g)" using r(1) by blast
  then have "mem_read_word ?m a = Some kBreakWord"
    using assms by (auto simp: bp_inv_def)
  then have rd: "mem_read_word (snd (mem_write_word ?m a w)) b = (if a = b then Some w else mem_read_word ?m b)" for b
    using ram.rd_wr [of ?m a w b] by simp
  let ?g = "g\<lparr>gs_cpu := op_put_mem ops (snd (mem_write_word ?m a w)) (gs_cpu g), gs_breakpoints := rest\<rparr>"
  have i: "remove_breakpoint ops a g = (True, ?g)" by (simp add: remove_breakpoint_def t)
  have "\<forall>bp\<in>set rest. bp_addr bp \<noteq> a" using r(2) by auto
  then have inv: "bp_inv ops ?g" using assms r(3,4) by (auto simp: bp_inv_def mem_put_mem rd)
  have "\<And>b. program_word ops ?g b = program_word ops g b"
  proof -
    fix b
    show "program_word ops ?g b = program_word ops g b"
  proof (cases "b = a")
    case True
    moreover have "take_breakpoint a rest = None" using r(2) take_breakpoint_None by blast
    ultimately show ?thesis by (simp add: program_word_def t mem_put_mem rd)
  next
    case False
    then have "mem_read_word (op_mem ops (gs_cpu ?g)) b = mem_read_word ?m b" by (simp add: mem_put_mem rd)
    with r(5) [OF False] show ?thesis by (simp add: program_word_alt cong: option.case_cong)
  qed
  qed
  then have pw: "program_word ops ?g = program_word ops g" by (rule ext)
  have val: "mem_read_word (op_mem ops (gs_cpu ?g)) a = program_word ops g a"
    by (simp add: program_word_def t mem_put_mem rd)
  have nb: "a \<notin> bp_addr ` set (gs_breakpoints ?g)" using r(2) by simp
  show ?thesis
    by (simp only: i prod.case simp_thms inv pw val nb at)
qed

lemma breakpoint_contract: "bp_inv ops g \<Longrightarrow> breakpoint_contract ops g a"
  unfolding breakpoint_contract_def by (intro conjI insert_contract remove_contract)

section \<open>Registers read back\<close>

lemma gdb_reg_write_read:
  assumes "regs_wf (op_regs ops c)" "n < kNumRegs" "k < kNumRegs"
  shows "read_gdb_reg ops (write_gdb_reg ops n v c) k =
    (if n = k \<and> n \<noteq> 0 \<and> n \<noteq> 35 then v else read_gdb_reg ops c k)"
proof (cases "n < 32")
  case n: True
  have i: "gpr_index (of_nat n)" using n by (simp add: unsigned_of_nat take_bit_eq_mod)
  show ?thesis
  proof (cases "k < 32")
    case True
    have j: "gpr_index (of_nat k)" using True by (simp add: unsigned_of_nat take_bit_eq_mod)
    have eq: "(of_nat n :: u8) = of_nat k \<longleftrightarrow> n = k"
      using n True by (simp add: word_unat_eq_iff unsigned_of_nat take_bit_eq_mod)
    have z: "(of_nat k :: u8) = 0 \<longleftrightarrow> k = 0"
      using True by (simp add: word_unat_eq_iff unsigned_of_nat take_bit_eq_mod)
    show ?thesis
      using gpr.rd_wr [OF assms(1) i j, of v] n True eq z
      by (simp add: read_gdb_reg_def write_gdb_reg_def regs_put_regs)
  next
    case False
    then show ?thesis
      using n by (simp add: read_gdb_reg_def write_gdb_reg_def lens_simps)
  qed
next
  case False
  have "n \<in> {32, 33, 34, 35, 36, 37}" using False assms(2) by (auto simp: kNumRegs_def)
  then show ?thesis
    by (elim insertE emptyE)
       (auto simp: read_gdb_reg_def write_gdb_reg_def lens_simps cp0_write_def kRegStatus_def kRegCause_def)
qed

lemma write_gdb_reg_wf:
  "regs_wf (op_regs ops c) \<Longrightarrow> regs_wf (op_regs ops (write_gdb_reg ops n v c))"
  by (simp add: write_gdb_reg_def lens_simps)

section \<open>A stop inside an exception\<close>

lemma step_stop_in_exception:
  assumes "cp0_in_exception (op_cp0 ops (gs_cpu (start_at ops args g)))"
    "fst (op_step ops (gs_cpu (start_at ops args g))) = StException"
  shows "op_pc ops (gs_cpu (handle_step ops args g)) = cp0_epc (op_cp0 ops (gs_cpu g))"
proof -
  have "op_cp0 ops (gs_cpu (start_at ops args g)) = op_cp0 ops (gs_cpu g)"
    by (simp add: start_at_def cp0_set_pc split: option.split)
  then show ?thesis
    using assms(2) nested_exception_keeps_epc [OF assms]
    by (simp add: handle_step_def step_cpu_def split_beta Let_def report_exception_def pc_set_pc)
qed

lemma step_stop_enters:
  assumes "fst (op_step ops (gs_cpu (start_at ops args g))) = StException"
  shows "cp0_in_exception (op_cp0 ops (gs_cpu (handle_step ops args g)))"
    "op_pc ops (gs_cpu (handle_step ops args g)) = cp0_epc (op_cp0 ops (gs_cpu (handle_step ops args g)))"
  using assms exception_enters_handler [OF assms]
  by (simp_all add: handle_step_def step_cpu_def split_beta Let_def report_exception_def pc_set_pc cp0_set_pc)

lemma second_stop:
  assumes "fst (op_step ops (gs_cpu (start_at ops args g))) = StException"
    "g' = handle_step ops args g"
    "fst (op_step ops (gs_cpu (start_at ops args' g'))) = StException"
  shows "op_pc ops (gs_cpu (handle_step ops args' g')) = op_pc ops (gs_cpu g')"
proof -
  have "op_cp0 ops (gs_cpu (start_at ops args' g')) = op_cp0 ops (gs_cpu g')"
    by (simp add: start_at_def cp0_set_pc split: option.split)
  then show ?thesis
    using step_stop_in_exception [of args' g'] step_stop_enters [OF assms(1)] assms(2,3) by simp
qed

end

section \<open>Hex words\<close>

lemma length_to_hex_le [simp]: "length (to_hex_le v) = 8"
  by (simp add: to_hex_le_def)

lemma bytes_of_word:
  "join_word (ucast (v AND 0xFF)) (ucast (drop_bit 8 v AND 0xFF)) (ucast (drop_bit 16 v AND 0xFF))
     (ucast (drop_bit 24 v AND 0xFF)) = v"
  by (simp only: u8_of_u32_byte join_word_split)

lemma parse_bytes_le:
  assumes "length xs = off"
  shows "parse_hex_byte (xs @ to_hex_le v @ s) off = Some (ucast (v AND 0xFF))"
    "parse_hex_byte (xs @ to_hex_le v @ s) (off + 2) = Some (ucast (drop_bit 8 v AND 0xFF))"
    "parse_hex_byte (xs @ to_hex_le v @ s) (off + 4) = Some (ucast (drop_bit 16 v AND 0xFF))"
    "parse_hex_byte (xs @ to_hex_le v @ s) (off + 6) = Some (ucast (drop_bit 24 v AND 0xFF))"
proof -
  let ?b0 = "hex_byte (ucast (v AND 0xFF))" and ?b1 = "hex_byte (ucast (drop_bit 8 v AND 0xFF))"
    and ?b2 = "hex_byte (ucast (drop_bit 16 v AND 0xFF))" and ?b3 = "hex_byte (ucast (drop_bit 24 v AND 0xFF))"
  have l: "length (xs @ ?b0) = off + 2" "length (xs @ ?b0 @ ?b1) = off + 4" "length (xs @ ?b0 @ ?b1 @ ?b2) = off + 6"
    using assms by simp_all
  show "parse_hex_byte (xs @ to_hex_le v @ s) off = Some (ucast (v AND 0xFF))"
    using parse_hex_byte_at [OF assms, of _ "?b1 @ ?b2 @ ?b3 @ s"] by (simp only: to_hex_le_def append_assoc)
  show "parse_hex_byte (xs @ to_hex_le v @ s) (off + 2) = Some (ucast (drop_bit 8 v AND 0xFF))"
    using parse_hex_byte_at [OF l(1), of _ "?b2 @ ?b3 @ s"] by (simp only: to_hex_le_def append_assoc)
  show "parse_hex_byte (xs @ to_hex_le v @ s) (off + 4) = Some (ucast (drop_bit 16 v AND 0xFF))"
    using parse_hex_byte_at [OF l(2), of _ "?b3 @ s"] by (simp only: to_hex_le_def append_assoc)
  show "parse_hex_byte (xs @ to_hex_le v @ s) (off + 6) = Some (ucast (drop_bit 24 v AND 0xFF))"
    using parse_hex_byte_at [OF l(3), of _ s] by (simp only: to_hex_le_def append_assoc)
qed

lemma parse_le_at: "length xs = off \<Longrightarrow> parse_le (xs @ to_hex_le v @ s) off = Some v"
  by (simp only: parse_le_def parse_bytes_le prod.case option.case bytes_of_word)

lemma partial_le_some:
  "parse_hex_byte s (b * 2) = Some x \<Longrightarrow> partial_le s (Suc n) b v = partial_le s n (Suc b) (v OR push_bit (b * 8) (ucast x))"
  by simp

lemma partial_le_four:
  assumes "parse_hex_byte s 0 = Some a" "parse_hex_byte s 2 = Some b" "parse_hex_byte s 4 = Some c"
    "parse_hex_byte s 6 = Some d"
  shows "partial_le s 4 0 0 = join_word a b c d"
proof -
  have four: "(4 :: nat) = Suc (Suc (Suc (Suc 0)))" by simp
  have b: "parse_hex_byte s (0 * 2) = Some a" "parse_hex_byte s (Suc 0 * 2) = Some b"
    "parse_hex_byte s (Suc (Suc 0) * 2) = Some c" "parse_hex_byte s (Suc (Suc (Suc 0)) * 2) = Some d"
    using assms by (simp_all only: mult_0 mult_Suc add_0_right numeral_plus_numeral semiring_norm)
  have "partial_le s 4 0 0 =
      (((0 OR push_bit (0 * 8) (ucast a)) OR push_bit (Suc 0 * 8) (ucast b)) OR push_bit (Suc (Suc 0) * 8) (ucast c))
        OR push_bit (Suc (Suc (Suc 0)) * 8) (ucast d)"
    unfolding four by (simp only: partial_le_some [OF b(1)] partial_le_some [OF b(2)] partial_le_some [OF b(3)]
        partial_le_some [OF b(4)] partial_le.simps(1))
  then show ?thesis by (simp add: join_word_def or.assoc)
qed

lemma partial_le_word: "partial_le (to_hex_le v) 4 0 0 = v"
proof -
  have "partial_le (to_hex_le v) 4 0 0 =
      join_word (ucast (v AND 0xFF)) (ucast (drop_bit 8 v AND 0xFF)) (ucast (drop_bit 16 v AND 0xFF))
        (ucast (drop_bit 24 v AND 0xFF))"
    using parse_bytes_le [of "[]" 0 v "[]"] by (intro partial_le_four) (simp_all only: list.size append_Nil append_Nil2 add_0 refl)
  then show ?thesis by (simp only: bytes_of_word)
qed

end
