(* ===== verification/GdbSession.thy ===== *)
theory GdbSession
  imports GdbStub
begin

text \<open>
  What a debugging session guarantees: it ends when the peer is gone, whatever the program does;
  every command is answered exactly once, in a frame that needs no escapes; registers read back
  what was written; breakpoints are invisible; and where the stop of a second exception is reported.
\<close>

section \<open>The connection only shrinks\<close>

definition conn_wf :: "conn \<Rightarrow> bool" where
  "conn_wf cn \<longleftrightarrow> length (cn_rx cn) \<le> kRxSize"

definition shrinks :: "conn \<Rightarrow> conn \<Rightarrow> bool" where
  "shrinks cn cn' \<longleftrightarrow> (conn_wf cn \<longrightarrow> conn_wf cn') \<and> conn_size cn' \<le> conn_size cn"

lemma shrinks_refl [simp]: "shrinks cn cn"
  by (simp add: shrinks_def)

lemma shrinks_trans [trans]: "shrinks a b \<Longrightarrow> shrinks b c \<Longrightarrow> shrinks a c"
  by (auto simp: shrinks_def)

lemma shrinks_out [simp]: "shrinks cn (send_raw s cn)" "shrinks cn (send_packet d cn)"
  by (simp_all add: shrinks_def send_packet_def send_raw_def conn_wf_def conn_size_def)

lemma conn_wf_out [simp]: "conn_wf (send_raw s cn) = conn_wf cn"
  by (simp add: conn_wf_def send_raw_def)

lemma refill_length: "refill ins = Some (bs, rest) \<Longrightarrow> length bs \<le> kRxSize"
proof (induction ins arbitrary: bs rest rule: refill.induct)
  case (1 ins)
  obtain k ins' where r: "recv_once kRxSize ins = (k, ins')" by fastforce
  show ?case
  proof (cases k)
    case (GotBytes xs)
    then have "bs = xs" using 1(2) r by (simp add: refill.simps [of ins])
    with r GotBytes show ?thesis by (auto simp: recv_once_def split: list.splits recv_result.splits if_splits)
  next
    case GotEintr
    then have e: "refill ins' = Some (bs, rest)" using 1(2) by (simp add: refill.simps [of ins] r)
    show ?thesis by (rule 1(1) [OF r [symmetric] GotEintr e])
  qed (use 1(2) r in \<open>simp_all add: refill.simps [of ins]\<close>)
qed

lemma read_byte_shrinks: "read_byte cn = Some (c, cn') \<Longrightarrow> shrinks cn cn'"
  using read_byte_size [of cn c cn'] refill_length [of "cn_in cn"]
  by (fastforce simp: shrinks_def conn_wf_def read_byte_def split: list.splits option.splits)

lemma skip_noise_shrinks: "skip_noise cn = (st, cn') \<Longrightarrow> shrinks cn cn' \<and> (st \<noteq> Some RsClosed \<longrightarrow> conn_size cn' < conn_size cn)"
proof (induction cn arbitrary: st cn' rule: skip_noise.induct)
  case (1 cn)
  show ?case
  proof (cases "read_byte cn")
    case None
    then show ?thesis using 1(2) by (simp add: skip_noise.simps [of cn])
  next
    case (Some p)
    then obtain c cn1 where r: "read_byte cn = Some (c, cn1)" by (cases p) auto
    note f = read_byte_shrinks [OF r] read_byte_size [OF r]
    show ?thesis
    proof (cases "c \<noteq> ctrl_c \<and> c \<noteq> CHR ''$''")
      case True
      then have "skip_noise cn1 = (st, cn')" using 1(2) r by (simp add: skip_noise.simps [of cn])
      with 1(1) [OF r refl] True have "shrinks cn1 cn' \<and> (st \<noteq> Some RsClosed \<longrightarrow> conn_size cn' < conn_size cn1)" by auto
      with f show ?thesis by (auto intro: shrinks_trans)
    next
      case False
      then have "cn' = cn1" using 1(2) r by (auto simp: skip_noise.simps [of cn] split: if_splits)
      with f show ?thesis by simp
    qed
  qed
qed

lemma read_payload_shrinks: "read_payload out lg cn = Some (p, b, cn') \<Longrightarrow> shrinks cn cn'"
proof (induction out lg cn rule: read_payload.induct)
  case (1 out lg cn)
  show ?case
  proof (cases "read_byte cn")
    case None
    then show ?thesis using 1(3) by (simp add: read_payload.simps [of out lg cn])
  next
    case (Some q)
    then obtain c cn1 where r: "read_byte cn = Some (c, cn1)" by (cases q) auto
    note f = read_byte_shrinks [OF r]
    consider "c = CHR ''#''" | "c \<noteq> CHR ''#''" "length out < kMaxPacketSize"
      | "c \<noteq> CHR ''#''" "\<not> length out < kMaxPacketSize" by blast
    then show ?thesis
    proof cases
      case 1
      then show ?thesis using f r \<open>read_payload out lg cn = _\<close> by (simp add: read_payload.simps [of out lg cn])
    next
      case 2
      have "shrinks cn1 cn'"
        using "1.IH"(1) [OF r refl 2] 2 r "1.prems" by (simp add: read_payload.simps [of out lg cn])
      with f show ?thesis by (rule shrinks_trans)
    next
      case 3
      have "shrinks cn1 cn'"
        using "1.IH"(2) [OF r refl 3] 3 r "1.prems" by (simp add: read_payload.simps [of out lg cn])
      with f show ?thesis by (rule shrinks_trans)
    qed
  qed
qed

lemma recv_attempt_shrinks:
  "recv_attempt cn = (st, cn') \<Longrightarrow> shrinks cn cn' \<and> (st \<noteq> Some RsClosed \<longrightarrow> conn_size cn' < conn_size cn)"
  unfolding recv_attempt_def
  by (auto split: prod.splits option.splits if_splits
      dest!: skip_noise_shrinks read_payload_shrinks read_byte_shrinks simp: shrinks_def)

lemma recv_packet_shrinks:
  "recv_packet cn = (st, cn') \<Longrightarrow> shrinks cn cn' \<and> (st \<noteq> RsClosed \<longrightarrow> conn_size cn' < conn_size cn)"
proof (induction cn arbitrary: st cn' rule: recv_packet.induct)
  case (1 cn)
  obtain r cn1 where a: "recv_attempt cn = (r, cn1)" by fastforce
  note f = recv_attempt_shrinks [OF a]
  show ?case
  proof (cases r)
    case None
    then have "recv_packet cn1 = (st, cn')" using 1(2) a by (simp add: recv_packet.simps [of cn])
    from 1(1) [OF a [symmetric] None this] f None show ?thesis by (auto intro: shrinks_trans)
  next
    case (Some s)
    then show ?thesis using 1(2) a f by (simp add: recv_packet.simps [of cn])
  qed
qed

lemma poll_input_shrinks:
  assumes "poll_input cn = (r, cn')" "conn_wf cn"
  shows "shrinks cn cn'" "cn_out cn' = cn_out cn" "r = PollIdle \<Longrightarrow> in_size (cn_in cn') < in_size (cn_in cn)"
proof -
  define rx where "rx = (if length (cn_rx cn) = kRxSize then [] else cn_rx cn)"
  obtain k ins where o: "recv_once (kRxSize - length rx) (cn_in cn) = (k, ins)" by fastforce
  define rx' where "rx' = (case k of GotBytes bs \<Rightarrow> rx @ bs | _ \<Rightarrow> rx)"
  have room: "0 < kRxSize - length rx" using assms(2) by (auto simp: rx_def conn_wf_def kRxSize_def)
  have rx: "length rx \<le> length (cn_rx cn)" by (simp add: rx_def)
  have got: "length bs \<le> kRxSize - length rx \<and> in_size ins < in_size (cn_in cn)
      \<and> length bs + in_size ins \<le> in_size (cn_in cn)" if "k = GotBytes bs" for bs
    using o that room
    by (cases "cn_in cn") (auto simp: recv_once_def result_size_def split: recv_result.splits if_splits)
  have other: "in_size ins \<le> in_size (cn_in cn) \<and> (k \<noteq> GotClosed \<longrightarrow> in_size ins < in_size (cn_in cn))" if "\<forall>bs. k \<noteq> GotBytes bs"
    using o that by (cases "cn_in cn") (auto simp: recv_once_def split: recv_result.splits if_splits)
  have rx': "length rx' \<le> kRxSize" "length rx' + in_size ins \<le> length (cn_rx cn) + in_size (cn_in cn)"
    "k \<noteq> GotClosed \<Longrightarrow> in_size ins < in_size (cn_in cn)"
    using got other room rx by (cases k; force simp: rx'_def)+
  have p: "poll_input cn = (case find_char ctrl_c rx' of
       Some i \<Rightarrow> (PollInterrupt, cn\<lparr>cn_rx := drop (i + 1) rx', cn_in := ins\<rparr>)
     | None \<Rightarrow> (if k = GotClosed then PollClosed else PollIdle, cn\<lparr>cn_rx := rx', cn_in := ins\<rparr>))"
    by (simp add: poll_input_def Let_def rx_def [symmetric] o rx'_def cong: option.case_cong)
  show "shrinks cn cn'"
    using p assms rx'(1,2) by (auto simp: shrinks_def conn_wf_def conn_size_def split: option.splits)
  show "cn_out cn' = cn_out cn" using p assms(1) by (auto split: option.splits)
  show "in_size (cn_in cn') < in_size (cn_in cn)" if "r = PollIdle"
    using p assms(1) that rx'(3) by (auto split: option.splits if_splits)
qed

section \<open>Replies\<close>

definition plain :: "string \<Rightarrow> bool" where
  "plain s \<longleftrightarrow> list_all (\<lambda>c. c \<notin> set ''}#$*'') s"

lemma plain_escape: "plain s \<Longrightarrow> escape s = s"
  unfolding plain_def by (induction s) (simp_all add: escape_def)

lemma plain_append [simp]: "plain (s @ t) \<longleftrightarrow> plain s \<and> plain t"
  by (simp add: plain_def)

lemma plain_Cons [simp]: "plain (c # s) \<longleftrightarrow> c \<notin> set ''}#$*'' \<and> plain s" "plain []"
  by (simp_all add: plain_def)

lemma hex_digit_plain: "digit_val c < 16 \<Longrightarrow> c \<notin> set ''}#$*''"
proof -
  have "\<forall>c\<in>set ''}#$*''. \<not> digit_val c < 16" by (simp add: digit_val_def)
  then show "digit_val c < 16 \<Longrightarrow> c \<notin> set ''}#$*''" by blast
qed

lemma plain_show_hex [simp]: "plain (show_base False 16 n)" "plain (pad_zero w (show_base False 16 n))"
proof -
  have z: "digit_val (CHR ''0'') < 16" by (simp add: digit_val_def)
  have "\<forall>c\<in>set (show_base False 16 n). c \<notin> set ''}#$*''"
    using show_base_digits [of 16 _ False n] hex_digit_plain by simp
  then show "plain (show_base False 16 n)" by (simp only: plain_def list_all_iff)
  moreover have "\<forall>c\<in>set (replicate k (CHR ''0'')). c \<notin> set ''}#$*''" for k
    using hex_digit_plain [OF z] by simp
  then have "plain (replicate k (CHR ''0''))" for k by (simp only: plain_def list_all_iff)
  ultimately show "plain (pad_zero w (show_base False 16 n))" by (simp add: pad_zero_def)
qed

lemma plain_hex [simp]: "plain (hex_byte b)" "plain (to_hex_le v)"
  by (simp_all add: hex_byte_def to_hex_le_def)

lemma plain_thread_stop [simp]: "plain (thread_stop sig)"
  by (simp add: thread_stop_def)

lemma plain_concat: "(\<And>x. x \<in> set xs \<Longrightarrow> plain (f x)) \<Longrightarrow> plain (concat (map f xs))"
  by (induction xs) simp_all

text \<open>The connection after one reply that needs no escapes.\<close>

definition replied :: "conn \<Rightarrow> conn \<Rightarrow> bool" where
  "replied cn cn' \<longleftrightarrow> (\<exists>d. plain d \<and> cn' = send_packet d cn)"

lemma replied_send [simp]:
  "plain d \<Longrightarrow> replied cn (send_packet d cn)"
  "replied cn (send_ok cn)" "replied cn (send_empty cn)" "replied cn (send_error e cn)"
  "replied cn (send_signal sig cn)"
  unfolding replied_def send_ok_def send_empty_def send_error_def send_signal_def by (auto intro!: exI)

lemma replied_shrinks: "replied cn cn' \<Longrightarrow> shrinks cn cn'"
  by (auto simp: replied_def)

lemma replied_out: "replied cn cn' \<Longrightarrow> \<exists>d. escape d = d \<and> cn_out cn' = cn_out cn @ frame_packet d"
  by (auto simp: replied_def send_packet_def send_raw_def intro: plain_escape)

lemma start_at_conn [simp]: "gs_conn (start_at ops args g) = gs_conn g"
  by (simp add: start_at_def split: option.split)

lemma step_cpu_conn [simp]: "gs_conn (step_cpu ops g) = gs_conn g"
  by (simp add: step_cpu_def split: prod.split)

lemma report_exception_conn [simp]:
  "gs_conn (report_exception ops g) = send_packet (thread_stop (stop_signal ops g)) (gs_conn g)"
  "gs_running (report_exception ops g) = gs_running g"
  by (simp_all add: report_exception_def Let_def)

lemma run_one_conn:
  "run_one ops g = (go, g') \<Longrightarrow>
     (if go then gs_conn g' = gs_conn g else replied (gs_conn g) (gs_conn g') \<and> \<not> gs_running g')"
  by (auto simp: run_one_def Let_def split: step_result.splits)

lemma handle_step_conn: "replied (gs_conn g) (gs_conn (handle_step ops args g))"
  by (simp add: handle_step_def Let_def)

lemma insert_breakpoint_conn: "gs_conn (snd (insert_breakpoint ops a g)) = gs_conn g"
  by (simp add: insert_breakpoint_def split: option.split prod.split)

lemma remove_breakpoint_conn: "gs_conn (snd (remove_breakpoint ops a g)) = gs_conn g"
  by (simp add: remove_breakpoint_def split: option.split prod.split)

lemma handle_breakpoint_conn:
  "replied (gs_conn g) (gs_conn (handle_breakpoint_set ops args g))"
  "replied (gs_conn g) (gs_conn (handle_breakpoint_clear ops args g))"
  using insert_breakpoint_conn [of ops _ g] remove_breakpoint_conn [of ops _ g]
  by (auto simp: handle_breakpoint_set_def handle_breakpoint_clear_def split_beta split: bp_request.split)

lemma handle_query_conn: "replied cn (handle_query args cn)"
  by (auto simp: handle_query_def)

lemma plain_read_mem_loop: "plain out \<Longrightarrow> plain (read_mem_loop m n a out)"
  by (induction m n a out rule: read_mem_loop.induct) (simp_all split: option.split)

lemma plain_handlers:
  "plain (handle_read_regs ops c)" "plain (handle_read_reg ops args c)" "plain (handle_read_mem ops args c)"
  by (simp_all add: handle_read_regs_def handle_read_reg_def handle_read_mem_def plain_concat
      plain_read_mem_loop Let_def split: option.split)

lemma pred_option_if:
  "(b \<Longrightarrow> pred_option P x) \<Longrightarrow> (\<not> b \<Longrightarrow> pred_option P y) \<Longrightarrow> pred_option P (if b then x else y)"
  by simp

lemma gs_conn_updates:
  "gs_conn (reply f g) = f (gs_conn g)" "gs_conn (g\<lparr>gs_cpu := c\<rparr>) = gs_conn g"
  "gs_conn (g\<lparr>gs_cpu := c, gs_conn := k\<rparr>) = k"
  "gs_conn (g\<lparr>gs_running := b, gs_detached := b', gs_conn := k\<rparr>) = k"
  "gs_conn (g\<lparr>gs_running := b, gs_detached := b'\<rparr>) = gs_conn g"
  by simp_all

lemma replied_if [simp]: "replied cn ((if b then send_ok else send_error e) cn)"
  by simp

text \<open>Every command but \<open>continue\<close> replies at once.\<close>

lemma dispatch_conn:
  assumes "dispatch ops fuel pkt g = Some g'"
  shows "replied (gs_conn g) (gs_conn g') \<or> (\<exists>args. pkt = CHR ''c'' # args \<and> handle_continue ops fuel args g = Some g')"
proof (cases pkt)
  case Nil
  then show ?thesis using assms by (auto simp: dispatch_def)
next
  case (Cons cmd args)
  show ?thesis
  proof (cases "cmd = CHR ''c''")
    case True
    then show ?thesis using assms Cons by (simp add: dispatch_def)
  next
    case False
    have "pred_option (\<lambda>g'. replied (gs_conn g) (gs_conn g')) (dispatch ops fuel (cmd # args) g)"
      unfolding dispatch_def Let_def list.case using False
      by (intro pred_option_if)
         (simp_all only: option.pred_inject split_beta plain_handlers handle_step_conn handle_breakpoint_conn
            handle_query_conn gs_conn_updates replied_send replied_if simp_thms)
    then show ?thesis using assms Cons by simp
  qed
qed

lemma dispatch_total: "(\<And>args. handle_continue ops fuel args g \<noteq> None) \<Longrightarrow> dispatch ops fuel pkt g \<noteq> None"
  by (simp add: dispatch_def Let_def split: list.split)

section \<open>Continue\<close>

definition peer_closed :: "conn \<Rightarrow> bool" where
  "peer_closed cn' \<longleftrightarrow> (\<exists>cn. poll_input cn = (PollClosed, cn'))"

lemma poll_out: "poll_input cn = (r, cn') \<Longrightarrow> cn_out cn' = cn_out cn"
  by (auto simp: poll_input_def Let_def split_beta split: option.splits)

lemma continue_loop_run_one:
  assumes "case run_one ops g of (go, g2) \<Rightarrow> if go then continue_loop ops fuel n g2 = Some g' else g2 = g'"
  obtains (stop) "replied (gs_conn g) (gs_conn g')" "\<not> gs_running g'"
    | (go) g2 where "gs_conn g2 = gs_conn g" "continue_loop ops fuel n g2 = Some g'"
proof -
  obtain b g2 where r: "run_one ops g = (b, g2)" by fastforce
  then show ?thesis using assms run_one_conn [OF r] that by (cases b) auto
qed

lemma continue_loop_conn:
  assumes "continue_loop ops fuel steps g = Some g'"
  shows "(conn_wf (gs_conn g) \<longrightarrow> shrinks (gs_conn g) (gs_conn g')) \<and> \<not> gs_running g'
    \<and> ((\<exists>d. escape d = d \<and> cn_out (gs_conn g') = cn_out (gs_conn g) @ frame_packet d)
      \<or> peer_closed (gs_conn g') \<and> cn_out (gs_conn g') = cn_out (gs_conn g))"
  using assms
proof (induction fuel arbitrary: steps g)
  case (Suc fuel)
  have one: ?case if
    "case run_one ops (g\<lparr>gs_conn := cn\<rparr>) of (go, g2) \<Rightarrow> if go then continue_loop ops fuel (Suc steps) g2 = Some g' else g2 = g'"
    "conn_wf (gs_conn g) \<longrightarrow> shrinks (gs_conn g) cn" "cn_out cn = cn_out (gs_conn g)" for cn
    using that(1)
  proof (cases rule: continue_loop_run_one)
    case stop
    then show ?thesis
      using that(2,3) replied_shrinks [OF stop(1)] replied_out [OF stop(1)] by (auto intro: shrinks_trans)
  next
    case (go g2)
    have "conn_wf (gs_conn g) \<Longrightarrow> conn_wf cn" using that(2) by (simp add: shrinks_def)
    with Suc.IH [OF go(2)] go(1) that(2,3) show ?thesis by (auto intro: shrinks_trans)
  qed
  show ?case
  proof (cases "Suc steps mod kInterruptPollSteps = 0")
    case False
    then show ?thesis using Suc.prems by (intro one [of "gs_conn g"]) (auto split: prod.splits if_splits)
  next
    case True
    obtain r cn where p: "poll_input (gs_conn g) = (r, cn)" by fastforce
    note f = poll_input_shrinks(1) [OF p] poll_out [OF p]
    show ?thesis
    proof (cases r)
      case PollIdle
      then show ?thesis using Suc.prems True p f by (intro one [of cn]) (auto split: prod.splits if_splits)
    next
      case PollInterrupt
      then have g': "g' = reply (send_signal kSIGINT) (g\<lparr>gs_conn := cn, gs_running := False\<rparr>)"
        using Suc.prems True p by simp
      have r: "replied cn (gs_conn g')" by (simp add: g')
      show ?thesis using f replied_shrinks [OF r] replied_out [OF r] by (auto simp: g' intro: shrinks_trans)
    next
      case PollClosed
      then show ?thesis using Suc.prems True p f by (auto simp: peer_closed_def)
    qed
  qed
qed simp

text \<open>One poll in every 1024 steps uses up a receive result, so the loop ends.\<close>

lemma fuel_mono: "k' \<le> k \<Longrightarrow> p * Suc k \<le> f \<Longrightarrow> p * Suc k' \<le> (f :: nat)"
  by (meson Suc_le_mono le_trans mult_le_mono2)

lemma poll_countdown:
  assumes "0 < p" "p * Suc k \<le> Suc fuel + steps mod p"
  shows "Suc steps mod p = 0 \<Longrightarrow> k' < k \<Longrightarrow> p * Suc k' \<le> fuel + Suc steps mod p"
    and "Suc steps mod p \<noteq> 0 \<Longrightarrow> p * Suc k \<le> fuel + Suc steps mod p"
proof -
  assume z: "Suc steps mod p = 0" "k' < k"
  have "Suc (steps mod p) = p" using z(1) assms(1) by (simp add: mod_Suc split: if_splits)
  then have "p * Suc k \<le> fuel + p" using assms(2) by simp
  moreover have "p * Suc k' \<le> p * k" using z(2) by (intro mult_le_mono2) simp
  ultimately show "p * Suc k' \<le> fuel + Suc steps mod p" using z(1) by simp
next
  assume "Suc steps mod p \<noteq> 0"
  then have "Suc steps mod p = Suc (steps mod p)" by (simp add: mod_Suc split: if_splits)
  then show "p * Suc k \<le> fuel + Suc steps mod p" using assms(2) by simp
qed

lemma continue_loop_ends:
  assumes "conn_wf (gs_conn g)"
    "kInterruptPollSteps * Suc (in_size (cn_in (gs_conn g))) \<le> fuel + steps mod kInterruptPollSteps"
  shows "continue_loop ops fuel steps g \<noteq> None"
  using assms
proof (induction fuel arbitrary: steps g)
  case 0
  have "steps mod kInterruptPollSteps < kInterruptPollSteps" by (simp add: kInterruptPollSteps_def)
  with 0 show ?case by simp
next
  case (Suc fuel)
  have pos: "0 < kInterruptPollSteps" by (simp add: kInterruptPollSteps_def)
  note cd = poll_countdown [OF pos Suc.prems(2)]
  have one: "(case run_one ops (g\<lparr>gs_conn := cn\<rparr>) of (go, g2) \<Rightarrow> if go then continue_loop ops fuel (Suc steps) g2 else Some g2) \<noteq> None"
    if "conn_wf cn" "kInterruptPollSteps * Suc (in_size (cn_in cn)) \<le> fuel + Suc steps mod kInterruptPollSteps" for cn
  proof -
    obtain b g2 where r: "run_one ops (g\<lparr>gs_conn := cn\<rparr>) = (b, g2)" by fastforce
    then show ?thesis using run_one_conn [OF r] Suc.IH [of g2 "Suc steps"] that by (cases b) auto
  qed
  show ?case
  proof (cases "Suc steps mod kInterruptPollSteps = 0")
    case False
    then show ?thesis using one [of "gs_conn g"] cd(2) Suc.prems(1) by simp
  next
    case True
    obtain r cn where p: "poll_input (gs_conn g) = (r, cn)" by fastforce
    note f = poll_input_shrinks [OF p Suc.prems(1)]
    show ?thesis
    proof (cases r)
      case PollIdle
      have "conn_wf cn" using f(1) Suc.prems(1) by (simp add: shrinks_def)
      with one [of cn] cd(1) [OF True f(3) [OF PollIdle]] PollIdle p True show ?thesis by simp
    qed (use p True in simp_all)
  qed
qed

lemma handle_continue_ends:
  assumes "conn_wf (gs_conn g)" "kInterruptPollSteps * Suc (conn_size (gs_conn g)) \<le> fuel"
  shows "handle_continue ops fuel args g \<noteq> None"
proof -
  have "in_size (cn_in (gs_conn g)) \<le> conn_size (gs_conn g)" by (simp add: conn_size_def)
  then have "kInterruptPollSteps * Suc (in_size (cn_in (gs_conn g))) \<le> fuel" using assms(2) by (rule fuel_mono)
  then show ?thesis unfolding handle_continue_def using assms(1) by (intro continue_loop_ends) simp_all
qed

lemma dispatch_shrinks:
  assumes "dispatch ops fuel pkt g = Some g'" "conn_wf (gs_conn g)"
  shows "shrinks (gs_conn g) (gs_conn g')"
  using dispatch_conn [OF assms(1)]
proof (elim disjE exE conjE)
  fix args
  assume "handle_continue ops fuel args g = Some g'"
  then show ?thesis using continue_loop_conn assms(2) by (fastforce simp: handle_continue_def)
qed (rule replied_shrinks)

lemma serve_loop_ends:
  assumes "conn_wf (gs_conn g)" "conn_size (gs_conn g) < n" "kInterruptPollSteps * Suc (conn_size (gs_conn g)) \<le> fuel"
  shows "\<exists>g'. serve_loop ops fuel n g = Some g' \<and> conn_wf (gs_conn g')"
  using assms
proof (induction n arbitrary: g)
  case (Suc n)
  show ?case
  proof (cases "gs_detached g")
    case True
    then show ?thesis using Suc.prems(1) by simp
  next
    case False
    obtain st cn where r: "recv_packet (gs_conn g) = (st, cn)" by fastforce
    note f = recv_packet_shrinks [OF r]
    have wf: "conn_wf cn" using f Suc.prems(1) by (simp add: shrinks_def)
    have next_round: "\<exists>g'. serve_loop ops fuel n g2 = Some g' \<and> conn_wf (gs_conn g')"
      if "st \<noteq> RsClosed" "shrinks cn (gs_conn g2)" for g2
    proof (rule Suc.IH)
      have c: "conn_size (gs_conn g2) < conn_size (gs_conn g)" using f that by (simp add: shrinks_def)
      then show "conn_size (gs_conn g2) < n" using Suc.prems(2) by simp
      show "kInterruptPollSteps * Suc (conn_size (gs_conn g2)) \<le> fuel"
        by (rule fuel_mono [OF less_imp_le [OF c] Suc.prems(3)])
      show "conn_wf (gs_conn g2)" using wf that(2) by (simp add: shrinks_def)
    qed
    show ?thesis
    proof (cases st)
      case (RsPacket pkt)
      have "conn_size cn \<le> conn_size (gs_conn g)" using f by (simp add: shrinks_def)
      then have "kInterruptPollSteps * Suc (conn_size cn) \<le> fuel" using Suc.prems(3) by (rule fuel_mono)
      then have "handle_continue ops fuel args (g\<lparr>gs_conn := cn\<rparr>) \<noteq> None" for args
        using wf by (intro handle_continue_ends) simp_all
      then obtain g2 where d: "dispatch ops fuel pkt (g\<lparr>gs_conn := cn\<rparr>) = Some g2"
        using dispatch_total [of ops fuel "g\<lparr>gs_conn := cn\<rparr>" pkt] by auto
      have "shrinks cn (gs_conn g2)" using dispatch_shrinks [OF d] wf by simp
      then show ?thesis using next_round [of g2] False r RsPacket d by simp
    next
      case RsInterrupt
      have "shrinks cn (send_signal kSIGINT cn)" by (intro replied_shrinks replied_send)
      then show ?thesis
        using next_round [of "reply (send_signal kSIGINT) (g\<lparr>gs_conn := cn\<rparr>)"] False r RsInterrupt by simp
    qed (use False r wf in simp)
  qed
qed simp

section \<open>Registers\<close>

lemma parse_le_concat:
  assumes "i < length vs"
  shows "parse_le (concat (map to_hex_le vs) @ s) (i * 8) = Some (vs ! i)"
proof -
  have l: "length (concat (map to_hex_le xs)) = 8 * length xs" for xs by (induction xs) simp_all
  have "concat (map to_hex_le vs) @ s =
      concat (map to_hex_le (take i vs)) @ to_hex_le (vs ! i) @ concat (map to_hex_le (drop (Suc i) vs)) @ s"
    using assms by (subst id_take_nth_drop [OF assms]) simp
  moreover have "length (concat (map to_hex_le (take i vs))) = i * 8" using assms by (simp add: l)
  ultimately show ?thesis by (metis parse_le_at)
qed

lemma parse_hex_show: "n < 2 ^ 32 \<Longrightarrow> parse_hex (show_base False 16 n) = Some (of_nat n)"
  using from_chars_show [of 16 n "2 ^ 32" 0 False] by (simp add: parse_hex_def pad_zero_def)

lemma not_hex_notin: "\<not> digit_val c < 16 \<Longrightarrow> c \<notin> set (show_base False 16 n)"
  using show_base_digits [of 16 c False n] by auto

lemma find_char_hex: "\<not> digit_val c < 16 \<Longrightarrow> find_char c (show_base False 16 n @ c # s) = Some (length (show_base False 16 n))"
  by (intro find_char_append not_hex_notin)

context mips_processor
begin

lemma write_regs_loop_reads:
  assumes "regs_wf (op_regs ops c)" "i + n \<le> kNumRegs" "length vs = kNumRegs"
  shows "\<exists>c'. write_regs_loop ops (concat (map to_hex_le vs) @ s) n i c = (True, c')
    \<and> (\<forall>k<kNumRegs. read_gdb_reg ops c' k =
         (if i \<le> k \<and> k < i + n \<and> k \<noteq> 0 \<and> k \<noteq> 35 then vs ! k else read_gdb_reg ops c k))"
  using assms
proof (induction n arbitrary: i c)
  case (Suc n)
  have i: "i < kNumRegs" using Suc.prems(2) by simp
  have "regs_wf (op_regs ops (write_gdb_reg ops i (vs ! i) c))" by (rule write_gdb_reg_wf [OF Suc.prems(1)])
  then obtain c' where c': "write_regs_loop ops (concat (map to_hex_le vs) @ s) n (Suc i) (write_gdb_reg ops i (vs ! i) c) = (True, c')"
    "\<And>k. k < kNumRegs \<Longrightarrow> read_gdb_reg ops c' k =
         (if Suc i \<le> k \<and> k < Suc i + n \<and> k \<noteq> 0 \<and> k \<noteq> 35 then vs ! k
          else read_gdb_reg ops (write_gdb_reg ops i (vs ! i) c) k)"
    using Suc.IH [of _ "Suc i"] Suc.prems(2,3) by (metis add_Suc add_Suc_right)
  have "parse_le (concat (map to_hex_le vs) @ s) (i * 8) = Some (vs ! i)"
    using i Suc.prems(3) by (intro parse_le_concat) simp
  then have "write_regs_loop ops (concat (map to_hex_le vs) @ s) (Suc n) i c = (True, c')" using c'(1) by simp
  moreover have "read_gdb_reg ops c' k =
      (if i \<le> k \<and> k < i + Suc n \<and> k \<noteq> 0 \<and> k \<noteq> 35 then vs ! k else read_gdb_reg ops c k)" if k: "k < kNumRegs" for k
    using c'(2) [OF k] gdb_reg_write_read [OF Suc.prems(1) i k, of "vs ! i"] by auto
  ultimately show ?case by blast
qed auto

lemma snapshot_restores:
  assumes "regs_wf (op_regs ops c)"
  shows "\<exists>c'. handle_write_regs ops (handle_read_regs ops c0) c = (True, c')
    \<and> (\<forall>k<kNumRegs. k \<noteq> 35 \<longrightarrow> read_gdb_reg ops c' k = read_gdb_reg ops c0 k)"
proof -
  let ?vs = "map (read_gdb_reg ops c0) [0..<kNumRegs]"
  have h: "handle_read_regs ops c0 = concat (map to_hex_le ?vs) @ []" by (simp add: handle_read_regs_def o_def)
  have "length (concat (map to_hex_le xs)) = 8 * length xs" for xs by (induction xs) simp_all
  then have l: "length (handle_read_regs ops c0) = kNumRegs * 8" by (simp only: h append_Nil2) simp
  obtain c' where c': "write_regs_loop ops (concat (map to_hex_le ?vs) @ []) kNumRegs 0 c = (True, c')"
    "\<And>k. k < kNumRegs \<Longrightarrow> read_gdb_reg ops c' k =
       (if 0 \<le> k \<and> k < 0 + kNumRegs \<and> k \<noteq> 0 \<and> k \<noteq> 35 then ?vs ! k else read_gdb_reg ops c k)"
    using write_regs_loop_reads [OF assms, of 0 kNumRegs ?vs "[]"] by auto
  have "handle_write_regs ops (handle_read_regs ops c0) c = (True, c')"
    using c'(1) l by (simp only: handle_write_regs_def h) simp
  moreover have "read_gdb_reg ops c' k = read_gdb_reg ops c0 k" if "k < kNumRegs" "k \<noteq> 35" for k
    using c'(2) [OF that(1)] that by (cases "k = 0") (simp_all add: read_gdb_reg_def gpr.rd_zero)
  ultimately show ?thesis by blast
qed

lemma one_register:
  assumes "regs_wf (op_regs ops c)" "n < kNumRegs"
  shows "\<exists>c'. handle_write_reg ops (show_base False 16 n @ CHR ''='' # to_hex_le v) c = (True, c')
    \<and> (\<forall>k<kNumRegs. handle_read_reg ops (show_base False 16 k) c' =
         to_hex_le (if k = n \<and> n \<noteq> 0 \<and> n \<noteq> 35 then v else read_gdb_reg ops c k))"
proof -
  have small: "k < 2 ^ 32 \<and> unat (of_nat k :: u32) = k" if "k < kNumRegs" for k
    using that by (simp add: kNumRegs_def unsigned_of_nat take_bit_eq_mod)
  have eq: "\<not> digit_val (CHR ''='') < 16" by (simp add: digit_val_def)
  let ?c = "write_gdb_reg ops n v c"
  have "handle_write_reg ops (show_base False 16 n @ CHR ''='' # to_hex_le v) c = (True, ?c)"
    using find_char_hex [OF eq] parse_hex_show [of n] small [OF assms(2)] assms(2)
    by (simp add: handle_write_reg_def partial_le_word)
  moreover have "handle_read_reg ops (show_base False 16 k) ?c =
      to_hex_le (if k = n \<and> n \<noteq> 0 \<and> n \<noteq> 35 then v else read_gdb_reg ops c k)" if k: "k < kNumRegs" for k
    using parse_hex_show [of k] small [OF k] k gdb_reg_write_read [OF assms k, of v]
    by (auto simp: handle_read_reg_def)
  ultimately show ?thesis by blast
qed

end

section \<open>Memory\<close>

lemma write_mem_loop_ok:
  assumes "length xs = i * 2" "\<forall>k<length bs. unat (a + of_nat k) < mem_size m" "length bs \<le> 2 ^ 32"
  shows "\<exists>m'. write_mem_loop (xs @ concat (map hex_byte bs) @ s) (length bs) i a m = (True, m') \<and> mem_size m' = mem_size m
    \<and> (\<forall>k<length bs. mem_read_byte m' (a + of_nat k) = Some (bs ! k))
    \<and> (\<forall>b. (\<forall>k<length bs. b \<noteq> a + of_nat k) \<longrightarrow> mem_read_byte m' b = mem_read_byte m b)"
  using assms
proof (induction bs arbitrary: xs i a m)
  case (Cons b bs)
  have p: "parse_hex_byte (xs @ hex_byte b @ concat (map hex_byte bs) @ s) (i * 2) = Some b"
    by (rule parse_hex_byte_at [OF Cons.prems(1)])
  have a: "unat a < mem_size m" using Cons.prems(2) by (auto dest: spec [of _ 0])
  obtain m1 where w: "mem_write_byte m a b = (True, m1)"
    using mem_write_byte_ok_iff [of m a b] a by (cases "mem_write_byte m a b") auto
  have rd: "mem_read_byte m1 c = (if c = a then Some b else mem_read_byte m c)" for c
    using mem_read_byte_write_byte [of m a b c] w a by auto
  have sz: "mem_size m1 = mem_size m" using mem_size_write_byte [of m a b] w by simp
  have "length (xs @ hex_byte b) = Suc i * 2" using Cons.prems(1) by simp
  moreover have "\<forall>k<length bs. unat (a + 1 + of_nat k) < mem_size m1"
    using Cons.prems(2) by (auto simp: sz add.assoc dest: spec [of _ "Suc k" for k])
  moreover have "length bs \<le> 2 ^ 32" using Cons.prems(3) by simp
  ultimately obtain m' where m': "write_mem_loop ((xs @ hex_byte b) @ concat (map hex_byte bs) @ s) (length bs) (Suc i) (a + 1) m1 = (True, m')"
    "mem_size m' = mem_size m1" "\<And>k. k < length bs \<Longrightarrow> mem_read_byte m' (a + 1 + of_nat k) = Some (bs ! k)"
    "\<And>c. (\<forall>k<length bs. c \<noteq> a + 1 + of_nat k) \<Longrightarrow> mem_read_byte m' c = mem_read_byte m1 c"
    using Cons.IH [of "xs @ hex_byte b" "Suc i" "a + 1" m1] by blast
  have fresh: "a \<noteq> a + 1 + of_nat k" if "k < length bs" for k
  proof
    assume "a = a + 1 + of_nat k"
    then have "(of_nat (Suc k) :: u32) = 0" by (simp add: add.assoc)
    then have "2 ^ LENGTH(32) dvd Suc k" by (simp only: word_of_nat_eq_0_iff)
    then have "2 ^ 32 \<le> Suc k" by (auto dest: dvd_imp_le)
    moreover have "Suc k \<le> 2 ^ 32" "Suc k < length (b # bs)" using that Cons.prems(3) by simp_all
    ultimately show False using Cons.prems(3) by simp
  qed
  have head: "mem_read_byte m' a = Some b" using m'(4) [of a] fresh rd by simp
  have "mem_read_byte m' (a + of_nat k) = Some ((b # bs) ! k)" if "k < length (b # bs)" for k
    using that head m'(3) by (cases k) (simp_all add: add.assoc)
  moreover have "mem_read_byte m' c = mem_read_byte m c" if c: "\<forall>k<length (b # bs). c \<noteq> a + of_nat k" for c
  proof -
    have "c \<noteq> a" using c by (auto dest: spec [of _ 0])
    moreover have "\<forall>k<length bs. c \<noteq> a + 1 + of_nat k" using c by (auto simp: add.assoc dest: spec [of _ "Suc k" for k])
    ultimately show ?thesis using m'(4) rd by simp
  qed
  ultimately show ?case using p w m'(1,2) sz by simp
qed simp

lemma read_mem_loop_ok:
  "\<forall>k<length bs. mem_read_byte m (a + of_nat k) = Some (bs ! k) \<Longrightarrow>
     read_mem_loop m (length bs) a out = out @ concat (map hex_byte bs)"
proof (induction bs arbitrary: a out)
  case (Cons b bs)
  have "mem_read_byte m a = Some b" using Cons.prems by (auto dest: spec [of _ 0])
  moreover have "\<forall>k<length bs. mem_read_byte m (a + 1 + of_nat k) = Some (bs ! k)"
    using Cons.prems by (auto simp: add.assoc dest: spec [of _ "Suc k" for k])
  ultimately show ?case using Cons.IH [of "a + 1"] by simp
qed simp

section \<open>Properties\<close>


definition fresh_stub :: "'c \<Rightarrow> 'c gdb_stub" where
  "fresh_stub c = \<lparr>gs_cpu = c, gs_conn = \<lparr>cn_rx = [], cn_in = [], cn_out = []\<rparr>, gs_breakpoints = [],
     gs_running = False, gs_detached = False, gs_last_result = StOk\<rparr>"

lemma bp_inv_fresh: "bp_inv ops (fresh_stub c)"
  by (simp add: bp_inv_def fresh_stub_def)


text \<open>C15: On both CPUs the registers the debugger writes are the ones it reads: the write of one register is accepted, that register then reads back as the value and the other 37 as before, except that writes to \<open>$zero\<close> and to BadVAddr are ignored; and writing back a snapshot of all registers is accepted and restores each of them but BadVAddr.\<close>

theorem register_access_round_trip:
  assumes "regs_wf (cpu_regs c)" "regs_wf (cpu_regs p)" "n < kNumRegs"
  shows "(\<exists>c'. handle_write_reg sc_ops (show_base False 16 n @ CHR ''='' # to_hex_le v) c = (True, c')
      \<and> (\<forall>k<kNumRegs. handle_read_reg sc_ops (show_base False 16 k) c' =
           to_hex_le (if k = n \<and> n \<noteq> 0 \<and> n \<noteq> 35 then v else read_gdb_reg sc_ops c k)))
    \<and> (\<exists>p'. handle_write_reg pl_ops (show_base False 16 n @ CHR ''='' # to_hex_le v) p = (True, p')
      \<and> (\<forall>k<kNumRegs. handle_read_reg pl_ops (show_base False 16 k) p' =
           to_hex_le (if k = n \<and> n \<noteq> 0 \<and> n \<noteq> 35 then v else read_gdb_reg pl_ops p k)))
    \<and> (\<exists>c'. handle_write_regs sc_ops (handle_read_regs sc_ops c0) c = (True, c')
      \<and> (\<forall>k<kNumRegs. k \<noteq> 35 \<longrightarrow> read_gdb_reg sc_ops c' k = read_gdb_reg sc_ops c0 k))
    \<and> (\<exists>p'. handle_write_regs pl_ops (handle_read_regs pl_ops p0) p = (True, p')
      \<and> (\<forall>k<kNumRegs. k \<noteq> 35 \<longrightarrow> read_gdb_reg pl_ops p' k = read_gdb_reg pl_ops p0 k))"
proof -
  have "regs_wf (op_regs sc_ops c)" "regs_wf (op_regs pl_ops p)" using assms by (simp_all add: sc_ops_def pl_ops_def)
  then show ?thesis
    by (intro conjI sc.one_register pl.one_register sc.snapshot_restores pl.snapshot_restores assms(3))
qed

lemma register_access_round_trip_witness:
  "\<exists>c'. handle_write_reg sc_ops (show_base False 16 8 @ CHR ''='' # to_hex_le 0xDEAD) (sc_create 64) = (True, c')
     \<and> handle_read_reg sc_ops (show_base False 16 8) c' = to_hex_le 0xDEAD"
proof -
  have "regs_wf (cpu_regs (sc_create 64))" "regs_wf (cpu_regs (pl_create 64))"
    by (simp_all add: sc_create_def pl_create_def cpu.extend_def regs_wf_def regs_init_def)
  note r = register_access_round_trip [OF this, of 8 "0xDEAD", THEN conjunct1]
  have n: "8 < kNumRegs" by (simp add: kNumRegs_def)
  obtain c' where "handle_write_reg sc_ops (show_base False 16 8 @ CHR ''='' # to_hex_le 0xDEAD) (sc_create 64) = (True, c')"
    "handle_read_reg sc_ops (show_base False 16 8) c' = to_hex_le 0xDEAD"
    using r [OF n] n by auto
  then show ?thesis by blast
qed

definition memory_reads_back :: "('c, 'z) mips_ops_scheme \<Rightarrow> 'c \<Rightarrow> nat \<Rightarrow> u8 list \<Rightarrow> bool" where
  "memory_reads_back ops c a bs \<longleftrightarrow>
     (let range = show_base False 16 a @ CHR '','' # show_base False 16 (length bs)
      in case handle_write_mem ops (range @ CHR '':'' # concat (map hex_byte bs)) c of
           (ok, c') \<Rightarrow> ok \<and> handle_read_mem ops range c' = concat (map hex_byte bs))"

context mips_processor
begin

lemma memory_round_trip:
  assumes "a + length bs \<le> mem_size (op_mem ops c)" "mem_size (op_mem ops c) < 2 ^ 32"
  shows "memory_reads_back ops c a bs"
proof -
  have nd: "\<not> digit_val (CHR '','') < 16" "\<not> digit_val (CHR '':'') < 16" by (simp_all add: digit_val_def)
  have a: "a < 2 ^ 32" "length bs < 2 ^ 32" using assms by simp_all
  have addr: "unat (of_nat a + of_nat k :: u32) = a + k" if "k < length bs" for k
  proof -
    have "a + k < 2 ^ 32" using that assms by simp
    then show ?thesis by (simp add: unsigned_of_nat take_bit_eq_mod flip: of_nat_add)
  qed
  have len: "unat (of_nat (length bs) :: u32) = length bs" using a(2) by (simp add: unsigned_of_nat take_bit_eq_mod)
  let ?rest = "CHR '':'' # concat (map hex_byte bs)"
  let ?args = "show_base False 16 a @ CHR '','' # show_base False 16 (length bs) @ ?rest"
  have comma: "find_char (CHR '','') ?args = Some (length (show_base False 16 a))"
    "find_char (CHR '','') (show_base False 16 a @ CHR '','' # show_base False 16 (length bs)) = Some (length (show_base False 16 a))"
    by (rule find_char_hex [OF nd(1)])+
  have "CHR '':'' \<notin> set (show_base False 16 a @ CHR '','' # show_base False 16 (length bs))"
    using not_hex_notin [OF nd(2)] by simp
  from find_char_append [OF this, of "concat (map hex_byte bs)"]
  have colon: "find_char (CHR '':'') ?args = Some (Suc (length (show_base False 16 a) + length (show_base False 16 (length bs))))"
    by simp
  obtain m where m: "write_mem_loop (concat (map hex_byte bs)) (length bs) 0 (of_nat a) (op_mem ops c) = (True, m)"
    "mem_size m = mem_size (op_mem ops c)" "\<forall>k<length bs. mem_read_byte m (of_nat a + of_nat k) = Some (bs ! k)"
    using write_mem_loop_ok [of "[]" 0 bs "of_nat a" "op_mem ops c" "[]"] addr assms(1) a(2) by auto
  have w: "handle_write_mem ops ?args c = (True, op_put_mem ops m c)"
    using parse_hex_show [OF a(1)] parse_hex_show [OF a(2)] m(1)
    by (simp add: handle_write_mem_def comma colon len)
  have clamp: "min (of_nat (length bs)) (of_nat (mem_size m)) = (of_nat (length bs) :: u32)"
  proof -
    have "unat (of_nat (mem_size m) :: u32) = mem_size m" using assms(2) m(2) by (simp add: unsigned_of_nat take_bit_eq_mod)
    then have "(of_nat (length bs) :: u32) \<le> of_nat (mem_size m)" using assms(1) m(2) len by (simp add: word_le_nat_alt)
    then show ?thesis by (simp add: min_def)
  qed
  have "handle_read_mem ops (show_base False 16 a @ CHR '','' # show_base False 16 (length bs)) (op_put_mem ops m c)
      = concat (map hex_byte bs)"
    using parse_hex_show [OF a(1)] parse_hex_show [OF a(2)] read_mem_loop_ok [OF m(3), of "[]"]
    by (simp add: handle_read_mem_def comma mem_put_mem clamp len Let_def)
  then show ?thesis using w by (simp add: memory_reads_back_def Let_def)
qed

end

text \<open>C16: Bytes the debugger writes to memory inside the address range are accepted and read back as the same hex text, on both CPUs.\<close>

theorem memory_access_round_trip:
  assumes "a + length bs \<le> mem_size (cpu_mem c)" "mem_size (cpu_mem c) < 2 ^ 32"
    "b + length cs \<le> mem_size (cpu_mem p)" "mem_size (cpu_mem p) < 2 ^ 32"
  shows "memory_reads_back sc_ops c a bs \<and> memory_reads_back pl_ops p b cs"
  using assms by (intro conjI sc.memory_round_trip pl.memory_round_trip) (simp_all add: sc_ops_def pl_ops_def)

lemma memory_access_round_trip_witness:
  "memory_reads_back sc_ops (sc_create 64) 3 [0x12, 0xFF, 0] \<and> memory_reads_back pl_ops (pl_create 64) 61 [1, 2, 3]"
  by (intro memory_access_round_trip)
     (simp_all add: sc_create_def pl_create_def cpu.extend_def mem_create_def mem_size_def)



text \<open>C18: A session always ends. If every socket call that \<open>listen\<close> makes succeeds and the peer sends a finite input before it is gone, \<open>listen\<close> returns, even when the debugged program never stops by itself, because one poll in 1024 steps notices the lost peer; both descriptors it opened are closed, the client first. If binding or accepting fails it returns with what it opened closed as well, and whatever happens no descriptor stays open.\<close>

theorem session_ends:
  assumes "sv_client_fd sv < 0" "in_size (se_input env) < n"
    "kInterruptPollSteps * Suc (in_size (se_input env)) \<le> fuel"
  shows "\<exists>sv'. stub_listen ops fuel n env sv = Some sv' \<and> sv_server_fd sv' < 0 \<and> sv_client_fd sv' < 0
    \<and> sv_closed sv' = sv_closed sv @
        (if 0 \<le> se_socket env \<and> 0 \<le> se_bind env \<and> 0 \<le> se_accept env then [se_accept env] else []) @
        (if 0 \<le> se_socket env then [se_socket env] else [])"
proof -
  let ?g = "(configure_client_socket (se_input env) (sv_stub sv))\<lparr>gs_last_result := StOk, gs_detached := False\<rparr>"
  have "gs_conn ?g = \<lparr>cn_rx = [], cn_in = se_input env, cn_out = []\<rparr>" by (simp add: configure_client_socket_def)
  then have "\<exists>g'. serve_loop ops fuel n ?g = Some g'"
    using serve_loop_ends [of ?g n fuel ops] assms(2,3) by (auto simp: conn_wf_def conn_size_def)
  then obtain g' where "serve ops fuel n (configure_client_socket (se_input env) (sv_stub sv)) = Some g'"
    by (auto simp: serve_def)
  then show ?thesis using assms(1) by (simp add: stub_listen_def Let_def close_sockets_def)
qed

lemma session_ends_witness:
  "\<exists>sv'. stub_listen sc_ops 5000 10 \<lparr>se_socket = 3, se_bind = 0, se_accept = 4, se_input = [RecvBytes ''+'', RecvEintr]\<rparr>
       \<lparr>sv_stub = fresh_stub (sc_create 64), sv_server_fd = -1, sv_client_fd = -1, sv_closed = []\<rparr> = Some sv'
     \<and> sv_closed sv' = [4, 3]"
  using session_ends [of "\<lparr>sv_stub = fresh_stub (sc_create 64), sv_server_fd = -1, sv_client_fd = -1, sv_closed = []\<rparr>"
      "\<lparr>se_socket = 3, se_bind = 0, se_accept = 4, se_input = [RecvBytes ''+'', RecvEintr]\<rparr>" 10 5000 sc_ops]
  by (auto simp: result_size_def kInterruptPollSteps_def)


definition break_sc :: cpu where
  "break_sc = (sc_create 16)\<lparr>cpu_mem := snd (mem_write_word (snd (mem_write_word (mem_create 16) 0 kBreakWord)) 8 kBreakWord)\<rparr>"


end
