(* ===== verification/Controller.thy ===== *)
theory Controller
  imports Pipeline
begin

text \<open>
  The simulator controller both front ends share (\<open>include/nsc_qt/simulator_controller.h\<close>,
  \<open>src/nsc_qt/simulator_controller.cpp\<close>): loading and resetting, single steps, the run timer,
  breakpoints, statistics and the signals it emits, which every operation returns in order. The
  timer is whether it runs and its interval; a tick is one \<open>timeout\<close> of a running timer. The
  thread assertions have no branch here: the model has one thread. \<open>cpi\<close> is left out.
\<close>

section \<open>State\<close>

record sim_stats =
  st_cycles :: u64
  st_retired :: u64
  st_data_hazards :: u64
  st_control_hazards :: u64
  st_forwards :: u64
  st_stalls :: u64
  st_flushes :: u64

definition stats_zero :: sim_stats where
  "stats_zero = \<lparr>st_cycles = 0, st_retired = 0, st_data_hazards = 0, st_control_hazards = 0,
     st_forwards = 0, st_stalls = 0, st_flushes = 0\<rparr>"

record loaded_program =
  lp_words :: "u32 list"
  lp_addr :: u32

record 'c controller =
  ct_cpu :: 'c
  ct_breakpoints :: "u32 set"
  ct_stats :: sim_stats
  ct_loaded :: "loaded_program option"
  ct_active :: bool
  ct_interval :: int

datatype ctl_signal =
    CycleExecuted u64
  | PipelineStateChanged pipeline_state
  | BreakpointHit u32
  | StatisticsUpdated sim_stats
  | ProgramLoaded nat
  | Halted
  | Faulted
  | ExceptionRaised u32 string

definition ctl_create :: "'c \<Rightarrow> 'c controller" where
  "ctl_create cpu = \<lparr>ct_cpu = cpu, ct_breakpoints = {}, ct_stats = stats_zero, ct_loaded = None,
     ct_active = False, ct_interval = 0\<rparr>"

section \<open>Operations\<close>

definition accumulate_stats :: "pipeline_state \<Rightarrow> sim_stats \<Rightarrow> sim_stats" where
  "accumulate_stats ps st =
     (let st = st\<lparr>st_cycles := st_cycles st + 1\<rparr>;
          st = (if ps_retired ps then st\<lparr>st_retired := st_retired st + 1\<rparr> else st);
          st = (if ps_load_stall ps
                then st\<lparr>st_data_hazards := st_data_hazards st + 1, st_stalls := st_stalls st + 1\<rparr> else st);
          st = (if ps_branch_flush ps
                then st\<lparr>st_control_hazards := st_control_hazards st + 1, st_flushes := st_flushes st + 1\<rparr> else st)
      in if ps_fwd_ex_to_ex_a ps \<or> ps_fwd_ex_to_ex_b ps \<or> ps_fwd_mem_to_ex_a ps \<or> ps_fwd_mem_to_ex_b ps
         then st\<lparr>st_forwards := st_forwards st + 1\<rparr> else st)"

text \<open>\<open>None\<close> when \<open>load_words\<close> is called against its precondition (an unaligned address).\<close>

definition ctl_load_program :: "('c, 'z) processor_ops_scheme \<Rightarrow> u32 list \<Rightarrow> u32 \<Rightarrow> 'c controller \<Rightarrow>
    (bool \<times> ctl_signal list \<times> 'c controller) option" where
  "ctl_load_program ops ws addr k =
     (case op_load_program ops ws addr (op_reset ops True (ct_cpu k)) of
        None \<Rightarrow> None
      | Some (ok, cpu) \<Rightarrow>
          Some (ok,
            (if ok then [ProgramLoaded (length ws)] else []) @ [PipelineStateChanged (op_pipeline_state ops cpu)],
            k\<lparr>ct_active := False, ct_cpu := cpu, ct_stats := stats_zero,
              ct_loaded := (if ok then Some \<lparr>lp_words = ws, lp_addr = addr\<rparr> else None)\<rparr>))"

definition ctl_reset :: "('c, 'z) processor_ops_scheme \<Rightarrow> 'c controller \<Rightarrow> (ctl_signal list \<times> 'c controller) option" where
  "ctl_reset ops k =
     (let cpu = op_reset ops True (ct_cpu k);
          finish = (\<lambda>loaded cpu.
            ([PipelineStateChanged (op_pipeline_state ops cpu), StatisticsUpdated stats_zero],
             k\<lparr>ct_active := False, ct_cpu := cpu, ct_stats := stats_zero, ct_loaded := loaded\<rparr>))
      in case ct_loaded k of
           None \<Rightarrow> Some (finish None cpu)
         | Some p \<Rightarrow>
             map_option (\<lambda>(ok, cpu). finish (if ok then Some p else None) cpu)
               (op_load_program ops (lp_words p) (lp_addr p) cpu))"

text \<open>
  \<open>doStep\<close>. The first parameter is the cast of the processor to the MIPS interface: the accessor of
  coprocessor 0 when it succeeds.
\<close>

definition do_step :: "('c \<Rightarrow> cp0) option \<Rightarrow> ('c, 'z) processor_ops_scheme \<Rightarrow> 'c controller \<Rightarrow>
    ctl_signal list \<times> 'c controller" where
  "do_step mips ops k =
     (case op_step ops (ct_cpu k) of
        (result, cpu) \<Rightarrow>
          (let ps = op_pipeline_state ops cpu;
               stats = accumulate_stats ps (ct_stats k);
               cycle = (of_nat (op_cycle_count ops cpu) :: u64);
               next_pc = op_pc ops cpu;
               bp_hit = (result = StOk \<and> next_pc \<in> ct_breakpoints k);
               active = (ct_active k \<and> result = StOk \<and> \<not> bp_hit);
               trap = (case mips of
                   Some cp0_of \<Rightarrow> (cp0_epc (cp0_of cpu), exception_name (cp0_last_exc (cp0_of cpu)))
                 | None \<Rightarrow> (next_pc, ''exception''));
               throttle = (active \<and> ct_interval k = 0 \<and> cycle mod 5000 \<noteq> 0)
           in ((if \<not> throttle \<or> result \<noteq> StOk \<or> bp_hit
                then [CycleExecuted cycle, PipelineStateChanged ps, StatisticsUpdated stats] else []) @
               (case result of
                  StHalt \<Rightarrow> [Halted]
                | StFault \<Rightarrow> [Faulted]
                | StException \<Rightarrow> [ExceptionRaised (fst trap) (snd trap)]
                | StOk \<Rightarrow> if bp_hit then [BreakpointHit next_pc] else []),
               k\<lparr>ct_cpu := cpu, ct_stats := stats, ct_active := active\<rparr>)))"

definition step_cycle :: "('c \<Rightarrow> cp0) option \<Rightarrow> ('c, 'z) processor_ops_scheme \<Rightarrow> 'c controller \<Rightarrow>
    ctl_signal list \<times> 'c controller" where
  "step_cycle mips ops k = do_step mips ops k"

definition ctl_run :: "'c controller \<Rightarrow> 'c controller" where
  "ctl_run k = k\<lparr>ct_active := True\<rparr>"

definition ctl_stop :: "'c controller \<Rightarrow> 'c controller" where
  "ctl_stop k = k\<lparr>ct_active := False\<rparr>"

definition is_running :: "'c controller \<Rightarrow> bool" where
  "is_running k = ct_active k"

text \<open>A timeout is delivered while the timer runs only.\<close>

definition on_run_timer :: "('c \<Rightarrow> cp0) option \<Rightarrow> ('c, 'z) processor_ops_scheme \<Rightarrow> 'c controller \<Rightarrow>
    ctl_signal list \<times> 'c controller" where
  "on_run_timer mips ops k = (if ct_active k then do_step mips ops k else ([], k))"

definition cycle_count :: "('c, 'z) processor_ops_scheme \<Rightarrow> 'c controller \<Rightarrow> u64" where
  "cycle_count ops k = of_nat (op_cycle_count ops (ct_cpu k))"

definition register_value :: "('c, 'z) processor_ops_scheme \<Rightarrow> 'c controller \<Rightarrow> u8 \<Rightarrow> u32" where
  "register_value ops k idx = regs_read (op_regs ops (ct_cpu k)) idx"

definition memory_word :: "('c, 'z) processor_ops_scheme \<Rightarrow> 'c controller \<Rightarrow> u32 \<Rightarrow> u32 option" where
  "memory_word ops k addr = mem_read_word (op_mem ops (ct_cpu k)) addr"

definition set_breakpoint :: "u32 \<Rightarrow> 'c controller \<Rightarrow> 'c controller" where
  "set_breakpoint pc k = k\<lparr>ct_breakpoints := insert pc (ct_breakpoints k)\<rparr>"

definition clear_breakpoint :: "u32 \<Rightarrow> 'c controller \<Rightarrow> 'c controller" where
  "clear_breakpoint pc k = k\<lparr>ct_breakpoints := ct_breakpoints k - {pc}\<rparr>"

definition has_breakpoint :: "'c controller \<Rightarrow> u32 \<Rightarrow> bool" where
  "has_breakpoint k pc \<longleftrightarrow> pc \<in> ct_breakpoints k"

definition set_execution_speed :: "int \<Rightarrow> 'c controller \<Rightarrow> 'c controller" where
  "set_execution_speed speed k = k\<lparr>ct_interval := (100 - max 0 (min 100 speed)) * 5\<rparr>"

section \<open>The controller as a state machine\<close>

text \<open>Every state-changing member function and the timer, with the signals of the transition.\<close>

inductive ctl_op :: "('c, 'z) mips_ops_scheme \<Rightarrow> 'c controller \<Rightarrow> ctl_signal list \<Rightarrow> 'c controller \<Rightarrow> bool"
  for ops :: "('c, 'z) mips_ops_scheme" where
  load: "ctl_load_program ops ws addr k = Some (ok, sg, k') \<Longrightarrow> ctl_op ops k sg k'"
| rst: "ctl_reset ops k = Some (sg, k') \<Longrightarrow> ctl_op ops k sg k'"
| cycle: "step_cycle (Some (op_cp0 ops)) ops k = (sg, k') \<Longrightarrow> ctl_op ops k sg k'"
| tick: "on_run_timer (Some (op_cp0 ops)) ops k = (sg, k') \<Longrightarrow> ctl_op ops k sg k'"
| run: "ctl_op ops k [] (ctl_run k)"
| stop: "ctl_op ops k [] (ctl_stop k)"
| set_bp: "ctl_op ops k [] (set_breakpoint pc k)"
| clear_bp: "ctl_op ops k [] (clear_breakpoint pc k)"
| speed: "ctl_op ops k [] (set_execution_speed s k)"

inductive_cases ctl_op_cases: "ctl_op ops k sg k'"

text \<open>The states reachable from a new controller, and those reachable without loading again.\<close>

inductive ctl_reach :: "('c, 'z) mips_ops_scheme \<Rightarrow> 'c \<Rightarrow> 'c controller \<Rightarrow> bool"
  for ops :: "('c, 'z) mips_ops_scheme" and c0 :: 'c where
  init: "ctl_reach ops c0 (ctl_create c0)"
| step: "ctl_reach ops c0 k \<Longrightarrow> ctl_op ops k sg k' \<Longrightarrow> ctl_reach ops c0 k'"

text \<open>Everything but \<open>loadProgram\<close>: what a user can do between loading and resetting.\<close>

inductive ctl_session :: "('c, 'z) mips_ops_scheme \<Rightarrow> 'c controller \<Rightarrow> 'c controller \<Rightarrow> bool"
  for ops :: "('c, 'z) mips_ops_scheme" and k0 :: "'c controller" where
  start: "ctl_session ops k0 k0"
| again: "ctl_session ops k0 k \<Longrightarrow> ctl_op ops k sg k' \<Longrightarrow> ct_loaded k' = ct_loaded k \<Longrightarrow> ctl_session ops k0 k'"

section \<open>What the controller needs of a processor\<close>

text \<open>
  The state without the code of the last exception, which is the one thing \<open>reset\<close> leaves; and what
  a reset leaves in it.
\<close>

definition forget :: "('c, 'z) mips_ops_scheme \<Rightarrow> 'c \<Rightarrow> 'c" where
  "forget ops c = op_put_cp0 ops ((op_cp0 ops c)\<lparr>cp0_last_exc := ExcInt\<rparr>) c"

definition blank :: "('c, 'z) mips_ops_scheme \<Rightarrow> 'c \<Rightarrow> 'c" where
  "blank ops c = forget ops (op_reset ops True c)"

locale simulator = mips_processor ops for ops :: "('c, 'z) mips_ops_scheme" +
  assumes cycle_load: "op_cycle_count ops (op_set_pc ops a (op_put_mem ops m c)) = op_cycle_count ops c"
    and blank_step: "regs_wf (op_regs ops c) \<Longrightarrow> blank ops (snd (op_step ops c)) = blank ops c"
    and blank_reset: "regs_wf (op_regs ops c) \<Longrightarrow> blank ops (op_reset ops True c) = blank ops c"
    and blank_load: "mem_size m = mem_size (op_mem ops c) \<Longrightarrow>
      blank ops (op_set_pc ops a (op_put_mem ops m c)) = blank ops c"
    and forget_load: "forget ops (op_set_pc ops a (op_put_mem ops m c)) =
      op_set_pc ops a (op_put_mem ops m (forget ops c))"
begin

lemma mem_forget [simp]: "op_mem ops (forget ops c) = op_mem ops c"
  by (simp add: forget_def mem_put_cp0)

text \<open>A load into the emptied machine, described by the blank state.\<close>

lemma load_blank:
  assumes "op_load_program ops ws a (op_reset ops True c) = Some (True, c')"
  obtains m where "mem_load_words (op_mem ops (blank ops c)) a ws = Some (True, m)"
    "mem_size m = mem_size (op_mem ops (op_reset ops True c))"
    "c' = op_set_pc ops a (op_put_mem ops m (op_reset ops True c))"
    "forget ops c' = op_set_pc ops a (op_put_mem ops m (blank ops c))"
proof -
  obtain m where "mem_load_words (op_mem ops (op_reset ops True c)) a ws = Some (True, m)"
    "c' = op_set_pc ops a (op_put_mem ops m (op_reset ops True c))"
    using assms by (auto simp: load_program split: option.splits)
  then show ?thesis
    using that mem_load_words_size by (auto simp: blank_def forget_load)
qed

lemma load_result:
  assumes "op_load_program ops ws a (op_reset ops True c) = Some (ok, c')"
  shows "c' = op_reset ops True c \<or> (\<exists>m. mem_size m = mem_size (op_mem ops (op_reset ops True c))
    \<and> c' = op_set_pc ops a (op_put_mem ops m (op_reset ops True c)))"
  using assms by (auto simp: load_program dest: mem_load_words_size split: option.splits if_splits)

lemma load_keeps:
  assumes "op_load_program ops ws a (op_reset ops True c) = Some (ok, c')" "regs_wf (op_regs ops c)"
  shows "regs_wf (op_regs ops c')" "blank ops c' = blank ops c" "op_cycle_count ops c' = 0"
  using load_result [OF assms(1)] assms(2)
  by (auto simp: reset_regs regs_set_pc regs_put_mem blank_load blank_reset cycle_load reset_cycle)

lemma do_step_cpu: "do_step mips ops k = (sg, k') \<Longrightarrow> ct_cpu k' = snd (op_step ops (ct_cpu k)) \<and> ct_loaded k' = ct_loaded k"
  by (auto simp: do_step_def Let_def split: prod.splits)

text \<open>Every transition keeps the registers well formed and the blank state.\<close>

lemma op_keeps:
  assumes "ctl_op ops k sg k'" "regs_wf (op_regs ops (ct_cpu k))"
  shows "regs_wf (op_regs ops (ct_cpu k')) \<and> blank ops (ct_cpu k') = blank ops (ct_cpu k)"
  using assms
proof (elim ctl_op_cases)
  fix ws addr ok
  assume "ctl_load_program ops ws addr k = Some (ok, sg, k')"
  then show ?thesis using assms(2) by (auto simp: ctl_load_program_def dest: load_keeps split: option.splits)
next
  assume "ctl_reset ops k = Some (sg, k')"
  then show ?thesis
    using assms(2)
    by (auto simp: ctl_reset_def Let_def reset_regs blank_reset dest: load_keeps split: option.splits)
next
  assume "step_cycle (Some (op_cp0 ops)) ops k = (sg, k')"
  then show ?thesis using assms(2) by (auto simp: step_cycle_def step_regs_wf blank_step dest!: do_step_cpu)
next
  assume "on_run_timer (Some (op_cp0 ops)) ops k = (sg, k')"
  then show ?thesis
    using assms(2) by (auto simp: on_run_timer_def step_regs_wf blank_step dest!: do_step_cpu split: if_splits)
qed (simp_all add: ctl_run_def ctl_stop_def set_breakpoint_def clear_breakpoint_def set_execution_speed_def)

lemma session_keeps:
  assumes "ctl_session ops k0 k" "regs_wf (op_regs ops (ct_cpu k0))"
  shows "regs_wf (op_regs ops (ct_cpu k)) \<and> blank ops (ct_cpu k) = blank ops (ct_cpu k0) \<and> ct_loaded k = ct_loaded k0"
  using assms by (induction rule: ctl_session.induct) (auto dest: op_keeps)

lemma reset_restores:
  assumes "ctl_load_program ops ws addr k = Some (True, sg, k1)" "regs_wf (op_regs ops (ct_cpu k))"
    "ctl_session ops k1 k2"
  shows "\<exists>sg' k3. ctl_reset ops k2 = Some (sg', k3) \<and> forget ops (ct_cpu k3) = forget ops (ct_cpu k1)
    \<and> ct_stats k3 = ct_stats k1 \<and> ct_loaded k3 = ct_loaded k1 \<and> \<not> ct_active k3"
proof -
  have l: "op_load_program ops ws addr (op_reset ops True (ct_cpu k)) = Some (True, ct_cpu k1)"
    "ct_loaded k1 = Some \<lparr>lp_words = ws, lp_addr = addr\<rparr>" "ct_stats k1 = stats_zero"
    using assms(1) by (auto simp: ctl_load_program_def split: option.splits)
  obtain m where m: "mem_load_words (op_mem ops (blank ops (ct_cpu k))) addr ws = Some (True, m)"
    "forget ops (ct_cpu k1) = op_set_pc ops addr (op_put_mem ops m (blank ops (ct_cpu k)))"
    by (rule load_blank [OF l(1)])
  note lk = load_keeps [OF l(1) assms(2)]
  have s: "blank ops (ct_cpu k2) = blank ops (ct_cpu k)" "ct_loaded k2 = ct_loaded k1"
    using session_keeps [OF assms(3) lk(1)] lk(2) by simp_all
  have "mem_load_words (op_mem ops (op_reset ops True (ct_cpu k2))) addr ws = Some (True, m)"
    using m(1) unfolding s(1) [symmetric] by (simp add: blank_def)
  then have "op_load_program ops ws addr (op_reset ops True (ct_cpu k2)) =
      Some (True, op_set_pc ops addr (op_put_mem ops m (op_reset ops True (ct_cpu k2))))"
    by (simp add: load_program)
  moreover have "forget ops (op_set_pc ops addr (op_put_mem ops m (op_reset ops True (ct_cpu k2)))) = forget ops (ct_cpu k1)"
    unfolding m(2) s(1) [symmetric] by (simp add: forget_load blank_def)
  ultimately show ?thesis using l s(2) by (simp add: ctl_reset_def Let_def)
qed

end

text \<open>On both CPUs the blank state depends on the size of the memory only.\<close>

definition cp0_blank :: cp0 where
  "cp0_blank = \<lparr>cp0_status = 0, cp0_cause = 0, cp0_epc = 0, cp0_bad_vaddr = 0, cp0_last_exc = ExcInt\<rparr>"

lemma cp0_blank: "(cp0_reset c)\<lparr>cp0_last_exc := ExcInt\<rparr> = cp0_blank"
  by (simp add: cp0_reset_def cp0_blank_def)

lemma blank_sc:
  assumes "regs_wf (cpu_regs c)"
  shows "blank sc_ops c = (sc_create (mem_size (cpu_mem c)))\<lparr>cpu_cp0 := cp0_blank\<rparr>"
  using assms
  by (simp add: blank_def forget_def sc_ops_def sc_reset_def sc_create_def regs_reset_wf cp0_blank
      mem_create_def mem_reset_def mem_size_def)

lemma blank_pl:
  assumes "regs_wf (cpu_regs c)"
  shows "blank pl_ops c = (pl_create (mem_size (cpu_mem c)))\<lparr>cpu_cp0 := cp0_blank\<rparr>"
  using assms
  by (simp add: blank_def forget_def pl_ops_def pl_reset_def pl_create_def sc_create_def cpu.extend_def pl_cpu.fields_def
      regs_reset_wf cp0_blank mem_create_def mem_reset_def mem_size_def)

lemma sc_sel:
  "op_step sc_ops = sc_step" "op_reset sc_ops = sc_reset" "op_load_program sc_ops = sc_load_program"
  "op_regs sc_ops = cpu_regs" "op_mem sc_ops = cpu_mem" "op_pc sc_ops = cpu_pc" "op_cp0 sc_ops = cpu_cp0"
  "op_cycle_count sc_ops = cpu_cycle" "op_pipeline_state sc_ops = cpu_ps"
  by (simp_all add: sc_ops_def)

lemma pl_sel:
  "op_step pl_ops = pl_step" "op_reset pl_ops = pl_reset" "op_load_program pl_ops = pl_load_program"
  "op_regs pl_ops = cpu_regs" "op_mem pl_ops = cpu_mem" "op_pc pl_ops = cpu_pc" "op_cp0 pl_ops = cpu_cp0"
  "op_cycle_count pl_ops = cpu_cycle" "op_pipeline_state pl_ops = cpu_ps"
  by (simp_all add: pl_ops_def)

lemma sc_simulator:
  "regs_wf (cpu_regs c) \<Longrightarrow> blank sc_ops (snd (sc_step c)) = blank sc_ops c"
  "regs_wf (cpu_regs c) \<Longrightarrow> blank sc_ops (sc_reset True c) = blank sc_ops c"
  using sc.step_regs_wf [of c] sc.step_mem_size [of c]
  by (simp_all add: blank_sc sc_sel sc_reset_def)

lemma pl_simulator:
  "regs_wf (cpu_regs c) \<Longrightarrow> blank pl_ops (snd (pl_step c)) = blank pl_ops c"
  "regs_wf (cpu_regs c) \<Longrightarrow> blank pl_ops (pl_reset True c) = blank pl_ops c"
  using pl.step_regs_wf [of c] pl.step_mem_size [of c]
  by (simp_all add: blank_pl pl_sel pl_reset_def)

interpretation sc_sim: simulator sc_ops
proof unfold_locales
  fix c :: cpu and m :: memory and a :: u32
  show "blank sc_ops (op_set_pc sc_ops a (op_put_mem sc_ops m c)) = blank sc_ops c" if "mem_size m = mem_size (op_mem sc_ops c)"
    using mem_reset_size [OF that] by (simp add: blank_def forget_def sc_ops_def sc_reset_def)
  show "forget sc_ops (op_set_pc sc_ops a (op_put_mem sc_ops m c)) = op_set_pc sc_ops a (op_put_mem sc_ops m (forget sc_ops c))"
    "op_cycle_count sc_ops (op_set_pc sc_ops a (op_put_mem sc_ops m c)) = op_cycle_count sc_ops c"
    by (simp_all add: forget_def sc_ops_def)
qed (simp_all add: sc_sel sc_simulator)

interpretation pl_sim: simulator pl_ops
proof unfold_locales
  fix c :: pl_cpu and m :: memory and a :: u32
  show "blank pl_ops (op_set_pc pl_ops a (op_put_mem pl_ops m c)) = blank pl_ops c" if "mem_size m = mem_size (op_mem pl_ops c)"
    using mem_reset_size [OF that] by (simp add: blank_def forget_def pl_ops_def pl_reset_def)
  show "forget pl_ops (op_set_pc pl_ops a (op_put_mem pl_ops m c)) = op_set_pc pl_ops a (op_put_mem pl_ops m (forget pl_ops c))"
    "op_cycle_count pl_ops (op_set_pc pl_ops a (op_put_mem pl_ops m c)) = op_cycle_count pl_ops c"
    by (simp_all add: forget_def pl_ops_def)
qed (simp_all add: pl_sel pl_simulator)

section \<open>Statistics\<close>

definition stats_ok :: "('c, 'z) mips_ops_scheme \<Rightarrow> 'c controller \<Rightarrow> bool" where
  "stats_ok ops k \<longleftrightarrow>
     st_cycles (ct_stats k) = of_nat (op_cycle_count ops (ct_cpu k))
     \<and> st_stalls (ct_stats k) = st_data_hazards (ct_stats k)
     \<and> st_flushes (ct_stats k) = st_control_hazards (ct_stats k)"

lemma accumulate_ok:
  "st_cycles (accumulate_stats ps st) = st_cycles st + 1"
  "st_stalls st = st_data_hazards st \<Longrightarrow> st_stalls (accumulate_stats ps st) = st_data_hazards (accumulate_stats ps st)"
  "st_flushes st = st_control_hazards st \<Longrightarrow> st_flushes (accumulate_stats ps st) = st_control_hazards (accumulate_stats ps st)"
  by (simp_all add: accumulate_stats_def Let_def)

definition ctl_ok :: "('c, 'z) mips_ops_scheme \<Rightarrow> 'c controller \<Rightarrow> bool" where
  "ctl_ok ops k \<longleftrightarrow> regs_wf (op_regs ops (ct_cpu k)) \<and> stats_ok ops k \<and> 0 \<le> ct_interval k \<and> ct_interval k \<le> 500"

context simulator
begin

lemma do_step_ok:
  assumes "do_step mips ops k = (sg, k')" "ctl_ok ops k"
  shows "ctl_ok ops k'"
proof -
  have "ct_cpu k' = snd (op_step ops (ct_cpu k))" "ct_interval k' = ct_interval k"
    "ct_stats k' = accumulate_stats (op_pipeline_state ops (snd (op_step ops (ct_cpu k)))) (ct_stats k)"
    using assms(1) by (auto simp: do_step_def Let_def split: prod.splits)
  with assms(2) step_cycle [of "ct_cpu k"] step_regs_wf [of "ct_cpu k"] show ?thesis
    by (simp add: ctl_ok_def stats_ok_def accumulate_ok add.commute)
qed

lemma op_ok: "ctl_op ops k sg k' \<Longrightarrow> ctl_ok ops k \<Longrightarrow> ctl_ok ops k'"
proof (elim ctl_op_cases)
  fix ws addr ok
  assume "ctl_ok ops k" "ctl_load_program ops ws addr k = Some (ok, sg, k')"
  then show ?thesis
    by (auto simp: ctl_load_program_def ctl_ok_def stats_ok_def stats_zero_def dest: load_keeps split: option.splits)
next
  assume "ctl_ok ops k" "ctl_reset ops k = Some (sg, k')"
  then show ?thesis
    by (auto simp: ctl_reset_def Let_def ctl_ok_def stats_ok_def stats_zero_def reset_regs reset_cycle dest: load_keeps
        split: option.splits)
next
  assume "ctl_ok ops k" "on_run_timer (Some (op_cp0 ops)) ops k = (sg, k')"
  then show ?thesis by (auto simp: on_run_timer_def intro: do_step_ok split: if_splits)
next
  assume "ctl_ok ops k" "step_cycle (Some (op_cp0 ops)) ops k = (sg, k')"
  then show ?thesis by (auto simp: step_cycle_def intro: do_step_ok)
qed (simp_all add: ctl_ok_def stats_ok_def ctl_run_def ctl_stop_def set_breakpoint_def clear_breakpoint_def
    set_execution_speed_def)

lemma reach_ok:
  assumes "ctl_reach ops c0 k" "regs_wf (op_regs ops c0)" "op_cycle_count ops c0 = 0"
  shows "ctl_ok ops k"
  using assms
proof (induction rule: ctl_reach.induct)
  case init
  then show ?case by (simp add: ctl_ok_def stats_ok_def ctl_create_def stats_zero_def)
qed (auto intro: op_ok)

end

section \<open>What is published\<close>

definition stop_signal :: "ctl_signal \<Rightarrow> bool" where
  "stop_signal sg \<longleftrightarrow> (case sg of Halted \<Rightarrow> True | Faulted \<Rightarrow> True | ExceptionRaised _ _ \<Rightarrow> True | BreakpointHit _ \<Rightarrow> True | _ \<Rightarrow> False)"

lemma do_step_published:
  assumes "do_step mips ops k = (sg, k')"
  shows "ct_active k' \<or> sg = [CycleExecuted (cycle_count ops k'), PipelineStateChanged (op_pipeline_state ops (ct_cpu k')),
      StatisticsUpdated (ct_stats k')] @ filter stop_signal sg"
    "filter stop_signal sg = [] \<longleftrightarrow> fst (op_step ops (ct_cpu k)) = StOk \<and> op_pc ops (ct_cpu k') \<notin> ct_breakpoints k"
    "length (filter stop_signal sg) \<le> 1"
    "ct_active k' \<longleftrightarrow> ct_active k \<and> filter stop_signal sg = []"
proof -
  obtain r cpu where st: "op_step ops (ct_cpu k) = (r, cpu)" by fastforce
  let ?bp = "r = StOk \<and> op_pc ops cpu \<in> ct_breakpoints k"
  let ?up = "[CycleExecuted (cycle_count ops k'), PipelineStateChanged (op_pipeline_state ops (ct_cpu k')),
      StatisticsUpdated (ct_stats k')]"
  have k': "ct_cpu k' = cpu" "ct_active k' \<longleftrightarrow> ct_active k \<and> r = StOk \<and> \<not> ?bp"
    using assms by (auto simp: do_step_def Let_def st)
  obtain b fin where sg: "sg = (if b then ?up else []) @ fin" "\<not> ct_active k' \<longrightarrow> b"
    "filter stop_signal fin = fin" "fin = [] \<longleftrightarrow> r = StOk \<and> \<not> ?bp" "length fin \<le> 1"
  proof
    let ?b = "\<not> (ct_active k' \<and> ct_interval k = 0 \<and> (of_nat (op_cycle_count ops cpu) :: u64) mod 5000 \<noteq> 0)"
    let ?trap = "case mips of Some cp0_of \<Rightarrow> (cp0_epc (cp0_of cpu), exception_name (cp0_last_exc (cp0_of cpu)))
      | None \<Rightarrow> (op_pc ops cpu, ''exception'')"
    let ?fin = "case r of StHalt \<Rightarrow> [Halted] | StFault \<Rightarrow> [Faulted] | StException \<Rightarrow> [ExceptionRaised (fst ?trap) (snd ?trap)]
      | StOk \<Rightarrow> if ?bp then [BreakpointHit (op_pc ops cpu)] else []"
    have e1: "sg = fst (do_step mips ops k)" and e2: "k' = snd (do_step mips ops k)" using assms by simp_all
    show "sg = (if ?b then ?up else []) @ ?fin"
      using e1 e2 by (cases r) (simp_all add: do_step_def Let_def st cycle_count_def)
    show "\<not> ct_active k' \<longrightarrow> ?b" by simp
    show "filter stop_signal ?fin = ?fin" "?fin = [] \<longleftrightarrow> r = StOk \<and> \<not> ?bp" "length ?fin \<le> 1"
      by (cases r; simp add: stop_signal_def)+
  qed
  have up: "filter stop_signal ?up = []" by (simp add: stop_signal_def)
  have f: "filter stop_signal sg = fin" using sg(1,3) up by simp
  show "ct_active k' \<or> sg = ?up @ filter stop_signal sg" using sg(1,2) unfolding f by auto
  show "filter stop_signal sg = [] \<longleftrightarrow> fst (op_step ops (ct_cpu k)) = StOk \<and> op_pc ops (ct_cpu k') \<notin> ct_breakpoints k"
    unfolding f using sg(4) by (auto simp: st k'(1))
  show "length (filter stop_signal sg) \<le> 1" unfolding f by (rule sg(5))
  show "ct_active k' \<longleftrightarrow> ct_active k \<and> filter stop_signal sg = []" unfolding f using k'(2) sg(4) by blast
qed

section \<open>The run timer\<close>

fun timer_ticks :: "('c \<Rightarrow> cp0) option \<Rightarrow> ('c, 'z) processor_ops_scheme \<Rightarrow> nat \<Rightarrow> 'c controller \<Rightarrow> 'c controller" where
  "timer_ticks mips ops 0 k = k"
| "timer_ticks mips ops (Suc n) k = snd (on_run_timer mips ops (timer_ticks mips ops n k))"

lemma run_steps_Suc:
  assumes "fst (run_steps f n c) = StOk"
  shows "run_steps f (Suc n) c = f (snd (run_steps f n c))"
proof -
  have r: "run_steps f n c = (StOk, snd (run_steps f n c))" using assms by (metis prod.collapse)
  have "run_steps f 1 c' = f c'" for c' by (cases "f c'") simp
  then show ?thesis using run_steps_then [OF r, of 1] by (simp only: Suc_eq_plus1)
qed

text \<open>After \<open>j\<close> steps from \<open>c\<close> the run goes on: every step was fine and the next address has no breakpoint.\<close>

definition goes_on :: "('c, 'z) processor_ops_scheme \<Rightarrow> u32 set \<Rightarrow> 'c \<Rightarrow> nat \<Rightarrow> bool" where
  "goes_on ops bps c j \<longleftrightarrow>
     fst (op_run ops j c) = StOk \<and> (0 < j \<longrightarrow> op_pc ops (snd (op_run ops j c)) \<notin> bps)"

lemma timer_ticks_run:
  assumes "ct_active k"
  shows "\<exists>m\<le>n. ct_cpu (timer_ticks mips ops n k) = snd (op_run ops m (ct_cpu k))
    \<and> (\<forall>j<m. goes_on ops (ct_breakpoints k) (ct_cpu k) j)
    \<and> (ct_active (timer_ticks mips ops n k) \<longleftrightarrow> goes_on ops (ct_breakpoints k) (ct_cpu k) m)
    \<and> (ct_active (timer_ticks mips ops n k) \<longrightarrow> m = n)
    \<and> ct_breakpoints (timer_ticks mips ops n k) = ct_breakpoints k"
proof (induction n)
  case 0
  then show ?case using assms by (intro exI [of _ 0]) (simp add: op_run_def goes_on_def)
next
  case (Suc n)
  let ?k = "timer_ticks mips ops n k"
  obtain m where m: "m \<le> n" "ct_cpu ?k = snd (op_run ops m (ct_cpu k))"
    "\<forall>j<m. goes_on ops (ct_breakpoints k) (ct_cpu k) j"
    "ct_active ?k \<longleftrightarrow> goes_on ops (ct_breakpoints k) (ct_cpu k) m"
    "ct_active ?k \<longrightarrow> m = n" "ct_breakpoints ?k = ct_breakpoints k"
    using Suc.IH by blast
  show ?case
  proof (cases "ct_active ?k")
    case False
    then have "timer_ticks mips ops (Suc n) k = ?k" by (simp add: on_run_timer_def)
    then show ?thesis using m False by (metis le_SucI)
  next
    case True
    then have g: "goes_on ops (ct_breakpoints k) (ct_cpu k) n" "m = n" using m(4,5) by simp_all
    obtain sg k' where d: "do_step mips ops ?k = (sg, k')" by fastforce
    have r: "op_run ops (Suc n) (ct_cpu k) = op_step ops (ct_cpu ?k)"
      using run_steps_Suc [of "op_step ops" n "ct_cpu k"] g m(2) by (simp add: op_run_def goes_on_def)
    have c: "ct_cpu k' = snd (op_step ops (ct_cpu ?k))" "ct_breakpoints k' = ct_breakpoints ?k"
      using d by (auto simp: do_step_def Let_def split: prod.splits)
    have "ct_active k' \<longleftrightarrow> goes_on ops (ct_breakpoints k) (ct_cpu k) (Suc n)"
      using do_step_published(2,4) [OF d] True c m(6) by (simp add: goes_on_def r)
    moreover have "\<forall>j<Suc n. goes_on ops (ct_breakpoints k) (ct_cpu k) j"
      using m(3) g by (auto simp: less_Suc_eq)
    moreover have "ct_cpu k' = snd (op_run ops (Suc n) (ct_cpu k))" by (simp only: r c)
    moreover have "timer_ticks mips ops (Suc n) k = k'" using d True by (simp add: on_run_timer_def)
    moreover have "ct_breakpoints k' = ct_breakpoints k" using c m(6) by simp
    ultimately show ?thesis by (intro exI [of _ "Suc n"]) simp
  qed
qed

end
