(* ===== verification/Backends.thy ===== *)
theory Backends
  imports Controller
begin

text \<open>
  The processor a front end owns: either CPU behind the \<open>IProcessor\<close> interface, as the
  \<open>unique_ptr<IProcessor>\<close> of the controller holds it. It is a \<open>simulator\<close> because both CPUs are;
  the properties of the controller are stated on it, so each covers both backends.
\<close>

section \<open>Either backend\<close>

text \<open>What a \<open>unique_ptr<IProcessor>\<close> holds, with the operations dispatched on the object's class.\<close>

datatype any_cpu = AnySc cpu | AnyPl pl_cpu

definition any_get :: "(cpu \<Rightarrow> 'a) \<Rightarrow> (pl_cpu \<Rightarrow> 'a) \<Rightarrow> any_cpu \<Rightarrow> 'a" where
  "any_get f g c = (case c of AnySc s \<Rightarrow> f s | AnyPl p \<Rightarrow> g p)"

definition any_put :: "(cpu \<Rightarrow> cpu) \<Rightarrow> (pl_cpu \<Rightarrow> pl_cpu) \<Rightarrow> any_cpu \<Rightarrow> any_cpu" where
  "any_put f g c = (case c of AnySc s \<Rightarrow> AnySc (f s) | AnyPl p \<Rightarrow> AnyPl (g p))"

lemma any_simps [simp]:
  "any_get f g (AnySc s) = f s" "any_get f g (AnyPl p) = g p"
  "any_put f' g' (AnySc s) = AnySc (f' s)" "any_put f' g' (AnyPl p) = AnyPl (g' p)"
  by (simp_all add: any_get_def any_put_def)

definition any_ops :: "any_cpu mips_ops" where
  "any_ops =
     \<lparr>op_load_program = (\<lambda>ws a. any_get (map_option (map_prod id AnySc) \<circ> op_load_program sc_ops ws a)
        (map_option (map_prod id AnyPl) \<circ> op_load_program pl_ops ws a)),
      op_step = any_get (map_prod id AnySc \<circ> op_step sc_ops) (map_prod id AnyPl \<circ> op_step pl_ops),
      op_reset = (\<lambda>b. any_put (op_reset sc_ops b) (op_reset pl_ops b)),
      op_pc = any_get (op_pc sc_ops) (op_pc pl_ops),
      op_set_pc = (\<lambda>a. any_put (op_set_pc sc_ops a) (op_set_pc pl_ops a)),
      op_regs = any_get (op_regs sc_ops) (op_regs pl_ops),
      op_put_regs = (\<lambda>r. any_put (op_put_regs sc_ops r) (op_put_regs pl_ops r)),
      op_mem = any_get (op_mem sc_ops) (op_mem pl_ops),
      op_put_mem = (\<lambda>m. any_put (op_put_mem sc_ops m) (op_put_mem pl_ops m)),
      op_cycle_count = any_get (op_cycle_count sc_ops) (op_cycle_count pl_ops),
      op_pipeline_state = any_get (op_pipeline_state sc_ops) (op_pipeline_state pl_ops),
      op_last_control = any_get (op_last_control sc_ops) (op_last_control pl_ops),
      op_cp0 = any_get (op_cp0 sc_ops) (op_cp0 pl_ops),
      op_put_cp0 = (\<lambda>k. any_put (op_put_cp0 sc_ops k) (op_put_cp0 pl_ops k)),
      op_hi = any_get (op_hi sc_ops) (op_hi pl_ops), op_lo = any_get (op_lo sc_ops) (op_lo pl_ops),
      op_set_hi = (\<lambda>v. any_put (op_set_hi sc_ops v) (op_set_hi pl_ops v)),
      op_set_lo = (\<lambda>v. any_put (op_set_lo sc_ops v) (op_set_lo pl_ops v))\<rparr>"

lemma any_sc:
  "op_load_program any_ops ws a (AnySc s) = map_option (map_prod id AnySc) (op_load_program sc_ops ws a s)"
  "op_step any_ops (AnySc s) = map_prod id AnySc (op_step sc_ops s)"
  "op_reset any_ops b (AnySc s) = AnySc (op_reset sc_ops b s)"
  "op_pc any_ops (AnySc s) = op_pc sc_ops s" "op_set_pc any_ops a (AnySc s) = AnySc (op_set_pc sc_ops a s)"
  "op_regs any_ops (AnySc s) = op_regs sc_ops s" "op_put_regs any_ops r (AnySc s) = AnySc (op_put_regs sc_ops r s)"
  "op_mem any_ops (AnySc s) = op_mem sc_ops s" "op_put_mem any_ops m (AnySc s) = AnySc (op_put_mem sc_ops m s)"
  "op_cycle_count any_ops (AnySc s) = op_cycle_count sc_ops s"
  "op_pipeline_state any_ops (AnySc s) = op_pipeline_state sc_ops s"
  "op_last_control any_ops (AnySc s) = op_last_control sc_ops s"
  "op_cp0 any_ops (AnySc s) = op_cp0 sc_ops s" "op_put_cp0 any_ops k (AnySc s) = AnySc (op_put_cp0 sc_ops k s)"
  "op_hi any_ops (AnySc s) = op_hi sc_ops s" "op_lo any_ops (AnySc s) = op_lo sc_ops s"
  "op_set_hi any_ops v (AnySc s) = AnySc (op_set_hi sc_ops v s)" "op_set_lo any_ops v (AnySc s) = AnySc (op_set_lo sc_ops v s)"
  by (simp_all add: any_ops_def)

lemma any_pl:
  "op_load_program any_ops ws a (AnyPl s) = map_option (map_prod id AnyPl) (op_load_program pl_ops ws a s)"
  "op_step any_ops (AnyPl s) = map_prod id AnyPl (op_step pl_ops s)"
  "op_reset any_ops b (AnyPl s) = AnyPl (op_reset pl_ops b s)"
  "op_pc any_ops (AnyPl s) = op_pc pl_ops s" "op_set_pc any_ops a (AnyPl s) = AnyPl (op_set_pc pl_ops a s)"
  "op_regs any_ops (AnyPl s) = op_regs pl_ops s" "op_put_regs any_ops r (AnyPl s) = AnyPl (op_put_regs pl_ops r s)"
  "op_mem any_ops (AnyPl s) = op_mem pl_ops s" "op_put_mem any_ops m (AnyPl s) = AnyPl (op_put_mem pl_ops m s)"
  "op_cycle_count any_ops (AnyPl s) = op_cycle_count pl_ops s"
  "op_pipeline_state any_ops (AnyPl s) = op_pipeline_state pl_ops s"
  "op_last_control any_ops (AnyPl s) = op_last_control pl_ops s"
  "op_cp0 any_ops (AnyPl s) = op_cp0 pl_ops s" "op_put_cp0 any_ops k (AnyPl s) = AnyPl (op_put_cp0 pl_ops k s)"
  "op_hi any_ops (AnyPl s) = op_hi pl_ops s" "op_lo any_ops (AnyPl s) = op_lo pl_ops s"
  "op_set_hi any_ops v (AnyPl s) = AnyPl (op_set_hi pl_ops v s)" "op_set_lo any_ops v (AnyPl s) = AnyPl (op_set_lo pl_ops v s)"
  by (simp_all add: any_ops_def)

lemma any_forget:
  "forget any_ops (AnySc s) = AnySc (forget sc_ops s)" "forget any_ops (AnyPl p) = AnyPl (forget pl_ops p)"
  "blank any_ops (AnySc s) = AnySc (blank sc_ops s)" "blank any_ops (AnyPl p) = AnyPl (blank pl_ops p)"
  by (simp_all add: forget_def blank_def any_sc any_pl)

lemma any_cpu_all: "(\<And>s. P (AnySc s)) \<Longrightarrow> (\<And>p. P (AnyPl p)) \<Longrightarrow> P c"
  by (cases c) simp_all

definition is_sc :: "any_cpu \<Rightarrow> bool" where
  "is_sc c = (case c of AnySc _ \<Rightarrow> True | AnyPl _ \<Rightarrow> False)"

lemma is_sc_simps [simp]:
  "is_sc (snd (op_step any_ops c)) = is_sc c" "is_sc (op_reset any_ops b c) = is_sc c"
  "is_sc (op_set_pc any_ops a c) = is_sc c" "is_sc (op_put_mem any_ops m c) = is_sc c"
  by (cases c; simp add: is_sc_def any_sc any_pl)+

interpretation any_sim: simulator any_ops
proof unfold_locales
  fix c :: any_cpu and ws :: "u32 list" and a :: u32
  show "op_load_program any_ops ws a c =
      (case mem_load_words (op_mem any_ops c) a ws of
         None \<Rightarrow> None
       | Some (ok, m) \<Rightarrow> Some (ok, if ok then op_set_pc any_ops a (op_put_mem any_ops m c) else c))"
    by (cases c) (auto simp: any_sc any_pl sc.load_program pl.load_program split: option.split)
  assume e: "fst (op_step any_ops c) = StException"
  show "op_pc any_ops (snd (op_step any_ops c)) = kExceptionVector \<and>
      cp0_raised (op_cp0 any_ops c) (op_cp0 any_ops (snd (op_step any_ops c)))"
    using e sc.step_exception pl.step_exception by (cases c) (auto simp: any_sc any_pl)
next
  fix c :: any_cpu and m :: memory and a :: u32
  assume m: "mem_size m = mem_size (op_mem any_ops c)"
  show "blank any_ops (op_set_pc any_ops a (op_put_mem any_ops m c)) = blank any_ops c"
    using m sc_sim.blank_load pl_sim.blank_load by (cases c) (auto simp: any_sc any_pl any_forget)
next
  fix c :: any_cpu
  assume "regs_wf (op_regs any_ops c)"
  then show "blank any_ops (snd (op_step any_ops c)) = blank any_ops c"
    "blank any_ops (op_reset any_ops True c) = blank any_ops c"
    "regs_wf (op_regs any_ops (snd (op_step any_ops c)))"
    using sc_sim.blank_step pl_sim.blank_step sc_sim.blank_reset pl_sim.blank_reset sc.step_regs_wf pl.step_regs_wf
    by (cases c; auto simp: any_sc any_pl any_forget)+
qed (rule_tac c = c in any_cpu_all;
     simp add: any_sc any_pl any_forget sc.lens_simps pl.lens_simps sc.step_cycle pl.step_cycle sc.step_mem_size
       pl.step_mem_size sc.reset_pc pl.reset_pc sc.reset_cycle pl.reset_cycle sc.reset_regs pl.reset_regs
       sc.reset_mem pl.reset_mem sc.step_no_fault pl.step_no_fault sc_sim.cycle_load pl_sim.cycle_load
       sc_sim.forget_load pl_sim.forget_load)+

section \<open>Properties\<close>

lemma any_start:
  "regs_wf (op_regs any_ops (AnySc (sc_create n)))" "op_cycle_count any_ops (AnySc (sc_create n)) = 0"
  "regs_wf (op_regs any_ops (AnyPl (pl_create n)))" "op_cycle_count any_ops (AnyPl (pl_create n)) = 0"
  by (simp_all add: any_sc any_pl sc_sel pl_sel sc_create_def pl_create_def cpu.extend_def)

text \<open>C21: Reset restores what was loaded. Whatever is done after a successful load (single steps, timed runs, breakpoints, speed changes, further resets), \<open>reset\<close> succeeds and the machine is the one right after the load in every component, memory included, but the code of the last exception; the statistics are zero, the timer is off and the program is still the one to restore.\<close>

theorem reset_restores_program:
  assumes "ctl_load_program any_ops ws addr k = Some (True, sg, k1)" "regs_wf (op_regs any_ops (ct_cpu k))"
    "ctl_session any_ops k1 k2"
  shows "\<exists>sg' k3. ctl_reset any_ops k2 = Some (sg', k3) \<and> forget any_ops (ct_cpu k3) = forget any_ops (ct_cpu k1)
    \<and> ct_stats k3 = ct_stats k1 \<and> ct_loaded k3 = ct_loaded k1 \<and> \<not> ct_active k3"
  using assms by (rule any_sim.reset_restores)

lemma reset_restores_program_witness:
  "let k1 = snd (snd (the (ctl_load_program any_ops [0x2008002A] 0 (ctl_create (AnySc (sc_create 16))))));
       k2 = snd (step_cycle (Some (op_cp0 any_ops)) any_ops k1)
   in forget any_ops (ct_cpu (snd (the (ctl_reset any_ops k2)))) = forget any_ops (ct_cpu k1)"
proof -
  let ?k = "ctl_create (AnySc (sc_create 16))"
  obtain ok sg k1 where l: "ctl_load_program any_ops [0x2008002A] 0 ?k = Some (ok, sg, k1)" and ok: "ok"
  proof -
    have "map_option fst (ctl_load_program any_ops [0x2008002A] 0 ?k) = Some True" by code_simp
    then show ?thesis using that by auto
  qed
  obtain sg2 k2 where s: "step_cycle (Some (op_cp0 any_ops)) any_ops k1 = (sg2, k2)" by fastforce
  have "ct_loaded k2 = ct_loaded k1" using s by (simp add: step_cycle_def any_sim.do_step_cpu)
  then have "ctl_session any_ops k1 k2" by (intro ctl_session.intros(2) [OF ctl_session.intros(1) ctl_op.cycle [OF s]])
  moreover have "regs_wf (op_regs any_ops (ct_cpu ?k))" using any_start by (simp add: ctl_create_def)
  ultimately show ?thesis
    using reset_restores_program [of "[0x2008002A]" 0 ?k sg k1 k2] l s ok by auto
qed

text \<open>In every state the controller can reach from a new processor, the cycle statistic is the cycle count of the processor (modulo \<open>2 ^ 64\<close>), every data hazard is counted as one stall and every control hazard as one flush, the register file is well formed, and the timer interval lies between 0 and 500 milliseconds.\<close>

theorem controller_invariant:
  assumes "ctl_reach any_ops c0 k" "regs_wf (op_regs any_ops c0)" "op_cycle_count any_ops c0 = 0"
  shows "st_cycles (ct_stats k) = of_nat (op_cycle_count any_ops (ct_cpu k))
    \<and> st_stalls (ct_stats k) = st_data_hazards (ct_stats k)
    \<and> st_flushes (ct_stats k) = st_control_hazards (ct_stats k)
    \<and> regs_wf (op_regs any_ops (ct_cpu k)) \<and> 0 \<le> ct_interval k \<and> ct_interval k \<le> 500"
  using any_sim.reach_ok [OF assms] by (simp add: ctl_ok_def stats_ok_def)

lemma controller_invariant_witness:
  "st_cycles (ct_stats (snd (step_cycle None any_ops (ctl_create (AnyPl (pl_create 16)))))) = 1
   \<and> st_cycles (ct_stats (ctl_run (ctl_create (AnyPl (pl_create 16))))) = 0"
proof -
  let ?k = "ctl_create (AnyPl (pl_create 16))"
  have "ctl_reach any_ops (AnyPl (pl_create 16)) (ctl_run ?k)"
    by (rule ctl_reach.step [OF ctl_reach.init ctl_op.run])
  from controller_invariant [OF this any_start(3,4)]
  have "st_cycles (ct_stats (ctl_run ?k)) = 0" using any_start(4) by (simp add: ctl_run_def ctl_create_def)
  moreover have "st_cycles (ct_stats (snd (step_cycle None any_ops ?k))) = 1"
    by (simp add: step_cycle_def do_step_def Let_def split_beta accumulate_ok ctl_create_def stats_zero_def)
  ultimately show ?thesis by blast
qed

text \<open>C22: A stop is always published. When a step leaves the timer off, its signals start with the cycle, the current pipeline state and the current statistics, whatever the throttling, and go on with the reason, if any; a step has at most one reason (halt, fault, exception or breakpoint), has none exactly when the processor was fine and the next address has no breakpoint, and a running timer goes on exactly when there is none.\<close>

theorem stop_is_published:
  assumes "do_step mips ops k = (sg, k')"
  shows "(ct_active k' \<or> sg = [CycleExecuted (cycle_count ops k'), PipelineStateChanged (op_pipeline_state ops (ct_cpu k')),
        StatisticsUpdated (ct_stats k')] @ filter stop_signal sg)
    \<and> length (filter stop_signal sg) \<le> 1
    \<and> (filter stop_signal sg = [] \<longleftrightarrow> fst (op_step ops (ct_cpu k)) = StOk \<and> op_pc ops (ct_cpu k') \<notin> ct_breakpoints k)
    \<and> (ct_active k' \<longleftrightarrow> ct_active k \<and> filter stop_signal sg = [])"
  using do_step_published [OF assms] by blast

lemma stop_is_published_witness:
  "let k = ctl_run (set_breakpoint 4 (ctl_create (sc_create 16)))
   in filter stop_signal (fst (do_step None sc_ops k)) \<noteq> [] \<and> \<not> ct_active (snd (do_step None sc_ops k))"
proof -
  let ?k = "ctl_run (set_breakpoint 4 (ctl_create (sc_create 16)))"
  have "op_pc sc_ops (ct_cpu (snd (do_step None sc_ops ?k))) \<in> ct_breakpoints ?k" by code_simp
  then show ?thesis
    using stop_is_published [of None sc_ops ?k "fst (do_step None sc_ops ?k)" "snd (do_step None sc_ops ?k)"]
    by (simp add: Let_def)
qed

text \<open>C20: Running by timer is running. However many timeouts are delivered after \<open>run\<close>, the processor has executed exactly the steps \<open>IProcessor::run\<close> would execute up to the first that is not fine or that arrives at a breakpoint: every earlier step was fine and did not arrive at one, the timer is still running exactly when the last step was such a step too, and then one step was executed per timeout. Without breakpoints the processor is the one \<open>run\<close> leaves.\<close>

theorem timer_run_equivalence:
  assumes "ct_active k"
  shows "(\<exists>m\<le>n. ct_cpu (timer_ticks mips ops n k) = snd (op_run ops m (ct_cpu k))
      \<and> (\<forall>j<m. goes_on ops (ct_breakpoints k) (ct_cpu k) j)
      \<and> (ct_active (timer_ticks mips ops n k) \<longleftrightarrow> goes_on ops (ct_breakpoints k) (ct_cpu k) m)
      \<and> (ct_active (timer_ticks mips ops n k) \<longrightarrow> m = n))
    \<and> (ct_breakpoints k = {} \<longrightarrow> ct_cpu (timer_ticks mips ops n k) = snd (op_run ops n (ct_cpu k)))"
proof -
  obtain m where m: "m \<le> n" "ct_cpu (timer_ticks mips ops n k) = snd (op_run ops m (ct_cpu k))"
    "\<forall>j<m. goes_on ops (ct_breakpoints k) (ct_cpu k) j"
    "ct_active (timer_ticks mips ops n k) \<longleftrightarrow> goes_on ops (ct_breakpoints k) (ct_cpu k) m"
    "ct_active (timer_ticks mips ops n k) \<longrightarrow> m = n"
    using timer_ticks_run [OF assms, of n mips ops] by blast
  have eq: "op_run ops n (ct_cpu k) = op_run ops m (ct_cpu k)" if b: "ct_breakpoints k = {}"
  proof (cases "goes_on ops (ct_breakpoints k) (ct_cpu k) m")
    case False
    then have "fst (op_run ops m (ct_cpu k)) \<noteq> StOk" using b by (simp add: goes_on_def)
    then show ?thesis
      using run_steps_mono [of "op_step ops" m "ct_cpu k" _ _ n] m(1) by (metis op_run_def prod.collapse)
  qed (use m(4,5) in simp)
  show ?thesis
  proof (intro conjI impI)
    show "\<exists>m\<le>n. ct_cpu (timer_ticks mips ops n k) = snd (op_run ops m (ct_cpu k))
      \<and> (\<forall>j<m. goes_on ops (ct_breakpoints k) (ct_cpu k) j)
      \<and> (ct_active (timer_ticks mips ops n k) \<longleftrightarrow> goes_on ops (ct_breakpoints k) (ct_cpu k) m)
      \<and> (ct_active (timer_ticks mips ops n k) \<longrightarrow> m = n)"
      using m by blast
    assume "ct_breakpoints k = {}"
    then show "ct_cpu (timer_ticks mips ops n k) = snd (op_run ops n (ct_cpu k))" by (simp only: eq m(2))
  qed
qed

lemma timer_run_equivalence_witness:
  "ct_cpu (timer_ticks None sc_ops 3 (ctl_run (ctl_create (sc_create 16)))) = snd (op_run sc_ops 3 (sc_create 16))"
  using timer_run_equivalence [of "ctl_run (ctl_create (sc_create 16))" 3 None sc_ops]
  by (simp add: ctl_run_def ctl_create_def)

end
