(* ===== verification/QuickSim.thy ===== *)
theory QuickSim
  imports Backends Assembler Disassembler
begin

text \<open>
  The bridge between the controller and the QML front end (\<open>include/nsc_quick/quick_simulator.h\<close>,
  \<open>src/nsc_quick/quick_simulator.cpp\<close>): the register model, the views of the pipeline, the trace
  grid, transport, loading, breakpoints and the change notifications, which the state collects in
  order. Signals of the controller are delivered within the call that emits them, all objects
  living on one thread. A \<open>QString\<close> is its text in UTF-8. The example catalogue is a parameter.
\<close>

section \<open>Text\<close>

definition kMemorySize :: nat where "kMemorySize = 2 ^ 20"
definition kTraceMaxRows :: nat where "kTraceMaxRows = 256"
definition kTraceMaxCycles :: nat where "kTraceMaxCycles = 512"

definition hex32 :: "u32 \<Rightarrow> string" where
  "hex32 v = ''0x'' @ pad_zero 8 (show_base False 16 (unat v))"

definition quick_disasm :: "u32 \<Rightarrow> u32 \<Rightarrow> string" where
  "quick_disasm raw pc =
     (case decode raw of
        Some dec \<Rightarrow> dis_to_string dec pc
      | None \<Rightarrow> ''.word '' @ hex32 raw)"

definition make_processor :: "string \<Rightarrow> any_cpu" where
  "make_processor model =
     (if model = ''single'' then AnySc (sc_create kMemorySize) else AnyPl (pl_create kMemorySize))"

section \<open>The register model\<close>

record register_model =
  rm_values :: "u32 list"
  rm_last :: int

definition rm_create :: register_model where
  "rm_create = \<lparr>rm_values = replicate 32 0, rm_last = -1\<rparr>"

datatype rm_role = NumberRole | NameRole | HexRole | DecRole | ChangedRole | OtherRole
datatype qvariant = QNone | QInt int | QString string | QBool bool

definition rm_row_count :: "register_model \<Rightarrow> nat" where
  "rm_row_count m = length (rm_values m)"

text \<open>\<open>data\<close>: whether the index is valid, its row, and the role.\<close>

definition rm_data :: "bool \<Rightarrow> int \<Rightarrow> rm_role \<Rightarrow> register_model \<Rightarrow> qvariant" where
  "rm_data valid row role m =
     (if \<not> valid \<or> row < 0 \<or> 32 \<le> row then QNone
      else case role of
             NumberRole \<Rightarrow> QInt row
           | NameRole \<Rightarrow> QString (''$'' @ register_abi_name (of_int row))
           | HexRole \<Rightarrow> QString (hex32 (rm_values m ! nat row))
           | DecRole \<Rightarrow> QString (show_int (sint (rm_values m ! nat row)))
           | ChangedRole \<Rightarrow> QBool (row = rm_last m)
           | OtherRole \<Rightarrow> QNone)"

text \<open>The loop of \<open>refresh\<close> over the rows that are left: the rows reported as changed and the values.\<close>

fun rm_refresh_rows :: "u32 list \<Rightarrow> int \<Rightarrow> int \<Rightarrow> nat list \<Rightarrow> u32 list \<Rightarrow> nat list \<times> u32 list" where
  "rm_refresh_rows raw written prev [] values = ([], values)"
| "rm_refresh_rows raw written prev (i # is) values =
     (let value_changed = (values ! i \<noteq> raw ! i);
          mark_changed = ((int i = written) \<noteq> (int i = prev))
      in case rm_refresh_rows raw written prev is (values[i := raw ! i]) of
           (rows, values) \<Rightarrow> (if value_changed \<or> mark_changed then i # rows else rows, values))"

definition rm_refresh :: "regfile \<Rightarrow> register_model \<Rightarrow> nat list \<times> register_model" where
  "rm_refresh regs m =
     (case rm_refresh_rows (rf_regs regs) (rf_last regs) (rm_last m) [0..<32] (rm_values m) of
        (rows, values) \<Rightarrow> (rows, \<lparr>rm_values = values, rm_last = rf_last regs\<rparr>))"

definition rm_reset_all :: "register_model \<Rightarrow> register_model" where
  "rm_reset_all m = \<lparr>rm_values = replicate 32 0, rm_last = -1\<rparr>"

section \<open>State\<close>

record stage_view =
  sv_name :: string
  sv_valid :: bool
  sv_stalled :: bool
  sv_flushed :: bool
  sv_pc :: string
  sv_text :: string

record trace_row =
  row_pc :: u32
  row_start :: nat
  row_cells :: "string list"
  row_label :: string

record trace_view =
  tv_label :: string
  tv_start :: nat
  tv_cells :: "string list"

datatype ui_signal =
    RunningChanged | StatusChanged | SpeedChanged | ModelChanged | ProgramLoadedChanged
  | PipelineChanged | StatsChanged | TraceChanged | BreakpointsChanged
  | AssemblyError string | RowChanged nat | RowsReset

record quick =
  qs_ctl :: "any_cpu controller"
  qs_regs :: register_model
  qs_stages :: "stage_view list"
  qs_hazards :: "(string \<times> bool) list"
  qs_stats :: sim_stats
  qs_trace :: "trace_row list"
  qs_cache :: "trace_view list"
  qs_last_program :: "u32 list"
  qs_status :: string
  qs_model :: string
  qs_speed :: int
  qs_loaded :: bool
  qs_out :: "ui_signal list"

definition emit :: "ui_signal \<Rightarrow> quick \<Rightarrow> quick" where
  "emit s q = q\<lparr>qs_out := qs_out q @ [s]\<rparr>"

definition set_status :: "string \<Rightarrow> quick \<Rightarrow> quick" where
  "set_status s q = (if s = qs_status q then q else emit StatusChanged (q\<lparr>qs_status := s\<rparr>))"

section \<open>The views of a cycle\<close>

definition stage_view_of :: "stage_snapshot \<Rightarrow> stage_view" where
  "stage_view_of st =
     \<lparr>sv_name = ss_name st, sv_valid = ss_valid st, sv_stalled = ss_stalled st, sv_flushed = ss_flushed st,
      sv_pc = (if ss_valid st then hex32 (ss_pc st) else []),
      sv_text = (if ss_valid st then quick_disasm (ss_raw st) (ss_pc st)
                 else if ss_stalled st then ''bubble (stall)''
                 else if ss_flushed st then ''bubble (flush)'' else em_dash)\<rparr>"

definition hazards_of :: "pipeline_state \<Rightarrow> (string \<times> bool) list" where
  "hazards_of ps =
     [(''fwdExA'', ps_fwd_ex_to_ex_a ps), (''fwdExB'', ps_fwd_ex_to_ex_b ps),
      (''fwdMemA'', ps_fwd_mem_to_ex_a ps), (''fwdMemB'', ps_fwd_mem_to_ex_b ps),
      (''loadStall'', ps_load_stall ps), (''branchFlush'', ps_branch_flush ps)]"

text \<open>The tag of a row: stage \<open>s\<close> and the ones after it, with the tag found so far.\<close>

fun stage_tag :: "trace_row \<Rightarrow> nat \<Rightarrow> nat \<Rightarrow> stage_snapshot list \<Rightarrow> string \<Rightarrow> string" where
  "stage_tag row cycle s [] tag = tag"
| "stage_tag row cycle s (st # sts) tag =
     stage_tag row cycle (Suc s) sts
       (if ss_valid st \<and> ss_pc st = row_pc row \<and> row_start row \<le> cycle \<and> cycle - row_start row < 16
          \<and> (s = cycle - row_start row \<or> tag = ''  '')
        then ss_name st else tag)"

definition mark_row :: "pipeline_state \<Rightarrow> trace_row \<Rightarrow> trace_row" where
  "mark_row ps row =
     (let tag = stage_tag row (ps_cycle ps) 0 (ps_stages ps) ''  '';
          tag = (if ps_load_stall ps \<and> tag = ''  '' \<and> row_start row \<le> ps_cycle ps
                   \<and> ps_cycle ps - row_start row < 8 then ''**'' else tag)
      in row\<lparr>row_cells := row_cells row @ [tag]\<rparr>)"

definition trace_view_of :: "trace_row \<Rightarrow> trace_view" where
  "trace_view_of row = \<lparr>tv_label = row_label row, tv_start = row_start row, tv_cells = row_cells row\<rparr>"

definition enter_row :: "pipeline_state \<Rightarrow> trace_row list \<Rightarrow> trace_row list" where
  "enter_row ps trace =
     (let st = ps_stages ps ! 0
      in if ss_valid st then
           (let trace = trace @ [\<lparr>row_pc = ss_pc st, row_start = ps_cycle ps, row_cells = [],
                  row_label = hex32 (ss_pc st) @ ''  '' @ quick_disasm (ss_raw st) (ss_pc st)\<rparr>]
            in if kTraceMaxRows < length trace then drop 1 trace else trace)
         else trace)"

definition append_trace :: "pipeline_state \<Rightarrow> quick \<Rightarrow> quick" where
  "append_trace ps q =
     (if kTraceMaxCycles < ps_cycle ps then q
      else let trace = map (mark_row ps) (enter_row ps (qs_trace q))
           in emit TraceChanged (q\<lparr>qs_trace := trace, qs_cache := map trace_view_of trace\<rparr>))"

definition on_pipeline :: "pipeline_state \<Rightarrow> quick \<Rightarrow> quick" where
  "on_pipeline ps q =
     (case rm_refresh (op_regs any_ops (ct_cpu (qs_ctl q))) (qs_regs q) of
        (rows, m) \<Rightarrow>
          emit PipelineChanged (append_trace ps
            (q\<lparr>qs_stages := map stage_view_of (ps_stages ps), qs_hazards := hazards_of ps,
               qs_regs := m, qs_out := qs_out q @ map RowChanged rows\<rparr>)))"

text \<open>The connections to the controller's signals.\<close>

definition on_signal :: "ctl_signal \<Rightarrow> quick \<Rightarrow> quick" where
  "on_signal sg q =
     (case sg of
        PipelineStateChanged ps \<Rightarrow> on_pipeline ps q
      | StatisticsUpdated s \<Rightarrow> emit StatsChanged (q\<lparr>qs_stats := s\<rparr>)
      | Halted \<Rightarrow> emit RunningChanged (set_status ''Halted'' q)
      | Faulted \<Rightarrow> emit RunningChanged (set_status ''Faulted'' q)
      | ExceptionRaised epc name \<Rightarrow>
          emit RunningChanged (set_status (''Exception '' @ name @ '' @ '' @ hex32 epc) q)
      | BreakpointHit pc \<Rightarrow> emit RunningChanged (set_status (''Breakpoint @ '' @ hex32 pc) q)
      | _ \<Rightarrow> q)"

text \<open>The controller's new state with the signals of the call, handled in order.\<close>

definition deliver :: "ctl_signal list \<times> any_cpu controller \<Rightarrow> quick \<Rightarrow> quick" where
  "deliver r q = fold on_signal (fst r) (q\<lparr>qs_ctl := snd r\<rparr>)"

section \<open>Transport\<close>

abbreviation any_cp0 :: "(any_cpu \<Rightarrow> cp0) option" where
  "any_cp0 \<equiv> Some (op_cp0 any_ops)"

definition quick_step :: "quick \<Rightarrow> quick" where
  "quick_step q =
     (if \<not> qs_loaded q then q
      else let q = deliver (step_cycle any_cp0 any_ops (qs_ctl q)) q
           in if qs_status q = ''Idle'' \<or> starts_with (qs_status q) ''Breakpoint''
              then set_status ''Paused'' q else q)"

definition quick_tick :: "quick \<Rightarrow> quick" where
  "quick_tick q = deliver (on_run_timer any_cp0 any_ops (qs_ctl q)) q"

definition run_pause :: "quick \<Rightarrow> quick" where
  "run_pause q =
     (if \<not> qs_loaded q then q
      else emit RunningChanged
             (if is_running (qs_ctl q) then set_status ''Paused'' (q\<lparr>qs_ctl := ctl_stop (qs_ctl q)\<rparr>)
              else set_status ''Running'' (q\<lparr>qs_ctl := ctl_run (qs_ctl q)\<rparr>)))"

definition reset_rows :: "quick \<Rightarrow> quick" where
  "reset_rows q = emit RowsReset (q\<lparr>qs_regs := rm_reset_all (qs_regs q)\<rparr>)"

definition clear_views :: "quick \<Rightarrow> quick" where
  "clear_views q =
     reset_rows (q\<lparr>qs_stats := stats_zero, qs_trace := [], qs_cache := [], qs_stages := [], qs_hazards := []\<rparr>)"

definition quick_reset :: "quick \<Rightarrow> quick option" where
  "quick_reset q =
     (let q = clear_views (q\<lparr>qs_ctl := ctl_stop (qs_ctl q)\<rparr>)
      in map_option (\<lambda>r. set_status ''Idle'' (emit RunningChanged (emit PipelineChanged
           (emit TraceChanged (emit StatsChanged (deliver r q)))))) (ctl_reset any_ops (qs_ctl q)))"

section \<open>Loading\<close>

definition too_large :: string where
  "too_large = ''Program too large for memory.''"

text \<open>The load of the kept program: whether it fits, and the state after the signals.\<close>

definition load_last :: "quick \<Rightarrow> (bool \<times> quick) option" where
  "load_last q =
     map_option (\<lambda>(ok, sg, k). (ok, deliver (sg, k) q)) (ctl_load_program any_ops (qs_last_program q) 0 (qs_ctl q))"

definition assemble_and_load :: "string \<Rightarrow> quick \<Rightarrow> (string \<times> quick) option" where
  "assemble_and_load source q =
     (case ar_error (assemble source) of
        Some msg \<Rightarrow> Some (msg, emit (AssemblyError msg) q)
      | None \<Rightarrow>
          (case ctl_reset any_ops (ctl_stop (qs_ctl q)) of
             None \<Rightarrow> None
           | Some r \<Rightarrow>
               map_option (\<lambda>(ok, q).
                 let q = reset_rows (q\<lparr>qs_loaded := ok, qs_stats := stats_zero, qs_trace := [], qs_cache := []\<rparr>);
                     q = emit RunningChanged (emit TraceChanged (emit StatsChanged (emit ProgramLoadedChanged q)))
                 in if \<not> ok then (too_large, set_status too_large (emit (AssemblyError too_large) q))
                    else ([], set_status (''Loaded '' @ show_dec (length (qs_last_program q)) @ '' instructions'') q))
               (load_last ((deliver r (q\<lparr>qs_ctl := ctl_stop (qs_ctl q)\<rparr>))\<lparr>qs_last_program := ar_words (assemble source)\<rparr>))))"

definition rebuild_controller :: "quick \<Rightarrow> quick option" where
  "rebuild_controller q =
     (let q = clear_views (q\<lparr>qs_ctl := set_execution_speed (qs_speed q) (ctl_create (make_processor (qs_model q)))\<rparr>);
          finish = (\<lambda>q. set_status ''Idle'' (emit PipelineChanged (emit TraceChanged (emit StatsChanged q))))
      in if qs_last_program q = [] then Some (finish q)
         else map_option (\<lambda>(ok, q).
                let q = q\<lparr>qs_loaded := ok\<rparr>;
                    q = (if \<not> ok then emit (AssemblyError too_large) q else q)
                in finish (emit ProgramLoadedChanged q)) (load_last q))"

definition quick_create :: "quick option" where
  "quick_create =
     rebuild_controller
       \<lparr>qs_ctl = ctl_create (make_processor ''pipelined''), qs_regs = rm_create, qs_stages = [], qs_hazards = [],
        qs_stats = stats_zero, qs_trace = [], qs_cache = [], qs_last_program = [], qs_status = ''Idle'',
        qs_model = ''pipelined'', qs_speed = 60, qs_loaded = False, qs_out = []\<rparr>"

section \<open>Examples, memory, breakpoints, settings\<close>

definition example_names :: "(string \<times> string) list \<Rightarrow> string list" where
  "example_names catalog = map fst catalog"

definition example_source :: "(string \<times> string) list \<Rightarrow> int \<Rightarrow> string" where
  "example_source catalog i =
     (if i < 0 \<or> int (length catalog) \<le> i then [] else snd (catalog ! nat i))"

text \<open>The columns of a row from byte \<open>b\<close> on, \<open>n\<close> of them, with the text so far.\<close>

fun memory_columns :: "memory \<Rightarrow> u32 \<Rightarrow> nat \<Rightarrow> nat \<Rightarrow> string \<Rightarrow> string \<Rightarrow> string \<times> string" where
  "memory_columns m addr 0 b hex ascii = (hex, ascii)"
| "memory_columns m addr (Suc n) b hex ascii =
     (case (case mem_read_byte m (addr + of_nat b) of
              Some byte \<Rightarrow>
                (hex @ pad_zero 2 (show_base False 16 (unat byte)) @ '' '',
                 ascii @ [if 0x20 \<le> byte \<and> byte < 0x7F then char_of (unat byte) else CHR ''.''])
            | None \<Rightarrow> (hex @ ''-- '', ascii @ '' '')) of
        (hex, ascii) \<Rightarrow> memory_columns m addr n (Suc b) (if b = 7 then hex @ '' '' else hex) ascii)"

definition memory_row :: "memory \<Rightarrow> u32 \<Rightarrow> string" where
  "memory_row m addr =
     (case memory_columns m addr 16 0 [] [] of
        (hex, ascii) \<Rightarrow> pad_zero 8 (show_base False 16 (unat addr)) @ ''  '' @ hex @ '' |'' @ ascii @ ''|'')"

fun memory_rows_from :: "memory \<Rightarrow> nat \<Rightarrow> u32 \<Rightarrow> string list" where
  "memory_rows_from m 0 addr = []"
| "memory_rows_from m (Suc n) addr = memory_row m addr # memory_rows_from m n (addr + 16)"

definition memory_rows :: "u32 \<Rightarrow> nat \<Rightarrow> quick \<Rightarrow> string list" where
  "memory_rows base rows q =
     memory_rows_from (op_mem any_ops (ct_cpu (qs_ctl q))) rows (and base (not 0xF))"

definition toggle_breakpoint :: "u32 \<Rightarrow> quick \<Rightarrow> quick" where
  "toggle_breakpoint pc q =
     emit BreakpointsChanged
       (q\<lparr>qs_ctl := (if has_breakpoint (qs_ctl q) pc then clear_breakpoint pc (qs_ctl q)
                    else set_breakpoint pc (qs_ctl q))\<rparr>)"

definition quick_has_breakpoint :: "quick \<Rightarrow> u32 \<Rightarrow> bool" where
  "quick_has_breakpoint q pc = has_breakpoint (qs_ctl q) pc"

definition quick_is_running :: "quick \<Rightarrow> bool" where
  "quick_is_running q = is_running (qs_ctl q)"

definition set_speed :: "int \<Rightarrow> quick \<Rightarrow> quick" where
  "set_speed s q =
     (let s = max 0 (min 100 s)
      in if s = qs_speed q then q
         else emit SpeedChanged (q\<lparr>qs_speed := s, qs_ctl := set_execution_speed s (qs_ctl q)\<rparr>))"

definition set_model :: "string \<Rightarrow> quick \<Rightarrow> quick option" where
  "set_model m q =
     (if m = qs_model q \<or> (m \<noteq> ''pipelined'' \<and> m \<noteq> ''single'') then Some q
      else map_option (emit ModelChanged) (rebuild_controller (q\<lparr>qs_model := m\<rparr>)))"

end
