(* ===== verification/QuickSession.thy ===== *)
theory QuickSession
  imports QuickSim
begin

text \<open>
  What the QML bridge guarantees in every state it can reach: no operation runs into a violated
  precondition, the kept settings agree with the controller, the trace grid stays bounded and its
  cache current; which changes are notified; when the register view mirrors the processor; and
  what a row of the memory dump shows.
\<close>

section \<open>Events and reachable states\<close>

datatype quick_event =
    EvStep | EvTick | EvRunPause | EvReset | EvAssemble string | EvToggle u32 | EvSpeed int | EvModel string

fun handle_event :: "quick_event \<Rightarrow> quick \<Rightarrow> quick option" where
  "handle_event EvStep q = Some (quick_step q)"
| "handle_event EvTick q = Some (quick_tick q)"
| "handle_event EvRunPause q = Some (run_pause q)"
| "handle_event EvReset q = quick_reset q"
| "handle_event (EvAssemble source) q = map_option snd (assemble_and_load source q)"
| "handle_event (EvToggle pc) q = Some (toggle_breakpoint pc q)"
| "handle_event (EvSpeed s) q = Some (set_speed s q)"
| "handle_event (EvModel m) q = set_model m q"

inductive quick_reach :: "quick \<Rightarrow> bool" where
  create: "quick_create = Some q \<Longrightarrow> quick_reach q"
| event: "quick_reach q \<Longrightarrow> handle_event e q = Some q' \<Longrightarrow> quick_reach q'"

section \<open>What the views leave alone\<close>

lemma emit_frame [simp]:
  "qs_ctl (emit s q) = qs_ctl q" "qs_last_program (emit s q) = qs_last_program q" "qs_model (emit s q) = qs_model q"
  "qs_speed (emit s q) = qs_speed q" "qs_loaded (emit s q) = qs_loaded q" "qs_regs (emit s q) = qs_regs q"
  "qs_trace (emit s q) = qs_trace q" "qs_cache (emit s q) = qs_cache q" "qs_stats (emit s q) = qs_stats q"
  "qs_stages (emit s q) = qs_stages q" "qs_hazards (emit s q) = qs_hazards q" "qs_status (emit s q) = qs_status q"
  "qs_out (emit s q) = qs_out q @ [s]"
  by (simp_all add: emit_def)

lemma set_status_frame [simp]:
  "qs_ctl (set_status s q) = qs_ctl q" "qs_last_program (set_status s q) = qs_last_program q"
  "qs_model (set_status s q) = qs_model q" "qs_speed (set_status s q) = qs_speed q"
  "qs_loaded (set_status s q) = qs_loaded q" "qs_regs (set_status s q) = qs_regs q"
  "qs_trace (set_status s q) = qs_trace q" "qs_cache (set_status s q) = qs_cache q"
  "qs_stats (set_status s q) = qs_stats q" "qs_stages (set_status s q) = qs_stages q"
  "qs_hazards (set_status s q) = qs_hazards q" "qs_status (set_status s q) = s"
  by (simp_all add: set_status_def)

lemma append_trace_frame [simp]:
  "qs_ctl (append_trace ps q) = qs_ctl q" "qs_last_program (append_trace ps q) = qs_last_program q"
  "qs_model (append_trace ps q) = qs_model q" "qs_speed (append_trace ps q) = qs_speed q"
  "qs_loaded (append_trace ps q) = qs_loaded q" "qs_regs (append_trace ps q) = qs_regs q"
  "qs_stats (append_trace ps q) = qs_stats q" "qs_stages (append_trace ps q) = qs_stages q"
  "qs_hazards (append_trace ps q) = qs_hazards q" "qs_status (append_trace ps q) = qs_status q"
  by (simp_all add: append_trace_def Let_def)

lemma on_signal_frame [simp]:
  "qs_ctl (on_signal sg q) = qs_ctl q" "qs_last_program (on_signal sg q) = qs_last_program q"
  "qs_model (on_signal sg q) = qs_model q" "qs_speed (on_signal sg q) = qs_speed q"
  "qs_loaded (on_signal sg q) = qs_loaded q"
  by (simp_all add: on_signal_def on_pipeline_def split: ctl_signal.split prod.split)

lemma fold_signal_frame [simp]:
  "qs_ctl (fold on_signal sgs q) = qs_ctl q" "qs_last_program (fold on_signal sgs q) = qs_last_program q"
  "qs_model (fold on_signal sgs q) = qs_model q" "qs_speed (fold on_signal sgs q) = qs_speed q"
  "qs_loaded (fold on_signal sgs q) = qs_loaded q"
  by (induction sgs arbitrary: q) simp_all

lemma deliver_frame [simp]:
  "qs_ctl (deliver r q) = snd r" "qs_last_program (deliver r q) = qs_last_program q"
  "qs_model (deliver r q) = qs_model q" "qs_speed (deliver r q) = qs_speed q" "qs_loaded (deliver r q) = qs_loaded q"
  by (simp_all add: deliver_def)

section \<open>The register model\<close>

lemma rm_refresh_rows_result:
  assumes "distinct is" "\<forall>i\<in>set is. i < length values" "length raw = length values"
  shows "rm_refresh_rows raw w p is values =
    (filter (\<lambda>i. values ! i \<noteq> raw ! i \<or> (int i = w) \<noteq> (int i = p)) is,
     map (\<lambda>i. if i \<in> set is then raw ! i else values ! i) [0..<length values])"
  using assms
proof (induction "is" arbitrary: "values")
  case Nil
  then show ?case by (simp add: map_nth)
next
  case (Cons i "is")
  have "rm_refresh_rows raw w p is (values[i := raw ! i]) =
    (filter (\<lambda>j. values[i := raw ! i] ! j \<noteq> raw ! j \<or> (int j = w) \<noteq> (int j = p)) is,
     map (\<lambda>j. if j \<in> set is then raw ! j else values[i := raw ! i] ! j) [0..<length values])"
    using Cons.IH [of "values[i := raw ! i]"] Cons.prems by simp
  moreover have "filter (\<lambda>j. values[i := raw ! i] ! j \<noteq> raw ! j \<or> (int j = w) \<noteq> (int j = p)) is =
      filter (\<lambda>j. values ! j \<noteq> raw ! j \<or> (int j = w) \<noteq> (int j = p)) is"
  proof (intro filter_cong refl)
    fix j
    assume "j \<in> set is"
    then have "values[i := raw ! i] ! j = values ! j" using Cons.prems(1) by (intro nth_list_update_neq) auto
    then show "(values[i := raw ! i] ! j \<noteq> raw ! j \<or> (int j = w) \<noteq> (int j = p))
        = (values ! j \<noteq> raw ! j \<or> (int j = w) \<noteq> (int j = p))" by simp
  qed
  ultimately show ?case using Cons.prems(2) by (auto simp: Let_def nth_list_update)
qed

lemma rm_refresh_result:
  assumes "regs_wf regs" "length (rm_values m) = 32"
  shows "rm_refresh regs m =
    (filter (\<lambda>i. rm_values m ! i \<noteq> rf_regs regs ! i \<or> (int i = rf_last regs) \<noteq> (int i = rm_last m)) [0..<32],
     \<lparr>rm_values = rf_regs regs, rm_last = rf_last regs\<rparr>)"
proof -
  have l: "length (rf_regs regs) = 32" using assms(1) by (simp add: regs_wf_def)
  have "map (\<lambda>i. if i \<in> set [0..<32] then rf_regs regs ! i else rm_values m ! i) [0..<32] = rf_regs regs"
    using l by (intro nth_equalityI) simp_all
  then show ?thesis
    using rm_refresh_rows_result [of "[0..<32]" "rm_values m" "rf_regs regs" "rf_last regs" "rm_last m"] assms(2) l
    by (simp add: rm_refresh_def)
qed

section \<open>The trace grid\<close>

lemma trace_bounded: "length trace \<le> kTraceMaxRows \<Longrightarrow> length (enter_row ps trace) \<le> kTraceMaxRows"
  by (auto simp: enter_row_def Let_def)

definition view_ok :: "quick \<Rightarrow> bool" where
  "view_ok q \<longleftrightarrow> length (qs_trace q) \<le> kTraceMaxRows \<and> qs_cache q = map trace_view_of (qs_trace q)
     \<and> length (rm_values (qs_regs q)) = 32"

lemma append_trace_ok: "view_ok q \<Longrightarrow> view_ok (append_trace ps q)"
  using trace_bounded [of "qs_trace q" ps] by (simp add: view_ok_def append_trace_def Let_def)

lemma on_pipeline_ok:
  assumes "regs_wf (op_regs any_ops (ct_cpu (qs_ctl q)))" "view_ok q"
  shows "view_ok (on_pipeline ps q)"
proof -
  let ?m = "\<lparr>rm_values = rf_regs (op_regs any_ops (ct_cpu (qs_ctl q))), rm_last = rf_last (op_regs any_ops (ct_cpu (qs_ctl q)))\<rparr>"
  have l: "length (rm_values ?m) = 32" using assms(1) by (simp add: regs_wf_def)
  obtain rows where r: "rm_refresh (op_regs any_ops (ct_cpu (qs_ctl q))) (qs_regs q) = (rows, ?m)"
    using rm_refresh_result [OF assms(1)] assms(2) by (auto simp: view_ok_def)
  have "view_ok (append_trace ps (q\<lparr>qs_stages := map stage_view_of (ps_stages ps), qs_hazards := hazards_of ps,
      qs_regs := ?m, qs_out := qs_out q @ map RowChanged rows\<rparr>))"
    using assms(2) l by (intro append_trace_ok) (simp add: view_ok_def)
  then show ?thesis by (simp add: on_pipeline_def r view_ok_def)
qed

lemma view_ok_simps [simp]: "view_ok (emit s q) = view_ok q" "view_ok (set_status t q) = view_ok q"
  by (simp_all add: view_ok_def)

lemma fold_signal_ok:
  "regs_wf (op_regs any_ops (ct_cpu (qs_ctl q))) \<Longrightarrow> view_ok q \<Longrightarrow> view_ok (fold on_signal sgs q)"
proof (induction sgs arbitrary: q)
  case (Cons sg sgs)
  have "view_ok (on_signal sg q)"
    using on_pipeline_ok [OF Cons.prems] Cons.prems(2)
    by (simp add: on_signal_def split: ctl_signal.split) (simp add: view_ok_def)
  then show ?case using Cons by simp
qed simp

lemma deliver_ok:
  "regs_wf (op_regs any_ops (ct_cpu (snd r))) \<Longrightarrow> view_ok q \<Longrightarrow> view_ok (deliver r q)"
  unfolding deliver_def by (intro fold_signal_ok) (simp_all add: view_ok_def)

section \<open>The controller below\<close>

text \<open>A program that was loaded at address 0 and fits the memory.\<close>

definition fits :: "loaded_program \<Rightarrow> bool" where
  "fits p \<longleftrightarrow> lp_addr p = 0 \<and> length (lp_words p) * 4 \<le> kMemorySize"

definition ctl_good :: "string \<Rightarrow> any_cpu controller \<Rightarrow> bool" where
  "ctl_good model k \<longleftrightarrow> ctl_ok any_ops k \<and> mem_size (op_mem any_ops (ct_cpu k)) = kMemorySize
     \<and> (model = (if is_sc (ct_cpu k) then ''single'' else ''pipelined''))
     \<and> (\<forall>p. ct_loaded k = Some p \<longrightarrow> fits p)"

lemma load_zero:
  assumes "mem_size (op_mem any_ops (ct_cpu k)) = kMemorySize"
  shows "\<exists>c. op_load_program any_ops ws 0 (op_reset any_ops True (ct_cpu k)) = Some (length ws * 4 \<le> kMemorySize, c)
    \<and> is_sc c = is_sc (ct_cpu k) \<and> mem_size (op_mem any_ops c) = kMemorySize"
proof -
  let ?r = "op_reset any_ops True (ct_cpu k)"
  have sz: "mem_size (op_mem any_ops ?r) = kMemorySize" using assms by (simp add: any_sim.reset_mem)
  then have b: "mem_in_bounds (op_mem any_ops ?r) 0 (length ws * 4) \<longleftrightarrow> length ws * 4 \<le> kMemorySize"
    by (simp add: mem_in_bounds_size)
  then have ml: "mem_load_words (op_mem any_ops ?r) 0 ws =
      Some (length ws * 4 \<le> kMemorySize,
        if length ws * 4 \<le> kMemorySize then load_words_from 0 0 ws (op_mem any_ops ?r) else op_mem any_ops ?r)"
    by (simp add: mem_load_words_def)
  show ?thesis
    unfolding any_sim.load_program ml using sz
    by (simp add: any_sim.mem_set_pc any_sim.mem_put_mem)
qed

lemma load_good:
  assumes "ctl_good model k"
  shows "\<exists>sg k'. ctl_load_program any_ops ws 0 k = Some (length ws * 4 \<le> kMemorySize, sg, k') \<and> ctl_good model k'
    \<and> ct_loaded k' = (if length ws * 4 \<le> kMemorySize then Some \<lparr>lp_words = ws, lp_addr = 0\<rparr> else None)
    \<and> ct_interval k' = ct_interval k"
proof -
  obtain c where c: "op_load_program any_ops ws 0 (op_reset any_ops True (ct_cpu k)) = Some (length ws * 4 \<le> kMemorySize, c)"
    "is_sc c = is_sc (ct_cpu k)" "mem_size (op_mem any_ops c) = kMemorySize"
    using load_zero [of k ws] assms by (auto simp: ctl_good_def)
  obtain sg k' where k': "ctl_load_program any_ops ws 0 k = Some (length ws * 4 \<le> kMemorySize, sg, k')"
    using c(1) by (simp add: ctl_load_program_def)
  have "ctl_ok any_ops k'" using any_sim.op_ok [OF ctl_op.load [OF k']] assms by (simp add: ctl_good_def)
  moreover have f: "ct_cpu k' = c" "ct_interval k' = ct_interval k"
    "ct_loaded k' = (if length ws * 4 \<le> kMemorySize then Some \<lparr>lp_words = ws, lp_addr = 0\<rparr> else None)"
    using k' c(1) by (auto simp: ctl_load_program_def)
  moreover have "\<forall>p. ct_loaded k' = Some p \<longrightarrow> fits p" unfolding f(3) by (simp add: fits_def)
  ultimately have "ctl_good model k'" using c assms by (simp add: ctl_good_def)
  then show ?thesis using k' f by blast
qed

lemma reset_good:
  assumes "ctl_good model k"
  shows "\<exists>sg k'. ctl_reset any_ops k = Some (sg, k') \<and> ctl_good model k' \<and> ct_loaded k' = ct_loaded k
    \<and> ct_interval k' = ct_interval k"
proof (cases "ct_loaded k")
  case None
  then obtain sg k' where k': "ctl_reset any_ops k = Some (sg, k')" by (simp add: ctl_reset_def Let_def)
  have "ctl_ok any_ops k'" using any_sim.op_ok [OF ctl_op.rst [OF k']] assms by (simp add: ctl_good_def)
  then show ?thesis
    using k' None assms by (auto simp: ctl_reset_def Let_def ctl_good_def any_sim.reset_mem)
next
  case (Some p)
  then have p: "lp_addr p = 0" "length (lp_words p) * 4 \<le> kMemorySize" using assms by (simp_all add: ctl_good_def fits_def)
  obtain c where c: "op_load_program any_ops (lp_words p) 0 (op_reset any_ops True (ct_cpu k)) = Some (True, c)"
    "is_sc c = is_sc (ct_cpu k)" "mem_size (op_mem any_ops c) = kMemorySize"
    using load_zero [of k "lp_words p"] assms p(2) by (auto simp: ctl_good_def)
  then obtain sg k' where k': "ctl_reset any_ops k = Some (sg, k')" using Some p(1) by (simp add: ctl_reset_def Let_def)
  have "ctl_ok any_ops k'" using any_sim.op_ok [OF ctl_op.rst [OF k']] assms by (simp add: ctl_good_def)
  then show ?thesis
    using k' Some c assms p(1) by (auto simp: ctl_reset_def Let_def ctl_good_def)
qed

lemma do_step_good:
  assumes "do_step any_cp0 any_ops k = (sg, k')" "ctl_good model k"
  shows "ctl_good model k' \<and> ct_loaded k' = ct_loaded k \<and> ct_interval k' = ct_interval k"
proof -
  have "ct_cpu k' = snd (op_step any_ops (ct_cpu k))" "ct_interval k' = ct_interval k" "ct_loaded k' = ct_loaded k"
    using assms(1) by (auto simp: do_step_def Let_def split: prod.splits)
  moreover have "ctl_ok any_ops k'" using any_sim.do_step_ok [OF assms(1)] assms(2) by (simp add: ctl_good_def)
  ultimately show ?thesis using assms(2) by (simp add: ctl_good_def any_sim.step_mem_size)
qed

lemma simple_good [simp]:
  "ctl_good model (ctl_run k) = ctl_good model k" "ctl_good model (ctl_stop k) = ctl_good model k"
  "ctl_good model (set_breakpoint pc k) = ctl_good model k" "ctl_good model (clear_breakpoint pc k) = ctl_good model k"
  "ctl_good model k \<Longrightarrow> ctl_good model (set_execution_speed s k)"
  by (simp_all add: ctl_good_def ctl_ok_def stats_ok_def ctl_run_def ctl_stop_def set_breakpoint_def
      clear_breakpoint_def set_execution_speed_def)

lemma ctl_fields [simp]:
  "ct_loaded (ctl_run k) = ct_loaded k" "ct_loaded (ctl_stop k) = ct_loaded k"
  "ct_loaded (set_breakpoint pc k) = ct_loaded k" "ct_loaded (clear_breakpoint pc k) = ct_loaded k"
  "ct_loaded (set_execution_speed s k) = ct_loaded k"
  "ct_interval (ctl_run k) = ct_interval k" "ct_interval (ctl_stop k) = ct_interval k"
  "ct_interval (set_breakpoint pc k) = ct_interval k" "ct_interval (clear_breakpoint pc k) = ct_interval k"
  by (simp_all add: ctl_run_def ctl_stop_def set_breakpoint_def clear_breakpoint_def set_execution_speed_def)

lemma create_good: "m \<in> {''single'', ''pipelined''} \<Longrightarrow> ctl_good m (ctl_create (make_processor m))"
  by (auto simp: ctl_good_def ctl_ok_def stats_ok_def ctl_create_def make_processor_def is_sc_def stats_zero_def
      any_sc any_pl sc_sel pl_sel sc_create_def pl_create_def cpu.extend_def mem_create_def mem_size_def)

section \<open>The invariant\<close>

definition quick_ok :: "quick \<Rightarrow> bool" where
  "quick_ok q \<longleftrightarrow> ctl_good (qs_model q) (qs_ctl q) \<and> view_ok q
     \<and> 0 \<le> qs_speed q \<and> qs_speed q \<le> 100 \<and> ct_interval (qs_ctl q) = (100 - qs_speed q) * 5
     \<and> (qs_loaded q \<longrightarrow> ct_loaded (qs_ctl q) = Some \<lparr>lp_words = qs_last_program q, lp_addr = 0\<rparr> \<and> qs_last_program q \<noteq> [])"

lemma good_model: "ctl_good m k \<Longrightarrow> m \<in> {''single'', ''pipelined''}"
  by (simp add: ctl_good_def)

lemma good_wf: "ctl_good m k \<Longrightarrow> regs_wf (op_regs any_ops (ct_cpu k))"
  by (simp add: ctl_good_def ctl_ok_def)

lemma view_ok_updates [simp]:
  "view_ok (q\<lparr>qs_ctl := k\<rparr>) = view_ok q" "view_ok (q\<lparr>qs_loaded := b\<rparr>) = view_ok q"
  "view_ok (q\<lparr>qs_last_program := ws\<rparr>) = view_ok q" "view_ok (q\<lparr>qs_model := m\<rparr>) = view_ok q"
  "view_ok (q\<lparr>qs_speed := s\<rparr>) = view_ok q" "view_ok (q\<lparr>qs_speed := s, qs_ctl := k\<rparr>) = view_ok q"
  "view_ok (clear_views q)"
  "view_ok (reset_rows (q\<lparr>qs_loaded := b, qs_stats := st, qs_trace := [], qs_cache := []\<rparr>))"
  by (simp_all add: view_ok_def clear_views_def reset_rows_def rm_reset_all_def)

lemma assemble_not_Nil: "ar_error (assemble source) = None \<Longrightarrow> ar_words (assemble source) \<noteq> []"
proof -
  assume ok: "ar_error (assemble source) = None"
  obtain labels lines where l: "asm_pass1 0 Map.empty [] (get_lines source) = (labels, lines)" by fastforce
  then have "lines \<noteq> []" "ar_error (asm_pass2 labels 0 [] lines) = None" "assemble source = asm_pass2 labels 0 [] lines"
    using ok by (auto simp: assemble_def split: if_splits)
  with asm_pass2_spec [of labels 0 "[]" lines] show ?thesis by auto
qed

lemma load_last_ok:
  assumes "ctl_good (qs_model q) (qs_ctl q)" "view_ok q"
  shows "\<exists>b q'. load_last q = Some (b, q') \<and> ctl_good (qs_model q') (qs_ctl q')
    \<and> view_ok q' \<and> qs_last_program q' = qs_last_program q \<and> qs_model q' = qs_model q \<and> qs_speed q' = qs_speed q
    \<and> ct_interval (qs_ctl q') = ct_interval (qs_ctl q)
    \<and> (b \<longrightarrow> ct_loaded (qs_ctl q') = Some \<lparr>lp_words = qs_last_program q, lp_addr = 0\<rparr>)"
proof -
  obtain sg k' where k': "ctl_load_program any_ops (qs_last_program q) 0 (qs_ctl q) = Some (length (qs_last_program q) * 4 \<le> kMemorySize, sg, k')"
    "ctl_good (qs_model q) k'" "ct_interval k' = ct_interval (qs_ctl q)"
    "ct_loaded k' = (if length (qs_last_program q) * 4 \<le> kMemorySize then Some \<lparr>lp_words = qs_last_program q, lp_addr = 0\<rparr> else None)"
    using load_good [OF assms(1)] by blast
  have "view_ok (deliver (sg, k') q)" using deliver_ok [of "(sg, k')" q] good_wf [OF k'(2)] assms(2) by simp
  with k' show ?thesis by (simp add: load_last_def)
qed

lemma deliver_step_ok:
  assumes "do_step any_cp0 any_ops (qs_ctl q) = r" "quick_ok q"
  shows "quick_ok (deliver r q)"
proof -
  have g: "ctl_good (qs_model q) (snd r)" "ct_loaded (snd r) = ct_loaded (qs_ctl q)" "ct_interval (snd r) = ct_interval (qs_ctl q)"
    using do_step_good [of "qs_ctl q" "fst r" "snd r" "qs_model q"] assms by (simp_all add: quick_ok_def)
  moreover have "view_ok (deliver r q)" using deliver_ok [of r q] good_wf [OF g(1)] assms(2) by (simp add: quick_ok_def)
  ultimately show ?thesis using assms(2) by (simp add: quick_ok_def)
qed

lemma quick_ok_simps [simp]: "quick_ok (emit s q) = quick_ok q" "quick_ok (set_status t q) = quick_ok q"
  by (simp_all add: quick_ok_def)

lemma step_ok: "quick_ok q \<Longrightarrow> quick_ok (quick_step q)"
  using deliver_step_ok [of q] by (simp add: quick_step_def step_cycle_def Let_def)

lemma tick_ok: "quick_ok q \<Longrightarrow> quick_ok (quick_tick q)"
  using deliver_step_ok [of q] by (simp add: quick_tick_def on_run_timer_def) (simp add: deliver_def)

lemma run_pause_ok: "quick_ok q \<Longrightarrow> quick_ok (run_pause q)"
  by (simp add: run_pause_def) (simp add: quick_ok_def)

lemma reset_ok:
  assumes "quick_ok q"
  shows "\<exists>q'. quick_reset q = Some q' \<and> quick_ok q'"
proof -
  let ?q = "clear_views (q\<lparr>qs_ctl := ctl_stop (qs_ctl q)\<rparr>)"
  have f: "qs_ctl ?q = ctl_stop (qs_ctl q)" "qs_model ?q = qs_model q" "qs_speed ?q = qs_speed q"
    "qs_loaded ?q = qs_loaded q" "qs_last_program ?q = qs_last_program q"
    by (simp_all add: clear_views_def reset_rows_def)
  have g: "ctl_good (qs_model q) (ctl_stop (qs_ctl q))" using assms by (simp add: quick_ok_def)
  obtain sg k' where k': "ctl_reset any_ops (ctl_stop (qs_ctl q)) = Some (sg, k')" "ctl_good (qs_model q) k'"
    "ct_loaded k' = ct_loaded (qs_ctl q)" "ct_interval k' = ct_interval (qs_ctl q)"
    using reset_good [OF g] by auto
  have "view_ok (deliver (sg, k') ?q)" using deliver_ok [of "(sg, k')" ?q] good_wf [OF k'(2)] by simp
  then have "quick_ok (deliver (sg, k') ?q)" using assms k' by (simp add: quick_ok_def f)
  then show ?thesis using k'(1) by (simp add: quick_reset_def Let_def f)
qed

lemma assemble_event_ok:
  assumes "quick_ok q"
  shows "\<exists>msg q'. assemble_and_load source q = Some (msg, q') \<and> quick_ok q'"
proof (cases "ar_error (assemble source)")
  case (Some msg)
  then show ?thesis using assms by (simp add: assemble_and_load_def)
next
  case None
  have g: "ctl_good (qs_model q) (ctl_stop (qs_ctl q))" using assms by (simp add: quick_ok_def)
  obtain sg k' where k': "ctl_reset any_ops (ctl_stop (qs_ctl q)) = Some (sg, k')" "ctl_good (qs_model q) k'"
    "ct_interval k' = ct_interval (qs_ctl q)"
    using reset_good [OF g] by auto
  let ?q = "(deliver (sg, k') (q\<lparr>qs_ctl := ctl_stop (qs_ctl q)\<rparr>))\<lparr>qs_last_program := ar_words (assemble source)\<rparr>"
  have v: "view_ok ?q"
    using deliver_ok [of "(sg, k')" "q\<lparr>qs_ctl := ctl_stop (qs_ctl q)\<rparr>"] good_wf [OF k'(2)] assms by (simp add: quick_ok_def)
  have "ctl_good (qs_model ?q) (qs_ctl ?q)" using k'(2) by simp
  from load_last_ok [OF this v] obtain b q' where q': "load_last ?q = Some (b, q')"
    "ctl_good (qs_model q') (qs_ctl q')" "qs_last_program q' = ar_words (assemble source)" "qs_speed q' = qs_speed q"
    "ct_interval (qs_ctl q') = ct_interval (qs_ctl q)"
    "b \<longrightarrow> ct_loaded (qs_ctl q') = Some \<lparr>lp_words = ar_words (assemble source), lp_addr = 0\<rparr>"
    using k'(3) by auto
  let ?q2 = "reset_rows (q'\<lparr>qs_loaded := b, qs_stats := stats_zero, qs_trace := [], qs_cache := []\<rparr>)"
  have f: "qs_ctl ?q2 = qs_ctl q'" "qs_model ?q2 = qs_model q'" "qs_speed ?q2 = qs_speed q'" "qs_loaded ?q2 = b"
    "qs_last_program ?q2 = qs_last_program q'"
    by (simp_all add: reset_rows_def)
  have "quick_ok ?q2"
    unfolding quick_ok_def f using q' assms assemble_not_Nil [OF None] by (simp add: quick_ok_def)
  then show ?thesis using None k'(1) q'(1) by (cases b) (simp_all add: assemble_and_load_def)
qed

lemma rebuild_ok:
  assumes "qs_model q \<in> {''single'', ''pipelined''}" "0 \<le> qs_speed q" "qs_speed q \<le> 100"
    "qs_last_program q = [] \<Longrightarrow> \<not> qs_loaded q"
  shows "\<exists>q'. rebuild_controller q = Some q' \<and> quick_ok q'"
proof -
  let ?k = "set_execution_speed (qs_speed q) (ctl_create (make_processor (qs_model q)))"
  let ?q = "clear_views (q\<lparr>qs_ctl := ?k\<rparr>)"
  have f: "qs_ctl ?q = ?k" "qs_model ?q = qs_model q" "qs_speed ?q = qs_speed q"
    "qs_loaded ?q = qs_loaded q" "qs_last_program ?q = qs_last_program q"
    by (simp_all add: clear_views_def reset_rows_def)
  have g: "ctl_good (qs_model ?q) (qs_ctl ?q)" unfolding f using create_good [OF assms(1)] by (rule simple_good)
  have i: "ct_interval ?k = (100 - qs_speed q) * 5" using assms(2,3) by (simp add: set_execution_speed_def)
  show ?thesis
  proof (cases "qs_last_program q = []")
    case True
    then have "quick_ok ?q" using g i assms(2,3,4) by (simp add: quick_ok_def f)
    then show ?thesis using True by (simp add: rebuild_controller_def Let_def f)
  next
    case False
    obtain b q' where q': "load_last ?q = Some (b, q')"
      "ctl_good (qs_model q') (qs_ctl q')" "view_ok q'" "qs_last_program q' = qs_last_program ?q" "qs_speed q' = qs_speed ?q"
      "ct_interval (qs_ctl q') = ct_interval (qs_ctl ?q)"
      "b \<longrightarrow> ct_loaded (qs_ctl q') = Some \<lparr>lp_words = qs_last_program ?q, lp_addr = 0\<rparr>"
      using load_last_ok [OF g] by auto
    have "quick_ok (q'\<lparr>qs_loaded := b\<rparr>)"
      using q' i assms(2,3) False by (simp add: quick_ok_def f)
    then show ?thesis using False q'(1) by (cases b) (simp_all add: rebuild_controller_def f)
  qed
qed

lemma create_ok: "\<exists>q. quick_create = Some q \<and> quick_ok q"
  unfolding quick_create_def by (rule rebuild_ok) simp_all

lemma handle_event_ok:
  assumes "quick_ok q"
  shows "\<exists>q'. handle_event e q = Some q' \<and> quick_ok q'"
proof (cases e)
  case (EvAssemble source)
  then show ?thesis using assemble_event_ok [OF assms, of source] by auto
next
  case (EvToggle pc)
  then show ?thesis using assms by (simp add: toggle_breakpoint_def quick_ok_def)
next
  case (EvSpeed s)
  then show ?thesis
    using assms by (simp add: set_speed_def Let_def quick_ok_def) (auto simp: set_execution_speed_def)
next
  case (EvModel m)
  have "m \<noteq> ''pipelined'' \<and> m \<noteq> ''single'' \<or> (\<exists>q'. rebuild_controller (q\<lparr>qs_model := m\<rparr>) = Some q' \<and> quick_ok q')"
    using rebuild_ok [of "q\<lparr>qs_model := m\<rparr>"] assms by (auto simp: quick_ok_def)
  then show ?thesis using EvModel assms by (auto simp: set_model_def)
qed (use assms reset_ok in \<open>simp_all add: step_ok tick_ok run_pause_ok\<close>)

lemma quick_reach_ok: "quick_reach q \<Longrightarrow> quick_ok q"
proof (induction rule: quick_reach.induct)
  case (create q)
  then show ?case using create_ok by (metis option.inject)
next
  case (event q e q')
  then show ?case using handle_event_ok [of q e] by auto
qed

text \<open>What the constructor leaves.\<close>

lemma create_state:
  assumes "quick_create = Some q"
  shows "qs_speed q = 60" "qs_model q = ''pipelined''" "ct_breakpoints (qs_ctl q) = {}" "\<not> qs_loaded q"
  using assms by (auto simp: quick_create_def rebuild_controller_def Let_def clear_views_def reset_rows_def
      set_execution_speed_def ctl_create_def)

lemmas create_speed = create_state(1) and create_model = create_state(2) and create_breakpoints = create_state(3)

section \<open>Notifications\<close>

text \<open>The properties QML can bind to, with the signals that announce their changes.\<close>

datatype ui_prop =
    PRunning | PStatus | PSpeed | PModel | PProgramLoaded | PPipeline | PStats | PTrace | PBreakpoints | PRow nat

fun prop_changed :: "ui_prop \<Rightarrow> quick \<Rightarrow> quick \<Rightarrow> bool" where
  "prop_changed PRunning q q' = (quick_is_running q \<noteq> quick_is_running q')"
| "prop_changed PStatus q q' = (qs_status q \<noteq> qs_status q')"
| "prop_changed PSpeed q q' = (qs_speed q \<noteq> qs_speed q')"
| "prop_changed PModel q q' = (qs_model q \<noteq> qs_model q')"
| "prop_changed PProgramLoaded q q' = (qs_loaded q \<noteq> qs_loaded q')"
| "prop_changed PPipeline q q' = (qs_stages q \<noteq> qs_stages q' \<or> qs_hazards q \<noteq> qs_hazards q')"
| "prop_changed PStats q q' = (qs_stats q \<noteq> qs_stats q')"
| "prop_changed PTrace q q' = (qs_cache q \<noteq> qs_cache q')"
| "prop_changed PBreakpoints q q' = (ct_breakpoints (qs_ctl q) \<noteq> ct_breakpoints (qs_ctl q'))"
| "prop_changed (PRow i) q q' = (i < 32 \<and> (rm_values (qs_regs q) ! i \<noteq> rm_values (qs_regs q') ! i
     \<or> (int i = rm_last (qs_regs q)) \<noteq> (int i = rm_last (qs_regs q'))))"

fun announces :: "ui_signal \<Rightarrow> ui_prop \<Rightarrow> bool" where
  "announces RunningChanged p = (p = PRunning)"
| "announces StatusChanged p = (p = PStatus)"
| "announces SpeedChanged p = (p = PSpeed)"
| "announces ModelChanged p = (p = PModel)"
| "announces ProgramLoadedChanged p = (p = PProgramLoaded)"
| "announces PipelineChanged p = (p = PPipeline)"
| "announces StatsChanged p = (p = PStats)"
| "announces TraceChanged p = (p = PTrace)"
| "announces BreakpointsChanged p = (p = PBreakpoints)"
| "announces (AssemblyError msg) p = False"
| "announces (RowChanged i) p = (p = PRow i)"
| "announces RowsReset p = (\<exists>i. p = PRow i)"

definition new_signals :: "quick \<Rightarrow> quick \<Rightarrow> ui_signal list" where
  "new_signals q q' = drop (length (qs_out q)) (qs_out q')"

text \<open>Signals were only added, and every change outside \<open>P\<close> was announced by one of them.\<close>

definition notified :: "ui_prop set \<Rightarrow> quick \<Rightarrow> quick \<Rightarrow> bool" where
  "notified P q q' \<longleftrightarrow> (\<exists>new. qs_out q' = qs_out q @ new
     \<and> (\<forall>p. p \<notin> P \<longrightarrow> prop_changed p q q' \<longrightarrow> (\<exists>s\<in>set new. announces s p)))"

lemma notifiedI:
  "qs_out q' = qs_out q @ new \<Longrightarrow> (\<And>p. p \<notin> P \<Longrightarrow> prop_changed p q q' \<Longrightarrow> \<exists>s\<in>set new. announces s p) \<Longrightarrow> notified P q q'"
  by (auto simp: notified_def)

lemma prop_changed_trans: "prop_changed p a c \<Longrightarrow> prop_changed p a b \<or> prop_changed p b c"
  by (cases p) auto

lemma not_changed_refl [simp]: "\<not> prop_changed p q q"
  by (cases p) auto

lemma notified_refl [simp]: "notified P q q"
  by (intro notifiedI [of _ _ "[]"]) auto

lemma notified_trans:
  assumes "notified P a b" "notified Q b c"
  shows "notified (P \<union> Q) a c"
proof -
  obtain n m where n: "qs_out b = qs_out a @ n" "\<forall>p. p \<notin> P \<longrightarrow> prop_changed p a b \<longrightarrow> (\<exists>s\<in>set n. announces s p)"
    and m: "qs_out c = qs_out b @ m" "\<forall>p. p \<notin> Q \<longrightarrow> prop_changed p b c \<longrightarrow> (\<exists>s\<in>set m. announces s p)"
    using assms by (auto simp: notified_def)
  show ?thesis
  proof (intro notifiedI [of _ _ "n @ m"])
    fix p
    assume "p \<notin> P \<union> Q" "prop_changed p a c"
    then show "\<exists>s\<in>set (n @ m). announces s p"
      using n(2) m(2) prop_changed_trans [of p a c b] by auto
  qed (simp add: n(1) m(1))
qed

lemma notified_then: "notified P a b \<Longrightarrow> notified {} b c \<Longrightarrow> notified P a c"
  using notified_trans [of P a b "{}" c] by simp

lemma notified_mono: "notified P a b \<Longrightarrow> P \<subseteq> Q \<Longrightarrow> notified Q a b"
  unfolding notified_def by blast

text \<open>A change may also be announced later.\<close>

lemma notified_announced:
  assumes "notified P a b" "\<And>p. p \<in> P \<Longrightarrow> p \<notin> Q \<Longrightarrow> \<exists>s\<in>set (new_signals a b). announces s p"
  shows "notified Q a b"
proof -
  obtain new where n: "qs_out b = qs_out a @ new" "\<forall>p. p \<notin> P \<longrightarrow> prop_changed p a b \<longrightarrow> (\<exists>s\<in>set new. announces s p)"
    using assms(1) by (auto simp: notified_def)
  then have "new_signals a b = new" by (simp add: new_signals_def)
  then show ?thesis using n assms(2) by (intro notifiedI [of _ _ new]) blast+
qed

lemma new_signals_trans: "notified P a b \<Longrightarrow> notified Q b c \<Longrightarrow> set (new_signals a c) = set (new_signals a b) \<union> set (new_signals b c)"
  by (auto simp: notified_def new_signals_def)

lemma emit_notified:
  assumes "notified P a b"
  shows "notified {p \<in> P. \<not> announces s p} a (emit s b)"
proof -
  have same: "prop_changed p a (emit s b) = prop_changed p a b" for p by (cases p) (simp_all add: quick_is_running_def)
  obtain new where n: "qs_out b = qs_out a @ new" "\<forall>p. p \<notin> P \<longrightarrow> prop_changed p a b \<longrightarrow> (\<exists>s\<in>set new. announces s p)"
    using assms by (auto simp: notified_def)
  show ?thesis by (intro notifiedI [of _ _ "new @ [s]"]) (use n same in auto)
qed

lemma set_status_notified: "notified {} q (set_status t q)"
proof (cases "t = qs_status q")
  case False
  have "notified {PStatus} q (q\<lparr>qs_status := t\<rparr>)"
  proof (intro notifiedI [of _ _ "[]"])
    fix p
    assume "p \<notin> {PStatus}" "prop_changed p q (q\<lparr>qs_status := t\<rparr>)"
    then show "\<exists>s\<in>set []. announces s p" by (cases p) (simp_all add: quick_is_running_def)
  qed simp
  from emit_notified [OF this, of StatusChanged] False show ?thesis by (simp add: set_status_def)
qed (simp add: set_status_def)

lemma append_trace_notified: "notified {} q (append_trace ps q)"
proof (cases "kTraceMaxCycles < ps_cycle ps")
  case False
  let ?t = "map (mark_row ps) (enter_row ps (qs_trace q))"
  have "notified {PTrace} q (q\<lparr>qs_trace := ?t, qs_cache := map trace_view_of ?t\<rparr>)"
  proof (intro notifiedI [of _ _ "[]"])
    fix p
    assume "p \<notin> {PTrace}" "prop_changed p q (q\<lparr>qs_trace := ?t, qs_cache := map trace_view_of ?t\<rparr>)"
    then show "\<exists>s\<in>set []. announces s p" by (cases p) (simp_all add: quick_is_running_def)
  qed simp
  from emit_notified [OF this, of TraceChanged] False show ?thesis by (simp add: append_trace_def Let_def)
qed (simp add: append_trace_def)

lemma on_pipeline_notified:
  assumes "regs_wf (op_regs any_ops (ct_cpu (qs_ctl q)))" "view_ok q"
  shows "notified {} q (on_pipeline ps q)"
proof -
  let ?r = "op_regs any_ops (ct_cpu (qs_ctl q))"
  let ?rows = "filter (\<lambda>i. rm_values (qs_regs q) ! i \<noteq> rf_regs ?r ! i \<or> (int i = rf_last ?r) \<noteq> (int i = rm_last (qs_regs q))) [0..<32]"
  let ?q = "q\<lparr>qs_stages := map stage_view_of (ps_stages ps), qs_hazards := hazards_of ps,
      qs_regs := \<lparr>rm_values = rf_regs ?r, rm_last = rf_last ?r\<rparr>, qs_out := qs_out q @ map RowChanged ?rows\<rparr>"
  have rf: "rm_refresh ?r (qs_regs q) = (?rows, \<lparr>rm_values = rf_regs ?r, rm_last = rf_last ?r\<rparr>)"
    using assms(2) by (intro rm_refresh_result assms(1)) (simp add: view_ok_def)
  have "notified {PPipeline} q ?q"
  proof (intro notifiedI [of _ _ "map RowChanged ?rows"])
    fix p
    assume "p \<notin> {PPipeline}" "prop_changed p q ?q"
    then show "\<exists>s\<in>set (map RowChanged ?rows). announces s p" by (cases p) (auto simp: quick_is_running_def)
  qed simp
  from notified_then [OF this append_trace_notified [of ?q ps]]
  have "notified {PPipeline} q (append_trace ps ?q)" .
  from emit_notified [OF this, of PipelineChanged] show ?thesis by (simp add: on_pipeline_def rf)
qed

lemma stats_notified: "notified {} q (emit StatsChanged (q\<lparr>qs_stats := st\<rparr>))"
proof -
  have "notified {PStats} q (q\<lparr>qs_stats := st\<rparr>)"
  proof (intro notifiedI [of _ _ "[]"])
    fix p
    assume "p \<notin> {PStats}" "prop_changed p q (q\<lparr>qs_stats := st\<rparr>)"
    then show "\<exists>s\<in>set []. announces s p" by (cases p) (simp_all add: quick_is_running_def)
  qed simp
  from emit_notified [OF this, of StatsChanged] show ?thesis by simp
qed

lemma emit_notified0: "notified {} q (emit s q)"
  using emit_notified [of "{}" q q s] by simp

lemma on_signal_notified:
  assumes "regs_wf (op_regs any_ops (ct_cpu (qs_ctl q)))" "view_ok q"
  shows "notified {} q (on_signal sg q)"
  using on_pipeline_notified [OF assms] stats_notified notified_then [OF set_status_notified emit_notified0]
  by (simp add: on_signal_def split: ctl_signal.split)

lemma on_signal_stop: "stop_signal sg \<Longrightarrow> RunningChanged \<in> set (new_signals q (on_signal sg q))"
  by (cases sg) (auto simp: stop_signal_def on_signal_def new_signals_def set_status_def)

lemma fold_signal_notified:
  assumes "regs_wf (op_regs any_ops (ct_cpu (qs_ctl q)))" "view_ok q"
  shows "notified {} q (fold on_signal sgs q)
    \<and> (filter stop_signal sgs \<noteq> [] \<longrightarrow> RunningChanged \<in> set (new_signals q (fold on_signal sgs q)))"
  using assms
proof (induction sgs arbitrary: q)
  case (Cons sg sgs)
  let ?q = "on_signal sg q"
  have n: "notified {} q ?q" by (rule on_signal_notified [OF Cons.prems])
  have "view_ok ?q" using fold_signal_ok [OF Cons.prems, of "[sg]"] by simp
  then have r: "notified {} ?q (fold on_signal sgs ?q)
    \<and> (filter stop_signal sgs \<noteq> [] \<longrightarrow> RunningChanged \<in> set (new_signals ?q (fold on_signal sgs ?q)))"
    using Cons.prems(1) by (intro Cons.IH) simp_all
  have s: "set (new_signals q (fold on_signal sgs ?q)) = set (new_signals q ?q) \<union> set (new_signals ?q (fold on_signal sgs ?q))"
    using r by (intro new_signals_trans [OF n]) blast
  show ?case using notified_then [OF n] r s on_signal_stop [of sg q] by auto
qed simp

text \<open>The properties read off the controller.\<close>

lemma ctl_update_notified:
  "notified {p. p = PRunning \<and> ct_active k \<noteq> ct_active (qs_ctl q) \<or> p = PBreakpoints \<and> ct_breakpoints k \<noteq> ct_breakpoints (qs_ctl q)}
     q (q\<lparr>qs_ctl := k\<rparr>)" (is "notified ?P _ _")
proof (intro notifiedI [of _ _ "[]"])
  fix p
  assume "p \<notin> ?P" "prop_changed p q (q\<lparr>qs_ctl := k\<rparr>)"
  then show "\<exists>s\<in>set []. announces s p" by (cases p) (auto simp: quick_is_running_def is_running_def)
qed simp

lemma deliver_notified:
  assumes "regs_wf (op_regs any_ops (ct_cpu (snd r)))" "view_ok q"
    "ct_breakpoints (snd r) = ct_breakpoints (qs_ctl q)"
  shows "notified {PRunning} q (deliver r q)"
    "ct_active (snd r) \<noteq> ct_active (qs_ctl q) \<Longrightarrow> filter stop_signal (fst r) \<noteq> [] \<Longrightarrow> notified {} q (deliver r q)"
    "ct_active (snd r) = ct_active (qs_ctl q) \<Longrightarrow> notified {} q (deliver r q)"
proof -
  let ?q = "q\<lparr>qs_ctl := snd r\<rparr>"
  have b: "notified {p. p = PRunning \<and> ct_active (snd r) \<noteq> ct_active (qs_ctl q)} q ?q"
    using ctl_update_notified [of "snd r" q] assms(3) by (auto elim: notified_mono)
  have f: "notified {} ?q (deliver r q)"
    "filter stop_signal (fst r) \<noteq> [] \<Longrightarrow> RunningChanged \<in> set (new_signals ?q (deliver r q))"
    using fold_signal_notified [of ?q "fst r"] assms(1,2) by (simp_all add: deliver_def)
  have d: "notified {p. p = PRunning \<and> ct_active (snd r) \<noteq> ct_active (qs_ctl q)} q (deliver r q)"
    by (rule notified_then [OF b f(1)])
  then show "notified {PRunning} q (deliver r q)" by (rule notified_mono) auto
  show "notified {} q (deliver r q)" if "ct_active (snd r) = ct_active (qs_ctl q)"
    using d that by simp
  show "notified {} q (deliver r q)" if "filter stop_signal (fst r) \<noteq> []"
  proof (rule notified_announced [OF d])
    fix p
    assume "p \<in> {p. p = PRunning \<and> ct_active (snd r) \<noteq> ct_active (qs_ctl q)}"
    then show "\<exists>s\<in>set (new_signals q (deliver r q)). announces s p"
      using f(2) [OF that] new_signals_trans [OF b f(1)] by (intro bexI [of _ RunningChanged]) auto
  qed
qed

lemma deliver_step_notified:
  assumes "do_step any_cp0 any_ops (qs_ctl q) = r" "quick_ok q"
  shows "notified {} q (deliver r q)"
proof -
  have r: "do_step any_cp0 any_ops (qs_ctl q) = (fst r, snd r)" using assms(1) by simp
  have g: "ctl_good (qs_model q) (snd r)" using do_step_good [OF r] assms(2) by (simp add: quick_ok_def)
  have b: "ct_breakpoints (snd r) = ct_breakpoints (qs_ctl q)"
    using r by (auto simp: do_step_def Let_def split: prod.splits)
  have v: "view_ok q" using assms(2) by (simp add: quick_ok_def)
  show ?thesis
    using deliver_notified(2,3) [OF good_wf [OF g] v b] do_step_published(4) [OF r] by blast
qed

lemma step_notified: "quick_ok q \<Longrightarrow> notified {} q (quick_step q)"
  using deliver_step_notified [of q] notified_then [OF _ set_status_notified]
  by (simp add: quick_step_def step_cycle_def Let_def)

lemma tick_notified: "quick_ok q \<Longrightarrow> notified {} q (quick_tick q)"
  using deliver_step_notified [of q] by (simp add: quick_tick_def on_run_timer_def) (simp add: deliver_def)

lemma run_pause_notified: "notified {} q (run_pause q)"
proof -
  have "notified {PRunning} q (q\<lparr>qs_ctl := ctl_stop (qs_ctl q)\<rparr>)" "notified {PRunning} q (q\<lparr>qs_ctl := ctl_run (qs_ctl q)\<rparr>)"
    by (rule notified_mono [OF ctl_update_notified]; auto simp: ctl_stop_def ctl_run_def)+
  then have "notified {PRunning} q (set_status t (q\<lparr>qs_ctl := ctl_stop (qs_ctl q)\<rparr>))"
    "notified {PRunning} q (set_status t (q\<lparr>qs_ctl := ctl_run (qs_ctl q)\<rparr>))" for t
    using notified_then set_status_notified by blast+
  from this [THEN emit_notified, of RunningChanged] show ?thesis by (simp add: run_pause_def)
qed

text \<open>The compound operations: what is pending after the assignments is announced by what follows.\<close>

lemma clear_views_notified: "notified {PStats, PTrace, PPipeline} q (clear_views q)"
proof -
  let ?q = "q\<lparr>qs_stats := stats_zero, qs_trace := [], qs_cache := [], qs_stages := [], qs_hazards := [],
      qs_regs := rm_reset_all (qs_regs q)\<rparr>"
  have "notified ({PStats, PTrace, PPipeline} \<union> range PRow) q ?q"
  proof (intro notifiedI [of _ _ "[]"])
    fix p
    assume "p \<notin> {PStats, PTrace, PPipeline} \<union> range PRow" "prop_changed p q ?q"
    then show "\<exists>s\<in>set []. announces s p" by (cases p) (auto simp: quick_is_running_def)
  qed simp
  from emit_notified [OF this, of RowsReset] have "notified {PStats, PTrace, PPipeline} q (emit RowsReset ?q)"
    by (rule notified_mono) auto
  then show ?thesis by (simp add: clear_views_def reset_rows_def)
qed

lemma reset_notified:
  assumes "quick_ok q" "quick_reset q = Some q'"
  shows "notified {} q q'"
proof -
  let ?q1 = "q\<lparr>qs_ctl := ctl_stop (qs_ctl q)\<rparr>" and ?P = "{PRunning, PStats, PTrace, PPipeline}"
  have 1: "notified {PRunning} q ?q1" by (rule notified_mono [OF ctl_update_notified]) (auto simp: ctl_stop_def)
  have "notified ?P q (clear_views ?q1)"
    using notified_trans [OF 1 clear_views_notified] by (rule notified_mono) auto
  moreover have c: "qs_ctl (clear_views ?q1) = ctl_stop (qs_ctl q)" by (simp add: clear_views_def reset_rows_def)
  have g: "ctl_good (qs_model q) (ctl_stop (qs_ctl q))" using assms(1) by (simp add: quick_ok_def)
  obtain sg k' where k': "ctl_reset any_ops (ctl_stop (qs_ctl q)) = Some (sg, k')" "ctl_good (qs_model q) k'"
    using reset_good [OF g] by auto
  have bp: "ct_breakpoints k' = ct_breakpoints (ctl_stop (qs_ctl q))"
    using k'(1) by (auto simp: ctl_reset_def Let_def split: option.splits)
  have "notified {PRunning} (clear_views ?q1) (deliver (sg, k') (clear_views ?q1))"
    using k'(2) bp c by (intro deliver_notified(1)) (simp_all add: good_wf)
  ultimately have "notified (?P \<union> {PRunning}) q (deliver (sg, k') (clear_views ?q1))" by (rule notified_trans)
  then have "notified ?P q (deliver (sg, k') (clear_views ?q1))" by (rule notified_mono) auto
  from this [THEN emit_notified, of StatsChanged, THEN emit_notified, of TraceChanged, THEN emit_notified, of PipelineChanged,
      THEN emit_notified, of RunningChanged]
  have "notified {} q (emit RunningChanged (emit PipelineChanged (emit TraceChanged (emit StatsChanged
      (deliver (sg, k') (clear_views ?q1))))))"
    by (rule notified_mono) auto
  from notified_then [OF this set_status_notified] show ?thesis
    using assms(2) k'(1) by (auto simp: quick_reset_def Let_def c)
qed

lemma load_last_notified:
  assumes "load_last q = Some (b, q')" "ctl_good (qs_model q) (qs_ctl q)" "view_ok q"
  shows "notified {PRunning} q q'"
proof -
  obtain sg k' where k': "ctl_load_program any_ops (qs_last_program q) 0 (qs_ctl q) = Some (b, sg, k')" "ctl_good (qs_model q) k'"
    using load_good [OF assms(2), of "qs_last_program q"] assms(1) by (auto simp: load_last_def)
  have "ct_breakpoints k' = ct_breakpoints (qs_ctl q)" using k'(1) by (auto simp: ctl_load_program_def split: option.splits)
  then have "notified {PRunning} q (deliver (sg, k') q)"
    using good_wf [OF k'(2)] assms(3) by (intro deliver_notified(1)) simp_all
  then show ?thesis using assms(1) k'(1) by (simp add: load_last_def)
qed

lemma loaded_notified: "notified {PProgramLoaded} q (q\<lparr>qs_loaded := b\<rparr>)"
proof (intro notifiedI [of _ _ "[]"])
  fix p
  assume "p \<notin> {PProgramLoaded}" "prop_changed p q (q\<lparr>qs_loaded := b\<rparr>)"
  then show "\<exists>s\<in>set []. announces s p" by (cases p) (simp_all add: quick_is_running_def)
qed simp

lemma assemble_notified:
  assumes "quick_ok q" "assemble_and_load source q = Some (msg, q')"
  shows "notified {} q q'"
proof (cases "ar_error (assemble source)")
  case (Some msg)
  then show ?thesis using assms(2) emit_notified0 by (auto simp: assemble_and_load_def)
next
  case None
  let ?q1 = "q\<lparr>qs_ctl := ctl_stop (qs_ctl q)\<rparr>"
  have 1: "notified {PRunning} q ?q1" by (rule notified_mono [OF ctl_update_notified]) (auto simp: ctl_stop_def)
  have g: "ctl_good (qs_model q) (ctl_stop (qs_ctl q))" using assms(1) by (simp add: quick_ok_def)
  obtain sg k' where k': "ctl_reset any_ops (ctl_stop (qs_ctl q)) = Some (sg, k')" "ctl_good (qs_model q) k'"
    using reset_good [OF g] by auto
  have bp: "ct_breakpoints k' = ct_breakpoints (ctl_stop (qs_ctl q))"
    using k'(1) by (auto simp: ctl_reset_def Let_def split: option.splits)
  have v: "view_ok ?q1" using assms(1) by (simp add: quick_ok_def)
  have 2: "notified {PRunning} ?q1 (deliver (sg, k') ?q1)"
    using k'(2) bp v by (intro deliver_notified(1)) (simp_all add: good_wf)
  let ?q3 = "(deliver (sg, k') ?q1)\<lparr>qs_last_program := ar_words (assemble source)\<rparr>"
  have 3: "notified {} (deliver (sg, k') ?q1) ?q3"
  proof (intro notifiedI [of _ _ "[]"])
    fix p
    assume "prop_changed p (deliver (sg, k') ?q1) ?q3"
    then show "\<exists>s\<in>set []. announces s p" by (cases p) (simp_all add: quick_is_running_def)
  qed simp
  obtain b q4 where l: "load_last ?q3 = Some (b, q4)" using assms(2) None k'(1) by (auto simp: assemble_and_load_def)
  have "view_ok ?q3" using deliver_ok [of "(sg, k')" ?q1] good_wf [OF k'(2)] v by simp
  then have 4: "notified {PRunning} ?q3 q4" using k'(2) by (intro load_last_notified [OF l]) simp_all
  let ?q5 = "q4\<lparr>qs_loaded := b, qs_stats := stats_zero, qs_trace := [], qs_cache := [], qs_regs := rm_reset_all (qs_regs q4)\<rparr>"
  have 5: "notified ({PProgramLoaded, PStats, PTrace} \<union> range PRow) q4 ?q5"
  proof (intro notifiedI [of _ _ "[]"])
    fix p
    assume "p \<notin> {PProgramLoaded, PStats, PTrace} \<union> range PRow" "prop_changed p q4 ?q5"
    then show "\<exists>s\<in>set []. announces s p" by (cases p) (auto simp: quick_is_running_def)
  qed simp
  have "notified ({PRunning, PProgramLoaded, PStats, PTrace} \<union> range PRow) q ?q5"
    using notified_trans [OF notified_trans [OF notified_trans [OF notified_trans [OF 1 2] 3] 4] 5]
    by (rule notified_mono) auto
  from this [THEN emit_notified, of RowsReset, THEN emit_notified, of ProgramLoadedChanged, THEN emit_notified, of StatsChanged,
      THEN emit_notified, of TraceChanged, THEN emit_notified, of RunningChanged]
  have "notified {} q (emit RunningChanged (emit TraceChanged (emit StatsChanged (emit ProgramLoadedChanged (emit RowsReset ?q5)))))"
    (is "notified {} q ?q6")
    by (rule notified_mono) auto
  note n = notified_then [OF this set_status_notified] notified_then [OF notified_then [OF this emit_notified0] set_status_notified]
  show ?thesis
    using assms(2) None k'(1) l n by (cases b) (auto simp: assemble_and_load_def Let_def reset_rows_def)
qed

section \<open>Switching the model\<close>

definition silent :: "quick \<Rightarrow> quick \<Rightarrow> bool" where
  "silent q q' \<longleftrightarrow> (\<exists>new. qs_out q' = qs_out q @ new \<and> RunningChanged \<notin> set new \<and> BreakpointsChanged \<notin> set new)"

lemma silent_trans: "silent a b \<Longrightarrow> silent b c \<Longrightarrow> silent a c"
  by (auto simp: silent_def)

lemma silentI: "qs_out q' = qs_out q \<Longrightarrow> silent q q'"
  by (simp add: silent_def)

lemma silent_emit: "silent a b \<Longrightarrow> s \<noteq> RunningChanged \<Longrightarrow> s \<noteq> BreakpointsChanged \<Longrightarrow> silent a (emit s b)"
  by (auto simp: silent_def)

lemma silent_status: "silent a b \<Longrightarrow> silent a (set_status t b)"
  by (auto simp: set_status_def intro: silent_emit simp: silent_def)

lemma silent_signal: "\<not> stop_signal sg \<Longrightarrow> silent q (on_signal sg q)"
  by (cases sg) (auto simp: stop_signal_def on_signal_def on_pipeline_def append_trace_def Let_def silent_def split: prod.split)

lemma silent_fold: "filter stop_signal sgs = [] \<Longrightarrow> silent q (fold on_signal sgs q)"
proof (induction sgs arbitrary: q)
  case (Cons sg sgs)
  then have n: "\<not> stop_signal sg" "filter stop_signal sgs = []" by (auto split: if_splits)
  show ?case using silent_trans [OF silent_signal [OF n(1)] Cons.IH [OF n(2)]] by simp
qed (simp add: silentI)

lemma load_last_silent:
  assumes "load_last q = Some (b, q')"
  shows "silent q q'" "ct_active (qs_ctl q') = False" "ct_breakpoints (qs_ctl q') = ct_breakpoints (qs_ctl q)"
proof -
  obtain sg k' where k: "ctl_load_program any_ops (qs_last_program q) 0 (qs_ctl q) = Some (b, sg, k')" "q' = deliver (sg, k') q"
    using assms by (auto simp: load_last_def)
  have f: "filter stop_signal sg = []" "ct_active k' = False" "ct_breakpoints k' = ct_breakpoints (qs_ctl q)"
    using k(1) by (auto simp: ctl_load_program_def stop_signal_def split: option.splits)
  have "silent q (q\<lparr>qs_ctl := k'\<rparr>)" by (rule silentI) simp
  from silent_trans [OF this silent_fold [OF f(1)]] show "silent q q'" by (simp add: k(2) deliver_def)
  show "ct_active (qs_ctl q') = False" "ct_breakpoints (qs_ctl q') = ct_breakpoints (qs_ctl q)" by (simp_all add: k(2) f)
qed

lemma rebuild_facts:
  assumes "rebuild_controller q = Some q'" "qs_model q \<in> {''single'', ''pipelined''}"
  shows "silent q q'" "ct_active (qs_ctl q') = False" "ct_breakpoints (qs_ctl q') = {}"
    "notified {PRunning, PBreakpoints} q q'"
proof -
  let ?k = "set_execution_speed (qs_speed q) (ctl_create (make_processor (qs_model q)))"
  let ?q1 = "q\<lparr>qs_ctl := ?k\<rparr>" and ?q2 = "clear_views (q\<lparr>qs_ctl := ?k\<rparr>)"
  have k: "ct_active ?k = False" "ct_breakpoints ?k = {}" by (simp_all add: set_execution_speed_def ctl_create_def)
  have g: "ctl_good (qs_model q) ?k" using create_good [OF assms(2)] by (rule simple_good)
  have f: "qs_ctl ?q2 = ?k" "qs_last_program ?q2 = qs_last_program q" "qs_model ?q2 = qs_model q"
    by (simp_all add: clear_views_def reset_rows_def)
  have s2: "silent q ?q2" by (simp add: clear_views_def reset_rows_def silent_def)
  have "notified {PRunning, PBreakpoints} q ?q1" by (rule notified_mono [OF ctl_update_notified]) auto
  from notified_trans [OF this clear_views_notified]
  have n2: "notified {PRunning, PBreakpoints, PStats, PTrace, PPipeline} q ?q2" by (rule notified_mono) auto
  have finish: "silent q (set_status ''Idle'' (emit PipelineChanged (emit TraceChanged (emit StatsChanged q3))))
    \<and> notified {PRunning, PBreakpoints} q (set_status ''Idle'' (emit PipelineChanged (emit TraceChanged (emit StatsChanged q3))))"
    if "silent q q3" "notified {PRunning, PBreakpoints, PStats, PTrace, PPipeline} q q3" for q3
  proof
    show "silent q (set_status ''Idle'' (emit PipelineChanged (emit TraceChanged (emit StatsChanged q3))))"
      using that(1) by (intro silent_status silent_emit) simp_all
    from that(2) [THEN emit_notified, of StatsChanged, THEN emit_notified, of TraceChanged, THEN emit_notified, of PipelineChanged]
    have "notified {PRunning, PBreakpoints} q (emit PipelineChanged (emit TraceChanged (emit StatsChanged q3)))"
      by (rule notified_mono) auto
    from notified_then [OF this set_status_notified]
    show "notified {PRunning, PBreakpoints} q (set_status ''Idle'' (emit PipelineChanged (emit TraceChanged (emit StatsChanged q3))))" .
  qed
  have "silent q q' \<and> ct_active (qs_ctl q') = False \<and> ct_breakpoints (qs_ctl q') = {} \<and> notified {PRunning, PBreakpoints} q q'"
  proof (cases "qs_last_program q = []")
    case True
    then show ?thesis using assms(1) finish [OF s2 n2] k by (auto simp: rebuild_controller_def Let_def f)
  next
    case False
    then obtain b q3 where l: "load_last ?q2 = Some (b, q3)" using assms(1) by (auto simp: rebuild_controller_def Let_def f)
    note ls = load_last_silent [OF l]
    have n3: "notified {PRunning, PBreakpoints, PStats, PTrace, PPipeline, PProgramLoaded} q (q3\<lparr>qs_loaded := b\<rparr>)"
    proof (rule notified_mono)
      show "notified ({PRunning, PBreakpoints, PStats, PTrace, PPipeline} \<union> {PRunning} \<union> {PProgramLoaded}) q (q3\<lparr>qs_loaded := b\<rparr>)"
        using g f by (intro notified_trans [OF notified_trans [OF n2 load_last_notified [OF l]] loaded_notified]) simp_all
    qed auto
    define q4 where "q4 = (if \<not> b then emit (AssemblyError too_large) (q3\<lparr>qs_loaded := b\<rparr>) else q3\<lparr>qs_loaded := b\<rparr>)"
    have q4: "notified {PRunning, PBreakpoints, PStats, PTrace, PPipeline, PProgramLoaded} q q4"
      using n3 notified_then [OF n3 emit_notified0] by (cases b) (simp_all add: q4_def)
    from emit_notified [OF this, of ProgramLoadedChanged]
    have n5: "notified {PRunning, PBreakpoints, PStats, PTrace, PPipeline} q (emit ProgramLoadedChanged q4)"
      by (rule notified_mono) auto
    have "silent q (q3\<lparr>qs_loaded := b\<rparr>)" using silent_trans [OF s2 ls(1)] by (simp add: silent_def)
    then have s5: "silent q (emit ProgramLoadedChanged q4)" by (auto simp: q4_def intro!: silent_emit)
    have "q' = set_status ''Idle'' (emit PipelineChanged (emit TraceChanged (emit StatsChanged (emit ProgramLoadedChanged q4))))"
      using assms(1) False l by (auto simp: rebuild_controller_def Let_def f q4_def)
    moreover have "qs_ctl q4 = qs_ctl q3" by (simp add: q4_def)
    ultimately show ?thesis using finish [OF s5 n5] ls(2,3) k f by simp
  qed
  then show "silent q q'" "ct_active (qs_ctl q') = False" "ct_breakpoints (qs_ctl q') = {}"
    "notified {PRunning, PBreakpoints} q q'" by blast+
qed

lemma set_model_facts:
  assumes "set_model m q = Some q'" "m \<noteq> qs_model q" "m \<in> {''single'', ''pipelined''}"
  shows "silent q q'" "ct_active (qs_ctl q') = False" "ct_breakpoints (qs_ctl q') = {}"
    "notified {PRunning, PBreakpoints} q q'"
proof -
  obtain q2 where r: "rebuild_controller (q\<lparr>qs_model := m\<rparr>) = Some q2" "q' = emit ModelChanged q2"
    using assms by (auto simp: set_model_def)
  have "qs_model (q\<lparr>qs_model := m\<rparr>) \<in> {''single'', ''pipelined''}" using assms(3) by simp
  note f = rebuild_facts [OF r(1) this]
  show "ct_active (qs_ctl q') = False" "ct_breakpoints (qs_ctl q') = {}" using f(2,3) by (simp_all add: r(2))
  show "silent q q'" unfolding r(2) using f(1) by (intro silent_emit) (simp_all add: silent_def)
  have "notified {PModel} q (q\<lparr>qs_model := m\<rparr>)"
  proof (intro notifiedI [of _ _ "[]"])
    fix p
    assume "p \<notin> {PModel}" "prop_changed p q (q\<lparr>qs_model := m\<rparr>)"
    then show "\<exists>s\<in>set []. announces s p" by (cases p) (simp_all add: quick_is_running_def)
  qed simp
  from emit_notified [OF notified_trans [OF this f(4)], of ModelChanged]
  show "notified {PRunning, PBreakpoints} q q'" unfolding r(2) by (rule notified_mono) auto
qed

lemma toggle_notified: "notified {} q (toggle_breakpoint pc q)"
proof -
  let ?k = "if has_breakpoint (qs_ctl q) pc then clear_breakpoint pc (qs_ctl q) else set_breakpoint pc (qs_ctl q)"
  have "ct_active ?k = ct_active (qs_ctl q)" by (simp add: clear_breakpoint_def set_breakpoint_def)
  then have "notified {PBreakpoints} q (q\<lparr>qs_ctl := ?k\<rparr>)" by (intro notified_mono [OF ctl_update_notified]) auto
  from emit_notified [OF this, of BreakpointsChanged] show ?thesis by (simp add: toggle_breakpoint_def)
qed

lemma speed_notified: "notified {} q (set_speed s q)"
proof -
  let ?s = "max 0 (min 100 s)"
  have "notified {PSpeed} q (q\<lparr>qs_speed := ?s, qs_ctl := set_execution_speed ?s (qs_ctl q)\<rparr>)"
  proof (intro notifiedI [of _ _ "[]"])
    fix p
    assume "p \<notin> {PSpeed}" "prop_changed p q (q\<lparr>qs_speed := ?s, qs_ctl := set_execution_speed ?s (qs_ctl q)\<rparr>)"
    then show "\<exists>s\<in>set []. announces s p"
      by (cases p) (simp_all add: quick_is_running_def is_running_def set_execution_speed_def)
  qed simp
  from emit_notified [OF this, of SpeedChanged] show ?thesis by (simp add: set_speed_def Let_def)
qed

lemma event_notified:
  assumes "quick_ok q" "handle_event e q = Some q'"
  shows "notified (case e of EvModel _ \<Rightarrow> {PRunning, PBreakpoints} | _ \<Rightarrow> {}) q q'"
proof (cases e)
  case (EvModel m)
  show ?thesis
  proof (cases "m = qs_model q \<or> m \<noteq> ''pipelined'' \<and> m \<noteq> ''single''")
    case True
    then show ?thesis using assms(2) EvModel by (auto simp: set_model_def)
  next
    case False
    then show ?thesis using set_model_facts(4) [of m q q'] assms(2) EvModel by auto
  qed
next
  case (EvAssemble source)
  then show ?thesis using assemble_notified [OF assms(1)] assms(2) by auto
qed (use assms step_notified tick_notified run_pause_notified reset_notified toggle_notified speed_notified in auto)

section \<open>Properties\<close>

text \<open>C23: Every state the bridge can reach is consistent, and every event is handled in it. The processor is of the class the model's name says and has the memory of \<open>kMemorySize\<close> bytes, the speed is in its range and is the timer's interval, the trace grid is bounded and its cache current, the register model has 32 rows, and a program that counts as loaded is the one the controller restores; no event calls \<open>load_words\<close> against its precondition, and the state it leaves is again such a state.\<close>

theorem quick_invariant:
  assumes "quick_reach q"
  shows "(qs_model q = (if is_sc (ct_cpu (qs_ctl q)) then ''single'' else ''pipelined''))
    \<and> mem_size (op_mem any_ops (ct_cpu (qs_ctl q))) = kMemorySize
    \<and> 0 \<le> qs_speed q \<and> qs_speed q \<le> 100 \<and> ct_interval (qs_ctl q) = (100 - qs_speed q) * 5
    \<and> length (qs_trace q) \<le> kTraceMaxRows \<and> qs_cache q = map trace_view_of (qs_trace q) \<and> rm_row_count (qs_regs q) = 32
    \<and> (qs_loaded q \<longrightarrow> ct_loaded (qs_ctl q) = Some \<lparr>lp_words = qs_last_program q, lp_addr = 0\<rparr>)
    \<and> (\<exists>q'. handle_event e q = Some q' \<and> quick_reach q')"
proof -
  have ok: "quick_ok q" by (rule quick_reach_ok [OF assms])
  obtain q' where "handle_event e q = Some q'" using handle_event_ok [OF ok] by blast
  then have "\<exists>q'. handle_event e q = Some q' \<and> quick_reach q'" using quick_reach.event [OF assms] by blast
  then show ?thesis using ok by (simp add: quick_ok_def ctl_good_def view_ok_def rm_row_count_def)
qed

lemma quick_invariant_witness: "\<exists>q q'. quick_create = Some q \<and> handle_event (EvModel ''single'') q = Some q' \<and> rm_row_count (qs_regs q') = 32"
proof -
  obtain q where q: "quick_create = Some q" using create_ok by blast
  then have r: "quick_reach q" by (rule quick_reach.create)
  obtain q' where q': "handle_event (EvModel ''single'') q = Some q'" "quick_reach q'"
    using quick_invariant [OF r, of "EvModel ''single''"] by blast
  from quick_invariant [OF q'(2)] q q'(1) show ?thesis by blast
qed

text \<open>C24: What QML can see does not change silently. Whatever an event changes of the properties the bridge exports, of the breakpoints and of the rows of the register model, a signal that announces it is emitted by that event; the one exception is the switch of the model, which may change whether the simulation runs and which breakpoints are set without saying so.\<close>

theorem changes_are_notified:
  assumes "quick_reach q" "handle_event e q = Some q'" "prop_changed p q q'"
  shows "(\<exists>s\<in>set (new_signals q q'). announces s p) \<or> (\<exists>m. e = EvModel m \<and> (p = PRunning \<or> p = PBreakpoints))"
proof -
  have "notified (case e of EvModel _ \<Rightarrow> {PRunning, PBreakpoints} | _ \<Rightarrow> {}) q q'"
    by (rule event_notified [OF quick_reach_ok [OF assms(1)] assms(2)])
  then obtain new where n: "qs_out q' = qs_out q @ new"
    "p \<notin> (case e of EvModel _ \<Rightarrow> {PRunning, PBreakpoints} | _ \<Rightarrow> {}) \<longrightarrow> (\<exists>s\<in>set new. announces s p)"
    using assms(3) by (auto simp: notified_def)
  then show ?thesis by (cases e) (auto simp: new_signals_def)
qed

lemma changes_are_notified_witness:
  "\<exists>q. quick_create = Some q \<and> (\<exists>s\<in>set (new_signals q (set_speed 100 q)). announces s PSpeed)"
proof -
  obtain q where q: "quick_create = Some q" "quick_ok q" using create_ok by blast
  have "qs_speed q = 60" by (rule create_speed [OF q(1)])
  then have "prop_changed PSpeed q (set_speed 100 q)" by (simp add: set_speed_def)
  with changes_are_notified [OF quick_reach.create [OF q(1)], of "EvSpeed 100" "set_speed 100 q" PSpeed] q(1)
  show ?thesis by auto
qed

text \<open>The switch of the model is not announced as a stop. Switching to the other model replaces the controller: the run timer is off and the breakpoints are gone afterwards, and the event emits neither \<open>runningChanged\<close> nor \<open>breakpointsChanged\<close>, so a front end that was shown a running simulation or breakpoints is not told.\<close>

theorem model_switch_unannounced:
  assumes "handle_event (EvModel m) q = Some q'" "m \<noteq> qs_model q" "m \<in> {''single'', ''pipelined''}"
  shows "\<not> quick_is_running q' \<and> \<not> quick_has_breakpoint q' pc
    \<and> RunningChanged \<notin> set (new_signals q q') \<and> BreakpointsChanged \<notin> set (new_signals q q')"
proof -
  have "set_model m q = Some q'" using assms(1) by simp
  note f = set_model_facts [OF this assms(2,3)]
  show ?thesis
    using f(1-3) by (auto simp: quick_is_running_def is_running_def quick_has_breakpoint_def has_breakpoint_def
        silent_def new_signals_def)
qed

lemma model_switch_unannounced_witness:
  "\<exists>q q'. quick_create = Some q \<and> handle_event (EvModel ''single'') (toggle_breakpoint 4 q) = Some q'
     \<and> quick_has_breakpoint (toggle_breakpoint 4 q) 4 \<noteq> quick_has_breakpoint q' 4
     \<and> BreakpointsChanged \<notin> set (new_signals (toggle_breakpoint 4 q) q')"
proof -
  obtain q where q: "quick_create = Some q" using create_ok by blast
  let ?q = "toggle_breakpoint 4 q"
  have "quick_ok ?q" using handle_event_ok [OF quick_reach_ok [OF quick_reach.create [OF q]], of "EvToggle 4"] by simp
  then obtain q' where q': "handle_event (EvModel ''single'') ?q = Some q'"
    using handle_event_ok by blast
  have "qs_model ?q = ''pipelined''" using create_model [OF q] by (simp add: toggle_breakpoint_def)
  moreover have "quick_has_breakpoint ?q 4"
    using create_breakpoints [OF q]
    by (simp add: quick_has_breakpoint_def toggle_breakpoint_def has_breakpoint_def set_breakpoint_def)
  ultimately show ?thesis using model_switch_unannounced [OF q', of 4] q q' by auto
qed

end
