(* ===== verification/QuickViews.thy ===== *)
theory QuickViews
  imports QuickSession
begin

unbundle bit_operations_syntax

text \<open>
  What the views of the QML bridge show: when the register model holds the registers of the
  processor, what a pause leaves, how a manual step reports a breakpoint, and what each column of
  a row of the memory dump says.
\<close>

section \<open>The registers shown and the registers of the processor\<close>

definition mirrors :: "quick \<Rightarrow> bool" where
  "mirrors q \<longleftrightarrow> rm_values (qs_regs q) = rf_regs (op_regs any_ops (ct_cpu (qs_ctl q)))
     \<and> rm_last (qs_regs q) = rf_last (op_regs any_ops (ct_cpu (qs_ctl q)))"

lemma mirrors_simps [simp]:
  "mirrors (emit s q) = mirrors q" "mirrors (set_status t q) = mirrors q"
  by (simp_all add: mirrors_def)

lemma mirrors_updates [simp]:
  "mirrors (q\<lparr>qs_loaded := b\<rparr>) = mirrors q" "mirrors (q\<lparr>qs_last_program := ws\<rparr>) = mirrors q"
  "mirrors (q\<lparr>qs_stats := st\<rparr>) = mirrors q" "mirrors (q\<lparr>qs_model := m\<rparr>) = mirrors q"
  "mirrors (q\<lparr>qs_status := t\<rparr>) = mirrors q"
  by (simp_all add: mirrors_def)

lemma on_pipeline_mirrors:
  assumes "regs_wf (op_regs any_ops (ct_cpu (qs_ctl q)))" "view_ok q"
  shows "mirrors (on_pipeline ps q)"
  using rm_refresh_result [OF assms(1), of "qs_regs q"] assms(2) by (simp add: on_pipeline_def mirrors_def view_ok_def)

lemma on_signal_mirrors:
  "\<lbrakk>regs_wf (op_regs any_ops (ct_cpu (qs_ctl q))); view_ok q; mirrors q \<or> (\<exists>ps. sg = PipelineStateChanged ps)\<rbrakk>
   \<Longrightarrow> mirrors (on_signal sg q)"
  using on_pipeline_mirrors [of q] by (cases sg) (auto simp: on_signal_def)

lemma fold_signal_mirrors:
  "\<lbrakk>regs_wf (op_regs any_ops (ct_cpu (qs_ctl q))); view_ok q; mirrors q \<or> (\<exists>ps. PipelineStateChanged ps \<in> set sgs)\<rbrakk>
   \<Longrightarrow> mirrors (fold on_signal sgs q)"
proof (induction sgs arbitrary: q)
  case (Cons sg sgs)
  have "view_ok (on_signal sg q)" using fold_signal_ok [OF Cons.prems(1,2), of "[sg]"] by simp
  moreover have "mirrors (on_signal sg q) \<or> (\<exists>ps. PipelineStateChanged ps \<in> set sgs)"
    using on_signal_mirrors [OF Cons.prems(1,2), of sg] Cons.prems(3) by auto
  ultimately show ?case using Cons.IH [of "on_signal sg q"] Cons.prems(1) by simp
qed simp

lemma deliver_mirrors:
  assumes "regs_wf (op_regs any_ops (ct_cpu (snd r)))" "view_ok q" "PipelineStateChanged ps \<in> set (fst r)"
  shows "mirrors (deliver r q)"
  unfolding deliver_def using assms by (intro fold_signal_mirrors) auto

text \<open>Without a pipeline signal there is no change of the pipeline view.\<close>

lemma quiet_signal: "\<not> (\<exists>ps. sg = PipelineStateChanged ps) \<Longrightarrow> PipelineChanged \<notin> set (new_signals q (on_signal sg q))"
  by (cases sg) (auto simp: on_signal_def new_signals_def set_status_def)

lemma out_grows_signal: "\<exists>new. qs_out (on_signal sg q) = qs_out q @ new"
  by (cases sg) (auto simp: on_signal_def set_status_def on_pipeline_def append_trace_def Let_def split: prod.split)

lemma out_grows: "\<exists>new. qs_out (fold on_signal sgs q) = qs_out q @ new"
proof (induction sgs arbitrary: q)
  case (Cons sg sgs)
  obtain a b where "qs_out (on_signal sg q) = qs_out q @ a"
    "qs_out (fold on_signal sgs (on_signal sg q)) = qs_out (on_signal sg q) @ b"
    using out_grows_signal [of sg q] Cons.IH [of "on_signal sg q"] by blast
  then show ?case by simp
qed simp

lemma quiet_fold:
  "\<not> (\<exists>ps. PipelineStateChanged ps \<in> set sgs) \<Longrightarrow> PipelineChanged \<notin> set (new_signals q (fold on_signal sgs q))"
proof (induction sgs arbitrary: q)
  case (Cons sg sgs)
  obtain a where a: "qs_out (on_signal sg q) = qs_out q @ a" using out_grows_signal by blast
  obtain b where b: "qs_out (fold on_signal sgs (on_signal sg q)) = qs_out (on_signal sg q) @ b" using out_grows by blast
  have "PipelineChanged \<notin> set a" using quiet_signal [of sg q] Cons.prems a by (auto simp: new_signals_def)
  moreover have "PipelineChanged \<notin> set b" using Cons.IH [of "on_signal sg q"] Cons.prems b by (auto simp: new_signals_def)
  ultimately show ?case by (simp add: a b new_signals_def)
qed (simp add: new_signals_def)

section \<open>Every event\<close>

lemma deliver_step_mirrors:
  assumes "do_step any_cp0 any_ops (qs_ctl q) = r" "quick_ok q"
  shows "PipelineChanged \<in> set (new_signals q (deliver r q)) \<Longrightarrow> mirrors (deliver r q)"
    "mirrors (deliver r q) \<or> ct_active (snd r) \<and> qs_speed q = 100"
proof -
  have r: "do_step any_cp0 any_ops (qs_ctl q) = (fst r, snd r)" using assms(1) by simp
  have wf: "regs_wf (op_regs any_ops (ct_cpu (snd r)))"
    using do_step_good [OF r] assms(2) good_wf by (auto simp: quick_ok_def)
  have v: "view_ok q" using assms(2) by (simp add: quick_ok_def)
  note m = deliver_mirrors [OF wf v]
  have up: "(\<exists>ps. PipelineStateChanged ps \<in> set (fst r)) \<or> ct_active (snd r) \<and> ct_interval (qs_ctl q) = 0"
    using r by (auto simp: do_step_def Let_def split: prod.splits)
  then show "mirrors (deliver r q) \<or> ct_active (snd r) \<and> qs_speed q = 100"
    using m assms(2) by (auto simp: quick_ok_def)
  assume "PipelineChanged \<in> set (new_signals q (deliver r q))"
  then have "\<exists>ps. PipelineStateChanged ps \<in> set (fst r)"
    using quiet_fold [of "fst r" "q\<lparr>qs_ctl := snd r\<rparr>"] by (auto simp: deliver_def new_signals_def)
  then show "mirrors (deliver r q)" using m by blast
qed

lemma step_mirrors:
  assumes "quick_ok q"
  shows "PipelineChanged \<in> set (new_signals q (quick_step q)) \<Longrightarrow> mirrors (quick_step q)"
    "mirrors q \<Longrightarrow> mirrors (quick_step q) \<or> quick_is_running (quick_step q) \<and> qs_speed (quick_step q) = 100"
proof -
  let ?d = "deliver (do_step any_cp0 any_ops (qs_ctl q)) q"
  note d = deliver_step_mirrors [OF refl assms]
  have e: "quick_step q = q \<or> quick_step q = ?d \<or> quick_step q = set_status ''Paused'' ?d"
    by (simp add: quick_step_def step_cycle_def Let_def)
  obtain new where o: "qs_out ?d = qs_out q @ new"
    using out_grows [of _ "q\<lparr>qs_ctl := _\<rparr>"] by (auto simp: deliver_def)
  show "mirrors (quick_step q)" if "PipelineChanged \<in> set (new_signals q (quick_step q))"
    using that e d(1) o by (auto simp: new_signals_def set_status_def split: if_splits)
  show "mirrors (quick_step q) \<or> quick_is_running (quick_step q) \<and> qs_speed (quick_step q) = 100" if "mirrors q"
    using that e d(2) by (auto simp: quick_is_running_def is_running_def)
qed

lemma tick_mirrors:
  assumes "quick_ok q"
  shows "PipelineChanged \<in> set (new_signals q (quick_tick q)) \<Longrightarrow> mirrors (quick_tick q)"
    "mirrors q \<Longrightarrow> mirrors (quick_tick q) \<or> quick_is_running (quick_tick q) \<and> qs_speed (quick_tick q) = 100"
proof -
  note d = deliver_step_mirrors [OF refl assms]
  have "quick_tick q = q \<or> quick_tick q = deliver (do_step any_cp0 any_ops (qs_ctl q)) q"
    by (simp add: quick_tick_def on_run_timer_def deliver_def)
  then show "mirrors (quick_tick q)" if "PipelineChanged \<in> set (new_signals q (quick_tick q))"
    using that d(1) by (auto simp: new_signals_def)
  show "mirrors (quick_tick q) \<or> quick_is_running (quick_tick q) \<and> qs_speed (quick_tick q) = 100" if "mirrors q"
    using that d(2) \<open>quick_tick q = q \<or> _\<close> by (auto simp: quick_is_running_def is_running_def)
qed

lemma reset_mirrors:
  assumes "quick_ok q" "quick_reset q = Some q'"
  shows "mirrors q'"
proof -
  let ?q = "clear_views (q\<lparr>qs_ctl := ctl_stop (qs_ctl q)\<rparr>)"
  have c: "qs_ctl ?q = ctl_stop (qs_ctl q)" by (simp add: clear_views_def reset_rows_def)
  have "ctl_good (qs_model q) (ctl_stop (qs_ctl q))" using assms(1) by (simp add: quick_ok_def)
  from reset_good [OF this] obtain sg k' where k': "ctl_reset any_ops (ctl_stop (qs_ctl q)) = Some (sg, k')"
    "ctl_good (qs_model q) k'" by blast
  have "\<exists>ps. PipelineStateChanged ps \<in> set sg"
    using k'(1) by (auto simp: ctl_reset_def Let_def split: option.splits)
  then have "mirrors (deliver (sg, k') ?q)"
    using deliver_mirrors [of "(sg, k')" ?q] good_wf [OF k'(2)] by auto
  then show ?thesis using assms(2) k'(1) by (auto simp: quick_reset_def Let_def c)
qed

lemma load_regs:
  assumes "ctl_load_program any_ops ws a k = Some (b, sg, k')" "regs_wf (op_regs any_ops (ct_cpu k))"
  shows "op_regs any_ops (ct_cpu k') = regs_init"
proof -
  obtain cpu where c: "op_load_program any_ops ws a (op_reset any_ops True (ct_cpu k)) = Some (b, cpu)" "ct_cpu k' = cpu"
    using assms(1) by (auto simp: ctl_load_program_def split: option.splits)
  have "op_regs any_ops cpu = op_regs any_ops (op_reset any_ops True (ct_cpu k))"
    using c(1) by (auto simp: any_sim.load_program any_sim.regs_set_pc any_sim.regs_put_mem split: option.splits)
  then show ?thesis using c(2) assms(2) by (simp add: any_sim.reset_regs regs_reset_wf)
qed

lemma reset_rows_mirrors: "mirrors (reset_rows q) \<longleftrightarrow> rf_regs (op_regs any_ops (ct_cpu (qs_ctl q))) = replicate 32 0
    \<and> rf_last (op_regs any_ops (ct_cpu (qs_ctl q))) = - 1"
  by (auto simp: reset_rows_def mirrors_def rm_reset_all_def)

lemma assemble_mirrors:
  assumes "quick_ok q" "assemble_and_load source q = Some (msg, q')" "ar_error (assemble source) = None"
  shows "mirrors q'"
proof -
  have g: "ctl_good (qs_model q) (ctl_stop (qs_ctl q))" using assms(1) by (simp add: quick_ok_def)
  obtain sg k' where k': "ctl_reset any_ops (ctl_stop (qs_ctl q)) = Some (sg, k')" "ctl_good (qs_model q) k'"
    using reset_good [OF g] by blast
  let ?q3 = "(deliver (sg, k') (q\<lparr>qs_ctl := ctl_stop (qs_ctl q)\<rparr>))\<lparr>qs_last_program := ar_words (assemble source)\<rparr>"
  obtain b q4 where l: "load_last ?q3 = Some (b, q4)" using assms(2,3) k'(1) by (auto simp: assemble_and_load_def)
  then obtain sg2 k2 where k2: "ctl_load_program any_ops (qs_last_program ?q3) 0 k' = Some (b, sg2, k2)" "qs_ctl q4 = k2"
    by (auto simp: load_last_def)
  have "op_regs any_ops (ct_cpu (qs_ctl q4)) = regs_init" unfolding k2(2) by (rule load_regs [OF k2(1) good_wf [OF k'(2)]])
  then have "mirrors (reset_rows (q4\<lparr>qs_loaded := b, qs_stats := stats_zero, qs_trace := [], qs_cache := []\<rparr>))"
    by (simp add: reset_rows_mirrors regs_init_def)
  then show ?thesis using assms(2,3) k'(1) l by (cases b) (auto simp: assemble_and_load_def Let_def)
qed

lemma create_regs: "op_regs any_ops (make_processor m) = regs_init"
  by (simp add: make_processor_def any_sc any_pl sc_sel pl_sel sc_create_def pl_create_def cpu.extend_def)

lemma rebuild_mirrors:
  assumes "rebuild_controller q = Some q'" "qs_model q \<in> {''single'', ''pipelined''}"
  shows "mirrors q'"
proof -
  let ?k = "set_execution_speed (qs_speed q) (ctl_create (make_processor (qs_model q)))"
  let ?q2 = "clear_views (q\<lparr>qs_ctl := ?k\<rparr>)"
  have f: "qs_ctl ?q2 = ?k" "qs_last_program ?q2 = qs_last_program q" by (simp_all add: clear_views_def reset_rows_def)
  have g: "ctl_good (qs_model q) ?k" using create_good [OF assms(2)] by (rule simple_good)
  have k: "op_regs any_ops (ct_cpu ?k) = regs_init" by (simp add: set_execution_speed_def ctl_create_def create_regs)
  show ?thesis
  proof (cases "qs_last_program q = []")
    case True
    have "mirrors ?q2" unfolding clear_views_def reset_rows_mirrors using k by (simp add: regs_init_def)
    then show ?thesis using assms(1) True by (auto simp: rebuild_controller_def Let_def f)
  next
    case False
    then obtain b q3 where l: "load_last ?q2 = Some (b, q3)" using assms(1) by (auto simp: rebuild_controller_def Let_def f)
    then obtain sg k3 where k3: "ctl_load_program any_ops (qs_last_program q) 0 ?k = Some (b, sg, k3)"
      "q3 = deliver (sg, k3) ?q2" by (auto simp: load_last_def f)
    have "regs_wf (op_regs any_ops (ct_cpu k3))" using load_regs [OF k3(1) good_wf [OF g]] by simp
    moreover have "\<exists>ps. PipelineStateChanged ps \<in> set sg"
      using k3(1) by (auto simp: ctl_load_program_def split: option.splits)
    ultimately have "mirrors q3" unfolding k3(2) using deliver_mirrors [of "(sg, k3)" ?q2] by auto
    then show ?thesis using assms(1) False l by (cases b) (auto simp: rebuild_controller_def Let_def f)
  qed
qed

lemma run_pause_views:
  "PipelineChanged \<notin> set (new_signals q (run_pause q))" "StatsChanged \<notin> set (new_signals q (run_pause q))"
  "qs_regs (run_pause q) = qs_regs q" "qs_stages (run_pause q) = qs_stages q" "qs_stats (run_pause q) = qs_stats q"
  "ct_cpu (qs_ctl (run_pause q)) = ct_cpu (qs_ctl q)" "mirrors (run_pause q) = mirrors q"
  by (auto simp: run_pause_def new_signals_def set_status_def mirrors_def ctl_run_def ctl_stop_def)

lemma event_mirrors:
  assumes "quick_ok q" "handle_event e q = Some q'"
  shows "(PipelineChanged \<in> set (new_signals q q') \<longrightarrow> mirrors q')
    \<and> (mirrors q \<longrightarrow> mirrors q' \<or> (e = EvStep \<or> e = EvTick) \<and> quick_is_running q' \<and> qs_speed q' = 100)"
proof (cases e)
  case (EvAssemble source)
  show ?thesis
  proof (cases "ar_error (assemble source)")
    case None
    then show ?thesis using assemble_mirrors [OF assms(1)] assms(2) EvAssemble by auto
  next
    case (Some msg)
    then have "q' = emit (AssemblyError msg) q" using assms(2) EvAssemble by (simp add: assemble_and_load_def)
    then show ?thesis by (simp add: new_signals_def)
  qed
next
  case (EvModel m)
  show ?thesis
  proof (cases "m = qs_model q \<or> m \<noteq> ''pipelined'' \<and> m \<noteq> ''single''")
    case True
    then show ?thesis using assms(2) EvModel by (auto simp: set_model_def new_signals_def)
  next
    case False
    then obtain q2 where "rebuild_controller (q\<lparr>qs_model := m\<rparr>) = Some q2" "q' = emit ModelChanged q2"
      using assms(2) EvModel by (auto simp: set_model_def)
    then show ?thesis using rebuild_mirrors [of "q\<lparr>qs_model := m\<rparr>" q2] False by auto
  qed
next
  case EvRunPause
  then show ?thesis using assms(2) run_pause_views by auto
next
  case (EvToggle pc)
  then show ?thesis
    using assms(2) by (auto simp: toggle_breakpoint_def new_signals_def mirrors_def set_breakpoint_def clear_breakpoint_def)
next
  case (EvSpeed s)
  then show ?thesis
    using assms(2) by (auto simp: set_speed_def Let_def new_signals_def mirrors_def set_execution_speed_def split: if_splits)
qed (use assms reset_mirrors [OF assms(1)] step_mirrors [OF assms(1)] tick_mirrors [OF assms(1)] in auto)

text \<open>A timeout at full speed that publishes nothing.\<close>

lemma throttled_tick:
  assumes "quick_is_running q" "ct_interval (qs_ctl q) = 0" "fst (op_step any_ops (ct_cpu (qs_ctl q))) = StOk"
    "\<not> quick_has_breakpoint q (op_pc any_ops (snd (op_step any_ops (ct_cpu (qs_ctl q)))))"
    "(of_nat (op_cycle_count any_ops (snd (op_step any_ops (ct_cpu (qs_ctl q))))) :: u64) mod 5000 \<noteq> 0"
  shows "\<exists>st. quick_tick q = q\<lparr>qs_ctl := (qs_ctl q)\<lparr>ct_cpu := snd (op_step any_ops (ct_cpu (qs_ctl q))), ct_stats := st\<rparr>\<rparr>"
proof -
  obtain r cpu where s: "op_step any_ops (ct_cpu (qs_ctl q)) = (r, cpu)" by fastforce
  have a: "ct_active (qs_ctl q)" using assms(1) by (simp add: quick_is_running_def is_running_def)
  let ?st = "accumulate_stats (op_pipeline_state any_ops cpu) (ct_stats (qs_ctl q))"
  have "do_step any_cp0 any_ops (qs_ctl q) = ([], (qs_ctl q)\<lparr>ct_cpu := cpu, ct_stats := ?st, ct_active := True\<rparr>)"
    using assms(2-5) a by (simp add: do_step_def s Let_def quick_has_breakpoint_def has_breakpoint_def)
  moreover have "(qs_ctl q)\<lparr>ct_cpu := cpu, ct_stats := ?st, ct_active := True\<rparr> = (qs_ctl q)\<lparr>ct_cpu := cpu, ct_stats := ?st\<rparr>"
    using a by (intro controller.equality) simp_all
  ultimately show ?thesis using a by (intro exI [of _ ?st]) (simp add: quick_tick_def on_run_timer_def deliver_def s)
qed

section \<open>The status after a step\<close>

definition status_after :: "step_result \<Rightarrow> quick \<Rightarrow> any_cpu \<Rightarrow> string" where
  "status_after r q cpu =
     (case r of
        StHalt \<Rightarrow> ''Halted''
      | StFault \<Rightarrow> ''Faulted''
      | StException \<Rightarrow> ''Exception '' @ exception_name (cp0_last_exc (op_cp0 any_ops cpu)) @ '' @ ''
          @ hex32 (cp0_epc (op_cp0 any_ops cpu))
      | StOk \<Rightarrow> if quick_has_breakpoint q (op_pc any_ops cpu) then ''Breakpoint @ '' @ hex32 (op_pc any_ops cpu)
          else qs_status q)"

lemma signal_status [simp]:
  "qs_status (on_signal (CycleExecuted n) q) = qs_status q"
  "qs_status (on_signal (PipelineStateChanged ps) q) = qs_status q"
  "qs_status (on_signal (StatisticsUpdated st) q) = qs_status q"
  "qs_status (on_signal Halted q) = ''Halted''" "qs_status (on_signal Faulted q) = ''Faulted''"
  "qs_status (on_signal (ExceptionRaised epc name) q) = ''Exception '' @ name @ '' @ '' @ hex32 epc"
  "qs_status (on_signal (BreakpointHit pc) q) = ''Breakpoint @ '' @ hex32 pc"
  by (simp_all add: on_signal_def on_pipeline_def split: prod.split)

lemma deliver_status:
  "qs_status (deliver (do_step any_cp0 any_ops (qs_ctl q)) q) =
     (case op_step any_ops (ct_cpu (qs_ctl q)) of (r, cpu) \<Rightarrow> status_after r q cpu)"
proof -
  obtain r cpu where s: "op_step any_ops (ct_cpu (qs_ctl q)) = (r, cpu)" by fastforce
  obtain up where d: "fst (do_step any_cp0 any_ops (qs_ctl q)) =
      (if up then [CycleExecuted (of_nat (op_cycle_count any_ops cpu)), PipelineStateChanged (op_pipeline_state any_ops cpu),
        StatisticsUpdated (accumulate_stats (op_pipeline_state any_ops cpu) (ct_stats (qs_ctl q)))] else []) @
      (case r of StHalt \<Rightarrow> [Halted] | StFault \<Rightarrow> [Faulted]
       | StException \<Rightarrow> [ExceptionRaised (cp0_epc (op_cp0 any_ops cpu)) (exception_name (cp0_last_exc (op_cp0 any_ops cpu)))]
       | StOk \<Rightarrow> if op_pc any_ops cpu \<in> ct_breakpoints (qs_ctl q) then [BreakpointHit (op_pc any_ops cpu)] else [])"
    by (simp add: do_step_def s Let_def) (cases r; simp)
  show ?thesis
    unfolding deliver_def d s
    by (cases up; cases r) (simp_all add: status_after_def quick_has_breakpoint_def has_breakpoint_def)
qed

section \<open>The memory dump\<close>

text \<open>The cell of a byte in the hexadecimal part, and in the text part.\<close>

definition hex_cell :: "memory \<Rightarrow> u32 \<Rightarrow> string" where
  "hex_cell m a = (case mem_read_byte m a of Some v \<Rightarrow> pad_zero 2 (show_base False 16 (unat v)) | None \<Rightarrow> ''--'')"

definition ascii_cell :: "memory \<Rightarrow> u32 \<Rightarrow> char" where
  "ascii_cell m a = (case mem_read_byte m a of
       Some v \<Rightarrow> if 0x20 \<le> v \<and> v < 0x7F then char_of (unat v) else CHR ''.'' | None \<Rightarrow> CHR '' '')"

definition hex_group :: "memory \<Rightarrow> u32 \<Rightarrow> nat \<Rightarrow> string" where
  "hex_group m addr b = hex_cell m (addr + of_nat b) @ '' '' @ (if b = 7 then '' '' else [])"

lemma length_pad_byte [simp]: "length (pad_zero 2 (show_base False 16 (unat (v :: u8)))) = 2"
proof -
  have "unat v < 16 ^ 2" using unsigned_less [of v] by simp
  then have "length (show_base False 16 (unat v)) \<le> 2" by (intro length_show_base) simp_all
  then show ?thesis by (simp add: pad_zero_def)
qed

lemma length_pad_word [simp]: "length (pad_zero 8 (show_base False 16 (unat (v :: u32)))) = 8"
proof -
  have "unat v < 16 ^ 8" using unsigned_less [of v] by simp
  then have "length (show_base False 16 (unat v)) \<le> 8" by (intro length_show_base) simp_all
  then show ?thesis by (simp add: pad_zero_def)
qed

lemma hex_cell_length [simp]: "length (hex_cell m a) = 2"
  by (simp add: hex_cell_def split: option.split)

lemma memory_columns_Suc:
  "memory_columns m addr (Suc n) b hex ascii =
     memory_columns m addr n (Suc b) (hex @ hex_group m addr b) (ascii @ [ascii_cell m (addr + of_nat b)])"
  by (cases "mem_read_byte m (addr + of_nat b)") (simp_all add: hex_group_def hex_cell_def ascii_cell_def)

lemma memory_columns_cells:
  "memory_columns m addr n b hex ascii =
     (hex @ concat (map (hex_group m addr) [b..<b + n]), ascii @ map (\<lambda>b. ascii_cell m (addr + of_nat b)) [b..<b + n])"
proof (induction n arbitrary: b hex ascii)
  case (Suc n)
  have "[b..<b + Suc n] = b # [Suc b..<Suc b + n]" by (simp add: upt_conv_Cons)
  then show ?case
    unfolding memory_columns_Suc Suc.IH by (simp del: upt_Suc)
qed simp

lemma hex_groups_length: "length (concat (map (hex_group m addr) [0..<b])) = 3 * b + (if 8 \<le> b then 1 else 0)"
  by (induction b) (simp_all add: hex_group_def)

lemma hex_groups_at:
  assumes "b < n"
  shows "take 2 (drop (3 * b + (if 8 \<le> b then 1 else 0)) (concat (map (hex_group m addr) [0..<n]) @ rest)) =
    hex_cell m (addr + of_nat b)"
proof -
  have "[0..<n] = [0..<b] @ [b..<n]" using upt_add_eq_append [of 0 b "n - b"] assms by simp
  then have "[0..<n] = [0..<b] @ b # [Suc b..<n]" using assms by (simp add: upt_conv_Cons)
  then have "concat (map (hex_group m addr) [0..<n]) =
      concat (map (hex_group m addr) [0..<b]) @ hex_group m addr b @ concat (map (hex_group m addr) [Suc b..<n])" by simp
  then show ?thesis using hex_groups_length [of m addr b] by (simp add: hex_group_def)
qed

lemma memory_row_parts:
  "memory_row m addr = pad_zero 8 (show_base False 16 (unat addr)) @ ''  '' @ concat (map (hex_group m addr) [0..<16])
     @ '' |'' @ map (\<lambda>b. ascii_cell m (addr + of_nat b)) [0..<16] @ ''|''"
  unfolding memory_row_def memory_columns_cells by (simp del: upt_rec_numeral)

lemma memory_row_hex:
  assumes "b < 16"
  shows "take 2 (drop (10 + 3 * b + (if 8 \<le> b then 1 else 0)) (memory_row m addr)) = hex_cell m (addr + of_nat b)"
proof -
  have "drop (10 + 3 * b + (if 8 \<le> b then 1 else 0)) (memory_row m addr) =
      drop (3 * b + (if 8 \<le> b then 1 else 0)) (concat (map (hex_group m addr) [0..<16])
        @ '' |'' @ map (\<lambda>b. ascii_cell m (addr + of_nat b)) [0..<16] @ ''|'')"
    unfolding memory_row_parts by (simp del: upt_rec_numeral)
  then show ?thesis using hex_groups_at [OF assms] by simp
qed

lemma memory_row_ascii:
  assumes "b < 16"
  shows "memory_row m addr ! (61 + b) = ascii_cell m (addr + of_nat b)"
proof -
  have l: "length (concat (map (hex_group m addr) [0..<16])) = 49" by (simp add: hex_groups_length del: upt_rec_numeral)
  show ?thesis unfolding memory_row_parts using assms l by (simp add: nth_append del: upt_rec_numeral)
qed

lemma memory_row_length: "length (memory_row m addr) = 78"
  unfolding memory_row_parts by (simp add: hex_groups_length del: upt_rec_numeral)

lemma memory_row_addr: "read_digits 16 (take 8 (memory_row m addr)) = unat addr"
proof -
  have "take 8 (memory_row m addr) = pad_zero 8 (show_base False 16 (unat addr))"
    unfolding memory_row_parts by (simp del: upt_rec_numeral)
  then show ?thesis by (simp add: pad_zero_def read_show_base)
qed

lemma memory_rows_nth: "length (memory_rows_from m n addr) = n
    \<and> (r < n \<longrightarrow> memory_rows_from m n addr ! r = memory_row m (addr + of_nat (16 * r)))"
proof (induction n arbitrary: addr r)
  case (Suc n)
  then show ?case by (cases r) (simp_all add: algebra_simps)
qed simp

section \<open>Properties\<close>

text \<open>C25: The register view is the register file. After every event that announces a new pipeline view, the register model holds the values of the processor's registers and its last written register; and once it does, it goes on to do so through every event but one kind: a cycle whose update the controller held back, which happens only while the simulation runs at full speed and keeps running.\<close>

theorem registers_mirror_cpu:
  assumes "quick_reach q" "handle_event e q = Some q'"
  shows "(PipelineChanged \<in> set (new_signals q q') \<longrightarrow> mirrors q')
    \<and> (mirrors q \<longrightarrow> mirrors q' \<or> (e = EvStep \<or> e = EvTick) \<and> quick_is_running q' \<and> qs_speed q' = 100)"
  by (rule event_mirrors [OF quick_reach_ok [OF assms(1)] assms(2)])

lemma registers_mirror_cpu_witness:
  "\<exists>q q'. quick_create = Some q \<and> handle_event EvReset q = Some q' \<and> mirrors q'"
proof -
  obtain q where q: "quick_create = Some q" "quick_ok q" using create_ok by blast
  obtain q' where q': "quick_reset q = Some q'" using reset_ok [OF q(2)] by blast
  have "mirrors q" using rebuild_mirrors q(1) unfolding quick_create_def by fastforce
  then show ?thesis
    using registers_mirror_cpu [OF quick_reach.create [OF q(1)], of EvReset q'] q(1) q' by auto
qed

text \<open>Pausing a simulation that runs at full speed leaves the views behind. When a timeout's cycle was held back and the user then pauses, the simulation is stopped, the status says so, and the processor is one cycle ahead, but registers, stages, statistics and trace shown are the ones from before that cycle and no signal asks QML to read them again: neither the pause nor anything else brings the views up to date until the next step.\<close>

theorem full_speed_pause_stale:
  assumes "qs_loaded q" "quick_is_running q" "ct_interval (qs_ctl q) = 0"
    "fst (op_step any_ops (ct_cpu (qs_ctl q))) = StOk"
    "\<not> quick_has_breakpoint q (op_pc any_ops (snd (op_step any_ops (ct_cpu (qs_ctl q)))))"
    "(of_nat (op_cycle_count any_ops (snd (op_step any_ops (ct_cpu (qs_ctl q))))) :: u64) mod 5000 \<noteq> 0"
  shows "let q' = run_pause (quick_tick q)
    in \<not> quick_is_running q' \<and> qs_status q' = ''Paused''
      \<and> ct_cpu (qs_ctl q') = snd (op_step any_ops (ct_cpu (qs_ctl q)))
      \<and> qs_regs q' = qs_regs q \<and> qs_stages q' = qs_stages q \<and> qs_stats q' = qs_stats q \<and> qs_cache q' = qs_cache q
      \<and> PipelineChanged \<notin> set (new_signals q q') \<and> StatsChanged \<notin> set (new_signals q q')"
proof -
  obtain st where t: "quick_tick q = q\<lparr>qs_ctl := (qs_ctl q)\<lparr>ct_cpu := snd (op_step any_ops (ct_cpu (qs_ctl q))), ct_stats := st\<rparr>\<rparr>"
    using throttled_tick [OF assms(2-6)] by blast
  show ?thesis
    using assms(1,2) by (simp add: t run_pause_def quick_is_running_def is_running_def ctl_stop_def new_signals_def
        Let_def) (simp add: set_status_def)
qed

definition stale_state :: quick where
  "stale_state = \<lparr>qs_ctl = (ctl_create (AnySc (sc_create 16)))\<lparr>ct_active := True\<rparr>, qs_regs = rm_create, qs_stages = [],
     qs_hazards = [], qs_stats = stats_zero, qs_trace = [], qs_cache = [], qs_last_program = [0], qs_status = ''Running'',
     qs_model = ''single'', qs_speed = 100, qs_loaded = True, qs_out = []\<rparr>"

lemma full_speed_pause_stale_witness:
  "qs_stats (run_pause (quick_tick stale_state)) = stats_zero
   \<and> ct_cpu (qs_ctl (run_pause (quick_tick stale_state))) = snd (op_step any_ops (AnySc (sc_create 16)))"
proof -
  have "fst (op_step any_ops (AnySc (sc_create 16))) = StOk \<and> op_pc any_ops (snd (op_step any_ops (AnySc (sc_create 16)))) = 4
    \<and> op_cycle_count any_ops (snd (op_step any_ops (AnySc (sc_create 16)))) = 1"
    by code_simp
  then show ?thesis
    using full_speed_pause_stale [of stale_state]
    by (simp add: stale_state_def ctl_create_def quick_is_running_def is_running_def quick_has_breakpoint_def
        has_breakpoint_def Let_def)
qed

text \<open>The status after a manual step. A halt, a fault and an exception are named, the exception with its mnemonic and the address it was taken at; a cycle that went well leaves the status as it was, but says \<open>Paused\<close> where it said \<open>Idle\<close> or named a breakpoint, and also says \<open>Paused\<close>, not the breakpoint, when the step itself arrived at one.\<close>

theorem step_status:
  assumes "qs_loaded q" "op_step any_ops (ct_cpu (qs_ctl q)) = (r, cpu)"
  shows "qs_status (quick_step q) =
    (case r of
       StHalt \<Rightarrow> ''Halted''
     | StFault \<Rightarrow> ''Faulted''
     | StException \<Rightarrow> ''Exception '' @ exception_name (cp0_last_exc (op_cp0 any_ops cpu)) @ '' @ ''
         @ hex32 (cp0_epc (op_cp0 any_ops cpu))
     | StOk \<Rightarrow>
         if quick_has_breakpoint q (op_pc any_ops cpu) \<or> qs_status q = ''Idle'' \<or> starts_with (qs_status q) ''Breakpoint''
         then ''Paused'' else qs_status q)"
  using assms deliver_status [of q]
  by (cases r) (simp_all add: quick_step_def step_cycle_def Let_def status_after_def starts_with_def)

lemma step_status_witness: "qs_status (quick_step (toggle_breakpoint 4 stale_state)) = ''Paused''"
proof -
  let ?q = "toggle_breakpoint 4 stale_state"
  have l: "qs_loaded ?q" "ct_cpu (qs_ctl ?q) = AnySc (sc_create 16)" "quick_has_breakpoint ?q 4"
    by (simp_all add: stale_state_def ctl_create_def toggle_breakpoint_def has_breakpoint_def set_breakpoint_def
        quick_has_breakpoint_def)
  have "fst (op_step any_ops (AnySc (sc_create 16))) = StOk \<and> op_pc any_ops (snd (op_step any_ops (AnySc (sc_create 16)))) = 4"
    by code_simp
  then show ?thesis
    using step_status [OF l(1) prod.collapse [symmetric]] l(2,3) by simp
qed

text \<open>The memory dump shows the memory. The dump has the rows asked for; row \<open>r\<close> starts with the address of its first byte in eight hexadecimal digits, the base aligned down to 16 plus 16 per row modulo \<open>2 ^ 32\<close>, and is 78 characters long; for each of its 16 bytes, two digits in the middle are the byte's value and one character at the end is the byte itself when it is printable ASCII and a dot when it is not; a byte outside the memory shows as two dashes and a space.\<close>

theorem memory_dump:
  assumes "r < rows" "b < 16"
  shows "let row = memory_rows base rows q ! r;
      addr = (base AND NOT 0xF) + of_nat (16 * r);
      hex = take 2 (drop (10 + 3 * b + (if 8 \<le> b then 1 else 0)) row)
    in length (memory_rows base rows q) = rows \<and> length row = 78 \<and> read_digits 16 (take 8 row) = unat addr
      \<and> (case mem_read_byte (op_mem any_ops (ct_cpu (qs_ctl q))) (addr + of_nat b) of
           Some v \<Rightarrow> read_digits 16 hex = unat v \<and> row ! (61 + b) = (if 32 \<le> v \<and> v < 127 then char_of (unat v) else CHR ''.'')
         | None \<Rightarrow> hex = ''--'' \<and> row ! (61 + b) = CHR '' '')"
proof -
  let ?m = "op_mem any_ops (ct_cpu (qs_ctl q))" and ?addr = "(base AND NOT 0xF) + of_nat (16 * r) :: u32"
  have row: "memory_rows base rows q ! r = memory_row ?m ?addr" "length (memory_rows base rows q) = rows"
    using memory_rows_nth [of ?m rows "base AND NOT 0xF" r] assms(1) by (simp_all add: memory_rows_def)
  have hex: "read_digits 16 (hex_cell ?m a) = unat v" if "mem_read_byte ?m a = Some v" for a v
    using that by (simp add: hex_cell_def pad_zero_def read_show_base)
  show ?thesis
    unfolding Let_def row memory_row_hex [OF assms(2)] memory_row_ascii [OF assms(2)]
    using hex [of "?addr + of_nat b"]
    by (simp add: memory_row_length memory_row_addr ascii_cell_def hex_cell_def split: option.split)
qed

lemma memory_dump_witness: "length (memory_rows 0x1F 2 stale_state ! 1) = 78"
  using memory_dump [of 1 2 3 "0x1F" stale_state] by (simp add: Let_def)

end
