(* ===== verification/Tui.thy ===== *)
theory Tui
  imports Backends NumberConverter ProgramLoader Disassembler
begin

text \<open>
  The terminal front end (\<open>run_app\<close> in \<open>src/nsc/ui.cpp\<close>): its state, the actions of its buttons and
  inputs, and its event handler. A component's callback is an event of the tab that holds the
  component. The ticker thread only posts \<open>Event::Custom\<close>, which the user interface thread handles
  like any other event. The size of the terminal and the file system are parameters of the step.
\<close>

unbundle bit_operations_syntax

section \<open>State\<close>

datatype cpu_mode = SingleCycle | Pipelined

record trace_entry =
  te_pc :: u32
  te_raw :: u32

definition kTabLabels :: "string list" where
  "kTabLabels = ['' Converter '', '' CPU Dashboard '', '' CPU Config '', '' Program Loader '', '' Core Pulse '',
     '' Utility Tools '']"

record tui =
  tu_conv :: converter
  tu_mode :: cpu_mode
  tu_cpu :: any_cpu
  tu_auto :: bool
  tu_speed :: int
  tu_cycles :: u64
  tu_stalls :: u64
  tu_forwards :: u64
  tu_flushes :: u64
  tu_retired :: u64
  tu_trace :: "trace_entry list"
  tu_base :: u32
  tu_ok :: bool
  tu_status :: string
  tu_program :: "u32 list"
  tu_syncing :: bool
  tu_dec :: string
  tu_hex :: string
  tu_bin :: string
  tu_nibble :: string
  tu_mnem :: string
  tu_mode_idx :: int
  tu_tab :: nat
  tu_path :: string
  tu_exit :: bool
  tu_mouse :: "(int \<times> int) \<times> bool"

definition tui_cpu :: "cpu_mode \<Rightarrow> any_cpu" where
  "tui_cpu mode = (case mode of SingleCycle \<Rightarrow> AnySc (sc_create (2 ^ 16)) | Pipelined \<Rightarrow> AnyPl (pl_create (2 ^ 16)))"

definition tui_init :: tui where
  "tui_init = \<lparr>tu_conv = conv_init, tu_mode = SingleCycle, tu_cpu = tui_cpu SingleCycle, tu_auto = False, tu_speed = 200,
     tu_cycles = 0, tu_stalls = 0, tu_forwards = 0, tu_flushes = 0, tu_retired = 0, tu_trace = [], tu_base = 0,
     tu_ok = False, tu_status = ''Ready.'', tu_program = [], tu_syncing = False, tu_dec = ''0'', tu_hex = ''0'',
     tu_bin = ''0'', tu_nibble = ''0000'', tu_mnem = ''SLL'', tu_mode_idx = 0, tu_tab = 0, tu_path = ''program.hex'',
     tu_exit = False, tu_mouse = ((0, 0), False)\<rparr>"

section \<open>Loading\<close>

text \<open>The adapter over the hex loader: success, the processor, the words to load again and the message.\<close>

definition tui_load_hex :: "(string \<Rightarrow> string option) \<Rightarrow> string \<Rightarrow> any_cpu \<Rightarrow> (bool \<times> any_cpu \<times> u32 list \<times> string) option" where
  "tui_load_hex open_file path cpu =
     (let prog = load_hex_file open_file path
      in if \<not> hp_ok prog then Some (False, cpu, [], (case hp_error prog of Some e \<Rightarrow> e | None \<Rightarrow> ''unknown error''))
         else map_option (\<lambda>(ok, cpu).
                if ok then (True, cpu, hp_words prog, ''Loaded '' @ show_dec (length (hp_words prog)) @ '' words.'')
                else (False, cpu, [], ''Program too large for memory.''))
              (op_load_program any_ops (hp_words prog) 0 cpu))"

definition restore_program :: "tui \<Rightarrow> tui option" where
  "restore_program q =
     (let cpu = op_reset any_ops True (tu_cpu q)
      in if tu_program q = [] then Some (q\<lparr>tu_cpu := cpu\<rparr>)
         else map_option (\<lambda>(ok, cpu). q\<lparr>tu_cpu := cpu, tu_program := (if ok then tu_program q else [])\<rparr>)
              (op_load_program any_ops (tu_program q) 0 cpu))"

definition reset_tel :: "tui \<Rightarrow> tui" where
  "reset_tel q = q\<lparr>tu_cycles := 0, tu_stalls := 0, tu_forwards := 0, tu_flushes := 0, tu_retired := 0, tu_trace := []\<rparr>"

section \<open>Stepping\<close>

definition exception_status :: "any_cpu \<Rightarrow> string" where
  "exception_status cpu =
     ''Exception '' @ exception_name (cp0_last_exc (op_cp0 any_ops cpu)) @ '' at 0x''
       @ pad_zero 8 (show_base True 16 (unat (cp0_epc (op_cp0 any_ops cpu)))) @ '' '' @ em_dash
       @ '' PC at exception vector.''"

fun trim_trace :: "trace_entry list \<Rightarrow> trace_entry list" where
  "trim_trace [] = []"
| "trim_trace (e # es) = (if 8 < length (e # es) then trim_trace es else e # es)"

definition trace_committed :: "cpu_mode \<Rightarrow> pipeline_state \<Rightarrow> trace_entry list \<Rightarrow> trace_entry list" where
  "trace_committed mode ps trace =
     (let ts = ps_stages ps ! (if mode = Pipelined then 4 else 2)
      in if ss_valid ts \<and> \<not> ss_stalled ts then trim_trace (trace @ [\<lparr>te_pc = ss_pc ts, te_raw = ss_raw ts\<rparr>]) else trace)"

definition tui_do_step :: "tui \<Rightarrow> step_result \<times> tui" where
  "tui_do_step q =
     (case op_step any_ops (tu_cpu q) of
        (result, cpu) \<Rightarrow>
          (let ps = op_pipeline_state any_ops cpu;
               q = q\<lparr>tu_cpu := cpu, tu_cycles := tu_cycles q + 1\<rparr>;
               q = (if ps_retired ps then q\<lparr>tu_retired := tu_retired q + 1\<rparr> else q);
               q = q\<lparr>tu_trace := trace_committed (tu_mode q) ps (tu_trace q)\<rparr>;
               q = (if ps_load_stall ps then q\<lparr>tu_stalls := tu_stalls q + 1\<rparr> else q);
               q = (if ps_branch_flush ps then q\<lparr>tu_flushes := tu_flushes q + 1\<rparr> else q);
               q = (if ps_fwd_ex_to_ex_a ps \<or> ps_fwd_ex_to_ex_b ps \<or> ps_fwd_mem_to_ex_a ps \<or> ps_fwd_mem_to_ex_b ps
                    then q\<lparr>tu_forwards := tu_forwards q + 1\<rparr> else q);
               q = (if result \<noteq> StOk then q\<lparr>tu_auto := False\<rparr> else q);
               q = (if result = StException then q\<lparr>tu_status := exception_status cpu\<rparr> else q)
           in (result, q)))"

section \<open>The converter tab\<close>

definition word_mnemonic :: "u64 \<Rightarrow> string" where
  "word_mnemonic v =
     (if v \<le> 0xFFFFFFFF
      then (case decode (ucast v) of Some d \<Rightarrow> mnemonic d | None \<Rightarrow> ''Invalid'')
      else ''(out of 32-bit range)'')"

definition update_views :: "base \<Rightarrow> string \<Rightarrow> tui \<Rightarrow> tui" where
  "update_views b s q =
     (if tu_syncing q then q
      else case conv_update s b (tu_conv q) of
        (ok, c) \<Rightarrow>
          (let q = q\<lparr>tu_syncing := True, tu_conv := c\<rparr>;
               q = (if ok then
                 q\<lparr>tu_dec := (if b \<noteq> Decimal then conv_as Decimal c else tu_dec q),
                   tu_hex := (if b \<noteq> Hex then conv_as Hex c else tu_hex q),
                   tu_bin := (if b \<noteq> Binary then conv_as Binary c else tu_bin q),
                   tu_nibble := conv_bits c,
                   tu_mnem := word_mnemonic (conv_value c)\<rparr> else q)
           in q\<lparr>tu_syncing := False\<rparr>))"

text \<open>An edit of an input: its text, then \<open>on_change\<close>.\<close>

definition edit_input :: "base \<Rightarrow> string \<Rightarrow> tui \<Rightarrow> tui" where
  "edit_input b s q =
     update_views b s (case b of Decimal \<Rightarrow> q\<lparr>tu_dec := s\<rparr> | Hex \<Rightarrow> q\<lparr>tu_hex := s\<rparr> | Binary \<Rightarrow> q\<lparr>tu_bin := s\<rparr>)"

section \<open>Buttons\<close>

definition btn_step :: "tui \<Rightarrow> tui" where
  "btn_step q = snd (tui_do_step q)"

definition btn_auto :: "tui \<Rightarrow> tui" where
  "btn_auto q = q\<lparr>tu_auto := \<not> tu_auto q\<rparr>"

definition kRunBudget :: nat where "kRunBudget = 100000"

definition btn_run :: "tui \<Rightarrow> tui" where
  "btn_run q =
     (case op_run any_ops kRunBudget (tu_cpu q) of
        (result, cpu) \<Rightarrow>
          (let cycles = (of_nat (op_cycle_count any_ops cpu) :: u64)
           in q\<lparr>tu_auto := False, tu_cpu := cpu, tu_cycles := cycles, tu_trace := [],
                tu_status := (case result of
                    StHalt \<Rightarrow> ''Halted after '' @ show_dec (unat cycles) @ '' cycles.''
                  | StException \<Rightarrow> exception_status cpu
                  | StFault \<Rightarrow> ''Fault at 0x'' @ pad_zero 8 (show_base True 16 (unat (op_pc any_ops cpu))) @ ''.''
                  | StOk \<Rightarrow> ''Stopped after '' @ show_dec kRunBudget @ '' steps without a halt.'')\<rparr>))"

definition btn_reset :: "tui \<Rightarrow> tui option" where
  "btn_reset q =
     map_option (\<lambda>q. (reset_tel q)\<lparr>tu_base := 0, tu_status := ''CPU reset.''\<rparr>) (restore_program (q\<lparr>tu_auto := False\<rparr>))"

definition btn_apply :: "tui \<Rightarrow> tui option" where
  "btn_apply q =
     (let q = (reset_tel (q\<lparr>tu_auto := False, tu_cpu := op_reset any_ops True (tu_cpu q)\<rparr>))\<lparr>tu_base := 0\<rparr>;
          q = (if tu_mode_idx q = 0
               then q\<lparr>tu_cpu := tui_cpu SingleCycle, tu_mode := SingleCycle, tu_status := ''Switched to Single-Cycle.''\<rparr>
               else q\<lparr>tu_cpu := tui_cpu Pipelined, tu_mode := Pipelined, tu_status := ''Switched to Pipelined (5-stage).''\<rparr>)
      in restore_program q)"

definition btn_load :: "(string \<Rightarrow> string option) \<Rightarrow> tui \<Rightarrow> tui option" where
  "btn_load open_file q =
     (let q = (reset_tel (q\<lparr>tu_auto := False, tu_cpu := op_reset any_ops True (tu_cpu q)\<rparr>))\<lparr>tu_base := 0\<rparr>
      in map_option (\<lambda>(ok, cpu, program, msg). q\<lparr>tu_ok := ok, tu_cpu := cpu, tu_program := program, tu_status := msg\<rparr>)
           (tui_load_hex open_file (tu_path q) (tu_cpu q)))"

section \<open>The event handler\<close>

datatype tui_key = KCustom | KEscape | KCtrlC | KF10 | KPageUp | KPageDown | KHome | KMouse int int | KOther

text \<open>\<open>dims\<close> is the size of the terminal, columns and rows. A row of integers is divided towards zero.\<close>

definition kCorePulseTopRow :: int where "kCorePulseTopRow = 3"

definition panel_rows :: "int \<Rightarrow> int" where
  "panel_rows dimy = max 14 (min 26 (sgn dimy * (\<bar>dimy\<bar> div 3)))"

definition track_mouse :: "int \<times> int \<Rightarrow> int \<Rightarrow> int \<Rightarrow> tui \<Rightarrow> tui" where
  "track_mouse dims mx my q =
     (case dims of (dimx, dimy) \<Rightarrow>
        (let panel_top = kCorePulseTopRow;
             panel_bot = panel_top + panel_rows dimy + 2;
             active = (tu_tab q = 4 \<and> panel_top \<le> my \<and> my \<le> panel_bot \<and> 0 \<le> mx \<and> mx \<le> dimx)
         in q\<lparr>tu_mouse := (if active then (max 0 (min dimx mx), max 0 (min (panel_rows dimy) (my - panel_top)))
                           else fst (tu_mouse q), active)\<rparr>))"

text \<open>\<open>true\<close> when the event is consumed; otherwise the components get it.\<close>

definition tui_on_event :: "int \<times> int \<Rightarrow> tui_key \<Rightarrow> tui \<Rightarrow> bool \<times> tui" where
  "tui_on_event dims key q =
     (let q = (case key of KMouse mx my \<Rightarrow> track_mouse dims mx my q | _ \<Rightarrow> q)
      in if key = KCustom then (True, if tu_auto q then snd (tui_do_step q) else q)
         else if key = KEscape \<or> key = KCtrlC then (True, q\<lparr>tu_exit := True\<rparr>)
         else if key = KF10 \<and> tu_tab q = 1 then (True, snd (tui_do_step q))
         else if tu_tab q = 1 \<and> key = KPageUp
           then (True, q\<lparr>tu_base := (if 32 \<le> tu_base q then tu_base q - 32 else 0)\<rparr>)
         else if tu_tab q = 1 \<and> key = KPageDown then (True, q\<lparr>tu_base := tu_base q + 32\<rparr>)
         else if tu_tab q = 1 \<and> key = KHome
           then (True, q\<lparr>tu_base := op_pc any_ops (tu_cpu q) AND NOT 0x1F\<rparr>)
         else (False, q))"

text \<open>
  One event: the handler, or a component of the tab that is shown. The menu selects a tab, the radio
  box a model.
\<close>

inductive tui_step :: "tui \<Rightarrow> tui \<Rightarrow> bool" where
  handler: "tui_on_event dims key q = (b, q') \<Longrightarrow> tui_step q q'"
| select_tab: "i < length kTabLabels \<Longrightarrow> tui_step q (q\<lparr>tu_tab := i\<rparr>)"
| edit: "tu_tab q = 0 \<Longrightarrow> tui_step q (edit_input b s q)"
| step: "tu_tab q = 1 \<Longrightarrow> tui_step q (btn_step q)"
| auto: "tu_tab q = 1 \<Longrightarrow> tui_step q (btn_auto q)"
| run: "tu_tab q = 1 \<Longrightarrow> tui_step q (btn_run q)"
| reset: "tu_tab q = 1 \<Longrightarrow> btn_reset q = Some q' \<Longrightarrow> tui_step q q'"
| speed: "tu_tab q = 1 \<Longrightarrow> 10 \<le> s \<Longrightarrow> s \<le> 1000 \<Longrightarrow> tui_step q (q\<lparr>tu_speed := s\<rparr>)"
| select_mode: "tu_tab q = 2 \<Longrightarrow> i \<in> {0, 1} \<Longrightarrow> tui_step q (q\<lparr>tu_mode_idx := i\<rparr>)"
| apply_mode: "tu_tab q = 2 \<Longrightarrow> btn_apply q = Some q' \<Longrightarrow> tui_step q q'"
| edit_path: "tu_tab q = 3 \<Longrightarrow> tui_step q (q\<lparr>tu_path := s\<rparr>)"
| load: "tu_tab q = 3 \<Longrightarrow> btn_load open_file q = Some q' \<Longrightarrow> tui_step q q'"

inductive_cases tui_step_cases: "tui_step q q'"

inductive tui_reach :: "tui \<Rightarrow> bool" where
  start: "tui_reach tui_init"
| event: "tui_reach q \<Longrightarrow> tui_step q q' \<Longrightarrow> tui_reach q'"

end
