(* ===== verification/TuiPanels.thy ===== *)
theory TuiPanels
  imports Tui RunEquivalence
begin

text \<open>
  What the panels of the terminal front end say (\<open>src/nsc/ui.cpp\<close>): the texts of their elements in
  order, row by row, in UTF-8. Layout, borders and, but for the stage boxes, colours are left out.
\<close>

unbundle bit_operations_syntax

section \<open>Glyphs, names and colours\<close>

definition play_mark :: string where "play_mark = [CHR '' '', CHR 0xE2, CHR 0x96, CHR 0xB6, CHR '' '']"
definition no_mark :: string where "no_mark = ''   ''"
definition arrow :: string where "arrow = [CHR 0xE2, CHR 0x86, CHR 0x92]"
definition rule5 :: string where "rule5 = concat (replicate 5 [CHR 0xE2, CHR 0x94, CHR 0x80])"

definition kRegNames :: "string list" where
  "kRegNames =
    [''zero'', ''at'', ''v0'', ''v1'', ''a0'', ''a1'', ''a2'', ''a3'', ''t0'', ''t1'', ''t2'',
     ''t3'', ''t4'', ''t5'', ''t6'', ''t7'', ''s0'', ''s1'', ''s2'', ''s3'', ''s4'', ''s5'',
     ''s6'', ''s7'', ''t8'', ''t9'', ''k0'', ''k1'', ''gp'', ''sp'', ''fp'', ''ra'']"

definition reg_name :: "u8 \<Rightarrow> string" where
  "reg_name i = kRegNames ! unat i"

definition pad_right :: "nat \<Rightarrow> string \<Rightarrow> string" where
  "pad_right width s = s @ replicate (width - length s) (CHR '' '')"

definition hex_upper :: "nat \<Rightarrow> u32 \<Rightarrow> string" where
  "hex_upper width v = pad_zero width (show_base True 16 (unat v))"

datatype colour = GrayDark | Red | Yellow | White | BlueLight | MagentaLight | YellowLight | GreenLight | CyanLight

section \<open>The pipeline panel\<close>

definition stage_accent :: "nat \<Rightarrow> stage_snapshot \<Rightarrow> colour" where
  "stage_accent idx s =
     (if \<not> ss_valid s then GrayDark
      else if ss_flushed s then Red
      else if ss_stalled s then Yellow
      else if idx = 0 then BlueLight
      else if idx = 1 then MagentaLight
      else if idx = 2 then YellowLight
      else if idx = 3 then GreenLight
      else CyanLight)"

record stage_box =
  sb_title :: string
  sb_mnemonic :: string
  sb_colour :: colour
  sb_status :: string
  sb_accent :: colour
  sb_dim :: bool

definition make_stage_box :: "stage_snapshot \<Rightarrow> nat \<Rightarrow> stage_box" where
  "make_stage_box snap idx =
     \<lparr>sb_title = ss_name snap,
      sb_mnemonic = (if ss_valid snap
        then if ss_raw snap \<noteq> 0
          then (case decode (ss_raw snap) of Some d \<Rightarrow> mnemonic d | None \<Rightarrow> ''???'')
          else ''(nop)''
        else rule5),
      sb_colour = (if \<not> ss_valid snap then GrayDark else if ss_stalled snap then Yellow
        else if ss_flushed snap then Red else White),
      sb_status = (if ss_stalled snap then ''STALL'' else if ss_flushed snap then ''FLUSH''
        else if ss_valid snap then ''@'' @ hex_upper 7 (ss_pc snap) else ''       ''),
      sb_accent = stage_accent idx snap,
      sb_dim = (\<not> ss_valid snap)\<rparr>"

text \<open>The boxes, and the badges of the second row.\<close>

definition badges :: "pipeline_state \<Rightarrow> string list" where
  "badges ps =
     (if ps_fwd_ex_to_ex_a ps then [''EX'' @ arrow @ ''EX rs''] else [])
     @ (if ps_fwd_ex_to_ex_b ps then [''EX'' @ arrow @ ''EX rt''] else [])
     @ (if ps_fwd_mem_to_ex_a ps then [''WB'' @ arrow @ ''EX rs''] else [])
     @ (if ps_fwd_mem_to_ex_b ps then [''WB'' @ arrow @ ''EX rt''] else [])
     @ (if ps_load_stall ps then [''LOAD-USE '' @ [CHR 0xE2, CHR 0x9A, CHR 0xA0]] else [])
     @ (if ps_branch_flush ps then [''BR FLUSH '' @ [CHR 0xE2, CHR 0x9C, CHR 0x95]] else [])"

definition render_pipeline :: "pipeline_state \<Rightarrow> bool \<Rightarrow> stage_box list \<times> string list" where
  "render_pipeline ps pipelined =
     (if \<not> pipelined then ([make_stage_box (ps_stages ps ! 2) 2], [])
      else (map (\<lambda>i. make_stage_box (ps_stages ps ! i) i) [0..<5],
            if badges ps = [] then [''no forwarding/hazards''] else badges ps))"

section \<open>The decode panel\<close>

text \<open>\<open>static_cast<unsigned>\<close> of a function code.\<close>

definition funct_value :: "funct_code \<Rightarrow> u8" where
  "funct_value f =
     (case f of FnSLL \<Rightarrow> 0x00 | FnSRL \<Rightarrow> 0x02 | FnSRA \<Rightarrow> 0x03 | FnSLLV \<Rightarrow> 0x04 | FnSRLV \<Rightarrow> 0x06 | FnJR \<Rightarrow> 0x08
      | FnJALR \<Rightarrow> 0x09 | FnSYSCALL \<Rightarrow> 0x0C | FnBREAK \<Rightarrow> 0x0D | FnADD \<Rightarrow> 0x20 | FnADDU \<Rightarrow> 0x21 | FnSUB \<Rightarrow> 0x22
      | FnSUBU \<Rightarrow> 0x23 | FnAND \<Rightarrow> 0x24 | FnOR \<Rightarrow> 0x25 | FnXOR \<Rightarrow> 0x26 | FnNOR \<Rightarrow> 0x27 | FnSLT \<Rightarrow> 0x2A
      | FnSLTU \<Rightarrow> 0x2B | FnERET \<Rightarrow> 0x18 | FnReserved v \<Rightarrow> v)"

definition jump_target_of :: "u32 \<Rightarrow> u32 \<Rightarrow> u32" where
  "jump_target_of pc target = ((pc + 4) AND 0xF0000000) OR push_bit 2 target"

definition field_row :: "decoded_instr \<Rightarrow> u32 \<Rightarrow> string list" where
  "field_row dec pc =
     [''  '', mnemonic dec, ''   ''] @
     (if di_format dec = FmtR then
        (let r = get_r dec
         in [''rd'', '':$'' @ pad_right 4 (reg_name (r_rd r)), ''  rs'', '':$'' @ pad_right 4 (reg_name (r_rs r)),
             ''  rt'', '':$'' @ pad_right 4 (reg_name (r_rt r))]
            @ (if r_shamt r \<noteq> 0 then [''  sh'', '':'' @ show_dec (unat (r_shamt r))] else [])
            @ [''   [fn:0x'' @ pad_zero 2 (show_base True 16 (unat (funct_value (r_funct r)))) @ '']''])
      else if di_format dec = FmtI then
        (let i = get_i dec;
             zero_ext = (c_ext (derive_control dec) = ExtZero);
             simm = (if zero_ext then uint (i_imm i) else sign_extend (i_imm i));
             is_mem = (di_opcode dec \<in> {OpLW, OpLBU, OpLHU, OpSW})
         in [''rt'', '':$'' @ pad_right 4 (reg_name (i_rt i)), ''  rs'', '':$'' @ pad_right 4 (reg_name (i_rs i)),
             ''  imm'', '':'' @ show_signed simm, '' [0x'' @ pad_zero 4 (show_base True 16 (unat (i_imm i))) @ '']'']
            @ (if is_mem then [''  '' @ arrow @ '' $'' @ reg_name (i_rs i) @ ''+'' @ show_signed simm] else []))
      else
        [''target'', '':0x'' @ hex_upper 7 (j_target (get_j dec)),
         ''  '' @ arrow @ '' 0x'' @ hex_upper 8 (jump_target_of pc (j_target (get_j dec)))])"

text \<open>A field of the binary row: its bits and its label, each a cell of the field's width plus one.\<close>

definition add_field :: "u32 \<Rightarrow> nat \<times> nat \<times> string \<Rightarrow> string \<times> string \<times> nat" where
  "add_field raw f =
     (case f of (hi, lo, lbl) \<Rightarrow>
        (let mask = (if hi - lo < 31 then push_bit (hi - lo + 1) 1 - 1 else 0xFFFFFFFF);
             fv = drop_bit lo raw AND mask;
             w = hi - lo + 1
         in (pad_zero w (show_base False 2 (unat fv)), lbl, w + 1)))"

definition binary_fields :: "instr_format \<Rightarrow> (nat \<times> nat \<times> string) list" where
  "binary_fields fmt =
     (if fmt = FmtR then
        [(31, 26, ''op''), (25, 21, ''rs''), (20, 16, ''rt''), (15, 11, ''rd''), (10, 6, ''sh''), (5, 0, ''fn'')]
      else if fmt = FmtI then [(31, 26, ''op''), (25, 21, ''rs''), (20, 16, ''rt''), (15, 0, ''imm'')]
      else [(31, 26, ''op''), (25, 0, ''target'')])"

definition render_instr_decode :: "any_cpu \<Rightarrow> string list list" where
  "render_instr_decode cpu =
     (let pc = op_pc any_ops cpu
      in case mem_read_word (op_mem any_ops cpu) pc of
           None \<Rightarrow> [[''  '', ''(no word at PC)'']]
         | Some raw \<Rightarrow>
             (case decode raw of
                None \<Rightarrow> [[''  '', ''0x'' @ hex_upper 8 raw, ''  '' @ [CHR 0xE2, CHR 0x86, CHR 0x90] @ '' unknown encoding'']]
              | Some dec \<Rightarrow>
                  (let cells = map (add_field raw) (binary_fields (di_format dec))
                   in [field_row dec pc, [''  asm: '', dis_to_string dec pc], ''  bits: '' # map fst cells,
                       ''         '' # map (fst \<circ> snd) cells])))"

section \<open>Trace, registers, memory\<close>

definition trace_line :: "bool \<Rightarrow> trace_entry \<Rightarrow> string list" where
  "trace_line is_last e =
     [if is_last then play_mark else no_mark, hex_upper 8 (te_pc e), ''  '',
      (case decode (te_raw e) of Some d \<Rightarrow> dis_to_string d (te_pc e) | None \<Rightarrow> ''???'')]"

definition render_exec_trace :: "trace_entry list \<Rightarrow> string list list" where
  "render_exec_trace trace =
     (if trace = [] then [[''  (no instructions executed yet)'']]
      else map (\<lambda>i. trace_line (i = length trace - 1) (trace ! i)) [0..<length trace])"

definition register_line :: "any_cpu \<Rightarrow> nat \<Rightarrow> string list" where
  "register_line cpu i =
     (let val = regs_read (op_regs any_ops cpu) (of_nat i)
      in [''$'' @ pad_right 4 (kRegNames ! i), '' '' @ hex_upper 8 val]
         @ (if val \<noteq> 0 then ['' ('' @ show_signed (sint val) @ '')''] else []))"

definition render_registers :: "any_cpu \<Rightarrow> string list list \<times> string list list" where
  "render_registers cpu = (map (register_line cpu) [0..<16], map (register_line cpu) [16..<32])"

definition halts_at :: "u32 \<Rightarrow> u32 \<Rightarrow> bool" where
  "halts_at addr word =
     (let raw_op = opcode_of (ucast (drop_bit 26 word AND 0x3F))
      in if raw_op = OpJ \<or> raw_op = OpJAL
         then jump_target_of addr (word AND 0x03FFFFFF) = addr else False)"

definition memory_line :: "u32 \<Rightarrow> u32 \<Rightarrow> u32 \<Rightarrow> string list" where
  "memory_line pc addr word =
     [if addr = pc then play_mark else no_mark, hex_upper 8 addr @ '':'', '' '' @ hex_upper 8 word, ''  '',
      (case decode word of Some d \<Rightarrow> pad_right 7 (mnemonic d) | None \<Rightarrow> ''       '')]
     @ (if halts_at addr word then [''halt''] else [])"

text \<open>The rows from \<open>r\<close> on, \<open>n\<close> of them; the first word that cannot be read ends the panel.\<close>

fun memory_lines :: "any_cpu \<Rightarrow> u32 \<Rightarrow> nat \<Rightarrow> nat \<Rightarrow> string list list" where
  "memory_lines cpu base r 0 = []"
| "memory_lines cpu base r (Suc n) =
     (let addr = base + of_nat (r * 4)
      in case mem_read_word (op_mem any_ops cpu) addr of
           None \<Rightarrow> []
         | Some word \<Rightarrow> memory_line (op_pc any_ops cpu) addr word # memory_lines cpu base (Suc r) n)"

definition render_memory :: "any_cpu \<Rightarrow> u32 \<Rightarrow> nat \<Rightarrow> string list list" where
  "render_memory cpu base rows =
     (let lines = memory_lines cpu base 0 rows in if lines = [] then [['' (empty)'']] else lines)"

end
