(* ===== verification/TuiTabs.thy ===== *)
theory TuiTabs
  imports TuiPanels
begin

text \<open>
  The texts of the tabs of the terminal front end that are put together in \<open>run_app\<close> itself
  (\<open>src/nsc/ui.cpp\<close>): the converter's view of an instruction, the loader's preview, the Core Pulse
  tab and the header and status lines; and what the converter's bit boxes show.
\<close>

unbundle bit_operations_syntax

section \<open>The converter tab\<close>

definition converter_word :: "tui \<Rightarrow> u32" where
  "converter_word q = ucast (conv_value (tu_conv q) AND 0xFFFFFFFF)"

text \<open>A box: its range, its bits, its label.\<close>

definition field_box :: "u32 \<Rightarrow> nat \<times> nat \<times> string \<times> string \<Rightarrow> string \<times> string \<times> string" where
  "field_box v32 f =
     (case f of (hi, lo, rng, lbl) \<Rightarrow>
        (let mask = (if hi < 31 \<or> 0 < lo then push_bit (hi - lo + 1) 1 - 1 else 0xFFFFFFFF);
             fv = drop_bit lo v32 AND mask;
             w = hi - lo + 1
         in (rng, pad_zero w (show_base False 2 (unat fv)), lbl)))"

definition bits_row :: "u32 \<Rightarrow> (string \<times> string \<times> string) list" where
  "bits_row v32 = map (field_box v32)
     [(31, 26, ''[31:26]'', ''opcode''), (25, 21, ''[25:21]'', ''rs''), (20, 16, ''[20:16]'', ''rt''),
      (15, 11, ''[15:11]'', ''rd/hi''), (10, 6, ''[10:6]'', ''shamt''), (5, 0, ''[ 5:0]'', ''funct'')]"

definition hex_byte_at :: "nat \<Rightarrow> u32 \<Rightarrow> string" where
  "hex_byte_at sh v32 = pad_zero 2 (show_base True 16 (unat (drop_bit sh v32 AND 0xFF)))"

definition middle_dot :: string where "middle_dot = ''  '' @ [CHR 0xC2, CHR 0xB7] @ ''  ''"

definition nibble_row :: "u32 \<Rightarrow> string list" where
  "nibble_row v32 = [hex_byte_at 24 v32, middle_dot, hex_byte_at 16 v32, middle_dot, hex_byte_at 8 v32, middle_dot,
     hex_byte_at 0 v32]"

definition asm_line :: "u32 \<Rightarrow> string" where
  "asm_line v32 = (case decode v32 of Some d \<Rightarrow> dis_to_string d 0 | None \<Rightarrow> ''(invalid instruction)'')"

definition field_values :: "u32 \<Rightarrow> string list list" where
  "field_values v32 =
     (let f_rs = drop_bit 21 v32 AND 0x1F; f_rt = drop_bit 16 v32 AND 0x1F; f_rd = drop_bit 11 v32 AND 0x1F;
          f_shamt = drop_bit 6 v32 AND 0x1F; f_funct = v32 AND 0x3F
      in case decode v32 of
           None \<Rightarrow> [[''  (not a valid MIPS instruction)'']]
         | Some d \<Rightarrow>
             if di_format d = FmtR then
               [[''  rs  '', ''$'' @ kRegNames ! unat f_rs], [''  rt  '', ''$'' @ kRegNames ! unat f_rt],
                [''  rd  '', ''$'' @ kRegNames ! unat f_rd], [''  sa  '', show_dec (unat f_shamt)],
                [''  fn  '', ''0x'' @ hex_upper 2 f_funct]]
             else if di_format d = FmtI then
               [[''  rs  '', ''$'' @ kRegNames ! unat f_rs], [''  rt  '', ''$'' @ kRegNames ! unat f_rt],
                [''  imm '', ''0x'' @ pad_zero 4 (show_base True 16 (unat (i_imm (get_i d)))) @ ''  (''
                   @ show_int (sign_extend (i_imm (get_i d))) @ '')'']]
             else
               [[''  tgt '', ''0x'' @ hex_upper 7 (j_target (get_j d))],
                [''  '' @ arrow @ ''   '', ''0x'' @ hex_upper 8 ((4 AND 0xF0000000) OR push_bit 2 (j_target (get_j d)))]])"

definition signal_row :: "nat \<Rightarrow> string \<Rightarrow> string \<Rightarrow> bool \<Rightarrow> string list" where
  "signal_row width after name val = [''  '' @ pad_right width name @ after, if val then ''1'' else ''0'']"

definition control_columns :: "u32 \<Rightarrow> string list list \<times> string list list" where
  "control_columns v32 =
     (case decode v32 of
        None \<Rightarrow> ([[''  n/a'']], [])
      | Some d \<Rightarrow>
          (let c = derive_control d; sig = signal_row 7 '' ''
           in ([sig ''RegWr'' (c_reg_write c), sig ''MemRd'' (c_mem_read c), sig ''MemWr'' (c_mem_write c),
                sig ''MtoReg'' (c_mem_to_reg c)],
               [sig ''ALUSrc'' (c_alu_src c), sig ''RegDst'' (c_reg_dst c), sig ''Branch'' (c_branch c),
                sig ''Jump'' (c_jump c)])))"

section \<open>The header and the loader's preview\<close>

definition mode_text :: "cpu_mode \<Rightarrow> string" where
  "mode_text mode = (if mode = SingleCycle then ''Single-Cycle'' else ''5-stage Pipeline'')"

definition header_bar :: "tui \<Rightarrow> string list" where
  "header_bar q = ['' PC: '', ''0x'' @ hex_upper 8 (op_pc any_ops (tu_cpu q)), ''   Cycle: '',
     show_dec (op_cycle_count any_ops (tu_cpu q)), ''   '', mode_text (tu_mode q)]"

definition mode_pending :: "tui \<Rightarrow> bool" where
  "mode_pending q \<longleftrightarrow> (if tu_mode_idx q = 0 then tu_mode q \<noteq> SingleCycle else tu_mode q \<noteq> Pipelined)"

definition preview_line :: "u32 \<Rightarrow> u32 \<Rightarrow> u32 \<Rightarrow> string list" where
  "preview_line pc addr w =
     [if addr = pc then play_mark else no_mark, hex_upper 8 addr @ '':'', '' '' @ hex_upper 8 w, ''  '',
      (case decode w of Some d \<Rightarrow> pad_right 7 (mnemonic d) | None \<Rightarrow> ''       '')]"

text \<open>The loop of the preview: \<open>shown\<close> words so far, at most \<open>n\<close> more.\<close>

fun preview_lines :: "any_cpu \<Rightarrow> nat \<Rightarrow> nat \<Rightarrow> string list list" where
  "preview_lines cpu shown 0 = []"
| "preview_lines cpu shown (Suc n) =
     (let addr = of_nat (4 * shown)
      in case mem_read_word (op_mem any_ops cpu) addr of
           None \<Rightarrow> []
         | Some w \<Rightarrow> preview_line (op_pc any_ops cpu) addr w # preview_lines cpu (Suc shown) n)"

definition loader_preview :: "any_cpu \<Rightarrow> string list list" where
  "loader_preview cpu =
     (let lines = preview_lines cpu 0 12
      in if lines = [] then [[''  (memory empty '' @ em_dash @ '' no program loaded)'']] else lines)"

section \<open>The Core Pulse tab\<close>

definition if_panel :: "any_cpu \<Rightarrow> string list list" where
  "if_panel cpu =
     (let pc = op_pc any_ops cpu
      in case mem_read_word (op_mem any_ops cpu) pc of
           None \<Rightarrow> [[''  '', ''memory empty '' @ em_dash @ '' load a program first'']]
         | Some raw \<Rightarrow>
             [[''  PC  '', ''0x'' @ hex_upper 8 pc, ''   Raw  '', hex_upper 8 raw],
              [''  Asm '', (case decode raw of Some d \<Rightarrow> dis_to_string d pc | None \<Rightarrow> ''(unknown encoding)'')]])"

definition operand_row :: "string \<Rightarrow> any_cpu \<Rightarrow> u8 \<Rightarrow> string list" where
  "operand_row tag cpu nr =
     (let v = regs_read (op_regs any_ops cpu) nr
      in [tag @ pad_right 6 (reg_name nr), ''(#'' @ pad_right 2 (show_dec (unat nr)) @ '')  = '',
          ''0x'' @ hex_upper 8 v, ''  ('' @ show_signed (sint v) @ '')''])"

text \<open>The registers of the instruction at the program counter: \<open>rs\<close>, \<open>rt\<close>, \<open>rd\<close>, those it has.\<close>

definition fetched_regs :: "any_cpu \<Rightarrow> u8 option \<times> u8 option \<times> u8 option" where
  "fetched_regs cpu =
     (case mem_read_word (op_mem any_ops cpu) (op_pc any_ops cpu) of
        None \<Rightarrow> (None, None, None)
      | Some raw \<Rightarrow>
          (case decode raw of
             None \<Rightarrow> (None, None, None)
           | Some d \<Rightarrow>
               if di_format d = FmtR then (Some (r_rs (get_r d)), Some (r_rt (get_r d)), Some (r_rd (get_r d)))
               else if di_format d = FmtI then (Some (i_rs (get_i d)), Some (i_rt (get_i d)), None)
               else (None, None, None)))"

definition id_panel :: "any_cpu \<Rightarrow> string list list" where
  "id_panel cpu =
     (case fetched_regs cpu of (rs, rt, rd) \<Rightarrow>
        (case rs of Some nr \<Rightarrow> [operand_row ''  A  $'' cpu nr] | None \<Rightarrow> [])
        @ (case rt of Some nr \<Rightarrow> [operand_row ''  B  $'' cpu nr] | None \<Rightarrow> [])
        @ (case rd of Some nr \<Rightarrow>
             [[''  WB  $'' @ pad_right 6 (reg_name nr), ''(#'' @ pad_right 2 (show_dec (unat nr)) @ '')  ''
                @ [CHR 0xE2, CHR 0x86, CHR 0x90] @ '' will receive result'']] | None \<Rightarrow> [])
        @ (if rs = None \<and> rt = None then [[''  (no register reads '' @ em_dash @ '' J-type or memory empty)'']] else []))"

definition pulse_controls :: "any_cpu \<Rightarrow> string list list" where
  "pulse_controls cpu =
     (let c = op_last_control any_ops cpu; sig = signal_row 8 []
      in [sig ''RegWrite'' (c_reg_write c), sig ''RegDest'' (c_reg_dst c), sig ''ALUSrc'' (c_alu_src c),
          sig ''MemRead'' (c_mem_read c), sig ''MemWrite'' (c_mem_write c), sig ''Mem2Reg'' (c_mem_to_reg c),
          sig ''Branch'' (c_branch c), sig ''Jump'' (c_jump c)])"

definition stage_cell :: "stage_snapshot \<Rightarrow> string list" where
  "stage_cell st =
     ['' '' @ ss_name st @ '' '', ''  '' @ hex_upper 8 (ss_pc st),
      ''  '' @ (if ss_valid st \<and> ss_raw st \<noteq> 0
                then (case decode (ss_raw st) of Some d \<Rightarrow> mnemonic d | None \<Rightarrow> ''???'') else rule5),
      ''  '' @ (if ss_flushed st then ''flush'' else if ss_stalled st then ''stall''
                else if ss_valid st then ''valid'' else ''empty'')]"

definition hazard_rows :: "pipeline_state \<Rightarrow> string list list" where
  "hazard_rows ps =
     (let ex = (ps_fwd_ex_to_ex_a ps \<or> ps_fwd_ex_to_ex_b ps); mem = (ps_fwd_mem_to_ex_a ps \<or> ps_fwd_mem_to_ex_b ps)
      in [[''  Load stall    '', if ps_load_stall ps then ''YES'' else ''no'', ''    Branch flush  '',
           if ps_branch_flush ps then ''YES'' else ''no''],
          [''  Forwarding    '', if ex \<or> mem then ''active'' else ''none'']
            @ (if ex \<or> mem
               then [''   '', if ex then '' EX/MEM'' @ arrow @ ''EX '' else [], if mem then '' MEM/WB'' @ arrow @ ''EX '' else []]
               else [])])"

end
