(* ===== verification/TuiSession.thy ===== *)
theory TuiSession
  imports Tui
begin

text \<open>
  The invariant of the terminal front end: what holds in every state its events can reach, and what
  Reset and a switch of the model restore.
\<close>

unbundle bit_operations_syntax

section \<open>The invariant\<close>

definition tui_ok :: "tui \<Rightarrow> bool" where
  "tui_ok q \<longleftrightarrow> \<not> tu_syncing q \<and> tu_cycles q = of_nat (op_cycle_count any_ops (tu_cpu q))
     \<and> length (tu_trace q) \<le> 8 \<and> unat (tu_base q) mod 32 = 0 \<and> tu_tab q < length kTabLabels
     \<and> is_sc (tu_cpu q) = (tu_mode q = SingleCycle) \<and> regs_wf (op_regs any_ops (tu_cpu q))
     \<and> mem_size (op_mem any_ops (tu_cpu q)) = 2 ^ 16
     \<and> blank any_ops (tu_cpu q) = blank any_ops (tui_cpu (tu_mode q))
     \<and> length (tu_program q) * 4 \<le> 2 ^ 16"

text \<open>What the processor keeps through every step.\<close>

definition cpu_good :: "cpu_mode \<Rightarrow> any_cpu \<Rightarrow> bool" where
  "cpu_good mode c \<longleftrightarrow> is_sc c = (mode = SingleCycle) \<and> regs_wf (op_regs any_ops c) \<and> mem_size (op_mem any_ops c) = 2 ^ 16
     \<and> blank any_ops c = blank any_ops (tui_cpu mode)"

lemma tui_ok_cpu: "tui_ok q \<Longrightarrow> cpu_good (tu_mode q) (tu_cpu q)"
  by (simp add: tui_ok_def cpu_good_def)

lemma step_good: "cpu_good mode c \<Longrightarrow> cpu_good mode (snd (op_step any_ops c))"
  by (simp add: cpu_good_def any_sim.step_regs_wf any_sim.step_mem_size any_sim.blank_step)

lemma run_good: "cpu_good mode c \<Longrightarrow> cpu_good mode (snd (op_run any_ops n c))"
  unfolding op_run_def by (rule run_steps_keeps) (rule step_good)

lemma reset_good_cpu: "cpu_good mode c \<Longrightarrow> cpu_good mode (op_reset any_ops True c)"
  by (simp add: cpu_good_def any_sim.reset_regs any_sim.reset_mem any_sim.blank_reset)

lemma create_good_cpu: "cpu_good mode (tui_cpu mode)"
  by (cases mode) (simp_all add: cpu_good_def tui_cpu_def is_sc_def any_start any_sc any_pl sc_sel pl_sel sc_create_def
      pl_create_def cpu.extend_def mem_create_def mem_size_def)

text \<open>A load at address 0 into a machine that was reset.\<close>

lemma load_reset:
  assumes "cpu_good mode c"
  shows "\<exists>c'. op_load_program any_ops ws 0 (op_reset any_ops True c) = Some (length ws * 4 \<le> 2 ^ 16, c')
    \<and> cpu_good mode c' \<and> op_cycle_count any_ops c' = 0"
proof -
  let ?r = "op_reset any_ops True c"
  have r: "cpu_good mode ?r" by (rule reset_good_cpu [OF assms])
  then have "mem_in_bounds (op_mem any_ops ?r) 0 (length ws * 4) \<longleftrightarrow> length ws * 4 \<le> 2 ^ 16"
    by (simp add: mem_in_bounds_size cpu_good_def)
  then have ml: "mem_load_words (op_mem any_ops ?r) 0 ws =
      Some (length ws * 4 \<le> 2 ^ 16,
        if length ws * 4 \<le> 2 ^ 16 then load_words_from 0 0 ws (op_mem any_ops ?r) else op_mem any_ops ?r)"
    by (simp add: mem_load_words_def)
  have "cpu_good mode (op_set_pc any_ops 0 (op_put_mem any_ops (load_words_from 0 0 ws (op_mem any_ops ?r)) ?r))"
    using r by (simp add: cpu_good_def any_sim.regs_set_pc any_sim.regs_put_mem any_sim.mem_set_pc any_sim.mem_put_mem
        any_sim.blank_load)
  then show ?thesis
    unfolding any_sim.load_program ml using r by (simp add: any_sim.cycle_load any_sim.reset_cycle)
qed

section \<open>Every event keeps it\<close>

lemma trim_trace_length: "length (trim_trace es) \<le> 8"
  by (induction es) auto

lemma trace_committed_length: "length t \<le> 8 \<Longrightarrow> length (trace_committed mode ps t) \<le> 8"
  using trim_trace_length by (simp add: trace_committed_def Let_def)

lemma do_step_fields:
  "tu_cpu (snd (tui_do_step q)) = snd (op_step any_ops (tu_cpu q))"
  "tu_cycles (snd (tui_do_step q)) = tu_cycles q + 1"
  "tu_base (snd (tui_do_step q)) = tu_base q" "tu_mode (snd (tui_do_step q)) = tu_mode q"
  "tu_program (snd (tui_do_step q)) = tu_program q" "tu_syncing (snd (tui_do_step q)) = tu_syncing q"
  "tu_tab (snd (tui_do_step q)) = tu_tab q"
  "tu_trace (snd (tui_do_step q)) = trace_committed (tu_mode q)
     (op_pipeline_state any_ops (snd (op_step any_ops (tu_cpu q)))) (tu_trace q)"
  "fst (tui_do_step q) = fst (op_step any_ops (tu_cpu q))"
  "tu_auto (snd (tui_do_step q)) = (tu_auto q \<and> fst (op_step any_ops (tu_cpu q)) = StOk)"
  by (simp_all add: tui_do_step_def Let_def split_beta)

lemma do_step_ok_tui: "tui_ok q \<Longrightarrow> tui_ok (snd (tui_do_step q))"
  using step_good [OF tui_ok_cpu, of q] trace_committed_length
  by (simp add: tui_ok_def do_step_fields any_sim.step_cycle cpu_good_def)

lemma update_views_fields:
  "tu_cpu (update_views b s q) = tu_cpu q" "tu_cycles (update_views b s q) = tu_cycles q"
  "tu_trace (update_views b s q) = tu_trace q" "tu_base (update_views b s q) = tu_base q"
  "tu_mode (update_views b s q) = tu_mode q" "tu_program (update_views b s q) = tu_program q"
  "tu_tab (update_views b s q) = tu_tab q" "\<not> tu_syncing q \<Longrightarrow> \<not> tu_syncing (update_views b s q)"
  by (simp_all add: update_views_def Let_def split_beta)

lemma edit_ok: "tui_ok q \<Longrightarrow> tui_ok (edit_input b s q)"
  by (cases b) (simp_all add: edit_input_def tui_ok_def update_views_fields)

lemma run_ok: "tui_ok q \<Longrightarrow> tui_ok (btn_run q)"
  using run_good [OF tui_ok_cpu, of q kRunBudget] by (simp add: btn_run_def split_beta Let_def tui_ok_def cpu_good_def)

lemma restore_ok:
  assumes "cpu_good mode (tu_cpu q)" "length (tu_program q) * 4 \<le> 2 ^ 16"
  shows "\<exists>c. restore_program q = Some (q\<lparr>tu_cpu := c\<rparr>) \<and> cpu_good mode c \<and> op_cycle_count any_ops c = 0"
proof (cases "tu_program q = []")
  case True
  then show ?thesis
    using reset_good_cpu [OF assms(1)]
    by (intro exI [of _ "op_reset any_ops True (tu_cpu q)"]) (simp add: restore_program_def any_sim.reset_cycle)
next
  case False
  obtain c where c: "op_load_program any_ops (tu_program q) 0 (op_reset any_ops True (tu_cpu q)) = Some (True, c)"
    "cpu_good mode c" "op_cycle_count any_ops c = 0"
    using load_reset [OF assms(1), of "tu_program q"] assms(2) by auto
  have "q\<lparr>tu_cpu := c, tu_program := tu_program q\<rparr> = q\<lparr>tu_cpu := c\<rparr>" by simp
  then show ?thesis using False c by (intro exI [of _ c]) (simp add: restore_program_def Let_def)
qed

lemma reset_tui:
  assumes "tui_ok q"
  shows "\<exists>q'. btn_reset q = Some q' \<and> tui_ok q'"
proof -
  have p: "length (tu_program q) * 4 \<le> 2 ^ 16" using assms by (simp add: tui_ok_def)
  obtain c where "restore_program (q\<lparr>tu_auto := False\<rparr>) = Some (q\<lparr>tu_auto := False, tu_cpu := c\<rparr>)"
    "cpu_good (tu_mode q) c" "op_cycle_count any_ops c = 0"
    using restore_ok [of "tu_mode q" "q\<lparr>tu_auto := False\<rparr>"] tui_ok_cpu [OF assms] p by auto
  then show ?thesis using assms by (simp add: btn_reset_def tui_ok_def reset_tel_def cpu_good_def)
qed

lemma apply_tui:
  assumes "tui_ok q"
  shows "\<exists>q'. btn_apply q = Some q' \<and> tui_ok q'"
proof -
  define mode where "mode = (if tu_mode_idx q = 0 then SingleCycle else Pipelined)"
  let ?q = "(if tu_mode_idx q = 0
      then (reset_tel (q\<lparr>tu_auto := False, tu_cpu := op_reset any_ops True (tu_cpu q)\<rparr>))\<lparr>tu_base := 0, tu_cpu := tui_cpu SingleCycle,
        tu_mode := SingleCycle, tu_status := ''Switched to Single-Cycle.''\<rparr>
      else (reset_tel (q\<lparr>tu_auto := False, tu_cpu := op_reset any_ops True (tu_cpu q)\<rparr>))\<lparr>tu_base := 0, tu_cpu := tui_cpu Pipelined,
        tu_mode := Pipelined, tu_status := ''Switched to Pipelined (5-stage).''\<rparr>)"
  have e: "btn_apply q = restore_program ?q" by (simp add: btn_apply_def Let_def reset_tel_def)
  have m: "tu_mode ?q = mode" "cpu_good mode (tu_cpu ?q)" "length (tu_program ?q) * 4 \<le> 2 ^ 16"
    using create_good_cpu assms by (simp_all add: mode_def reset_tel_def tui_ok_def)
  obtain c where c: "restore_program ?q = Some (?q\<lparr>tu_cpu := c\<rparr>)" "cpu_good mode c" "op_cycle_count any_ops c = 0"
    using restore_ok [OF m(2,3)] by blast
  have "tui_ok (?q\<lparr>tu_cpu := c\<rparr>)"
    using c(2,3) m(1) assms by (simp add: tui_ok_def reset_tel_def cpu_good_def split: if_splits)
  then show ?thesis using e c(1) by simp
qed

lemma load_tui:
  assumes "tui_ok q"
  shows "\<exists>q'. btn_load open_file q = Some q' \<and> tui_ok q'"
proof -
  let ?q = "(reset_tel (q\<lparr>tu_auto := False, tu_cpu := op_reset any_ops True (tu_cpu q)\<rparr>))\<lparr>tu_base := 0\<rparr>"
  let ?p = "load_hex_file open_file (tu_path q)"
  have g: "cpu_good (tu_mode q) (tu_cpu q)" by (rule tui_ok_cpu [OF assms])
  have f: "tu_cpu ?q = op_reset any_ops True (tu_cpu q)" "tu_path ?q = tu_path q" by (simp_all add: reset_tel_def)
  obtain c where c: "op_load_program any_ops (hp_words ?p) 0 (op_reset any_ops True (tu_cpu q)) =
      Some (length (hp_words ?p) * 4 \<le> 2 ^ 16, c)" "cpu_good (tu_mode q) c" "op_cycle_count any_ops c = 0"
    using load_reset [OF g] by blast
  obtain ok cpu ws msg where
    l: "tui_load_hex open_file (tu_path q) (op_reset any_ops True (tu_cpu q)) = Some (ok, cpu, ws, msg)"
    "cpu_good (tu_mode q) cpu" "op_cycle_count any_ops cpu = 0" "length ws * 4 \<le> 2 ^ 16"
  proof (cases "hp_ok ?p")
    case True
    then show ?thesis
      using c that by (cases "length (hp_words ?p) * 4 \<le> 2 ^ 16") (simp_all add: tui_load_hex_def Let_def)
  next
    case False
    then show ?thesis
      using reset_good_cpu [OF g] that by (simp add: tui_load_hex_def Let_def any_sim.reset_cycle)
  qed
  then show ?thesis
    using assms by (simp add: btn_load_def Let_def f) (simp add: tui_ok_def reset_tel_def cpu_good_def)
qed

lemma aligned_up: "unat (b :: u32) mod 32 = 0 \<Longrightarrow> 32 \<le> b \<Longrightarrow> unat (b - 32) mod 32 = 0"
  by (simp add: unat_sub word_le_nat_alt mod_eq_0_iff_dvd dvd_diff_nat)

lemma aligned_down:
  assumes "unat (b :: u32) mod 32 = 0"
  shows "unat (b + 32) mod 32 = 0"
proof -
  have "unat (b + 32) = (unat b + 32) mod 2 ^ 32" by (simp add: unat_word_ariths)
  then have "unat (b + 32) mod 32 = (unat b + 32) mod 32" by (simp add: mod_mod_cancel)
  with assms show ?thesis by simp
qed

lemma unat_align: "unat ((pc :: u32) AND - 32) = unat pc div 32 * 32"
proof -
  have m: "(- 32 :: u32) = NOT (mask 5)" by (simp add: mask_eq_exp_minus_1)
  have "pc AND - 32 = push_bit 5 (drop_bit 5 pc)"
    unfolding m by (intro bit_eqI) (auto simp: bit_simps dest: bit_imp_le_length)
  moreover have "take_bit 32 (unat pc) = unat pc" using unsigned_less [of pc] by (simp add: take_bit_eq_mod)
  ultimately have "unat (pc AND - 32) = take_bit 32 (push_bit 5 (drop_bit 5 (unat pc)))"
    by (simp add: unsigned_push_bit_eq unsigned_drop_bit_eq)
  moreover have "unat pc div 32 * 32 < 2 ^ 32"
    using le_less_trans [OF div_times_less_eq_dividend unat_u32_less [of pc], of 32] by simp
  ultimately show ?thesis by (simp add: take_bit_eq_mod push_bit_eq_mult drop_bit_eq_div)
qed

lemma aligned_home: "unat ((pc :: u32) AND - 32) mod 32 = 0"
  by (simp add: unat_align)

lemma on_event_ok: "tui_ok q \<Longrightarrow> tui_ok (snd (tui_on_event dims key q))"
  using do_step_ok_tui [of q]
  by (cases key) (simp_all add: tui_on_event_def Let_def track_mouse_def split_beta tui_ok_def aligned_up aligned_down
      aligned_home)

lemma step_ok_tui: "tui_step q q' \<Longrightarrow> tui_ok q \<Longrightarrow> tui_ok q'"
proof (induction rule: tui_step.induct)
  case (handler dims key q b q')
  then show ?case using on_event_ok [of q dims key] by simp
next
  case (step q)
  then show ?case using do_step_ok_tui by (simp add: btn_step_def)
next
  case (reset q q')
  then show ?case using reset_tui [of q] by auto
next
  case (apply_mode q q')
  then show ?case using apply_tui [of q] by auto
next
  case (load q open_file q')
  then show ?case using load_tui [of q open_file] by auto
qed (auto simp: edit_ok run_ok, auto simp: tui_ok_def btn_auto_def)

lemma init_ok: "tui_ok tui_init"
  using create_good_cpu [of SingleCycle]
  by (simp add: tui_ok_def cpu_good_def tui_init_def kTabLabels_def) (simp add: tui_cpu_def any_start)

lemma tui_reach_ok: "tui_reach q \<Longrightarrow> tui_ok q"
  by (induction rule: tui_reach.induct) (auto intro: init_ok step_ok_tui)

section \<open>The machine after a load\<close>

text \<open>A new processor of the model, emptied and loaded.\<close>

definition fresh_load :: "cpu_mode \<Rightarrow> u32 list \<Rightarrow> any_cpu" where
  "fresh_load mode ws =
     (let c = op_reset any_ops True (tui_cpu mode)
      in if ws = [] then c else snd (the (op_load_program any_ops ws 0 c)))"

lemma load_like_fresh:
  assumes "cpu_good mode c" "op_load_program any_ops ws 0 (op_reset any_ops True c) = Some (True, c')" "ws \<noteq> []"
  shows "forget any_ops c' = forget any_ops (fresh_load mode ws)"
proof -
  have b: "blank any_ops c = blank any_ops (tui_cpu mode)" using assms(1) by (simp add: cpu_good_def)
  have ok: "length ws * 4 \<le> 2 ^ 16" using load_reset [OF assms(1), of ws] assms(2) by auto
  then obtain d where d: "op_load_program any_ops ws 0 (op_reset any_ops True (tui_cpu mode)) = Some (True, d)"
    using load_reset [OF create_good_cpu [of mode], of ws] by auto
  obtain m where m: "mem_load_words (op_mem any_ops (blank any_ops c)) 0 ws = Some (True, m)"
    "forget any_ops c' = op_set_pc any_ops 0 (op_put_mem any_ops m (blank any_ops c))"
    using assms(2) by (rule any_sim.load_blank)
  obtain n where n: "mem_load_words (op_mem any_ops (blank any_ops (tui_cpu mode))) 0 ws = Some (True, n)"
    "forget any_ops d = op_set_pc any_ops 0 (op_put_mem any_ops n (blank any_ops (tui_cpu mode)))"
    using d by (rule any_sim.load_blank)
  have "forget any_ops c' = forget any_ops d" using m n b by simp
  then show ?thesis using assms(3) d by (simp add: fresh_load_def)
qed

lemma restore_like_fresh:
  assumes "cpu_good mode (tu_cpu q)" "length (tu_program q) * 4 \<le> 2 ^ 16" "restore_program q = Some q'"
  shows "forget any_ops (tu_cpu q') = forget any_ops (fresh_load mode (tu_program q)) \<and> tu_program q' = tu_program q"
proof (cases "tu_program q = []")
  case True
  have "blank any_ops (tu_cpu q) = blank any_ops (tui_cpu mode)" using assms(1) by (simp add: cpu_good_def)
  then show ?thesis using True assms(3) by (auto simp: restore_program_def fresh_load_def blank_def)
next
  case False
  obtain c where c: "op_load_program any_ops (tu_program q) 0 (op_reset any_ops True (tu_cpu q)) = Some (True, c)"
    using load_reset [OF assms(1), of "tu_program q"] assms(2) by auto
  from load_like_fresh [OF assms(1) c False] show ?thesis
    using False assms(3) c by (auto simp: restore_program_def Let_def)
qed

definition tel_zero :: "tui \<Rightarrow> bool" where
  "tel_zero q \<longleftrightarrow> tu_cycles q = 0 \<and> tu_stalls q = 0 \<and> tu_forwards q = 0 \<and> tu_flushes q = 0 \<and> tu_retired q = 0
     \<and> tu_trace q = [] \<and> \<not> tu_auto q"

lemma restore_frame:
  "restore_program q = Some q' \<Longrightarrow> tu_mode q' = tu_mode q \<and> (tel_zero q' \<longleftrightarrow> tel_zero q)"
  by (auto simp: restore_program_def Let_def tel_zero_def split: if_splits)

section \<open>Properties\<close>

text \<open>C26: What holds in every state of the terminal front end. The cycle counter shown is the processor's cycle count, at most eight committed instructions are listed, the memory view starts on a multiple of 32 bytes, the processor is of the model that is shown as active with its memory of 64 KiB, the tab is one of the six, no update of the converter is in progress, and the program kept for Reset fits the memory; Reset, Apply and Load are always handled.\<close>

theorem tui_invariant:
  assumes "tui_reach q"
  shows "tu_cycles q = of_nat (op_cycle_count any_ops (tu_cpu q)) \<and> length (tu_trace q) \<le> 8
    \<and> unat (tu_base q) mod 32 = 0 \<and> (tu_mode q = SingleCycle \<longleftrightarrow> is_sc (tu_cpu q))
    \<and> mem_size (op_mem any_ops (tu_cpu q)) = 2 ^ 16 \<and> tu_tab q < length kTabLabels \<and> \<not> tu_syncing q
    \<and> length (tu_program q) * 4 \<le> 2 ^ 16
    \<and> btn_reset q \<noteq> None \<and> btn_apply q \<noteq> None \<and> btn_load open_file q \<noteq> None"
  using tui_reach_ok [OF assms] reset_tui [of q] apply_tui [of q] load_tui [of q open_file] by (auto simp: tui_ok_def)

lemma tui_invariant_witness: "unat (tu_base (snd (tui_on_event (80, 24) KPageDown (tui_init\<lparr>tu_tab := 1\<rparr>)))) mod 32 = 0"
proof -
  have "tui_reach (tui_init\<lparr>tu_tab := 1\<rparr>)"
    by (rule tui_reach.event [OF tui_reach.start select_tab]) (simp add: kTabLabels_def)
  from tui_reach.event [OF this handler [OF prod.collapse [symmetric]]]
  show ?thesis using tui_invariant by blast
qed

text \<open>C27: Reset, Load and a switch of the model start afresh. After Reset, after Apply and after a Load that succeeded, the machine is the one a new processor of the active model is after it is emptied and the kept program is loaded at address 0, in every component, memory included, but the code of the last exception, whatever was run before; Reset and Apply keep the program, the counters and the list of instructions are empty and the simulation does not run.\<close>

theorem fresh_after_load:
  assumes "tui_reach q"
    "btn_reset q = Some q' \<and> ws = tu_program q \<or> btn_apply q = Some q' \<and> ws = tu_program q
     \<or> btn_load open_file q = Some q' \<and> tu_ok q' \<and> ws = hp_words (load_hex_file open_file (tu_path q)) \<and> ws \<noteq> []"
  shows "forget any_ops (tu_cpu q') = forget any_ops (fresh_load (tu_mode q') ws) \<and> tu_program q' = ws \<and> tel_zero q'"
proof -
  have ok: "tui_ok q" by (rule tui_reach_ok [OF assms(1)])
  have g: "cpu_good (tu_mode q) (tu_cpu q)" and p: "length (tu_program q) * 4 \<le> 2 ^ 16"
    using tui_ok_cpu [OF ok] ok by (simp_all add: tui_ok_def)
  from assms(2) show ?thesis
  proof (elim disjE conjE)
    assume r: "btn_reset q = Some q'" "ws = tu_program q"
    then obtain q1 where q1: "restore_program (q\<lparr>tu_auto := False\<rparr>) = Some q1"
      "q' = (reset_tel q1)\<lparr>tu_base := 0, tu_status := ''CPU reset.''\<rparr>" by (auto simp: btn_reset_def)
    have "forget any_ops (tu_cpu q1) = forget any_ops (fresh_load (tu_mode q) (tu_program q)) \<and> tu_program q1 = tu_program q"
      using restore_like_fresh [OF _ _ q1(1), of "tu_mode q"] g p by simp
    moreover have "\<not> tu_auto q1" "tu_mode q1 = tu_mode q"
      using q1(1) by (auto simp: restore_program_def Let_def split: if_splits)
    ultimately show ?thesis using r(2) by (simp add: q1(2) reset_tel_def tel_zero_def)
  next
    assume a: "btn_apply q = Some q'" "ws = tu_program q"
    define mode where "mode = (if tu_mode_idx q = 0 then SingleCycle else Pipelined)"
    obtain q1 where q1: "restore_program q1 = Some q'" "tu_mode q1 = mode" "tu_cpu q1 = tui_cpu mode"
      "tu_program q1 = tu_program q" "tel_zero q1"
      using a(1) by (cases "tu_mode_idx q = 0") (auto simp: btn_apply_def Let_def mode_def reset_tel_def tel_zero_def)
    then have "forget any_ops (tu_cpu q') = forget any_ops (fresh_load mode (tu_program q)) \<and> tu_program q' = tu_program q"
      using restore_like_fresh [OF _ _ q1(1), of mode] create_good_cpu [of mode] p by simp
    then show ?thesis using restore_frame [OF q1(1)] q1 a(2) by simp
  next
    assume l: "btn_load open_file q = Some q'" "tu_ok q'" "ws = hp_words (load_hex_file open_file (tu_path q))" "ws \<noteq> []"
    obtain c where c: "op_load_program any_ops ws 0 (op_reset any_ops True (tu_cpu q)) = Some (length ws * 4 \<le> 2 ^ 16, c)"
      using load_reset [OF g, of ws] by blast
    have ok: "hp_ok (load_hex_file open_file (tu_path q))" "length ws * 4 \<le> 2 ^ 16" and q': "tu_cpu q' = c"
      "tu_program q' = ws" "tu_mode q' = tu_mode q" "tel_zero q'"
      using l c by (auto simp: btn_load_def Let_def tui_load_hex_def reset_tel_def tel_zero_def split: if_splits)
    show ?thesis using load_like_fresh [OF g, of ws c] c ok(2) l(4) q' by simp
  qed
qed

lemma fresh_after_load_witness:
  "\<exists>q'. btn_load (\<lambda>path. Some ''8'') (tui_init\<lparr>tu_tab := 3\<rparr>) = Some q'
     \<and> forget any_ops (tu_cpu q') = forget any_ops (fresh_load (tu_mode q') [8])"
proof -
  let ?q = "tui_init\<lparr>tu_tab := 3\<rparr>" and ?f = "\<lambda>path :: string. Some ''8''"
  have r: "tui_reach ?q"
    by (rule tui_reach.event [OF tui_reach.start select_tab]) (simp add: kTabLabels_def)
  obtain q' where q': "btn_load ?f ?q = Some q'" using load_tui [OF tui_reach_ok [OF r]] by blast
  have "hex_line ''8'' = Some (Some 8)"
    by (simp add: hex_line_def hex_clean_def hex_token_def is_space_def digit_val_def read_digits_def digits_value_Cons)
  then have w: "load_hex_file ?f (tu_path ?q) = \<lparr>hp_words = [8], hp_error = None\<rparr>"
    by (simp add: load_hex_file_def parse_hex_program_def parse_hex_lines_Cons)
  then have "tu_ok q'"
    using q' load_reset [OF tui_ok_cpu [OF tui_reach_ok [OF r]], of "[8]"]
    by (auto simp: btn_load_def Let_def tui_load_hex_def reset_tel_def hp_ok_def)
  with fresh_after_load [OF r, of q' "[8]" ?f] q' w show ?thesis by simp
qed

text \<open>Run to halt leaves the telemetry behind. The button runs the processor and shows its cycle count, but counts none of those cycles' retired instructions, stalls, forwards and flushes: the counters are the ones from before the run, so the CPI shown afterwards divides all cycles by the instructions retired before the run.\<close>

theorem run_to_halt_telemetry:
  "tu_cpu (btn_run q) = snd (op_run any_ops kRunBudget (tu_cpu q))
   \<and> tu_cycles (btn_run q) = of_nat (op_cycle_count any_ops (snd (op_run any_ops kRunBudget (tu_cpu q))))
   \<and> tu_retired (btn_run q) = tu_retired q \<and> tu_stalls (btn_run q) = tu_stalls q
   \<and> tu_forwards (btn_run q) = tu_forwards q \<and> tu_flushes (btn_run q) = tu_flushes q"
  by (simp add: btn_run_def split_beta Let_def)

end
