(* ===== verification/TuiViews.thy ===== *)
theory TuiViews
  imports TuiTabs TuiSession
begin

text \<open>
  What the panels of the terminal front end guarantee: the binary row of the decode panel is the word,
  the memory panel marks the program counter and the halting idiom, Home brings the program counter
  into view, and the fields of the converter agree.
\<close>

unbundle bit_operations_syntax

section \<open>The binary row\<close>

lemma read_digits_append: "read_digits b (s @ t) = read_digits b s * b ^ length t + read_digits b t"
proof (induction t rule: rev_induct)
  case (snoc c t)
  have e: "read_digits b (u @ [c]) = read_digits b u * b + digit_val c" for u
    using digits_value_snoc [of b "map digit_val u"] by (simp add: read_digits_def)
  have "read_digits b (s @ t @ [c]) = read_digits b ((s @ t) @ [c])" by simp
  then show ?case using snoc e [of "s @ t"] e [of t] by (simp add: algebra_simps)
qed (simp add: read_digits_def)

lemma read_pad: "2 \<le> b \<Longrightarrow> b \<le> 36 \<Longrightarrow> read_digits b (pad_zero w (show_base u b n)) = n"
  by (simp add: pad_zero_def read_show_base)

lemma length_pad: "2 \<le> b \<Longrightarrow> n < b ^ w \<Longrightarrow> 0 < w \<Longrightarrow> length (pad_zero w (show_base u b n)) = w"
  using length_show_base [of b n w u] by (simp add: pad_zero_def)

lemma add_field_bits:
  assumes "lo \<le> hi" "hi \<le> 31"
  shows "fst (add_field raw (hi, lo, l)) =
    pad_zero (hi - lo + 1) (show_base False 2 (unat raw div 2 ^ lo mod 2 ^ (hi - lo + 1)))"
proof (cases "hi - lo < 31")
  case True
  have "drop_bit lo raw AND (push_bit (hi - lo + 1) 1 - 1) = bits raw hi lo" by (simp add: bits_def)
  then show ?thesis using True unat_bits [of raw hi lo] by (simp add: add_field_def Let_def)
next
  case False
  then have e: "lo = 0" "hi = 31" using assms by simp_all
  have "raw AND 0xFFFFFFFF = raw AND mask 32" by (simp add: mask_eq_exp_minus_1)
  also have "\<dots> = raw" by (intro bit_eqI) (auto simp: bit_simps dest: bit_imp_le_length)
  finally show ?thesis using unsigned_less [of raw] by (simp add: add_field_def e)
qed

lemma field_append:
  assumes "lo \<le> hi" "hi \<le> 31" "read_digits 2 s = unat raw div 2 ^ Suc hi" "length s = 31 - hi"
  shows "read_digits 2 (s @ fst (add_field raw (hi, lo, l))) = unat raw div 2 ^ lo
    \<and> length (s @ fst (add_field raw (hi, lo, l))) = 32 - lo"
proof -
  let ?w = "hi - lo + 1"
  have l: "length (fst (add_field raw (hi, lo, l))) = ?w"
    unfolding add_field_bits [OF assms(1,2)] by (rule length_pad) simp_all
  have d: "unat raw div 2 ^ Suc hi = unat raw div 2 ^ lo div 2 ^ ?w"
  proof -
    have "Suc hi = lo + ?w" using assms(1) by simp
    then show ?thesis by (simp only: power_add div_mult2_eq)
  qed
  have v: "read_digits 2 (fst (add_field raw (hi, lo, l))) = unat raw div 2 ^ lo mod 2 ^ ?w"
    unfolding add_field_bits [OF assms(1,2)] by (rule read_pad) simp_all
  have "read_digits 2 (s @ fst (add_field raw (hi, lo, l))) = unat raw div 2 ^ lo"
    unfolding read_digits_append l v assms(3) d by (rule div_mult_mod_eq)
  moreover have "length (s @ fst (add_field raw (hi, lo, l))) = 32 - lo"
    using assms(1,2,4) l by simp
  ultimately show ?thesis ..
qed

text \<open>Fields that cover the bits below \<open>h\<close> from the top down.\<close>

fun tiles :: "nat \<Rightarrow> (nat \<times> nat \<times> string) list \<Rightarrow> bool" where
  "tiles h [] \<longleftrightarrow> h = 0"
| "tiles h ((hi, lo, l) # fs) \<longleftrightarrow> h = Suc hi \<and> lo \<le> hi \<and> tiles lo fs"

lemma tiled_fields:
  "\<lbrakk>tiles h fs; h \<le> 32; read_digits 2 s = unat raw div 2 ^ h; length s = 32 - h\<rbrakk>
   \<Longrightarrow> read_digits 2 (s @ concat (map (fst \<circ> add_field raw) fs)) = unat raw
     \<and> length (s @ concat (map (fst \<circ> add_field raw) fs)) = 32"
proof (induction h fs arbitrary: s rule: tiles.induct)
  case (2 h hi lo l fs)
  then have f: "lo \<le> hi" "hi \<le> 31" "h = Suc hi" "tiles lo fs" by simp_all
  let ?s = "s @ fst (add_field raw (hi, lo, l))"
  have "read_digits 2 ?s = unat raw div 2 ^ lo \<and> length ?s = 32 - lo"
    using 2(4,5) f by (intro field_append) simp_all
  with 2(1) [OF f(4), of ?s] f show ?case by simp
qed simp

lemma binary_row:
  "read_digits 2 (concat (map (fst \<circ> add_field raw) (binary_fields fmt))) = unat raw
   \<and> length (concat (map (fst \<circ> add_field raw) (binary_fields fmt))) = 32"
proof -
  have "tiles 32 (binary_fields fmt)" by (simp add: binary_fields_def)
  moreover have "read_digits 2 [] = unat raw div 2 ^ 32" using unsigned_less [of raw] by (simp add: read_digits_def)
  ultimately show ?thesis using tiled_fields [of 32 "binary_fields fmt" "[]" raw] by simp
qed

text \<open>The boxes of the converter tab are the cells of an R-format word.\<close>

lemma field_box_bits: "lo \<le> hi \<Longrightarrow> hi \<le> 31 \<Longrightarrow> fst (snd (field_box raw (hi, lo, rng, lbl))) = fst (add_field raw (hi, lo, l))"
  by (auto simp: field_box_def add_field_def Let_def)

lemma bits_row_cells: "map (fst \<circ> snd) (bits_row raw) = map (fst \<circ> add_field raw) (binary_fields FmtR)"
  by (simp add: bits_row_def binary_fields_def field_box_bits)

section \<open>The memory panel\<close>

lemma halts_at_iff:
  assumes "mem_read_word m a = Some w"
  shows "halts_at a w \<longleftrightarrow> self_jump m a"
proof -
  have b: "drop_bit 26 w AND 0x3F = bits w 31 26" "w AND 0x03FFFFFF = bits w 25 0" by (simp_all add: bits_def)
  show ?thesis
    unfolding halts_at_def Let_def b self_jump_def assms
    using decode_jump_iff [of w] decode_jump_target [of w]
    by (auto simp: jump_target_def jump_target_of_def split: option.splits)
qed

lemma memory_lines_nth:
  assumes "\<forall>j\<le>k. mem_read_word (op_mem any_ops cpu) (base + of_nat ((r + j) * 4)) \<noteq> None" "k < n"
  shows "memory_lines cpu base r n ! k = memory_line (op_pc any_ops cpu) (base + of_nat ((r + k) * 4))
      (the (mem_read_word (op_mem any_ops cpu) (base + of_nat ((r + k) * 4))))
    \<and> k < length (memory_lines cpu base r n)"
  using assms
proof (induction n arbitrary: r k)
  case (Suc n)
  have "mem_read_word (op_mem any_ops cpu) (base + of_nat ((r + 0) * 4)) \<noteq> None" using Suc.prems(1) by blast
  then obtain w where w: "mem_read_word (op_mem any_ops cpu) (base + of_nat (r * 4)) = Some w" by auto
  show ?case
  proof (cases k)
    case (Suc k')
    have "\<forall>j\<le>k'. mem_read_word (op_mem any_ops cpu) (base + of_nat ((Suc r + j) * 4)) \<noteq> None"
    proof (intro allI impI)
      fix j
      assume "j \<le> k'"
      then have "Suc j \<le> k" using Suc by simp
      then have "mem_read_word (op_mem any_ops cpu) (base + of_nat ((r + Suc j) * 4)) \<noteq> None" using Suc.prems(1) by blast
      then show "mem_read_word (op_mem any_ops cpu) (base + of_nat ((Suc r + j) * 4)) \<noteq> None" by simp
    qed
    from Suc.IH [OF this] Suc.prems(2) w Suc show ?thesis by (simp add: Let_def)
  qed (use w in \<open>simp add: Let_def\<close>)
qed simp

lemma readable:
  assumes "unat (base :: u32) mod 4 = 0" "unat base + 4 * j + 4 \<le> 2 ^ 16" "mem_size m = 2 ^ 16"
  shows "mem_read_word m (base + of_nat (j * 4)) \<noteq> None" "unat (base + of_nat (j * 4)) = unat base + 4 * j"
proof -
  show u: "unat (base + of_nat (j * 4)) = unat base + 4 * j"
    using unat_add_small [of base "j * 4"] assms(2) by simp
  show "mem_read_word m (base + of_nat (j * 4)) \<noteq> None"
    unfolding mem_read_word_None_iff mem_in_bounds_size and_3_unat u using assms by (simp add: mod_add_eq)
qed

text \<open>A line of the panel, in closed form.\<close>

lemma render_memory_nth:
  assumes "unat (base :: u32) mod 4 = 0" "unat base + 4 * k + 4 \<le> 2 ^ 16" "k < n"
    "mem_size (op_mem any_ops cpu) = 2 ^ 16"
  shows "\<exists>w. mem_read_word (op_mem any_ops cpu) (base + of_nat (k * 4)) = Some w
    \<and> render_memory cpu base n ! k = memory_line (op_pc any_ops cpu) (base + of_nat (k * 4)) w
    \<and> k < length (render_memory cpu base n)"
proof -
  have "\<forall>j\<le>k. mem_read_word (op_mem any_ops cpu) (base + of_nat ((0 + j) * 4)) \<noteq> None"
    using readable(1) [OF assms(1) _ assms(4)] assms(2) by simp
  from memory_lines_nth [OF this assms(3)] readable(1) [OF assms(1,2,4)]
  show ?thesis by (auto simp: render_memory_def Let_def)
qed

section \<open>The converter\<close>

lemma conv_as_parse: "parse_base (conv_as b c) (base_value b) = Some (conv_value c)"
proof -
  have "2 \<le> base_value b" by (cases b) (simp_all add: base_value_def)
  from parse_base_show [OF this, of "conv_value c"] show ?thesis by (cases c) simp
qed

lemma edit_views:
  assumes "\<not> tu_syncing q" "parse_base s (base_value b) = Some v"
  shows "parse_base (tu_dec (edit_input b s q)) 10 = Some v \<and> parse_base (tu_hex (edit_input b s q)) 16 = Some v
    \<and> parse_base (tu_bin (edit_input b s q)) 2 = Some v \<and> tu_nibble (edit_input b s q) = group_bits v
    \<and> tu_mnem (edit_input b s q) = word_mnemonic v"
  using assms conv_as_parse [of Decimal "(tu_conv q)\<lparr>conv_value := v\<rparr>"] conv_as_parse [of Hex "(tu_conv q)\<lparr>conv_value := v\<rparr>"]
    conv_as_parse [of Binary "(tu_conv q)\<lparr>conv_value := v\<rparr>"]
  by (cases b) (simp_all add: edit_input_def update_views_def conv_update_def conv_bits_def base_value_def)

lemma edit_rejected:
  assumes "parse_base s (base_value b) = None"
  shows "tu_conv (edit_input b s q) = tu_conv q \<and> tu_nibble (edit_input b s q) = tu_nibble q
    \<and> tu_mnem (edit_input b s q) = tu_mnem q \<and> (b \<noteq> Decimal \<longrightarrow> tu_dec (edit_input b s q) = tu_dec q)
    \<and> (b \<noteq> Hex \<longrightarrow> tu_hex (edit_input b s q) = tu_hex q) \<and> (b \<noteq> Binary \<longrightarrow> tu_bin (edit_input b s q) = tu_bin q)"
  using assms by (cases b) (simp_all add: edit_input_def update_views_def conv_update_def base_value_def)

section \<open>Properties\<close>

text \<open>The binary row of the decode panel is the instruction. Whatever the format, the bits of the row's cells, read from left to right, are the 32 binary digits of the word at the program counter, and there is one label per cell; so are the bits in the boxes of the converter tab, for the low 32 bits of the number converted.\<close>

theorem decode_panel_bits:
  assumes "mem_read_word (op_mem any_ops cpu) (op_pc any_ops cpu) = Some raw" "decode raw = Some dec"
  shows "\<exists>cells labels. render_instr_decode cpu =
      [field_row dec (op_pc any_ops cpu), [''  asm: '', dis_to_string dec (op_pc any_ops cpu)], ''  bits: '' # cells,
       ''         '' # labels]
    \<and> length cells = length labels \<and> length (concat cells) = 32 \<and> read_digits 2 (concat cells) = unat raw
    \<and> length (concat (map (fst \<circ> snd) (bits_row (converter_word q)))) = 32
    \<and> read_digits 2 (concat (map (fst \<circ> snd) (bits_row (converter_word q)))) = unat (converter_word q)"
  using assms binary_row [of raw "di_format dec"] binary_row [of "converter_word q" FmtR]
  unfolding bits_row_cells by (simp add: render_instr_decode_def Let_def o_def)

lemma decode_panel_bits_witness:
  "\<exists>cells labels. render_instr_decode (AnySc (sc_create 4)) = [field_row (the (decode 0)) 0, [''  asm: '', dis_to_string (the (decode 0)) 0],
      ''  bits: '' # cells, ''         '' # labels] \<and> length (concat cells) = 32"
proof -
  have w: "mem_read_word (op_mem any_ops (AnySc (sc_create 4))) (op_pc any_ops (AnySc (sc_create 4))) = Some 0"
    "op_pc any_ops (AnySc (sc_create 4)) = 0" by code_simp+
  have "decode 0 = Some (the (decode 0))" by code_simp
  from decode_panel_bits [OF w(1) this] show ?thesis unfolding w(2) by blast
qed

text \<open>C28: The memory panel shows the memory around its base. In every reachable state each of the 14 rows that lies within the memory shows the address \<open>base + 4 k\<close> and the word there, marks it exactly when the program counter is there, and says \<open>halt\<close> exactly when the word is the jump to itself at which both processors halt.\<close>

theorem memory_panel:
  assumes "tui_reach q" "k < 14" "unat (tu_base q) + 4 * k + 4 \<le> 2 ^ 16"
  shows "let addr = tu_base q + of_nat (k * 4); line = render_memory (tu_cpu q) (tu_base q) 14 ! k;
      m = op_mem any_ops (tu_cpu q)
    in k < length (render_memory (tu_cpu q) (tu_base q) 14) \<and> unat addr = unat (tu_base q) + 4 * k
      \<and> (line ! 0 = play_mark \<longleftrightarrow> op_pc any_ops (tu_cpu q) = addr) \<and> line ! 1 = hex_upper 8 addr @ '':''
      \<and> (\<exists>w. mem_read_word m addr = Some w \<and> line ! 2 = '' '' @ hex_upper 8 w)
      \<and> (drop 5 line = [''halt''] \<longleftrightarrow> self_jump m addr)"
proof -
  have ok: "tui_ok q" by (rule tui_reach_ok [OF assms(1)])
  have al: "unat (tu_base q) mod 4 = 0" "mem_size (op_mem any_ops (tu_cpu q)) = 2 ^ 16"
    using ok mod_mod_cancel [of 4 32 "unat (tu_base q)"] by (simp_all add: tui_ok_def)
  obtain w where w: "mem_read_word (op_mem any_ops (tu_cpu q)) (tu_base q + of_nat (k * 4)) = Some w"
    "render_memory (tu_cpu q) (tu_base q) 14 ! k = memory_line (op_pc any_ops (tu_cpu q)) (tu_base q + of_nat (k * 4)) w"
    "k < length (render_memory (tu_cpu q) (tu_base q) 14)"
    using render_memory_nth [OF al(1) assms(3,2) al(2)] by blast
  have marks: "play_mark \<noteq> no_mark" by (simp add: play_mark_def no_mark_def)
  show ?thesis
    unfolding Let_def w(2) readable(2) [OF al(1) assms(3) al(2)]
    using w(1,3) halts_at_iff [OF w(1)] marks by (simp add: memory_line_def)
qed

lemma memory_panel_witness: "render_memory (tui_cpu SingleCycle) 0 14 ! 0 ! 0 = play_mark"
proof -
  have p: "op_pc any_ops (tui_cpu SingleCycle) = 0"
    by (simp add: tui_cpu_def any_sc sc_sel sc_create_def cpu.extend_def)
  show ?thesis using memory_panel [OF tui_reach.start, of 0] p by (simp add: tui_init_def Let_def)
qed

text \<open>Home shows the program counter. On the dashboard, when the program counter is a word address within the memory, the Home key moves the memory view so that one of its first eight rows is the row of the program counter, with its mark; the key changes nothing else.\<close>

theorem home_shows_pc:
  assumes "tui_reach q" "tu_tab q = 1" "unat (op_pc any_ops (tu_cpu q)) mod 4 = 0"
    "unat (op_pc any_ops (tu_cpu q)) + 4 \<le> 2 ^ 16" "tui_on_event dims KHome q = (b, q')"
  shows "b \<and> q' = q\<lparr>tu_base := tu_base q'\<rparr>
    \<and> (\<exists>k<8. hd (render_memory (tu_cpu q') (tu_base q') 14 ! k) = play_mark
        \<and> tu_base q' + of_nat (k * 4) = op_pc any_ops (tu_cpu q'))"
proof -
  let ?pc = "op_pc any_ops (tu_cpu q)" and ?b = "op_pc any_ops (tu_cpu q) AND - 32"
  have q': "b" "q' = q\<lparr>tu_base := ?b\<rparr>" using assms(2,5) by (simp_all add: tui_on_event_def)
  have r: "tui_reach q'" using tui_reach.event [OF assms(1) handler [OF assms(5)]] .
  have sz: "mem_size (op_mem any_ops (tu_cpu q')) = 2 ^ 16" using tui_reach_ok [OF r] by (simp add: tui_ok_def)
  define k where "k = unat ?pc mod 32 div 4"
  have k: "k < 8" by (simp add: k_def)
  have sum: "unat ?b + 4 * k = unat ?pc" using assms(3) unfolding unat_align k_def by presburger
  have al: "unat ?b mod 4 = 0" using mod_mod_cancel [of 4 32 "unat ?b"] aligned_home [of ?pc] by simp
  have fit: "unat ?b + 4 * k + 4 \<le> 2 ^ 16" using sum assms(4) by simp
  have at: "?b + of_nat (k * 4) = ?pc" using readable(2) [OF al fit sz] sum by (simp add: word_unat_eq_iff)
  obtain w where "render_memory (tu_cpu q') ?b 14 ! k = memory_line (op_pc any_ops (tu_cpu q')) (?b + of_nat (k * 4)) w"
    using render_memory_nth [OF al fit _ sz, of 14] k by auto
  then have "hd (render_memory (tu_cpu q') ?b 14 ! k) = play_mark" unfolding at by (simp add: q'(2) memory_line_def)
  then show ?thesis using q' k at by auto
qed

lemma home_shows_pc_witness: "(\<exists>k<8. hd (render_memory (tui_cpu SingleCycle) 0 14 ! k) = play_mark)"
proof -
  let ?q = "tui_init\<lparr>tu_tab := 1\<rparr>"
  have r: "tui_reach ?q"
    by (rule tui_reach.event [OF tui_reach.start select_tab]) (simp add: kTabLabels_def)
  have p: "tu_cpu ?q = tui_cpu SingleCycle" "op_pc any_ops (tui_cpu SingleCycle) = 0"
    by (simp_all add: tui_init_def tui_cpu_def any_sc sc_sel sc_create_def cpu.extend_def)
  have e: "tui_on_event (80, 24) KHome ?q = (True, ?q\<lparr>tu_base := 0\<rparr>)"
    using p by (simp add: tui_on_event_def)
  show ?thesis using home_shows_pc [OF r _ _ _ e] p by auto
qed

text \<open>The fields of the converter agree. An edit of any of the three inputs that parses sets all three: each of them, read in its own base, is the number typed, the nibbles and the mnemonic are those of the number; an edit that does not parse changes nothing but its own input.\<close>

theorem converter_fields_agree:
  assumes "tui_reach q"
  shows "case parse_base s (base_value b) of
      Some v \<Rightarrow> parse_base (tu_dec (edit_input b s q)) 10 = Some v \<and> parse_base (tu_hex (edit_input b s q)) 16 = Some v
        \<and> parse_base (tu_bin (edit_input b s q)) 2 = Some v \<and> tu_nibble (edit_input b s q) = group_bits v
        \<and> tu_mnem (edit_input b s q) = word_mnemonic v
    | None \<Rightarrow> tu_conv (edit_input b s q) = tu_conv q \<and> tu_nibble (edit_input b s q) = tu_nibble q
        \<and> tu_mnem (edit_input b s q) = tu_mnem q \<and> (b \<noteq> Decimal \<longrightarrow> tu_dec (edit_input b s q) = tu_dec q)
        \<and> (b \<noteq> Hex \<longrightarrow> tu_hex (edit_input b s q) = tu_hex q) \<and> (b \<noteq> Binary \<longrightarrow> tu_bin (edit_input b s q) = tu_bin q)"
proof -
  have "\<not> tu_syncing q" using tui_reach_ok [OF assms] by (simp add: tui_ok_def)
  with edit_views [of q s b] edit_rejected [of s b q] show ?thesis by (simp split: option.split)
qed

lemma converter_fields_agree_witness: "parse_base (tu_dec (edit_input Hex ''7'' tui_init)) 10 = Some 7"
proof -
  have "parse_base ''7'' (base_value Hex) = Some 7"
    by (simp add: parse_base_Some base_value_def digit_val_def read_digits_def digits_value_Cons)
  with converter_fields_agree [where s = "''7''" and b = Hex, OF tui_reach.start] show ?thesis by simp
qed

end
