(* ===== verification/Splash.thy ===== *)
theory Splash
  imports Text
begin

text \<open>
  The circuit board of the start screen (\<open>runSplash\<close> in \<open>src/nsc/ui.cpp\<close>): the character grid, the
  clipped writes, the hash that varies the traces, the package with its pins, die, pads and labels, and
  the traces. Their horizontal and vertical runs are loops that end when a coordinate is reached
  exactly, so the model of such a loop need not return; that the board is always built is proved. The
  colours of the pulse, which are floating point, are left out.
\<close>

unbundle bit_operations_syntax

section \<open>The grid\<close>

datatype splash_kind = KdEmpty | KdBorder | KdPin | KdTrace | KdVia | KdPad | KdLabelCpu | KdLabelCaption

record splash_grid =
  gr_glyph :: "string list"
  gr_kind :: "splash_kind list"

definition kCols :: int where "kCols = 94"
definition kRows :: int where "kRows = 28"
definition cx :: int where "cx = kCols div 2"
definition cy :: int where "cy = kRows div 2"

definition splash_empty :: splash_grid where
  "splash_empty = \<lparr>gr_glyph = replicate (nat (kRows * kCols)) '' '', gr_kind = replicate (nat (kRows * kCols)) KdEmpty\<rparr>"

definition splash_idx :: "int \<Rightarrow> int \<Rightarrow> int" where
  "splash_idx x y = y * kCols + x"

definition splash_put :: "int \<Rightarrow> int \<Rightarrow> string \<Rightarrow> splash_kind \<Rightarrow> splash_grid \<Rightarrow> splash_grid" where
  "splash_put x y ch k g =
     (if x < 0 \<or> kCols \<le> x \<or> y < 0 \<or> kRows \<le> y then g
      else let i = nat (splash_idx x y)
           in if length (gr_glyph g) \<le> i then g
              else g\<lparr>gr_glyph := (gr_glyph g)[i := ch], gr_kind := (gr_kind g)[i := k]\<rparr>)"

fun splash_put_str :: "int \<Rightarrow> int \<Rightarrow> string \<Rightarrow> splash_kind \<Rightarrow> splash_grid \<Rightarrow> splash_grid" where
  "splash_put_str x y [] k g = g"
| "splash_put_str x y (c # s) k g =
     splash_put_str (x + 1) y s k (if c = CHR '' '' then g else splash_put x y [c] k g)"

definition hashf :: "int \<Rightarrow> int \<Rightarrow> u32" where
  "hashf a b =
     (let h = word_of_int a * 374761393 + word_of_int b * 668265263 + 0x9E3779B9;
          h = (h XOR drop_bit 13 h) * 1274126177
      in h XOR drop_bit 16 h)"

text \<open>\<open>static_cast<int>(hashf(a, b) % n)\<close>.\<close>

definition hash_mod :: "int \<Rightarrow> int \<Rightarrow> u32 \<Rightarrow> int" where
  "hash_mod a b n = uint (hashf a b mod n)"

section \<open>Loops\<close>

text \<open>The values of \<open>for (v = a; v <= b; v += s)\<close>, with \<open>s\<close> positive.\<close>

function steps :: "int \<Rightarrow> int \<Rightarrow> int \<Rightarrow> int list" where
  "steps a b s = (if b < a \<or> s \<le> 0 then [] else a # steps (a + s) b s)"
  by auto
termination by (relation "measure (\<lambda>(a, b, s). nat (b - a + 1))") auto

declare steps.simps [simp del]

text \<open>The values of \<open>for (v = a; v > b; --v)\<close>.\<close>

function steps_down :: "int \<Rightarrow> int \<Rightarrow> int list" where
  "steps_down a b = (if a \<le> b then [] else a # steps_down (a - 1) b)"
  by auto
termination by (relation "measure (\<lambda>(a, b). nat (a - b))") auto

declare steps_down.simps [simp del]

text \<open>\<open>for (v = a; v != b; v += d)\<close>: \<open>None\<close> when \<open>b\<close> is never reached.\<close>

partial_function (option) run_until :: "(int \<Rightarrow> splash_grid \<Rightarrow> splash_grid) \<Rightarrow> int \<Rightarrow> int \<Rightarrow> int \<Rightarrow> splash_grid \<Rightarrow>
    splash_grid option" where
  "run_until f d a b g = (if a = b then Some g else run_until f d (a + d) b (f a g))"

fun each :: "(int \<Rightarrow> splash_grid \<Rightarrow> splash_grid option) \<Rightarrow> int list \<Rightarrow> splash_grid \<Rightarrow> splash_grid option" where
  "each f [] g = Some g"
| "each f (v # vs) g = (case f v g of None \<Rightarrow> None | Some g \<Rightarrow> each f vs g)"

section \<open>Glyphs and coordinates\<close>

definition bar_v :: string where "bar_v = [CHR 0xE2, CHR 0x94, CHR 0x82]"
definition bar_h :: string where "bar_h = [CHR 0xE2, CHR 0x94, CHR 0x80]"
definition corner_tl :: string where "corner_tl = [CHR 0xE2, CHR 0x94, CHR 0x8C]"
definition corner_tr :: string where "corner_tr = [CHR 0xE2, CHR 0x94, CHR 0x90]"
definition corner_bl :: string where "corner_bl = [CHR 0xE2, CHR 0x94, CHR 0x94]"
definition corner_br :: string where "corner_br = [CHR 0xE2, CHR 0x94, CHR 0x98]"
definition pad_glyph :: string where "pad_glyph = [CHR 0xE2, CHR 0x96, CHR 0xAA]"
definition via_glyph :: string where "via_glyph = [CHR 0xE2, CHR 0x96, CHR 0xAB]"

definition pkgL :: int where "pkgL = cx - 23"
definition pkgR :: int where "pkgR = cx + 23"
definition pkgT :: int where "pkgT = cy - 8"
definition pkgB :: int where "pkgB = cy + 8"
definition dieL :: int where "dieL = pkgL + 3"
definition dieR :: int where "dieR = pkgR - 3"
definition dieT :: int where "dieT = pkgT + 2"
definition dieB :: int where "dieB = pkgB - 2"

section \<open>Package, pins and die\<close>

text \<open>A square of border glyphs, as drawn for the package and for the die.\<close>

definition draw_square :: "int \<Rightarrow> int \<Rightarrow> int \<Rightarrow> int \<Rightarrow> splash_grid \<Rightarrow> splash_grid" where
  "draw_square l r t b g =
     (let g = fold (\<lambda>x g. splash_put x b bar_h KdBorder (splash_put x t bar_h KdBorder g)) (steps l r 1) g;
          g = fold (\<lambda>y g. splash_put r y bar_v KdBorder (splash_put l y bar_v KdBorder g)) (steps t b 1) g
      in splash_put r b corner_br KdBorder (splash_put l b corner_bl KdBorder
           (splash_put r t corner_tr KdBorder (splash_put l t corner_tl KdBorder g))))"

definition draw_pins :: "splash_grid \<Rightarrow> splash_grid" where
  "draw_pins g =
     (let g = fold (\<lambda>x g. splash_put x (pkgB + 1) bar_v KdPin (splash_put x (pkgT - 1) bar_v KdPin g))
                (steps (pkgL + 2) (pkgR - 2) 2) g
      in fold (\<lambda>y g. splash_put (pkgR + 1) y bar_h KdPin (splash_put (pkgL - 1) y bar_h KdPin g))
           (steps (pkgT + 1) (pkgB - 1) 1) g)"

definition draw_pads :: "splash_grid \<Rightarrow> splash_grid" where
  "draw_pads g =
     fold (\<lambda>y. fold (\<lambda>x. splash_put x y pad_glyph KdPad) (steps (cx - 9) (cx + 9) 2)) (steps (cy - 4) (cy - 2) 1) g"

definition draw_chip :: "splash_grid \<Rightarrow> splash_grid" where
  "draw_chip g =
     splash_put_str (cx - 6) (cy + 3) ''CPU SIMULATOR'' KdLabelCaption
       (splash_put_str (cx - 1) cy ''CPU'' KdLabelCpu
         (draw_pads (draw_square dieL dieR dieT dieB (draw_pins (draw_square pkgL pkgR pkgT pkgB g)))))"

section \<open>Traces\<close>

definition trace_up :: "int \<Rightarrow> splash_grid \<Rightarrow> splash_grid option" where
  "trace_up x g =
     (let vertLen = 2 + hash_mod x 11 5;
          y0 = pkgT - 1;
          yBend = y0 - vertLen;
          g = fold (\<lambda>y. splash_put x y bar_v KdTrace) (steps_down y0 yBend) g
      in if hash_mod x 12 3 = 0
         then Some (splash_put x (yBend - 1) via_glyph KdVia (splash_put x yBend bar_v KdTrace g))
         else let right = (hash_mod x 13 2 = 0);
                  runLen = 2 + hash_mod x 14 5;
                  xEnd = x + (if right then runLen else - runLen);
                  g = splash_put x yBend (if right then corner_tl else corner_tr) KdTrace g
              in map_option (splash_put xEnd yBend via_glyph KdVia)
                   (run_until (\<lambda>xx. splash_put xx yBend bar_h KdTrace) (if right then 1 else - 1)
                     (x + (if right then 1 else - 1)) xEnd g))"

definition trace_down :: "int \<Rightarrow> splash_grid \<Rightarrow> splash_grid option" where
  "trace_down x g =
     (let vertLen = 2 + hash_mod x 21 5;
          y0 = pkgB + 1;
          yBend = y0 + vertLen;
          g = fold (\<lambda>y. splash_put x y bar_v KdTrace) (steps y0 (yBend - 1) 1) g
      in if hash_mod x 22 3 = 0
         then Some (splash_put x (yBend + 1) via_glyph KdVia (splash_put x yBend bar_v KdTrace g))
         else let right = (hash_mod x 23 2 = 0);
                  runLen = 2 + hash_mod x 24 5;
                  xEnd = x + (if right then runLen else - runLen);
                  g = splash_put x yBend (if right then corner_bl else corner_br) KdTrace g
              in map_option (splash_put xEnd yBend via_glyph KdVia)
                   (run_until (\<lambda>xx. splash_put xx yBend bar_h KdTrace) (if right then 1 else - 1)
                     (x + (if right then 1 else - 1)) xEnd g))"

definition trace_left :: "int \<Rightarrow> splash_grid \<Rightarrow> splash_grid option" where
  "trace_left yy g =
     (let horizLen = 2 + hash_mod yy 31 5;
          x0 = pkgL - 1;
          xBend = x0 - horizLen;
          g = fold (\<lambda>x. splash_put x yy bar_h KdTrace) (steps_down x0 xBend) g
      in if hash_mod yy 32 3 = 0
         then Some (splash_put (xBend - 1) yy via_glyph KdVia (splash_put xBend yy bar_h KdTrace g))
         else let down = (hash_mod yy 33 2 = 0);
                  runLen = 2 + hash_mod yy 34 4;
                  yEnd = yy + (if down then runLen else - runLen);
                  g = splash_put xBend yy (if down then corner_tl else corner_bl) KdTrace g
              in map_option (splash_put xBend yEnd via_glyph KdVia)
                   (run_until (\<lambda>y2. splash_put xBend y2 bar_v KdTrace) (if down then 1 else - 1)
                     (yy + (if down then 1 else - 1)) yEnd g))"

definition trace_right :: "int \<Rightarrow> splash_grid \<Rightarrow> splash_grid option" where
  "trace_right yy g =
     (let horizLen = 2 + hash_mod yy 41 5;
          x0 = pkgR + 1;
          xBend = x0 + horizLen;
          g = fold (\<lambda>x. splash_put x yy bar_h KdTrace) (steps x0 (xBend - 1) 1) g
      in if hash_mod yy 42 3 = 0
         then Some (splash_put (xBend + 1) yy via_glyph KdVia (splash_put xBend yy bar_h KdTrace g))
         else let down = (hash_mod yy 43 2 = 0);
                  runLen = 2 + hash_mod yy 44 4;
                  yEnd = yy + (if down then runLen else - runLen);
                  g = splash_put xBend yy (if down then corner_tr else corner_br) KdTrace g
              in map_option (splash_put xBend yEnd via_glyph KdVia)
                   (run_until (\<lambda>y2. splash_put xBend y2 bar_v KdTrace) (if down then 1 else - 1)
                     (yy + (if down then 1 else - 1)) yEnd g))"

definition splash_layout :: "splash_grid option" where
  "splash_layout =
     Option.bind (each trace_up (steps (pkgL + 3) (pkgR - 3) 6) (draw_chip splash_empty)) (\<lambda>g.
     Option.bind (each trace_down (steps (pkgL + 3) (pkgR - 3) 6) g) (\<lambda>g.
     Option.bind (each trace_left (steps (pkgT + 2) (pkgB - 2) 3) g)
       (each trace_right (steps (pkgT + 2) (pkgB - 2) 3))))"

section \<open>Cells\<close>

definition on_grid :: "int \<Rightarrow> int \<Rightarrow> bool" where
  "on_grid x y \<longleftrightarrow> 0 \<le> x \<and> x < kCols \<and> 0 \<le> y \<and> y < kRows"

definition splash_cell :: "splash_grid \<Rightarrow> int \<Rightarrow> int \<Rightarrow> string \<times> splash_kind" where
  "splash_cell g x y = (gr_glyph g ! nat (splash_idx x y), gr_kind g ! nat (splash_idx x y))"

text \<open>The two arrays have a cell per position, and a cell without a kind is blank.\<close>

definition grid_ok :: "splash_grid \<Rightarrow> bool" where
  "grid_ok g \<longleftrightarrow> length (gr_glyph g) = nat (kRows * kCols) \<and> length (gr_kind g) = nat (kRows * kCols)
     \<and> (\<forall>i<nat (kRows * kCols). gr_kind g ! i = KdEmpty \<longrightarrow> gr_glyph g ! i = '' '')"

lemma splash_idx_range:
  assumes "on_grid x y"
  shows "0 \<le> splash_idx x y" "splash_idx x y < kRows * kCols"
proof -
  have "0 \<le> y * 94" "y * 94 \<le> 27 * 94" using assms by (simp_all add: on_grid_def kRows_def)
  then show "0 \<le> splash_idx x y" "splash_idx x y < kRows * kCols"
    using assms by (simp_all add: on_grid_def splash_idx_def kRows_def kCols_def)
qed

lemma splash_idx_inj:
  assumes "on_grid x y" "on_grid x' y'" "splash_idx x y = splash_idx x' y'"
  shows "x = x' \<and> y = y'"
proof -
  have "y * 94 + x = y' * 94 + x'" "0 \<le> x" "x < 94" "0 \<le> x'" "x' < 94"
    using assms by (simp_all add: on_grid_def splash_idx_def kCols_def)
  then have "\<not> y < y'" "\<not> y' < y" by linarith+
  then show ?thesis using \<open>y * 94 + x = y' * 94 + x'\<close> by simp
qed

lemma grid_ok_put: "grid_ok g \<Longrightarrow> k \<noteq> KdEmpty \<Longrightarrow> grid_ok (splash_put x y ch k g)"
  by (simp add: grid_ok_def splash_put_def Let_def nth_list_update)

lemma cell_put:
  assumes "grid_ok g" "on_grid x' y'"
  shows "splash_cell (splash_put x y ch k g) x' y' = (if x = x' \<and> y = y' then (ch, k) else splash_cell g x' y')"
proof (cases "on_grid x y")
  case True
  have i: "nat (splash_idx x y) < nat (kRows * kCols)" "nat (splash_idx x y) = nat (splash_idx x' y') \<longleftrightarrow> x = x' \<and> y = y'"
    using splash_idx_range [OF True] splash_idx_range [OF assms(2)] splash_idx_inj [OF True assms(2)] by auto
  have l: "length (gr_glyph g) = nat (kRows * kCols)" "length (gr_kind g) = nat (kRows * kCols)"
    using assms(1) by (simp_all add: grid_ok_def)
  have "splash_put x y ch k g = g\<lparr>gr_glyph := (gr_glyph g)[nat (splash_idx x y) := ch],
      gr_kind := (gr_kind g)[nat (splash_idx x y) := k]\<rparr>"
  proof -
    have c: "\<not> (x < 0 \<or> kCols \<le> x \<or> y < 0 \<or> kRows \<le> y)" using True by (auto simp: on_grid_def)
    have n: "\<not> nat (kRows * kCols) \<le> nat (splash_idx x y)" using i(1) by (simp only: not_le)
    show ?thesis by (simp only: splash_put_def Let_def l c n if_False)
  qed
  then show ?thesis using i by (auto simp: splash_cell_def l nth_list_update)
next
  case False
  then have "splash_put x y ch k g = g" by (auto simp: splash_put_def on_grid_def)
  then show ?thesis using False assms(2) by auto
qed

section \<open>What is drawn outside the package\<close>

definition in_package :: "int \<Rightarrow> int \<Rightarrow> bool" where
  "in_package x y \<longleftrightarrow> pkgL \<le> x \<and> x \<le> pkgR \<and> pkgT \<le> y \<and> y \<le> pkgB"

definition package_intact :: "splash_grid \<Rightarrow> splash_grid \<Rightarrow> bool" where
  "package_intact g g' \<longleftrightarrow> (grid_ok g \<longrightarrow> grid_ok g' \<and> (\<forall>x y. in_package x y \<longrightarrow> splash_cell g' x y = splash_cell g x y))"

lemmas splash_coords = pkgL_def pkgR_def pkgT_def pkgB_def dieL_def dieR_def dieT_def dieB_def cx_def cy_def kCols_def kRows_def

lemma package_on_grid: "in_package x y \<Longrightarrow> on_grid x y"
  by (simp add: in_package_def on_grid_def splash_coords)

lemma intact_refl: "package_intact g g"
  by (simp add: package_intact_def)

lemma intact_trans: "package_intact a b \<Longrightarrow> package_intact b c \<Longrightarrow> package_intact a c"
  by (simp add: package_intact_def)

lemma intact_put: "\<not> in_package x y \<Longrightarrow> k \<noteq> KdEmpty \<Longrightarrow> package_intact g (splash_put x y ch k g)"
  using grid_ok_put cell_put package_on_grid by (auto simp: package_intact_def)

lemma intact_fold: "(\<And>v g. v \<in> set vs \<Longrightarrow> package_intact g (f v g)) \<Longrightarrow> package_intact g (fold f vs g)"
proof (induction vs arbitrary: g)
  case (Cons v vs)
  have "package_intact g (f v g)" using Cons.prems by simp
  moreover have "package_intact (f v g) (fold f vs (f v g))" using Cons by simp
  ultimately show ?case using intact_trans by simp
qed (simp add: intact_refl)

text \<open>A run that goes towards its end arrives there.\<close>

lemma run_until_returns:
  assumes "\<And>v g. package_intact g (f v g)" "b = a + d * int n"
  shows "\<exists>g'. run_until f d a b g = Some g' \<and> package_intact g g'"
  using assms(2)
proof (induction n arbitrary: a g)
  case 0
  then show ?case by (simp add: run_until.simps intact_refl)
next
  case (Suc n)
  show ?case
  proof (cases "a = b")
    case True
    then show ?thesis by (simp add: run_until.simps intact_refl)
  next
    case False
    have "b = (a + d) + d * int n" using Suc.prems by (simp add: algebra_simps)
    from Suc.IH [OF this, of "f a g"] obtain g' where "run_until f d (a + d) b (f a g) = Some g'" "package_intact (f a g) g'"
      by blast
    then show ?thesis using False intact_trans [OF assms(1)] by (simp add: run_until.simps)
  qed
qed

lemma each_returns:
  assumes "\<And>v g. v \<in> set vs \<Longrightarrow> \<exists>g'. f v g = Some g' \<and> package_intact g g'"
  shows "\<exists>g'. each f vs g = Some g' \<and> package_intact g g'"
  using assms
proof (induction vs arbitrary: g)
  case (Cons v vs)
  obtain g1 where g1: "f v g = Some g1" "package_intact g g1" using Cons.prems by (meson list.set_intros(1))
  obtain g2 where g2: "each f vs g1 = Some g2" "package_intact g1 g2" using Cons by (meson list.set_intros(2))
  show ?case using g1 g2 intact_trans by auto
qed (simp add: intact_refl)

lemma steps_ge: "v \<in> set (steps a b s) \<Longrightarrow> a \<le> v"
proof (induction a b s rule: steps.induct)
  case (1 a b s)
  then have "v \<in> set (if b < a \<or> s \<le> 0 then [] else a # steps (a + s) b s)" by (simp only: steps.simps [of a b s])
  with 1(1) show ?case by (force split: if_splits)
qed

lemma steps_down_le: "v \<in> set (steps_down a b) \<Longrightarrow> v \<le> a"
proof (induction a b rule: steps_down.induct)
  case (1 a b)
  then have "v \<in> set (if a \<le> b then [] else a # steps_down (a - 1) b)" by (simp only: steps_down.simps [of a b])
  with 1(1) show ?case by (force split: if_splits)
qed

lemma hash_mod_nonneg [simp]: "0 \<le> hash_mod a b n"
  by (simp add: hash_mod_def)

text \<open>The last part of a trace: a corner, a run of at least one cell, a via.\<close>

lemma intact_bend:
  assumes "package_intact g0 g" "\<And>v g. package_intact g (f v g)" "0 \<le> m" "package_intact g (c g)" "\<And>g. package_intact g (v g)"
  shows "\<exists>g'. map_option v (run_until f (if right then 1 else - 1) (p + (if right then 1 else - 1))
      (p + (if right then 2 + m else - (2 + m))) (c g)) = Some g' \<and> package_intact g0 g'"
proof -
  have "\<exists>n. p + (if right then 2 + m else - (2 + m)) = (p + (if right then 1 else - 1)) + (if right then 1 else - 1) * int n"
    using assms(3) by (intro exI [of _ "nat (1 + m)"]) simp
  then obtain n where "p + (if right then 2 + m else - (2 + m)) =
      (p + (if right then 1 else - 1)) + (if right then 1 else - 1) * int n" by blast
  from run_until_returns [where f = f, OF assms(2) this] obtain g1 where
    "run_until f (if right then 1 else - 1) (p + (if right then 1 else - 1)) (p + (if right then 2 + m else - (2 + m))) (c g) = Some g1"
    "package_intact (c g) g1" by blast
  then show ?thesis
    using intact_trans [OF intact_trans [OF assms(1,4)]] intact_trans assms(5) by (metis option.simps(9))
qed

lemma outside_package:
  "y < pkgT \<Longrightarrow> \<not> in_package x y" "pkgB < y \<Longrightarrow> \<not> in_package x y"
  "x < pkgL \<Longrightarrow> \<not> in_package x y" "pkgR < x \<Longrightarrow> \<not> in_package x y"
  by (simp_all add: in_package_def)

text \<open>A whole trace, from what its straight part, its end and its bend leave alone.\<close>

lemma trace_returns:
  assumes "package_intact g g1" "package_intact g1 (s g1)" "\<And>v h. package_intact h (f v h)" "0 \<le> m"
    "package_intact g1 (c g1)" "\<And>h. package_intact h (v h)"
  shows "\<exists>g'. (if straight then Some (s g1)
      else map_option v (run_until f (if right then 1 else - 1) (p + (if right then 1 else - 1))
        (p + (if right then 2 + m else - (2 + m))) (c g1))) = Some g' \<and> package_intact g g'"
  using intact_bend [of g g1 f m c v right p] assms intact_trans [OF assms(1,2)] by simp

text \<open>Two cells next to the straight part, on a row or a column that misses the package.\<close>

lemma intact_twice:
  "\<lbrakk>\<not> in_package x y; \<not> in_package x' y'; k \<noteq> KdEmpty; k' \<noteq> KdEmpty\<rbrakk>
   \<Longrightarrow> package_intact h (splash_put x' y' ch' k' (splash_put x y ch k h))"
  by (rule intact_trans [OF intact_put intact_put])

lemma trace_up_ok: "\<exists>g'. trace_up x g = Some g' \<and> package_intact g g'"
proof -
  define yb where "yb = pkgT - 1 - (2 + hash_mod x 11 5)"
  have yb: "\<not> in_package a yb" "\<not> in_package a (yb - 1)" for a
    using hash_mod_nonneg [of x 11 5] unfolding yb_def by (intro outside_package(1); linarith)+
  have f: "package_intact g (fold (\<lambda>y. splash_put x y bar_v KdTrace) (steps_down (pkgT - 1) yb) g)"
    using steps_down_le by (intro intact_fold intact_put outside_package(1)) fastforce+
  show ?thesis
    unfolding trace_up_def Let_def yb_def [symmetric]
    by (rule trace_returns [where s = "\<lambda>g. splash_put x (yb - 1) via_glyph KdVia (splash_put x yb bar_v KdTrace g)"
          and c = "splash_put x yb (if hash_mod x 13 2 = 0 then corner_tl else corner_tr) KdTrace", OF f])
       (simp_all add: yb intact_put intact_twice)
qed

lemma trace_down_ok: "\<exists>g'. trace_down x g = Some g' \<and> package_intact g g'"
proof -
  define yb where "yb = pkgB + 1 + (2 + hash_mod x 21 5)"
  have yb: "\<not> in_package a yb" "\<not> in_package a (yb + 1)" for a
    using hash_mod_nonneg [of x 21 5] unfolding yb_def by (intro outside_package(2); linarith)+
  have f: "package_intact g (fold (\<lambda>y. splash_put x y bar_v KdTrace) (steps (pkgB + 1) (yb - 1) 1) g)"
    using steps_ge by (intro intact_fold intact_put outside_package(2)) fastforce+
  show ?thesis
    unfolding trace_down_def Let_def yb_def [symmetric]
    by (rule trace_returns [where s = "\<lambda>g. splash_put x (yb + 1) via_glyph KdVia (splash_put x yb bar_v KdTrace g)"
          and c = "splash_put x yb (if hash_mod x 23 2 = 0 then corner_bl else corner_br) KdTrace", OF f])
       (simp_all add: yb intact_put intact_twice)
qed

lemma trace_left_ok: "\<exists>g'. trace_left y g = Some g' \<and> package_intact g g'"
proof -
  define xb where "xb = pkgL - 1 - (2 + hash_mod y 31 5)"
  have xb: "\<not> in_package xb a" "\<not> in_package (xb - 1) a" for a
    using hash_mod_nonneg [of y 31 5] unfolding xb_def by (intro outside_package(3); linarith)+
  have f: "package_intact g (fold (\<lambda>x. splash_put x y bar_h KdTrace) (steps_down (pkgL - 1) xb) g)"
    using steps_down_le by (intro intact_fold intact_put outside_package(3)) fastforce+
  show ?thesis
    unfolding trace_left_def Let_def xb_def [symmetric]
    by (rule trace_returns [where s = "\<lambda>g. splash_put (xb - 1) y via_glyph KdVia (splash_put xb y bar_h KdTrace g)"
          and c = "splash_put xb y (if hash_mod y 33 2 = 0 then corner_tl else corner_bl) KdTrace", OF f])
       (simp_all add: xb intact_put intact_twice)
qed

lemma trace_right_ok: "\<exists>g'. trace_right y g = Some g' \<and> package_intact g g'"
proof -
  define xb where "xb = pkgR + 1 + (2 + hash_mod y 41 5)"
  have xb: "\<not> in_package xb a" "\<not> in_package (xb + 1) a" for a
    using hash_mod_nonneg [of y 41 5] unfolding xb_def by (intro outside_package(4); linarith)+
  have f: "package_intact g (fold (\<lambda>x. splash_put x y bar_h KdTrace) (steps (pkgR + 1) (xb - 1) 1) g)"
    using steps_ge by (intro intact_fold intact_put outside_package(4)) fastforce+
  show ?thesis
    unfolding trace_right_def Let_def xb_def [symmetric]
    by (rule trace_returns [where s = "\<lambda>g. splash_put (xb + 1) y via_glyph KdVia (splash_put xb y bar_h KdTrace g)"
          and c = "splash_put xb y (if hash_mod y 43 2 = 0 then corner_tr else corner_br) KdTrace", OF f])
       (simp_all add: xb intact_put intact_twice)
qed

section \<open>The chip\<close>

lemma grid_ok_fold: "(\<And>v g. grid_ok g \<Longrightarrow> grid_ok (f v g)) \<Longrightarrow> grid_ok g \<Longrightarrow> grid_ok (fold f vs g)"
  by (induction vs arbitrary: g) auto

lemma grid_ok_put_str: "grid_ok g \<Longrightarrow> k \<noteq> KdEmpty \<Longrightarrow> grid_ok (splash_put_str x y s k g)"
  by (induction x y s k g rule: splash_put_str.induct) (simp_all add: grid_ok_put)

lemma grid_ok_empty: "grid_ok splash_empty"
  by (simp add: grid_ok_def splash_empty_def)

lemma grid_ok_chip:
  "grid_ok g \<Longrightarrow> grid_ok (draw_pads (draw_square dieL dieR dieT dieB (draw_pins (draw_square pkgL pkgR pkgT pkgB g))))"
  by (simp add: draw_pads_def draw_square_def draw_pins_def Let_def grid_ok_put grid_ok_fold)

lemma chip_label: "map (\<lambda>x. fst (splash_cell (draw_chip splash_empty) x cy)) [cx - 1, cx, cx + 1] = [''C'', ''P'', ''U'']"
proof -
  have on: "on_grid (cx - 1) cy" "on_grid cx cy" "on_grid (cx + 1) cy" by (simp_all add: on_grid_def splash_coords)
  show ?thesis
    unfolding draw_chip_def
    by (simp add: cell_put on grid_ok_put grid_ok_chip [OF grid_ok_empty] grid_ok_put_str)
qed

section \<open>Property\<close>

definition board_ok :: "splash_grid \<Rightarrow> bool" where
  "board_ok g \<longleftrightarrow> grid_ok g
     \<and> (\<forall>x y. in_package x y \<longrightarrow> splash_cell g x y = splash_cell (draw_chip splash_empty) x y)"

text \<open>The board of the start screen is always built. Every loop of the traces reaches the coordinate it ends at, the two arrays keep one cell per position of the grid although traces run past its edge, a cell without a kind stays blank, no trace touches the package, and the label in its middle reads CPU.\<close>

theorem splash_board_built:
  "\<exists>g. splash_layout = Some g \<and> board_ok g \<and> map (\<lambda>x. fst (splash_cell g x cy)) [cx - 1, cx, cx + 1] = [''C'', ''P'', ''U'']"
proof -
  obtain a where a: "each trace_up (steps (pkgL + 3) (pkgR - 3) 6) (draw_chip splash_empty) = Some a"
    "package_intact (draw_chip splash_empty) a" using each_returns [where f = trace_up, OF trace_up_ok] by blast
  obtain b where b: "each trace_down (steps (pkgL + 3) (pkgR - 3) 6) a = Some b" "package_intact a b"
    using each_returns [where f = trace_down, OF trace_down_ok] by blast
  obtain c where c: "each trace_left (steps (pkgT + 2) (pkgB - 2) 3) b = Some c" "package_intact b c"
    using each_returns [where f = trace_left, OF trace_left_ok] by blast
  obtain d where d: "each trace_right (steps (pkgT + 2) (pkgB - 2) 3) c = Some d" "package_intact c d"
    using each_returns [where f = trace_right, OF trace_right_ok] by blast
  have "grid_ok (draw_chip splash_empty)"
    unfolding draw_chip_def by (intro grid_ok_put_str grid_ok_chip grid_ok_empty) simp_all
  then have ok: "board_ok d"
    using intact_trans [OF intact_trans [OF intact_trans [OF a(2) b(2)] c(2)] d(2)]
    by (simp add: package_intact_def board_ok_def)
  moreover have "map (\<lambda>x. fst (splash_cell d x cy)) [cx - 1, cx, cx + 1] = [''C'', ''P'', ''U'']"
    using ok chip_label by (simp add: board_ok_def in_package_def splash_coords)
  ultimately show ?thesis using a b c d by (simp add: splash_layout_def)
qed

end
