(* ===== verification/MemoryView.thy ===== *)
theory MemoryView
  imports Memory Text
begin

text \<open>
  The memory panel of the Qt front end (\<open>src/nsc_qt/widgets/memory_widget.cpp\<close>): its copy of the
  memory, which a refresh patches in place a page at a time, and the changed ranges it highlights.
  The hex view it draws with is a library; what the view was last told to highlight is kept. The
  address box, the colours and the events of the widget system are left out.
\<close>

section \<open>State\<close>

definition kMaxHighlightRuns :: nat where
  "kMaxHighlightRuns = 256"

definition kPage :: nat where
  "kPage = 4096"

text \<open>\<open>snapshot_\<close> is null before the first refresh.\<close>

record memory_view =
  mv_snapshot :: "u8 list option"
  mv_changed :: "(nat \<times> nat) list"
  mv_marks :: "(nat \<times> nat) list"
  mv_status :: string

definition memory_view_init :: memory_view where
  "memory_view_init = \<lparr>mv_snapshot = None, mv_changed = [], mv_marks = [], mv_status = []\<rparr>"

text \<open>The local state of the comparison: the bytes shown, the flag and the ranges.\<close>

record diff =
  df_shown :: "u8 list"
  df_any :: bool
  df_runs :: "(nat \<times> nat) list"

section \<open>Operations\<close>

text \<open>The end of the run of differing bytes from \<open>i\<close> on, before \<open>e\<close>.\<close>

function run_end :: "u8 list \<Rightarrow> u8 list \<Rightarrow> nat \<Rightarrow> nat \<Rightarrow> nat" where
  "run_end now shown e i = (if i < e \<and> now ! i \<noteq> shown ! i then run_end now shown e (Suc i) else i)"
  by auto
termination by (relation "measure (\<lambda>(now, shown, e, i). e - i)") auto

declare run_end.simps [simp del]

definition record_run :: "nat \<Rightarrow> nat \<Rightarrow> (nat \<times> nat) list \<Rightarrow> (nat \<times> nat) list" where
  "record_run start i runs =
     (if runs \<noteq> [] \<and> fst (last runs) + snd (last runs) = start
      then butlast runs @ [(fst (last runs), snd (last runs) + (i - start))]
      else if length runs < kMaxHighlightRuns then runs @ [(start, i - start)] else runs)"

definition copy_run :: "u8 list \<Rightarrow> nat \<Rightarrow> nat \<Rightarrow> diff \<Rightarrow> diff" where
  "copy_run now start i d =
     d\<lparr>df_shown := take start (df_shown d) @ drop start (take i now) @ drop i (df_shown d), df_any := True,
       df_runs := record_run start i (df_runs d)\<rparr>"

lemma run_end_ge: "i \<le> run_end now shown e i"
  by (induction now shown e i rule: run_end.induct) (subst run_end.simps, auto)

lemma run_end_gt: "i < e \<Longrightarrow> now ! i \<noteq> shown ! i \<Longrightarrow> i < run_end now shown e i"
  by (subst run_end.simps) (use run_end_ge [of "Suc i" now shown e] in simp)

text \<open>The walk over the bytes of a page that differs.\<close>

function diff_bytes :: "u8 list \<Rightarrow> nat \<Rightarrow> nat \<Rightarrow> diff \<Rightarrow> diff" where
  "diff_bytes now e i d =
     (if e \<le> i then d
      else if now ! i = df_shown d ! i then diff_bytes now e (Suc i) d
      else diff_bytes now e (run_end now (df_shown d) e i) (copy_run now i (run_end now (df_shown d) e i) d))"
  by auto
termination
  by (relation "measure (\<lambda>(now, e, i, d). e - i)")
     (auto intro!: diff_less_mono2 run_end_gt)

declare diff_bytes.simps [simp del]

text \<open>The loop over the pages.\<close>

function diff_pages :: "u8 list \<Rightarrow> nat \<Rightarrow> diff \<Rightarrow> diff" where
  "diff_pages now page d =
     (if length now \<le> page then d
      else let e = min (page + kPage) (length now)
           in if drop page (take e now) = drop page (take e (df_shown d)) then diff_pages now (page + kPage) d
              else diff_pages now (page + kPage) (diff_bytes now e page d))"
  by auto
termination by (relation "measure (\<lambda>(now, page, d). length now - page)") (auto simp: kPage_def)

declare diff_pages.simps [simp del]

definition apply_highlights :: "memory_view \<Rightarrow> memory_view" where
  "apply_highlights v = v\<lparr>mv_marks := mv_changed v\<rparr>"

definition update_display :: "memory \<Rightarrow> memory_view \<Rightarrow> memory_view" where
  "update_display mem v =
     (let now = mem_data mem; had_highlights = (mv_changed v \<noteq> []); v = v\<lparr>mv_changed := []\<rparr>;
          take_all = v\<lparr>mv_snapshot := Some now, mv_status := show_dec (length now div 1024) @ '' KiB RAM''\<rparr>
      in case mv_snapshot v of
           None \<Rightarrow> take_all
         | Some shown \<Rightarrow>
             if length shown \<noteq> length now then take_all
             else let d = diff_pages now 0 \<lparr>df_shown = shown, df_any = False, df_runs = []\<rparr>;
                      v = v\<lparr>mv_snapshot := Some (df_shown d), mv_changed := df_runs d\<rparr>
                  in if had_highlights \<or> df_any d then apply_highlights v else v)"

section \<open>The changed ranges\<close>

text \<open>A byte lies in one of the ranges.\<close>

definition covered :: "(nat \<times> nat) list \<Rightarrow> nat \<Rightarrow> bool" where
  "covered runs k \<longleftrightarrow> (\<exists>(s, l) \<in> set runs. s \<le> k \<and> k < s + l)"

text \<open>
  The ranges recorded for the bytes below \<open>i\<close>: of changed bytes only, apart from each other, at most
  \<open>kMaxHighlightRuns\<close>, and missing a changed byte only when there are that many before it.
\<close>

definition runs_ok :: "(nat \<Rightarrow> bool) \<Rightarrow> nat \<Rightarrow> (nat \<times> nat) list \<Rightarrow> bool" where
  "runs_ok c i runs \<longleftrightarrow>
     (\<forall>(s, l) \<in> set runs. 0 < l \<and> s + l \<le> i \<and> (\<forall>k. s \<le> k \<and> k < s + l \<longrightarrow> c k))
     \<and> sorted_wrt (\<lambda>(s, l) (s', l'). s + l < s') runs \<and> length runs \<le> kMaxHighlightRuns
     \<and> (\<forall>k < i. c k \<longrightarrow> covered runs k \<or> length runs = kMaxHighlightRuns \<and> (\<forall>(s, l) \<in> set runs. s + l \<le> k))"

lemma runs_okI:
  assumes "\<And>s l. (s, l) \<in> set runs \<Longrightarrow> 0 < l \<and> s + l \<le> i" "\<And>s l k. (s, l) \<in> set runs \<Longrightarrow> s \<le> k \<Longrightarrow> k < s + l \<Longrightarrow> c k"
    "sorted_wrt (\<lambda>(s, l) (s', l'). s + l < s') runs" "length runs \<le> kMaxHighlightRuns"
    "\<And>k. k < i \<Longrightarrow> c k \<Longrightarrow> covered runs k \<or> length runs = kMaxHighlightRuns \<and> (\<forall>(s, l) \<in> set runs. s + l \<le> k)"
  shows "runs_ok c i runs"
  using assms by (auto simp: runs_ok_def)

lemma runs_okD:
  assumes "runs_ok c i runs"
  shows "(s, l) \<in> set runs \<Longrightarrow> 0 < l \<and> s + l \<le> i" "(s, l) \<in> set runs \<Longrightarrow> s \<le> k \<Longrightarrow> k < s + l \<Longrightarrow> c k"
    "sorted_wrt (\<lambda>(s, l) (s', l'). s + l < s') runs" "length runs \<le> kMaxHighlightRuns"
    "k < i \<Longrightarrow> c k \<Longrightarrow> \<not> covered runs k \<Longrightarrow> length runs = kMaxHighlightRuns"
    "k < i \<Longrightarrow> c k \<Longrightarrow> \<not> covered runs k \<Longrightarrow> (s, l) \<in> set runs \<Longrightarrow> s + l \<le> k"
  using assms by (auto simp: runs_ok_def)

lemma runs_ok_empty [simp]: "runs_ok c 0 []"
  by (simp add: runs_ok_def)

lemma runs_ok_grow:
  assumes r: "runs_ok c i runs" and "i \<le> j" and new: "\<And>k. i \<le> k \<Longrightarrow> k < j \<Longrightarrow> c k \<Longrightarrow> length runs = kMaxHighlightRuns"
  shows "runs_ok c j runs"
proof (rule runs_okI)
  fix k assume k: "k < j" "c k"
  show "covered runs k \<or> length runs = kMaxHighlightRuns \<and> (\<forall>(s, l) \<in> set runs. s + l \<le> k)"
  proof (cases "k < i")
    case True then show ?thesis using runs_okD(5,6) [OF r, of k] k by blast
  next
    case False
    then have "s + l \<le> k" if "(s, l) \<in> set runs" for s l using runs_okD(1) [OF r that] by linarith
    then show ?thesis using new [of k] False k by auto
  qed
qed (use runs_okD(1-4) [OF r] \<open>i \<le> j\<close> in \<open>fastforce+\<close>)

lemma covered_snoc: "covered (rs @ [(s, l)]) k \<longleftrightarrow> covered rs k \<or> s \<le> k \<and> k < s + l"
  by (auto simp: covered_def)

lemma runs_ok_extend:
  assumes r: "runs_ok c i (rs @ [(s, l)])" and e: "s + l = i" "i < j" and run: "\<And>k. i \<le> k \<Longrightarrow> k < j \<Longrightarrow> c k"
  shows "runs_ok c j (rs @ [(s, l + (j - i))])"
proof (rule runs_okI)
  fix k assume k: "k < j" "c k"
  have "covered (rs @ [(s, l)]) k" if "k < i"
    using runs_okD(6) [OF r that k(2), of s l] e that by fastforce
  then show "covered (rs @ [(s, l + (j - i))]) k \<or> length (rs @ [(s, l + (j - i))]) = kMaxHighlightRuns
      \<and> (\<forall>(s, l) \<in> set (rs @ [(s, l + (j - i))]). s + l \<le> k)"
    using e k by (cases "k < i") (auto simp: covered_snoc)
next
  show "sorted_wrt (\<lambda>(s, l) (s', l'). s + l < s') (rs @ [(s, l + (j - i))])"
    using runs_okD(3) [OF r] by (auto simp: sorted_wrt_append)
  show "length (rs @ [(s, l + (j - i))]) \<le> kMaxHighlightRuns" using runs_okD(4) [OF r] by simp
next
  fix a b assume m: "(a, b) \<in> set (rs @ [(s, l + (j - i))])"
  then show "0 < b \<and> a + b \<le> j" using runs_okD(1) [OF r, of a b] runs_okD(1) [OF r, of s l] e by auto
  show "c k" if "a \<le> k" "k < a + b" for k
    using m runs_okD(2) [OF r, of a b k] runs_okD(2) [OF r, of s l k] run [of k] e that by (cases "k < i") auto
qed

lemma runs_ok_append:
  assumes r: "runs_ok c i runs" and e: "\<And>s l. (s, l) \<in> set runs \<Longrightarrow> s + l \<noteq> i" and n: "length runs < kMaxHighlightRuns"
    and j: "i < j" and run: "\<And>k. i \<le> k \<Longrightarrow> k < j \<Longrightarrow> c k"
  shows "runs_ok c j (runs @ [(i, j - i)])"
proof (rule runs_okI)
  have "s + l < i" if "(s, l) \<in> set runs" for s l using runs_okD(1) [OF r that] e [OF that] by linarith
  then show "sorted_wrt (\<lambda>(s, l) (s', l'). s + l < s') (runs @ [(i, j - i)])"
    using runs_okD(3) [OF r] by (auto simp: sorted_wrt_append)
  show "length (runs @ [(i, j - i)]) \<le> kMaxHighlightRuns" using n by simp
next
  fix k assume k: "k < j" "c k"
  show "covered (runs @ [(i, j - i)]) k \<or> length (runs @ [(i, j - i)]) = kMaxHighlightRuns
      \<and> (\<forall>(s, l) \<in> set (runs @ [(i, j - i)]). s + l \<le> k)"
    using runs_okD(5) [OF r _ k(2)] n k by (cases "k < i") (auto simp: covered_snoc)
next
  fix a b assume m: "(a, b) \<in> set (runs @ [(i, j - i)])"
  then show "0 < b \<and> a + b \<le> j" using runs_okD(1) [OF r, of a b] j by auto
  show "c k" if "a \<le> k" "k < a + b" for k
    using m runs_okD(2) [OF r, of a b k] run [of k] that by auto
qed

text \<open>The end of the last range is the largest of the ends.\<close>

lemma last_run_end:
  assumes r: "runs_ok c i runs" and "fst (last runs) + snd (last runs) \<noteq> i" "(s, l) \<in> set runs"
  shows "s + l \<noteq> i"
proof -
  obtain rs a b where e: "runs = rs @ [(a, b)]" using assms(3) by (cases runs rule: rev_cases) auto
  then have "a + b \<noteq> i" "a + b \<le> i" "0 < b" using assms(2) runs_okD(1) [OF r, of a b] by auto
  moreover have "(s, l) = (a, b) \<or> s + l < a" using assms(3) runs_okD(3) [OF r] unfolding e by (auto simp: sorted_wrt_append)
  ultimately show ?thesis by auto
qed

lemma runs_ok_record:
  assumes r: "runs_ok c i runs" and j: "i < j" and run: "\<And>k. i \<le> k \<Longrightarrow> k < j \<Longrightarrow> c k"
  shows "runs_ok c j (record_run i j runs)"
proof (cases "runs \<noteq> [] \<and> fst (last runs) + snd (last runs) = i")
  case True
  then obtain rs s l where e: "runs = rs @ [(s, l)]" by (metis append_butlast_last_id prod.exhaust)
  then show ?thesis using runs_ok_extend [of c i rs s l j] r j run True by (simp add: record_run_def)
next
  case False
  then have e: "s + l \<noteq> i" if "(s, l) \<in> set runs" for s l using last_run_end [OF r _ that] that by auto
  show ?thesis
  proof (cases "length runs < kMaxHighlightRuns")
    case True
    have "runs_ok c j (runs @ [(i, j - i)])" using r e True j run by (rule runs_ok_append)
    then show ?thesis using False True by (auto simp: record_run_def)
  next
    case full: False
    have "runs_ok c j runs" using runs_ok_grow [OF r, of j] runs_okD(4) [OF r] full j by auto
    then show ?thesis using False full by (auto simp: record_run_def)
  qed
qed

section \<open>The loops\<close>

text \<open>What holds when the bytes below \<open>i\<close> have been compared.\<close>

definition diff_ok :: "u8 list \<Rightarrow> u8 list \<Rightarrow> nat \<Rightarrow> diff \<Rightarrow> bool" where
  "diff_ok old now i d \<longleftrightarrow> length (df_shown d) = length now \<and> (\<forall>k < i. df_shown d ! k = now ! k)
     \<and> (\<forall>k. i \<le> k \<and> k < length now \<longrightarrow> df_shown d ! k = old ! k) \<and> (df_any d \<longleftrightarrow> (\<exists>k < i. now ! k \<noteq> old ! k))
     \<and> runs_ok (\<lambda>k. now ! k \<noteq> old ! k) i (df_runs d)"

lemma diff_ok_skip:
  assumes d: "diff_ok old now i d" and j: "i \<le> j" "j \<le> length now" and same: "\<And>k. i \<le> k \<Longrightarrow> k < j \<Longrightarrow> now ! k = df_shown d ! k"
  shows "diff_ok old now j d"
proof -
  have k: "now ! k = old ! k" if "i \<le> k" "k < j" for k using d that same [of k] j by (auto simp: diff_ok_def)
  have "runs_ok (\<lambda>k. now ! k \<noteq> old ! k) j (df_runs d)"
    by (rule runs_ok_grow [OF _ j(1)]) (use d k in \<open>auto simp: diff_ok_def\<close>)
  moreover have "df_shown d ! k = now ! k" if "k < j" for k
    using d same [of k] that by (cases "k < i") (auto simp: diff_ok_def)
  moreover have "(\<exists>k < j. now ! k \<noteq> old ! k) \<longleftrightarrow> (\<exists>k < i. now ! k \<noteq> old ! k)"
  proof (intro iffI; elim exE conjE)
    fix m assume "m < j" "now ! m \<noteq> old ! m"
    then show "\<exists>k < i. now ! k \<noteq> old ! k" using k [of m] by (cases "m < i") auto
  qed (use j(1) less_le_trans in blast)
  ultimately show ?thesis using d j(1) by (simp add: diff_ok_def)
qed

lemma diff_ok_copy:
  assumes d: "diff_ok old now i d" and j: "i < j" "j \<le> length now"
    and differ: "\<And>k. i \<le> k \<Longrightarrow> k < j \<Longrightarrow> now ! k \<noteq> df_shown d ! k"
  shows "diff_ok old now j (copy_run now i j d)"
proof -
  have k: "now ! k \<noteq> old ! k" if "i \<le> k" "k < j" for k using d that differ [of k] j by (auto simp: diff_ok_def)
  have "runs_ok (\<lambda>k. now ! k \<noteq> old ! k) j (record_run i j (df_runs d))"
    by (rule runs_ok_record [OF _ j(1)]) (use d k in \<open>auto simp: diff_ok_def\<close>)
  moreover have len: "length (df_shown d) = length now" using d by (simp add: diff_ok_def)
  moreover have "(take i (df_shown d) @ drop i (take j now) @ drop j (df_shown d)) ! k
      = (if k < i then df_shown d ! k else if k < j then now ! k else df_shown d ! k)" if "k < length now" for k
    using len j that by (auto simp: nth_append)
  ultimately show ?thesis
    using d j k [of i] by (auto simp: diff_ok_def copy_run_def)
qed

lemma run_end_le: "i \<le> e \<Longrightarrow> run_end now shown e i \<le> e"
  by (induction now shown e i rule: run_end.induct) (subst run_end.simps, auto)

lemma run_end_differs: "i \<le> k \<Longrightarrow> k < run_end now shown e i \<Longrightarrow> now ! k \<noteq> shown ! k"
proof (induction now shown e i rule: run_end.induct)
  case (1 now shown e i)
  then show ?case by (cases "k = i") (auto simp: run_end.simps [of now shown e i] split: if_splits)
qed

lemma diff_ok_bytes: "diff_ok old now i d \<Longrightarrow> i \<le> e \<Longrightarrow> e \<le> length now \<Longrightarrow> diff_ok old now e (diff_bytes now e i d)"
proof (induction now e i d rule: diff_bytes.induct)
  case (1 now e i d)
  let ?j = "run_end now (df_shown d) e i"
  consider "e \<le> i" | "i < e" "now ! i = df_shown d ! i" | "i < e" "now ! i \<noteq> df_shown d ! i" by linarith
  then show ?case
  proof cases
    case 1
    then have "diff_bytes now e i d = d" "e = i" using "1.prems" by (subst diff_bytes.simps, simp_all)
    then show ?thesis using "1.prems" by simp
  next
    case 2
    have "diff_ok old now (Suc i) d"
      using diff_ok_skip [OF "1.prems"(1), of "Suc i"] 2 "1.prems"(3) by (auto simp: less_Suc_eq_le)
    then show ?thesis using 2 "1.IH"(1) "1.prems"(3) by (simp add: diff_bytes.simps [of now e i d])
  next
    case 3
    have "?j \<le> e" by (rule run_end_le) (use 3 in simp)
    moreover have "diff_ok old now ?j (copy_run now i ?j d)"
      using "1.prems"(3) \<open>?j \<le> e\<close> run_end_gt [OF 3] run_end_differs
      by (intro diff_ok_copy "1.prems"(1)) auto
    ultimately show ?thesis using 3 "1.IH"(2) "1.prems"(3) by (simp add: diff_bytes.simps [of now e i d])
  qed
qed

lemma diff_ok_pages: "diff_ok old now (min page (length now)) d \<Longrightarrow> diff_ok old now (length now) (diff_pages now page d)"
proof (induction now page d rule: diff_pages.induct)
  case (1 now page d)
  let ?e = "min (page + kPage) (length now)"
  show ?case
  proof (cases "length now \<le> page")
    case True
    then show ?thesis using "1.prems" by (simp add: diff_pages.simps [of now page d] min_absorb2)
  next
    case in_range: False
    then have d: "diff_ok old now page d" using "1.prems" by (simp add: min_def)
    show ?thesis
    proof (cases "drop page (take ?e now) = drop page (take ?e (df_shown d))")
      case True
      have len: "length (df_shown d) = length now" using d by (simp add: diff_ok_def)
      have "now ! k = df_shown d ! k" if "page \<le> k" "k < ?e" for k
        using arg_cong [OF True, of "\<lambda>xs. xs ! (k - page)"] that len by simp
      then have "diff_ok old now ?e d" using in_range by (intro diff_ok_skip [OF d]) auto
      then show ?thesis using True in_range "1.IH"(1) by (simp add: diff_pages.simps [of now page d])
    next
      case False
      have "diff_ok old now ?e (diff_bytes now ?e page d)" using in_range by (intro diff_ok_bytes d) auto
      then show ?thesis using False in_range "1.IH"(2) by (simp add: diff_pages.simps [of now page d] Let_def)
    qed
  qed
qed

lemma diff_pages_ok:
  "length old = length now \<Longrightarrow> diff_ok old now (length now) (diff_pages now 0 \<lparr>df_shown = old, df_any = False, df_runs = []\<rparr>)"
  by (rule diff_ok_pages) (simp add: diff_ok_def)

lemma diff_ok_shown: "diff_ok old now (length now) d \<Longrightarrow> df_shown d = now"
  by (auto simp: diff_ok_def intro: nth_equalityI)

lemma display_snapshot: "mv_snapshot (update_display m v) = Some (mem_data m)"
  using diff_ok_shown [OF diff_pages_ok]
  by (auto simp: update_display_def apply_highlights_def Let_def split: option.split)

section \<open>Property\<close>

text \<open>C40: A refresh of the memory panel is exact. The copy shown becomes the memory, byte for byte, although only the bytes that differ are copied. The ranges highlighted hold changed bytes only, lie apart from each other in ascending order, and are at most 256; as long as there are fewer, every changed byte is in one of them, and otherwise the changed bytes that are in none lie behind the last range, also where a run of changes crosses the border of a page.\<close>

theorem memory_refresh_exact:
  assumes "mv_snapshot v = Some old" "length old = length (mem_data m)" "mv_marks v = mv_changed v"
  shows "let v' = update_display m v; runs = mv_changed v' in
    mv_snapshot v' = Some (mem_data m) \<and> mv_marks v' = runs \<and> length runs \<le> kMaxHighlightRuns
    \<and> sorted_wrt (\<lambda>(s, l) (s', l'). s + l < s') runs
    \<and> (\<forall>k. covered runs k \<longrightarrow> k < length (mem_data m) \<and> mem_data m ! k \<noteq> old ! k)
    \<and> (\<forall>k < length (mem_data m). mem_data m ! k \<noteq> old ! k \<and> \<not> covered runs k \<longrightarrow>
         length runs = kMaxHighlightRuns \<and> (\<forall>(s, l) \<in> set runs. s + l \<le> k))"
proof -
  define d where "d = diff_pages (mem_data m) 0 \<lparr>df_shown = old, df_any = False, df_runs = []\<rparr>"
  have ok: "diff_ok old (mem_data m) (length (mem_data m)) d"
    unfolding d_def by (rule diff_pages_ok [OF assms(2)])
  have shown: "df_shown d = mem_data m" by (rule diff_ok_shown [OF ok])
  have runs: "runs_ok (\<lambda>k. mem_data m ! k \<noteq> old ! k) (length (mem_data m)) (df_runs d)"
    using ok by (simp add: diff_ok_def)
  have none: "df_runs d = []" if "\<not> df_any d"
  proof (rule ccontr)
    assume "df_runs d \<noteq> []"
    then obtain s l where m: "(s, l) \<in> set (df_runs d)" by (cases "df_runs d") auto
    then show False using runs_okD(1) [OF runs m] runs_okD(2) [OF runs m, of s] that ok by (auto simp: diff_ok_def)
  qed
  have "mv_snapshot (update_display m v) = Some (mem_data m)" "mv_changed (update_display m v) = df_runs d"
    "mv_marks (update_display m v) = df_runs d"
    using assms shown none by (auto simp: update_display_def apply_highlights_def Let_def d_def [symmetric])
  moreover have "k < length (mem_data m) \<and> mem_data m ! k \<noteq> old ! k" if c: "covered (df_runs d) k" for k
  proof -
    obtain s l where m: "(s, l) \<in> set (df_runs d)" "s \<le> k" "k < s + l" using c by (auto simp: covered_def)
    then show ?thesis using runs_okD(1) [OF runs m(1)] runs_okD(2) [OF runs m] by auto
  qed
  moreover have "length (df_runs d) = kMaxHighlightRuns \<and> (\<forall>(s, l) \<in> set (df_runs d). s + l \<le> k)"
    if "k < length (mem_data m)" "mem_data m ! k \<noteq> old ! k" "\<not> covered (df_runs d) k" for k
    using runs_okD(5,6) [OF runs that] by auto
  ultimately show ?thesis using runs_okD(3,4) [OF runs] unfolding Let_def by simp
qed

lemma memory_refresh_exact_witness:
  "mv_snapshot (update_display \<lparr>mem_data = [1, 2, 9, 9, 5]\<rparr>
     \<lparr>mv_snapshot = Some [1, 2, 3, 4, 5], mv_changed = [], mv_marks = [], mv_status = []\<rparr>) = Some [1, 2, 9, 9, 5]"
  using memory_refresh_exact [of "\<lparr>mv_snapshot = Some [1, 2, 3, 4, 5], mv_changed = [], mv_marks = [], mv_status = []\<rparr>"
      "[1, 2, 3, 4, 5]" "\<lparr>mem_data = [1, 2, 9, 9, 5]\<rparr>"]
  by (simp add: Let_def)

end
