(* ===== verification/PanelView.thy ===== *)
theory PanelView
  imports Prelude
begin

text \<open>
  The contract the window of the Qt front end has with its panels (\<open>MainWindow::onPipelineStateChanged\<close>
  in \<open>src/nsc_qt/main_window.cpp\<close>): every panel keeps its own model current, but draws only while it
  is visible, and redraws once when it is shown. The circuit view, the register panel and the pipeline
  diagram keep it.
\<close>

locale panel_view =
  fixes ok :: "'p \<Rightarrow> bool" and update :: "bool \<Rightarrow> 'r \<Rightarrow> 'p \<Rightarrow> 'p" and shown :: "'p \<Rightarrow> 'p"
    and model :: "'p \<Rightarrow> 'm" and advance :: "'r \<Rightarrow> 'm \<Rightarrow> 'm" and view :: "'p \<Rightarrow> 'v" and render :: "'m \<Rightarrow> 'v"
  assumes ok_update: "ok p \<Longrightarrow> ok (update visible r p)"
    and model_update: "ok p \<Longrightarrow> model (update visible r p) = advance r (model p)"
    and view_update: "ok p \<Longrightarrow> view (update True r p) = render (model (update True r p))"
    and view_shown: "ok p \<Longrightarrow> view (shown (update False r p)) = render (model (update False r p))"
begin

lemma ok_updates: "ok p \<Longrightarrow> ok (fold (update visible) rs p)"
  by (induction rs arbitrary: p) (simp_all add: ok_update)

lemma model_updates: "ok p \<Longrightarrow> model (fold (update visible) rs p) = fold advance rs (model p)"
  by (induction rs arbitrary: p) (simp_all add: ok_update model_update)

text \<open>A panel that was hidden for any number of reports shows, once it is shown, what it would show.\<close>

lemma catch_up:
  assumes "ok p" "rs \<noteq> []"
  shows "view (shown (fold (update False) rs p)) = view (fold (update True) rs p)"
proof -
  obtain rs' r where rs: "rs = rs' @ [r]" using assms(2) by (cases rs rule: rev_cases) auto
  have "ok (fold (update v) rs' p)" for v by (rule ok_updates [OF assms(1)])
  then have "view (shown (fold (update False) rs p)) = render (advance r (fold advance rs' (model p)))"
    "view (fold (update True) rs p) = render (advance r (fold advance rs' (model p)))"
    by (simp_all add: rs view_update view_shown model_update model_updates [OF assms(1)])
  then show ?thesis by simp
qed

end

end
