(* ===== verification/TraceGrid.thy ===== *)
theory TraceGrid
  imports Disassembler Processor PanelView
begin

text \<open>
  The pipeline diagram of the Qt front end (\<open>src/nsc_qt/widgets/pipeline_trace_widget.cpp\<close>): one row
  per dynamic instruction, followed from stage to stage, over the last 20 cycles. The table is what
  its cells say and how they are coloured; fonts and sizes are left out. Whether the widget is visible
  is a parameter.
\<close>

section \<open>State\<close>

definition kMaxCycles :: nat where
  "kMaxCycles = 20"

text \<open>\<open>cycle_in_stage\<close> has five entries; 0 stands for a stage the instance was not seen in.\<close>

record instr_row =
  ir_pc :: u32
  ir_raw :: u32
  ir_cycles :: "u64 list"

text \<open>A cell: empty, or the name of the stage, its background and whether the text is white.\<close>

type_synonym grid_cell = "(string \<times> string \<times> bool) option"

record grid_table =
  gt_header :: "string list"
  gt_rows :: "(string \<times> grid_cell list) list"

record trace_grid =
  tg_rows :: "instr_row list"
  tg_last :: u64
  tg_dirty :: bool
  tg_dark :: bool
  tg_table :: grid_table

definition kStageColors :: "string list" where
  "kStageColors = [''#BBDEFB'', ''#B2EBF2'', ''#C8E6C9'', ''#FFF9C4'', ''#FFCDD2'']"

definition kStageColorsDark :: "string list" where
  "kStageColorsDark = [''#0D47A1'', ''#006064'', ''#1B5E20'', ''#F57F17'', ''#B71C1C'']"

definition kStageNames :: "string list" where
  "kStageNames = [''IF'', ''ID'', ''EX'', ''MEM'', ''WB'']"

definition short_mnemonic :: "u32 \<Rightarrow> string" where
  "short_mnemonic raw =
     (if raw = 0 then ''nop'' else case decode raw of None \<Rightarrow> ''???'' | Some d \<Rightarrow> mnemonic d)"

section \<open>Rows\<close>

text \<open>The loop of \<open>lastStage\<close>: the greatest stage below \<open>n\<close> the instance was seen in.\<close>

fun last_stage_below :: "u64 list \<Rightarrow> nat \<Rightarrow> int" where
  "last_stage_below cs 0 = - 1"
| "last_stage_below cs (Suc n) = (if cs ! n \<noteq> 0 then int n else last_stage_below cs n)"

definition last_stage :: "instr_row \<Rightarrow> int" where
  "last_stage r = last_stage_below (ir_cycles r) 5"

definition row_last_cycle :: "instr_row \<Rightarrow> u64" where
  "row_last_cycle r = (let s = last_stage r in if s < 0 then 0 else ir_cycles r ! nat s)"

text \<open>
  The search for the row an instance in stage \<open>s\<close> continues: the first of the rows with the latest
  last cycle among those of the same address last seen in the stage before, in an earlier cycle.
\<close>

fun find_row :: "u32 \<Rightarrow> nat \<Rightarrow> u64 \<Rightarrow> instr_row list \<Rightarrow> nat \<Rightarrow> (nat \<times> u64) option \<Rightarrow> nat option" where
  "find_row pc s cycle [] i best = map_option fst best"
| "find_row pc s cycle (r # rs) i best =
     (if ir_pc r \<noteq> pc \<or> last_stage r \<noteq> int s - 1 \<or> cycle \<le> row_last_cycle r then find_row pc s cycle rs (Suc i) best
      else case best of
             None \<Rightarrow> find_row pc s cycle rs (Suc i) (Some (i, row_last_cycle r))
           | Some (j, c) \<Rightarrow>
               if c < row_last_cycle r then find_row pc s cycle rs (Suc i) (Some (i, row_last_cycle r))
               else find_row pc s cycle rs (Suc i) best)"

definition mark_row :: "nat \<Rightarrow> u64 \<Rightarrow> instr_row \<Rightarrow> instr_row" where
  "mark_row s cycle r = r\<lparr>ir_cycles := (ir_cycles r)[s := cycle]\<rparr>"

definition record_stage :: "pipeline_state \<Rightarrow> nat \<Rightarrow> instr_row list \<Rightarrow> instr_row list" where
  "record_stage ps s rows =
     (let snap = ps_stages ps ! s; cycle = (of_nat (ps_cycle ps) :: u64)
      in if \<not> ss_valid snap \<or> ss_stalled snap \<or> ss_flushed snap then rows
         else case find_row (ss_pc snap) s cycle rows 0 None of
                Some i \<Rightarrow> rows[i := mark_row s cycle (rows ! i)]
              | None \<Rightarrow> rows @ [mark_row s cycle \<lparr>ir_pc = ss_pc snap, ir_raw = ss_raw snap, ir_cycles = [0, 0, 0, 0, 0]\<rparr>])"

section \<open>The table\<close>

definition column_base :: "u64 \<Rightarrow> u64" where
  "column_base lastc = (if of_nat kMaxCycles < lastc then lastc - of_nat kMaxCycles else 0)"

definition column_cycle :: "u64 \<Rightarrow> nat \<Rightarrow> u64" where
  "column_cycle lastc ci = column_base lastc + of_nat ci + 1"

text \<open>The first stage whose cycle is the column's.\<close>

fun stage_in_column :: "u64 list \<Rightarrow> u64 \<Rightarrow> nat \<Rightarrow> nat option" where
  "stage_in_column [] c s = None"
| "stage_in_column (x # xs) c s = (if x = c then Some s else stage_in_column xs c (Suc s))"

definition grid_cell :: "bool \<Rightarrow> instr_row \<Rightarrow> u64 \<Rightarrow> grid_cell" where
  "grid_cell dark r c =
     map_option (\<lambda>s. (kStageNames ! s, (if dark then kStageColorsDark else kStageColors) ! s, dark))
       (stage_in_column (ir_cycles r) c 0)"

definition row_text :: "instr_row \<Rightarrow> string" where
  "row_text r = ''0x'' @ pad_zero 4 (show_base False 16 (unat (ir_pc r))) @ ''  '' @ short_mnemonic (ir_raw r)"

definition render_table :: "bool \<Rightarrow> u64 \<Rightarrow> instr_row list \<Rightarrow> grid_table" where
  "render_table dark lastc rows =
     \<lparr>gt_header = map (\<lambda>c. show_dec (unat (column_cycle lastc c))) [0..<kMaxCycles],
      gt_rows = map (\<lambda>r. (row_text r, map (\<lambda>c. grid_cell dark r (column_cycle lastc c)) [0..<kMaxCycles])) rows\<rparr>"

definition rebuild_table :: "trace_grid \<Rightarrow> trace_grid" where
  "rebuild_table t = t\<lparr>tg_dirty := False, tg_table := render_table (tg_dark t) (tg_last t) (tg_rows t)\<rparr>"

section \<open>Operations\<close>

definition grid_init :: trace_grid where
  "grid_init = rebuild_table \<lparr>tg_rows = [], tg_last = 0, tg_dirty = False, tg_dark = False,
     tg_table = \<lparr>gt_header = [], gt_rows = []\<rparr>\<rparr>"

definition grid_clear :: "trace_grid \<Rightarrow> trace_grid" where
  "grid_clear t = rebuild_table (t\<lparr>tg_rows := [], tg_last := 0\<rparr>)"

definition grid_dark :: "bool \<Rightarrow> trace_grid \<Rightarrow> trace_grid" where
  "grid_dark dark t = rebuild_table (t\<lparr>tg_dark := dark\<rparr>)"

definition grid_show :: "trace_grid \<Rightarrow> trace_grid" where
  "grid_show t = (if tg_dirty t then rebuild_table t else t)"

definition first_visible :: "u64 \<Rightarrow> u64" where
  "first_visible cycle = (if of_nat kMaxCycles < cycle then cycle - of_nat kMaxCycles + 1 else 1)"

definition grid_update :: "bool \<Rightarrow> pipeline_state \<Rightarrow> trace_grid \<Rightarrow> trace_grid" where
  "grid_update visible ps t =
     (let cycle = (of_nat (ps_cycle ps) :: u64);
          rows = (if cycle \<le> tg_last t \<or> of_nat kMaxCycles < cycle - tg_last t then [] else tg_rows t);
          rows = fold (record_stage ps) [4, 3, 2, 1, 0] rows;
          rows = filter (\<lambda>r. \<not> row_last_cycle r < first_visible cycle) rows;
          t = t\<lparr>tg_rows := rows, tg_last := cycle\<rparr>
      in if visible then rebuild_table t else t\<lparr>tg_dirty := True\<rparr>)"

text \<open>The states of a widget under any sequence of reports and events.\<close>

inductive grid_reach :: "trace_grid \<Rightarrow> bool" where
  init: "grid_reach grid_init"
| update: "grid_reach t \<Longrightarrow> grid_reach (grid_update visible ps t)"
| clear: "grid_reach t \<Longrightarrow> grid_reach (grid_clear t)"
| theme: "grid_reach t \<Longrightarrow> grid_reach (grid_dark dark t)"
| shown: "grid_reach t \<Longrightarrow> grid_reach (grid_show t)"

section \<open>A panel of the window\<close>

text \<open>The rows and the cycle a report leaves, seen or not.\<close>

definition grid_model :: "trace_grid \<Rightarrow> bool \<times> u64 \<times> instr_row list" where
  "grid_model t = (tg_dark t, tg_last t, tg_rows t)"

definition grid_advance :: "pipeline_state \<Rightarrow> bool \<times> u64 \<times> instr_row list \<Rightarrow> bool \<times> u64 \<times> instr_row list" where
  "grid_advance ps m = (case m of (dark, lastc, rows) \<Rightarrow>
     grid_model (grid_update False ps \<lparr>tg_rows = rows, tg_last = lastc, tg_dirty = False, tg_dark = dark, tg_table = undefined\<rparr>))"

interpretation diagram: panel_view "\<lambda>t. True" grid_update grid_show grid_model grid_advance tg_table
  "\<lambda>(dark, lastc, rows). render_table dark lastc rows"
  by unfold_locales
    (simp_all add: grid_model_def grid_advance_def grid_update_def grid_show_def rebuild_table_def Let_def)

section \<open>Rows are passages through consecutive stages\<close>

text \<open>The stages the instance was seen in are \<open>a\<close> to \<open>b\<close>, one after the other, the last not after \<open>c\<close>.\<close>

definition passage :: "u64 \<Rightarrow> nat \<Rightarrow> nat \<Rightarrow> u64 list \<Rightarrow> bool" where
  "passage c a b cs \<longleftrightarrow> length cs = 5 \<and> a \<le> b \<and> b < 5 \<and> (\<forall>k < 5. cs ! k \<noteq> 0 \<longleftrightarrow> a \<le> k \<and> k \<le> b)
     \<and> (\<forall>k. a \<le> k \<and> k < b \<longrightarrow> cs ! k < cs ! Suc k) \<and> cs ! b \<le> c"

definition row_ok :: "u64 \<Rightarrow> instr_row \<Rightarrow> bool" where
  "row_ok c r \<longleftrightarrow> (\<exists>a b. passage c a b (ir_cycles r))"

lemma passageD:
  assumes "passage c a b cs"
  shows "length cs = 5" "a \<le> b" "b < 5" "k < 5 \<Longrightarrow> cs ! k \<noteq> 0 \<longleftrightarrow> a \<le> k \<and> k \<le> b"
    "a \<le> k \<Longrightarrow> k < b \<Longrightarrow> cs ! k < cs ! Suc k" "cs ! b \<le> c"
  using assms by (simp_all add: passage_def)

lemma passage_less: "passage c a b cs \<Longrightarrow> a \<le> j \<Longrightarrow> j < k \<Longrightarrow> k \<le> b \<Longrightarrow> cs ! j < cs ! k"
proof (induction k)
  case (Suc k)
  note step = passageD(5) [OF Suc.prems(1), of k]
  show ?case
  proof (cases "j = k")
    case False
    then have "cs ! j < cs ! k" using Suc by simp
    also have "\<dots> < cs ! Suc k" using step Suc.prems False by simp
    finally show ?thesis .
  qed (use step Suc.prems in simp)
qed simp

lemma passage_le:
  assumes "passage c a b cs" "k < 5"
  shows "cs ! k \<le> cs ! b"
  using passage_less [OF assms(1), of k b] assms by (cases "cs ! k = 0") (fastforce simp: passage_def)+

lemma last_stage_below_eq:
  "b < n \<Longrightarrow> cs ! b \<noteq> 0 \<Longrightarrow> (\<And>k. b < k \<Longrightarrow> k < n \<Longrightarrow> cs ! k = 0) \<Longrightarrow> last_stage_below cs n = int b"
  by (induction n) (auto simp: less_Suc_eq)

lemma passage_last:
  assumes "passage c a b (ir_cycles r)"
  shows "last_stage r = int b" "row_last_cycle r = ir_cycles r ! b"
proof -
  show "last_stage r = int b"
    unfolding last_stage_def by (rule last_stage_below_eq) (use assms in \<open>auto simp: passage_def\<close>)
  then show "row_last_cycle r = ir_cycles r ! b" by (simp add: row_last_cycle_def Let_def)
qed

lemma row_cycle_le: "row_ok c r \<Longrightarrow> k < 5 \<Longrightarrow> ir_cycles r ! k \<le> row_last_cycle r"
  using passage_le passage_last(2) by (fastforce simp: row_ok_def)

lemma row_last_le: "row_ok c r \<Longrightarrow> row_last_cycle r \<le> c"
  using passage_last(2) passageD(6) by (fastforce simp: row_ok_def)

text \<open>A stage of a row is determined by its cycle.\<close>

lemma row_stage_unique:
  assumes "row_ok c r" "j < 5" "k < 5" "ir_cycles r ! j = ir_cycles r ! k" "ir_cycles r ! j \<noteq> 0"
  shows "j = k"
proof -
  obtain a b where p: "passage c a b (ir_cycles r)" using assms(1) by (auto simp: row_ok_def)
  have "a \<le> j \<and> j \<le> b" "a \<le> k \<and> k \<le> b"
    using passageD(4) [OF p assms(2)] passageD(4) [OF p assms(3)] assms(4,5) by simp_all
  then show ?thesis using passage_less [OF p] assms(4) by (metis less_irrefl nat_neq_iff)
qed

lemma row_ok_mono: "row_ok c r \<Longrightarrow> c \<le> c' \<Longrightarrow> row_ok c' r"
  using order_trans [of _ c c'] by (auto simp: row_ok_def passage_def)

lemma row_ok_new: "s < 5 \<Longrightarrow> c \<noteq> 0 \<Longrightarrow> row_ok c (mark_row s c \<lparr>ir_pc = pc, ir_raw = raw, ir_cycles = [0, 0, 0, 0, 0]\<rparr>)"
  unfolding row_ok_def mark_row_def
  by (rule exI [of _ s], rule exI [of _ s])
     (auto simp: passage_def nth_list_update nth_Cons' eval_nat_numeral less_Suc_eq)

lemma row_ok_mark:
  assumes "row_ok c r" "last_stage r = int s - 1" "row_last_cycle r < c" "s < 5"
  shows "row_ok c (mark_row s c r)"
proof -
  obtain a b where p: "passage c a b (ir_cycles r)" using assms(1) by (auto simp: row_ok_def)
  then have s: "s = Suc b" and l: "ir_cycles r ! b < c" using passage_last [OF p] assms by simp_all
  have "passage c a s ((ir_cycles r)[s := c])"
    using p l assms(4) unfolding passage_def s
    by (auto simp: nth_list_update less_Suc_eq)
  then show ?thesis by (auto simp: row_ok_def mark_row_def)
qed

section \<open>A report\<close>

text \<open>Two rows are never in the same stage in the same cycle.\<close>

definition apart :: "instr_row \<Rightarrow> instr_row \<Rightarrow> bool" where
  "apart r r' \<longleftrightarrow> (\<forall>k < 5. ir_cycles r ! k = ir_cycles r' ! k \<longrightarrow> ir_cycles r ! k = 0)"

definition rows_apart :: "instr_row list \<Rightarrow> bool" where
  "rows_apart rows \<longleftrightarrow> (\<forall>i < length rows. \<forall>j < length rows. i \<noteq> j \<longrightarrow> apart (rows ! i) (rows ! j))"

text \<open>The stages of a report that are recorded.\<close>

definition recorded :: "pipeline_state \<Rightarrow> nat \<Rightarrow> bool" where
  "recorded ps k \<longleftrightarrow> ss_valid (ps_stages ps ! k) \<and> \<not> ss_stalled (ps_stages ps ! k) \<and> \<not> ss_flushed (ps_stages ps ! k)"

text \<open>The rows after the stages from \<open>s\<close> on of a report in cycle \<open>c\<close>.\<close>

definition mid_rows :: "pipeline_state \<Rightarrow> u64 \<Rightarrow> nat \<Rightarrow> instr_row list \<Rightarrow> bool" where
  "mid_rows ps c s rows \<longleftrightarrow> (\<forall>r \<in> set rows. row_ok c r) \<and> rows_apart rows
     \<and> (\<forall>r \<in> set rows. \<forall>k < 5. ir_cycles r ! k = c \<longrightarrow> s \<le> k \<and> recorded ps k \<and> ir_pc r = ss_pc (ps_stages ps ! k))
     \<and> (\<forall>k < 5. s \<le> k \<and> recorded ps k \<longrightarrow> (\<exists>r \<in> set rows. ir_cycles r ! k = c))"

lemma find_row_sound:
  "find_row pc s c rs i best = Some j \<Longrightarrow>
   (\<exists>x. best = Some (j, x)) \<or>
   (i \<le> j \<and> j < i + length rs \<and> ir_pc (rs ! (j - i)) = pc \<and> last_stage (rs ! (j - i)) = int s - 1 \<and> row_last_cycle (rs ! (j - i)) < c)"
proof (induction rs arbitrary: i best)
  case (Cons r rs)
  have shift: "(r # rs) ! (j - i) = rs ! (j - Suc i)" if "Suc i \<le> j"
    using that by (simp add: Suc_diff_le nth_Cons' diff_Suc split: nat.split)
  show ?case
    using Cons.prems Cons.IH [of "Suc i" best] Cons.IH [of "Suc i" "Some (i, row_last_cycle r)"] shift
    by (auto simp: not_le split: if_splits option.splits prod.splits)
qed simp

lemma rows_apartD: "rows_apart rows \<Longrightarrow> i < length rows \<Longrightarrow> j < length rows \<Longrightarrow> i \<noteq> j \<Longrightarrow> apart (rows ! i) (rows ! j)"
  by (simp add: rows_apart_def)

lemma apartD: "apart r r' \<Longrightarrow> k < 5 \<Longrightarrow> ir_cycles r ! k = ir_cycles r' ! k \<Longrightarrow> ir_cycles r ! k = 0"
  by (simp add: apart_def)

lemma apart_sym: "apart r r' \<Longrightarrow> apart r' r"
  by (auto simp: apart_def)

lemma rows_apart_update:
  assumes "rows_apart rows" "\<And>j. j < length rows \<Longrightarrow> j \<noteq> i \<Longrightarrow> apart r (rows ! j)"
  shows "rows_apart (rows[i := r])"
  unfolding rows_apart_def
proof (intro allI impI)
  fix j k assume "j < length (rows[i := r])" "k < length (rows[i := r])" "j \<noteq> k"
  then show "apart (rows[i := r] ! j) (rows[i := r] ! k)"
    using assms apart_sym by (cases "j = i"; cases "k = i") (auto simp: rows_apart_def)
qed

lemma rows_apart_snoc:
  "rows_apart rows \<Longrightarrow> (\<And>r'. r' \<in> set rows \<Longrightarrow> apart r r') \<Longrightarrow> rows_apart (rows @ [r])"
  unfolding rows_apart_def by (auto simp: nth_append less_Suc_eq intro: apart_sym)

text \<open>One stage of a report marks one row, a new one or the one the search finds.\<close>

lemma mid_rows_mark:
  assumes m: "mid_rows ps c (Suc s) rows" and s: "s < 5" "recorded ps s" and r: "row_ok c r" "ir_cycles r ! s = c"
    "ir_pc r = ss_pc (ps_stages ps ! s)" "\<And>k. k < 5 \<Longrightarrow> k \<noteq> s \<Longrightarrow> ir_cycles r ! k \<noteq> c"
    and upd: "rows' = rows[i := r] \<and> i < length rows \<and> (\<forall>k < 5. ir_cycles (rows ! i) ! k \<noteq> c)
        \<and> (\<forall>j < length rows. j \<noteq> i \<longrightarrow> apart r (rows ! j))
      \<or> rows' = rows @ [r] \<and> (\<forall>r' \<in> set rows. apart r r')"
  shows "mid_rows ps c s rows'"
proof -
  have sub: "set rows' \<subseteq> insert r (set rows)" and r_in: "r \<in> set rows'"
    using upd set_update_subset_insert [of rows i r] by (auto intro: set_update_memI)
  have keep: "q \<in> set rows'" if q: "q \<in> set rows" "k < 5" "ir_cycles q ! k = c" for q k
  proof (cases "rows' = rows @ [r]")
    case False
    then have u: "rows' = rows[i := r]" "i < length rows" "\<forall>k < 5. ir_cycles (rows ! i) ! k \<noteq> c" using upd by auto
    obtain j where "j < length rows" "q = rows ! j" using q(1) by (auto simp: in_set_conv_nth)
    moreover from this have "j \<noteq> i" using u(3) q by auto
    ultimately show ?thesis unfolding u(1) by (metis length_list_update nth_list_update_neq nth_mem)
  qed (use q in simp)
  have "rows_apart rows'"
    using upd m rows_apart_update [of rows i r] rows_apart_snoc [of rows r] by (auto simp: mid_rows_def)
  moreover have "s \<le> k \<and> recorded ps k \<and> ir_pc q = ss_pc (ps_stages ps ! k)"
    if "q \<in> set rows'" "k < 5" "ir_cycles q ! k = c" for q k
  proof (cases "q = r")
    case True
    then show ?thesis using s r that by (metis le_refl)
  next
    case False
    then have "q \<in> set rows" using that(1) sub by auto
    then show ?thesis using m that by (auto simp: mid_rows_def dest: Suc_leD)
  qed
  moreover have "\<exists>q \<in> set rows'. ir_cycles q ! k = c" if k: "k < 5" "s \<le> k" "recorded ps k" for k
  proof (cases "k = s")
    case False
    then have "Suc s \<le> k" using k(2) by simp
    then obtain q where "q \<in> set rows" "ir_cycles q ! k = c" using m k by (auto simp: mid_rows_def)
    then show ?thesis using keep k by blast
  qed (use r r_in in blast)
  ultimately show ?thesis using m r(1) sub by (auto simp: mid_rows_def)
qed

lemma not_recorded_step: "\<not> recorded ps s \<Longrightarrow> mid_rows ps c (Suc s) rows \<Longrightarrow> mid_rows ps c s rows"
  unfolding mid_rows_def by (metis Suc_leD Suc_leI le_neq_implies_less)

lemma mid_rows_step:
  assumes m: "mid_rows ps c (Suc s) rows" and c: "c = of_nat (ps_cycle ps)" "c \<noteq> 0" and s: "s < 5"
  shows "mid_rows ps c s (record_stage ps s rows)"
proof (cases "recorded ps s")
  case False
  then have "record_stage ps s rows = rows" by (auto simp: record_stage_def recorded_def Let_def)
  then show ?thesis using not_recorded_step [OF False m] by simp
next
  case True
  let ?pc = "ss_pc (ps_stages ps ! s)"
  have no_s: "ir_cycles q ! s \<noteq> c" if "q \<in> set rows" for q
    using m s that by (fastforce simp: mid_rows_def)
  show ?thesis
  proof (cases "find_row ?pc s c rows 0 None")
    case None
    define r where "r = mark_row s c \<lparr>ir_pc = ?pc, ir_raw = ss_raw (ps_stages ps ! s), ir_cycles = [0, 0, 0, 0, 0]\<rparr>"
    have cyc: "ir_cycles r ! k = (if k = s then c else 0)" if "k < 5" for k
      using that s unfolding r_def mark_row_def by (auto simp: nth_list_update nth_Cons' eval_nat_numeral less_Suc_eq)
    have "record_stage ps s rows = rows @ [r]"
      using True None c by (simp add: record_stage_def recorded_def Let_def r_def)
    moreover have "\<forall>r' \<in> set rows. apart r r'" using no_s s c(2) by (auto simp: apart_def cyc)
    ultimately show ?thesis
      using row_ok_new [OF s c(2)] c(2) by (intro mid_rows_mark [OF m s True, of r]) (auto simp: r_def [symmetric] cyc s, simp_all add: r_def mark_row_def)
  next
    case (Some i)
    then have i: "i < length rows" "ir_pc (rows ! i) = ?pc" "last_stage (rows ! i) = int s - 1" "row_last_cycle (rows ! i) < c"
      using find_row_sound [of ?pc s c rows 0 None i] by auto
    have ok: "row_ok c (rows ! i)" using m i(1) by (simp add: mid_rows_def)
    have old: "ir_cycles (rows ! i) ! k \<noteq> c" if "k < 5" for k
      using row_cycle_le [OF ok that] i(4) by auto
    have len: "length (ir_cycles (rows ! i)) = 5" using ok by (auto simp: row_ok_def passage_def)
    have cyc: "ir_cycles (mark_row s c (rows ! i)) ! k = (if k = s then c else ir_cycles (rows ! i) ! k)" if "k < 5" for k
      using that s len by (auto simp: mark_row_def nth_list_update)
    have "record_stage ps s rows = rows[i := mark_row s c (rows ! i)]"
      using True Some c by (simp add: record_stage_def recorded_def Let_def)
    moreover have "apart (mark_row s c (rows ! i)) (rows ! j)" if "j < length rows" "j \<noteq> i" for j
    proof -
      have "apart (rows ! i) (rows ! j)" using m i(1) that by (auto simp: mid_rows_def rows_apart_def)
      then show ?thesis using no_s [of "rows ! j"] that by (auto simp: apart_def cyc)
    qed
    ultimately show ?thesis
      using row_ok_mark [OF ok i(3,4) s] i old
      by (intro mid_rows_mark [OF m s True, of "mark_row s c (rows ! i)" _ i]) (auto simp: cyc s, simp_all add: mark_row_def)
  qed
qed

text \<open>A report in cycle 0 records nothing.\<close>

definition blank_row :: "instr_row \<Rightarrow> bool" where
  "blank_row r \<longleftrightarrow> ir_cycles r = [0, 0, 0, 0, 0]"

lemma blank_row_last: "blank_row r \<Longrightarrow> row_last_cycle r = 0"
  by (simp add: blank_row_def row_last_cycle_def last_stage_def eval_nat_numeral nth_Cons')

lemma zero_cycle_step:
  assumes "of_nat (ps_cycle ps) = (0 :: u64)" "\<forall>r \<in> set rows. blank_row r"
  shows "\<forall>r \<in> set (record_stage ps s rows). blank_row r"
proof -
  have "find_row pc s 0 rs i None = None" for pc rs i
    by (induction rs arbitrary: i) simp_all
  then show ?thesis using assms
    by (auto simp: record_stage_def Let_def mark_row_def blank_row_def list_update_def split: nat.splits)
qed

section \<open>The invariant of the widget\<close>

definition diagram_ok :: "trace_grid \<Rightarrow> bool" where
  "diagram_ok t \<longleftrightarrow> (\<forall>r \<in> set (tg_rows t). row_ok (tg_last t) r \<and> first_visible (tg_last t) \<le> row_last_cycle r)
     \<and> rows_apart (tg_rows t) \<and> (\<not> tg_dirty t \<longrightarrow> tg_table t = render_table (tg_dark t) (tg_last t) (tg_rows t))"

lemma rows_apart_filter: "rows_apart rows \<Longrightarrow> rows_apart (filter P rows)"
proof -
  have iff: "rows_apart xs \<longleftrightarrow> sorted_wrt apart xs" for xs
  proof
    assume s: "sorted_wrt apart xs"
    show "rows_apart xs"
      unfolding rows_apart_def
    proof (intro allI impI)
      fix i j assume "i < length xs" "j < length xs" "i \<noteq> j"
      then show "apart (xs ! i) (xs ! j)"
        using s apart_sym by (cases "i < j") (auto simp: sorted_wrt_iff_nth_less)
    qed
  qed (auto simp: rows_apart_def sorted_wrt_iff_nth_less)
  show "rows_apart rows \<Longrightarrow> rows_apart (filter P rows)" unfolding iff by (rule sorted_wrt_filter)
qed

lemma first_visible_unat: "unat (first_visible c) = (if 20 < unat c then unat c - 19 else 1)"
proof -
  have k: "(of_nat kMaxCycles :: u64) = 20" by (simp add: kMaxCycles_def)
  show ?thesis
  proof (cases "20 < unat c")
    case True
    then have "20 < c" by (simp add: word_less_nat_alt)
    moreover have "unat (c - 19) = unat c - 19" using True by (subst unat_sub) (simp_all add: word_le_nat_alt)
    moreover have "c - 20 + 1 = c - 19" by simp
    ultimately show ?thesis using True by (simp add: first_visible_def k)
  next
    case False
    then show ?thesis by (simp add: first_visible_def k word_less_nat_alt)
  qed
qed

lemma first_visible_le: "c \<noteq> 0 \<Longrightarrow> first_visible c \<le> c"
  by (simp add: word_le_nat_alt first_visible_unat unat_gt_0 Suc_le_eq)

text \<open>The rows a report leaves: none in cycle 0, and otherwise those of the stages it reports.\<close>

lemma update_rows:
  assumes t: "diagram_ok t" and c: "c = of_nat (ps_cycle ps)"
  shows "if c = 0 then tg_rows (grid_update visible ps t) = []
    else mid_rows ps c 0 (tg_rows (grid_update visible ps t))
      \<and> (\<forall>r \<in> set (tg_rows (grid_update visible ps t)). first_visible c \<le> row_last_cycle r)"
proof -
  define start where "start = (if c \<le> tg_last t \<or> of_nat kMaxCycles < c - tg_last t then [] else tg_rows t)"
  define rows where "rows = fold (record_stage ps) [4, 3, 2, 1, 0] start"
  have e: "tg_rows (grid_update visible ps t) = filter (\<lambda>r. \<not> row_last_cycle r < first_visible c) rows"
    by (simp add: grid_update_def Let_def rebuild_table_def c rows_def start_def)
  show ?thesis
  proof (cases "c = 0")
    case True
    then have "\<forall>r \<in> set rows. blank_row r"
      unfolding rows_def fold_simps using c
      by (intro zero_cycle_step) (simp_all add: start_def)
    moreover have "0 < first_visible c" using True by (simp add: word_less_nat_alt first_visible_unat)
    ultimately show ?thesis using True by (auto simp: e blank_row_last)
  next
    case False
    have "mid_rows ps c 5 start"
      using t row_cycle_le row_last_le row_ok_mono
      by (fastforce simp: mid_rows_def start_def diagram_ok_def rows_apart_def)
    then have m: "mid_rows ps c 0 rows"
      unfolding rows_def using mid_rows_step [OF _ c False] by (simp add: eval_nat_numeral)
    have "row_last_cycle r = c" if "r \<in> set rows" "k < 5" "ir_cycles r ! k = c" for r k
      using that m row_cycle_le row_last_le by (fastforce simp: mid_rows_def)
    then have "r \<in> set (tg_rows (grid_update visible ps t))" if "r \<in> set rows" "k < 5" "ir_cycles r ! k = c" for r k
      using that first_visible_le [OF False] by (auto simp: e not_less)
    then have kept: "\<exists>r \<in> set (tg_rows (grid_update visible ps t)). ir_cycles r ! k = c" if "k < 5" "recorded ps k" for k
      using m that unfolding mid_rows_def by blast
    have "r \<in> set rows" if "r \<in> set (tg_rows (grid_update visible ps t))" for r using that by (auto simp: e)
    moreover have "rows_apart (tg_rows (grid_update visible ps t))"
      using m unfolding e mid_rows_def by (intro rows_apart_filter) simp
    ultimately have "mid_rows ps c 0 (tg_rows (grid_update visible ps t))"
      using m kept unfolding mid_rows_def by simp blast
    then show ?thesis using False by (auto simp: e)
  qed
qed

lemma diagram_ok_rebuild:
  "(\<forall>r \<in> set (tg_rows t). row_ok (tg_last t) r \<and> first_visible (tg_last t) \<le> row_last_cycle r) \<Longrightarrow> rows_apart (tg_rows t)
   \<Longrightarrow> diagram_ok (rebuild_table t)"
  by (simp add: diagram_ok_def rebuild_table_def)

lemma diagram_ok_update:
  assumes "diagram_ok t"
  shows "diagram_ok (grid_update visible ps t)"
proof -
  define t' where "t' = grid_update visible ps t"
  have last: "tg_last t' = of_nat (ps_cycle ps)"
    and table: "\<not> tg_dirty t' \<longrightarrow> tg_table t' = render_table (tg_dark t') (tg_last t') (tg_rows t')"
    by (cases visible; simp add: t'_def grid_update_def Let_def rebuild_table_def)+
  have rows: "if tg_last t' = 0 then tg_rows t' = [] else mid_rows ps (tg_last t') 0 (tg_rows t')
      \<and> (\<forall>r \<in> set (tg_rows t'). first_visible (tg_last t') \<le> row_last_cycle r)"
    unfolding t'_def using update_rows [OF assms last [unfolded t'_def], of visible] .
  show ?thesis
    unfolding t'_def [symmetric] diagram_ok_def
  proof (intro conjI table)
    show "\<forall>r \<in> set (tg_rows t'). row_ok (tg_last t') r \<and> first_visible (tg_last t') \<le> row_last_cycle r"
      using rows by (auto simp: mid_rows_def split: if_splits)
    show "rows_apart (tg_rows t')" using rows by (auto simp: mid_rows_def rows_apart_def split: if_splits)
  qed
qed

lemma grid_reach_ok: "grid_reach t \<Longrightarrow> diagram_ok t"
proof (induction rule: grid_reach.induct)
  case (update t visible ps)
  then show ?case by (intro diagram_ok_update)
next
  case (shown t)
  then show ?case by (auto simp: grid_show_def diagram_ok_def rebuild_table_def)
qed (auto simp: grid_init_def grid_clear_def grid_dark_def rows_apart_def diagram_ok_def rebuild_table_def)

section \<open>What the table shows\<close>

text \<open>A cell names stage \<open>s\<close>.\<close>

definition shows_stage :: "grid_cell \<Rightarrow> nat \<Rightarrow> bool" where
  "shows_stage cell s \<longleftrightarrow> s < 5 \<and> map_option fst cell = Some (kStageNames ! s)"

lemma stage_in_column_iff:
  "(\<And>i j. i < length cs \<Longrightarrow> j < length cs \<Longrightarrow> cs ! i = c \<Longrightarrow> cs ! j = c \<Longrightarrow> i = j) \<Longrightarrow>
   stage_in_column cs c k = Some s \<longleftrightarrow> k \<le> s \<and> s - k < length cs \<and> cs ! (s - k) = c"
proof (induction cs arbitrary: k)
  case (Cons x cs)
  have rest: "stage_in_column cs c (Suc k) = Some s \<longleftrightarrow> Suc k \<le> s \<and> s - Suc k < length cs \<and> cs ! (s - Suc k) = c"
    using Cons.prems by (intro Cons.IH) (metis Suc_inject Suc_less_eq length_Cons nth_Cons_Suc)
  show ?case
  proof (cases "x = c")
    case True
    have "s = k" if "k \<le> s" "s - k < length (x # cs)" "(x # cs) ! (s - k) = c"
      using Cons.prems [OF _ that(2) _ that(3), of 0] that(1) True by simp
    then show ?thesis using True by auto
  next
    case False
    then show ?thesis using rest by (auto simp: nth_Cons' Suc_le_eq less_diff_conv)
  qed
qed simp

lemma kStageNames_inj: "s < 5 \<Longrightarrow> u < 5 \<Longrightarrow> kStageNames ! s = kStageNames ! u \<longleftrightarrow> s = u"
  by (auto simp: kStageNames_def less_Suc_eq eval_nat_numeral)

lemma shows_stage_cell:
  assumes "row_ok lastc r" "c \<noteq> 0"
  shows "shows_stage (grid_cell dark r c) s \<longleftrightarrow> s < 5 \<and> ir_cycles r ! s = c"
proof -
  have len: "length (ir_cycles r) = 5" using assms(1) by (auto simp: row_ok_def passage_def)
  have col: "stage_in_column (ir_cycles r) c 0 = Some u \<longleftrightarrow> u < 5 \<and> ir_cycles r ! u = c" for u
    using row_stage_unique [OF assms(1)] assms(2) by (subst stage_in_column_iff) (auto simp: len)
  show ?thesis
  proof (cases "stage_in_column (ir_cycles r) c 0")
    case None
    then show ?thesis
      using col [of s] by (simp add: shows_stage_def grid_cell_def)
  next
    case (Some u)
    then have "u < 5" "ir_cycles r ! u = c"
      using col [of u] by simp_all
    then show ?thesis
      using Some kStageNames_inj [of u s] row_stage_unique [OF assms(1), of s u] assms(2)
      by (auto simp: shows_stage_def grid_cell_def)
  qed
qed

lemma column_cycle_unat: "ci < 20 \<Longrightarrow> unat (column_cycle lastc ci) = unat lastc - 20 + ci + 1"
proof -
  assume ci: "ci < 20"
  have k: "(of_nat kMaxCycles :: u64) = 20" by (simp add: kMaxCycles_def)
  have b: "unat (column_base lastc) = unat lastc - 20"
    by (simp add: column_base_def k word_less_nat_alt unat_sub word_le_nat_alt)
  have u: "unat lastc < 18446744073709551616" using unsigned_less [of lastc] by simp
  have "unat lastc - 20 + (ci + 1) < 2 ^ 64" using ci u by simp
  then have "unat (column_base lastc + of_nat (ci + 1)) = unat lastc - 20 + (ci + 1)"
    unfolding b [symmetric] by (simp add: unat_word_ariths unsigned_of_nat take_bit_eq_mod)
  then show ?thesis by (simp add: column_cycle_def ac_simps)
qed

text \<open>The column of a cycle, the last one once 20 cycles are shown.\<close>

definition cycle_column :: "u64 \<Rightarrow> nat" where
  "cycle_column c = min (unat c) 20 - 1"

lemma column_of_cycle: "c \<noteq> 0 \<Longrightarrow> column_cycle c (cycle_column c) = c"
proof -
  assume "c \<noteq> 0"
  then have "0 < unat c" by (simp add: unat_gt_0)
  then show ?thesis by (subst word_unat_eq_iff, subst column_cycle_unat) (auto simp: cycle_column_def)
qed

lemma one_row:
  assumes "rows_apart rows" "s < 5" "c \<noteq> 0" "\<exists>r \<in> set rows. ir_cycles r ! s = c"
  shows "length (filter (\<lambda>r. ir_cycles r ! s = c) rows) = 1"
proof -
  let ?f = "filter (\<lambda>r. ir_cycles r ! s = c) rows"
  have in_f: "ir_cycles (?f ! i) ! s = c" if "i < length ?f" for i using nth_mem [OF that] by simp
  have "\<not> 1 < length ?f"
  proof
    assume len: "1 < length ?f"
    moreover from len have "apart (?f ! 0) (?f ! 1)"
      using rows_apartD [OF rows_apart_filter [OF assms(1)], of 0 "\<lambda>r. ir_cycles r ! s = c" 1] by linarith
    moreover from len have "0 < length ?f" by linarith
    ultimately show False using in_f [of 0] in_f [of 1] apartD [OF _ assms(2), of "?f ! 0" "?f ! 1"] assms(3) by simp
  qed
  moreover have "?f \<noteq> []" using assms(4) by (auto simp: filter_empty_conv)
  ultimately show ?thesis by (cases ?f) auto
qed

text \<open>At most one row per stage and cycle of the window.\<close>

lemma grid_size:
  assumes "\<forall>r \<in> set rows. row_ok c r \<and> first_visible c \<le> row_last_cycle r" "rows_apart rows"
  shows "length rows \<le> 100"
proof -
  define key where "key r = (nat (last_stage r), unat (row_last_cycle r))" for r
  have key: "nat (last_stage r) < 5 \<and> ir_cycles r ! nat (last_stage r) = row_last_cycle r \<and> row_last_cycle r \<noteq> 0"
    if "row_ok c r" for r
  proof -
    obtain a b where p: "passage c a b (ir_cycles r)" using \<open>row_ok c r\<close> by (auto simp: row_ok_def)
    then show ?thesis using passage_last [OF p] passageD(2,3) [OF p] passageD(4) [OF p, of b] by simp
  qed
  have d: "distinct (map key rows)"
    unfolding distinct_conv_nth
  proof (intro allI impI)
    fix i j assume ij: "i < length (map key rows)" "j < length (map key rows)" "i \<noteq> j"
    then have a: "apart (rows ! i) (rows ! j)" using rows_apartD [OF assms(2)] by simp
    have "row_ok c (rows ! i)" "row_ok c (rows ! j)" using ij assms(1) by simp_all
    then show "map key rows ! i \<noteq> map key rows ! j"
      using ij key [of "rows ! i"] key [of "rows ! j"] a by (auto simp: key_def apart_def word_unat_eq_iff)
  qed
  have sub: "set (map key rows) \<subseteq> {..<5} \<times> {unat (first_visible c)..unat c}"
  proof
    fix x assume "x \<in> set (map key rows)"
    then obtain r where "r \<in> set rows" "x = key r" by auto
    then show "x \<in> {..<5} \<times> {unat (first_visible c)..unat c}"
      using key [of r] row_last_le [of c r] assms(1) by (simp add: key_def word_le_nat_alt)
  qed
  have "card (set (map key rows)) \<le> card ({..<5::nat} \<times> {unat (first_visible c)..unat c})"
    by (rule card_mono [OF _ sub]) simp
  also have "card ({..<5::nat} \<times> {unat (first_visible c)..unat c}) \<le> 5 * 20"
    unfolding card_cartesian_product by (auto simp: first_visible_unat)
  finally show ?thesis using distinct_card [OF d] by simp
qed

lemma column_nonzero: "i < 20 \<Longrightarrow> column_cycle c i \<noteq> 0"
  using column_cycle_unat [of i c] by (metis Suc_eq_plus1 nat.distinct(1) unat_eq_zero)

text \<open>Along a row the stages go up with the columns.\<close>

lemma stages_go_up:
  assumes "row_ok c r" "i < j" "j < 20" "s < 5" "u < 5"
    "ir_cycles r ! s = column_cycle c i" "ir_cycles r ! u = column_cycle c j"
  shows "s < u"
proof -
  obtain a b where p: "passage c a b (ir_cycles r)" using assms(1) by (auto simp: row_ok_def)
  have "column_cycle c i < column_cycle c j"
    using column_cycle_unat [of i c] column_cycle_unat [of j c] assms(2,3) by (simp add: word_less_nat_alt)
  moreover have "a \<le> s \<and> s \<le> b" "a \<le> u \<and> u \<le> b"
    using passageD(4) [OF p assms(4)] passageD(4) [OF p assms(5)] column_nonzero [of i] column_nonzero [of j] assms(2,3,6,7)
    by auto
  ultimately show ?thesis using passage_less [OF p, of u s] assms(6,7) by (cases s u rule: linorder_cases) auto
qed

text \<open>After a report each stage it has an instruction in is held by one row.\<close>

lemma stages_once:
  assumes "mid_rows ps c 0 rows" "s < 5" "c \<noteq> 0"
  shows "length (filter (\<lambda>r. ir_cycles r ! s = c) rows) = (if recorded ps s then 1 else 0)"
proof (cases "recorded ps s")
  case True
  then have "\<exists>r \<in> set rows. ir_cycles r ! s = c" using assms(1,2) by (auto simp: mid_rows_def)
  then show ?thesis using True one_row [OF _ assms(2,3)] assms(1) by (simp add: mid_rows_def)
next
  case False
  then show ?thesis using assms(1,2) by (auto simp: mid_rows_def filter_empty_conv)
qed

text \<open>What the cells of the rows say, in the table that is rendered from them.\<close>

lemma cell_names:
  assumes "row_ok c r" "i < 20"
  shows "shows_stage (grid_cell dark r (column_cycle c i)) s \<longleftrightarrow> s < 5 \<and> ir_cycles r ! s = column_cycle c i"
  using shows_stage_cell [OF assms(1) column_nonzero [OF assms(2)]] .

lemma rendered_column:
  assumes "\<forall>r \<in> set rows. row_ok c r" "s < 5" "i < 20"
  shows "length (filter (\<lambda>row. shows_stage (snd row ! i) s) (gt_rows (render_table dark c rows)))
    = length (filter (\<lambda>r. ir_cycles r ! s = column_cycle c i) rows)"
proof -
  have "filter (\<lambda>r. shows_stage (grid_cell dark r (column_cycle c i)) s) rows = filter (\<lambda>r. ir_cycles r ! s = column_cycle c i) rows"
    using cell_names assms by (intro filter_cong) simp_all
  then show ?thesis using assms(3) by (simp add: render_table_def kMaxCycles_def filter_map o_def)
qed

lemma rendered_row:
  assumes "row \<in> set (gt_rows (render_table dark c rows))" "\<forall>r \<in> set rows. row_ok c r" "mid_rows ps c 0 rows" "c \<noteq> 0"
  shows "length (snd row) = 20
    \<and> (\<forall>s. shows_stage (snd row ! cycle_column c) s \<longrightarrow>
         (\<exists>mn. fst row = ''0x'' @ pad_zero 4 (show_base False 16 (unat (ss_pc (ps_stages ps ! s)))) @ ''  '' @ mn))
    \<and> (\<forall>i j s u. i < j \<and> j < 20 \<and> shows_stage (snd row ! i) s \<and> shows_stage (snd row ! j) u \<longrightarrow> s < u)"
proof -
  obtain r where r: "r \<in> set rows"
    and row: "row = (row_text r, map (\<lambda>i. grid_cell dark r (column_cycle c i)) [0..<20])"
    using assms(1) by (auto simp: render_table_def kMaxCycles_def)
  have ok: "row_ok c r" using assms(2) r by simp
  have at: "shows_stage (snd row ! i) s \<longleftrightarrow> s < 5 \<and> ir_cycles r ! s = column_cycle c i" if "i < 20" for i s
    using cell_names [OF ok that] that by (simp add: row)
  have col: "cycle_column c < 20" by (auto simp: cycle_column_def)
  have "ir_pc r = ss_pc (ps_stages ps ! s)" if "s < 5" "ir_cycles r ! s = c" for s
    using assms(3) r that by (auto simp: mid_rows_def)
  then have "\<exists>mn. fst row = ''0x'' @ pad_zero 4 (show_base False 16 (unat (ss_pc (ps_stages ps ! s)))) @ ''  '' @ mn"
    if "shows_stage (snd row ! cycle_column c) s" for s
    using that unfolding at [OF col] column_of_cycle [OF assms(4)] by (auto simp: row row_text_def)
  moreover have "s < u" if "i < j" "j < 20" "shows_stage (snd row ! i) s" "shows_stage (snd row ! j) u" for i j s u
    using stages_go_up [OF ok that(1,2)] that(3,4) at [of i s] at [of j u] that(1,2) by simp
  moreover have "length (snd row) = 20" by (simp add: row)
  ultimately show ?thesis by blast
qed

section \<open>Property\<close>

text \<open>C38: The pipeline diagram is exact. After a report the column of its cycle is headed by the cycle and names, once each, exactly the stages the report has a valid, neither stalled nor flushed instruction in, in a row that starts with the address of that instruction. In every row the stages named go strictly up from left to right, there are at most 100 rows of 20 cells, and the table is the same whether the widget is visible during the report or is shown only later.\<close>

theorem diagram_exact:
  assumes "grid_reach t" "c = of_nat (ps_cycle ps)" "c \<noteq> 0"
  shows "let table = tg_table (grid_show (grid_update visible ps t)); col = cycle_column c in
      table = tg_table (grid_update True ps t) \<and> gt_header table ! col = show_dec (unat c) \<and> length (gt_rows table) \<le> 100
    \<and> (\<forall>s < 5. length (filter (\<lambda>row. shows_stage (snd row ! col) s) (gt_rows table)) = (if recorded ps s then 1 else 0))
    \<and> (\<forall>row \<in> set (gt_rows table). length (snd row) = 20
        \<and> (\<forall>s. shows_stage (snd row ! col) s \<longrightarrow>
             (\<exists>mn. fst row = ''0x'' @ pad_zero 4 (show_base False 16 (unat (ss_pc (ps_stages ps ! s)))) @ ''  '' @ mn))
        \<and> (\<forall>i j s u. i < j \<and> j < 20 \<and> shows_stage (snd row ! i) s \<and> shows_stage (snd row ! j) u \<longrightarrow> s < u))"
proof -
  define t' where "t' = grid_update True ps t"
  have same: "tg_table (grid_show (grid_update visible ps t)) = tg_table t'" and last: "tg_last t' = c" and clean: "\<not> tg_dirty t'"
    by (simp_all add: t'_def grid_show_def grid_update_def rebuild_table_def Let_def assms(2))
  have ok: "diagram_ok t'" unfolding t'_def by (intro diagram_ok_update grid_reach_ok assms(1))
  have rows: "mid_rows ps c 0 (tg_rows t')"
    using update_rows [OF grid_reach_ok [OF assms(1)] assms(2), of True] assms(3) by (simp add: t'_def)
  have rows_ok: "\<forall>r \<in> set (tg_rows t'). row_ok c r" using ok last by (simp add: diagram_ok_def)
  have table: "tg_table t' = render_table (tg_dark t') c (tg_rows t')" using ok clean last by (simp add: diagram_ok_def)
  have col: "cycle_column c < 20" "column_cycle c (cycle_column c) = c"
    using column_of_cycle [OF assms(3)] by (auto simp: cycle_column_def)
  have "length (gt_rows (tg_table t')) \<le> 100"
    using grid_size [of "tg_rows t'" c] ok last by (simp add: table render_table_def diagram_ok_def)
  moreover have "length (filter (\<lambda>row. shows_stage (snd row ! cycle_column c) s) (gt_rows (tg_table t'))) = (if recorded ps s then 1 else 0)"
    if "s < 5" for s
    unfolding table rendered_column [OF rows_ok that col(1)] col(2) by (rule stages_once [OF rows that assms(3)])
  moreover note rendered_row [OF _ rows_ok rows assms(3), of _ "tg_dark t'", folded table]
  moreover have "gt_header (tg_table t') ! cycle_column c = show_dec (unat c)"
    using col by (simp add: table render_table_def kMaxCycles_def)
  ultimately show ?thesis unfolding Let_def same t'_def [symmetric] by blast
qed

lemma diagram_exact_witness:
  "length (gt_rows (tg_table (grid_show (grid_update False (ps_init\<lparr>ps_cycle := 7\<rparr>) grid_init)))) \<le> 100"
proof -
  have "(7 :: u64) = of_nat (ps_cycle (ps_init\<lparr>ps_cycle := 7\<rparr>))" "(7 :: u64) \<noteq> 0" by simp_all
  from diagram_exact [OF grid_reach.init this, of False] show ?thesis unfolding Let_def by (elim conjE)
qed

end
