(* ===== verification/RegisterPanel.thy ===== *)
theory RegisterPanel
  imports Pipeline Text PanelView
begin

text \<open>
  The register panel of the Qt front end (\<open>src/nsc_qt/widgets/register_widget.cpp\<close>): the values of the
  registers, the ones the instruction in ID reads, and the fading highlight of the ones just written.
  The clock is a parameter. The background of a fading cell is a floating-point mix of two colours; the
  model keeps how far the fade is. Layout and painting are left out.
\<close>

section \<open>State\<close>

type_synonym rgb = "nat \<times> nat \<times> nat"

text \<open>A plain background, or green fading to the normal one: the milliseconds passed, at most the whole.\<close>

datatype cell_background = BgPlain rgb | BgFading int rgb

text \<open>\<open>fade_start_ms\<close> is -1 while the cell does not fade.\<close>

record reg_cell =
  rc_fade :: int
  rc_name :: "string \<times> rgb"
  rc_value :: "string \<times> rgb"
  rc_background :: cell_background
  rc_border :: rgb

record reg_panel =
  rp_cells :: "reg_cell list"
  rp_values :: "u32 list"
  rp_aliases :: bool
  rp_dark :: bool
  rp_dirty :: bool
  rp_rs :: u8
  rp_rt :: u8
  rp_timer :: bool

definition kFadeDurationMs :: int where
  "kFadeDurationMs = 250"

section \<open>A cell\<close>

definition cell_name :: "bool \<Rightarrow> nat \<Rightarrow> string" where
  "cell_name aliases idx =
     ''$'' @ show_dec idx @ (if aliases then '' ('' @ register_abi_name (of_nat idx) @ '')'' else [])"

definition cell_colours :: "int \<Rightarrow> reg_panel \<Rightarrow> nat \<Rightarrow> int \<Rightarrow> cell_background \<times> rgb \<times> rgb" where
  "cell_colours now p idx fade =
     (let dark = rp_dark p;
          text_dim = (if dark then (0x9E, 0x9E, 0x9E) else (0x77, 0x77, 0x77));
          text_norm = (if dark then (0xCC, 0xCC, 0xCC) else (0x22, 0x22, 0x22))
      in if idx = 0 then
           (BgPlain (if dark then (0x28, 0x28, 0x28) else (0xE8, 0xE8, 0xE8)), text_dim, text_dim)
         else if 0 \<le> fade then
           (BgFading (max 0 (min kFadeDurationMs (now - fade))) (if dark then (0x2A, 0x2A, 0x2A) else (0xFF, 0xFF, 0xFF)),
            if dark then (0xAA, 0xFF, 0xAA) else (0x00, 0x55, 0x00),
            if dark then (0xFF, 0xFF, 0xFF) else (0x00, 0x44, 0x00))
         else if (of_nat idx :: u8) = rp_rs p \<or> of_nat idx = rp_rt p then
           (BgPlain (if dark then (0x00, 0x4D, 0x6B) else (0xCC, 0xEA, 0xF5)),
            if dark then (0x9C, 0xDC, 0xFE) else (0x00, 0x52, 0x9B), text_norm)
         else (BgPlain (if dark then (0x2A, 0x2A, 0x2A) else (0xFF, 0xFF, 0xFF)), text_dim, text_norm))"

definition draw_cell :: "int \<Rightarrow> reg_panel \<Rightarrow> nat \<Rightarrow> int \<Rightarrow> reg_cell" where
  "draw_cell now p idx fade =
     (case cell_colours now p idx fade of
        (bg, name_color, val_color) \<Rightarrow>
          \<lparr>rc_fade = fade, rc_name = (cell_name (rp_aliases p) idx, name_color),
           rc_value = (''0x'' @ pad_zero 8 (show_base False 16 (unat (rp_values p ! idx))), val_color),
           rc_background = bg, rc_border = (if rp_dark p then (0x3C, 0x3C, 0x3C) else (0xDD, 0xDD, 0xDD))\<rparr>)"

definition update_cell :: "int \<Rightarrow> nat \<Rightarrow> reg_panel \<Rightarrow> reg_panel" where
  "update_cell now idx p =
     p\<lparr>rp_cells := (rp_cells p)[idx := draw_cell now p idx (rc_fade (rp_cells p ! idx))]\<rparr>"

definition update_cells :: "int \<Rightarrow> reg_panel \<Rightarrow> reg_panel" where
  "update_cells now p = fold (update_cell now) [0..<32] p"

definition set_fade :: "nat \<Rightarrow> int \<Rightarrow> reg_panel \<Rightarrow> reg_panel" where
  "set_fade idx ms p = p\<lparr>rp_cells := (rp_cells p)[idx := (rp_cells p ! idx)\<lparr>rc_fade := ms\<rparr>]\<rparr>"

section \<open>Operations\<close>

definition panel_init :: "int \<Rightarrow> reg_panel" where
  "panel_init now =
     update_cells now
       \<lparr>rp_cells = replicate 32 \<lparr>rc_fade = - 1, rc_name = ([], (0, 0, 0)), rc_value = ([], (0, 0, 0)),
           rc_background = BgPlain (0xFF, 0xFF, 0xFF), rc_border = (0xA0, 0xA0, 0xA4)\<rparr>,
        rp_values = replicate 32 0, rp_aliases = True, rp_dark = False, rp_dirty = False, rp_rs = 0xFF, rp_rt = 0xFF,
        rp_timer = False\<rparr>"

definition start_fade :: "int \<Rightarrow> nat \<Rightarrow> reg_panel \<Rightarrow> reg_panel" where
  "start_fade now idx p = (set_fade idx now p)\<lparr>rp_timer := True\<rparr>"

text \<open>The slot of the timer: cells at the end of their fade stop, the others are drawn further on.\<close>

definition fade_cell :: "int \<Rightarrow> nat \<Rightarrow> bool \<times> reg_panel \<Rightarrow> bool \<times> reg_panel" where
  "fade_cell now i s =
     (case s of (any_fading, p) \<Rightarrow>
        (let fade = rc_fade (rp_cells p ! i)
         in if fade < 0 then (any_fading, p)
            else if kFadeDurationMs \<le> now - fade then (any_fading, update_cell now i (set_fade i (- 1) p))
            else (True, update_cell now i p)))"

definition fade_tick :: "int \<Rightarrow> reg_panel \<Rightarrow> reg_panel" where
  "fade_tick now p =
     (case fold (fade_cell now) [1..<32] (False, p) of
        (any_fading, p) \<Rightarrow> if any_fading then p else p\<lparr>rp_timer := False\<rparr>)"

definition mark_read :: "pipeline_state \<Rightarrow> reg_panel \<Rightarrow> reg_panel" where
  "mark_read ps p =
     (let p = p\<lparr>rp_rs := 0xFF, rp_rt := 0xFF\<rparr>; st = ps_stages ps ! 1
      in if ss_valid st \<and> ss_raw st \<noteq> 0 then
           (case decode (ss_raw st) of
              None \<Rightarrow> p
            | Some d \<Rightarrow>
                (let src = source_registers_of d;
                     p = (if 0 \<le> src_a src then p\<lparr>rp_rs := of_int (src_a src)\<rparr> else p)
                 in if 0 \<le> src_b src then p\<lparr>rp_rt := of_int (src_b src)\<rparr> else p))
         else p)"

definition mark_written :: "int \<Rightarrow> pipeline_state \<Rightarrow> reg_panel \<Rightarrow> reg_panel" where
  "mark_written now ps p =
     (let wb = ps_stages ps ! 4
      in if ss_valid wb \<and> \<not> ss_stalled wb \<and> \<not> ss_flushed wb \<and> ss_raw wb \<noteq> 0 then
           (case decode (ss_raw wb) of
              None \<Rightarrow> p
            | Some d \<Rightarrow> (let dest = destination_register d in if 0 < dest then start_fade now (nat dest) p else p))
         else p)"

definition panel_update :: "bool \<Rightarrow> int \<Rightarrow> pipeline_state \<Rightarrow> u32 list \<Rightarrow> reg_panel \<Rightarrow> reg_panel" where
  "panel_update visible now ps vals p =
     (let p = mark_read ps (p\<lparr>rp_values := vals\<rparr>)
      in if \<not> visible then p\<lparr>rp_dirty := True\<rparr>
         else update_cells now ((mark_written now ps p)\<lparr>rp_dirty := False\<rparr>))"

definition panel_show :: "int \<Rightarrow> reg_panel \<Rightarrow> reg_panel" where
  "panel_show now p = (if \<not> rp_dirty p then p else update_cells now (p\<lparr>rp_dirty := False\<rparr>))"

definition set_show_aliases :: "int \<Rightarrow> bool \<Rightarrow> reg_panel \<Rightarrow> reg_panel" where
  "set_show_aliases now show_aliases p = update_cells now (p\<lparr>rp_aliases := show_aliases\<rparr>)"

definition panel_dark :: "int \<Rightarrow> bool \<Rightarrow> reg_panel \<Rightarrow> reg_panel" where
  "panel_dark now dark p = update_cells now (p\<lparr>rp_dark := dark\<rparr>)"

definition panel_clear :: "int \<Rightarrow> reg_panel \<Rightarrow> reg_panel" where
  "panel_clear now p =
     update_cells now (p\<lparr>rp_values := replicate 32 0, rp_rs := 0xFF, rp_rt := 0xFF,
       rp_cells := map (\<lambda>c. c\<lparr>rc_fade := - 1\<rparr>) (rp_cells p), rp_timer := False\<rparr>)"

section \<open>Drawing\<close>

lemma draw_cell_cells [simp]: "draw_cell now (p\<lparr>rp_cells := cs\<rparr>) i f = draw_cell now p i f"
  by (simp add: draw_cell_def cell_colours_def Let_def)

lemma update_cells_eq:
  assumes "length (rp_cells p) = 32"
  shows "update_cells now p = p\<lparr>rp_cells := map (\<lambda>i. draw_cell now p i (rc_fade (rp_cells p ! i))) [0..<32]\<rparr>"
proof -
  have "n \<le> 32 \<Longrightarrow> fold (update_cell now) [0..<n] p
      = p\<lparr>rp_cells := map (\<lambda>i. draw_cell now p i (rc_fade (rp_cells p ! i))) [0..<n] @ drop n (rp_cells p)\<rparr>" for n
  proof (induction n)
    case (Suc n)
    have d: "drop n (rp_cells p) = rp_cells p ! n # drop (Suc n) (rp_cells p)"
      using Suc.prems assms by (simp add: Cons_nth_drop_Suc)
    show ?case
      using Suc d assms by (simp add: update_cell_def list_update_append nth_append)
  qed simp
  from this [of 32] show ?thesis using assms by (simp add: update_cells_def del: upt_rec_numeral)
qed

lemma cells_length [simp]:
  "length (rp_cells (update_cells now p)) = length (rp_cells p)"
proof -
  have "length (rp_cells (fold (update_cell now) is p)) = length (rp_cells p)" for "is"
    by (induction "is" arbitrary: p) (simp_all add: update_cell_def)
  then show ?thesis by (simp add: update_cells_def)
qed

section \<open>A panel of the window\<close>

text \<open>What the texts of the cells are made of. The colours are not part of it: a hidden panel starts no fade.\<close>

type_synonym reg_texts = "(string \<times> string) list"

definition panel_texts :: "reg_panel \<Rightarrow> reg_texts" where
  "panel_texts p = map (\<lambda>c. (fst (rc_name c), fst (rc_value c))) (rp_cells p)"

definition render_texts :: "bool \<times> u32 list \<Rightarrow> reg_texts" where
  "render_texts m = map (\<lambda>i. (cell_name (fst m) i, ''0x'' @ pad_zero 8 (show_base False 16 (unat (snd m ! i))))) [0..<32]"

lemma draw_cell_texts: "fst (rc_name (draw_cell now p i f)) = cell_name (rp_aliases p) i"
  "fst (rc_value (draw_cell now p i f)) = ''0x'' @ pad_zero 8 (show_base False 16 (unat (rp_values p ! i)))"
  by (simp_all add: draw_cell_def split: prod.split)

lemma update_cells_texts:
  "length (rp_cells p) = 32 \<Longrightarrow> panel_texts (update_cells now p) = render_texts (rp_aliases p, rp_values p)"
  by (simp add: update_cells_eq panel_texts_def render_texts_def draw_cell_texts del: upt_rec_numeral)

lemma update_cells_keeps:
  "rp_values (update_cells now p) = rp_values p" "rp_aliases (update_cells now p) = rp_aliases p"
  "rp_dark (update_cells now p) = rp_dark p"
proof -
  have "rp_values (fold (update_cell now) is p) = rp_values p \<and> rp_aliases (fold (update_cell now) is p) = rp_aliases p
      \<and> rp_dark (fold (update_cell now) is p) = rp_dark p" for "is"
    by (induction "is" arbitrary: p) (simp_all add: update_cell_def)
  then show "rp_values (update_cells now p) = rp_values p" "rp_aliases (update_cells now p) = rp_aliases p"
    "rp_dark (update_cells now p) = rp_dark p"
    by (simp_all add: update_cells_def)
qed

lemma mark_keeps:
  "rp_values (mark_read ps p) = rp_values p" "rp_aliases (mark_read ps p) = rp_aliases p"
  "length (rp_cells (mark_read ps p)) = length (rp_cells p)"
  "rp_values (mark_written now ps p) = rp_values p" "rp_aliases (mark_written now ps p) = rp_aliases p"
  "length (rp_cells (mark_written now ps p)) = length (rp_cells p)"
  by (auto simp: mark_read_def mark_written_def start_fade_def set_fade_def Let_def split: option.split)

interpretation registers: panel_view "\<lambda>p. length (rp_cells p) = 32"
  "\<lambda>visible r. panel_update visible (fst r) (fst (snd r)) (snd (snd r))" "panel_show now"
  "\<lambda>p. (rp_aliases p, rp_values p)" "\<lambda>r m. (fst m, snd (snd r))" panel_texts render_texts for now
proof unfold_locales
  fix p :: reg_panel and r :: "int \<times> pipeline_state \<times> u32 list" and v :: bool
  assume p: "length (rp_cells p) = 32"
  let ?u = "\<lambda>v. panel_update v (fst r) (fst (snd r)) (snd (snd r)) p"
  show "length (rp_cells (?u v)) = 32" "(rp_aliases (?u v), rp_values (?u v)) = (fst (rp_aliases p, rp_values p), snd (snd r))"
    using p by (simp_all add: panel_update_def Let_def update_cells_keeps mark_keeps)
  show "panel_texts (?u True) = render_texts (rp_aliases (?u True), rp_values (?u True))"
    using p by (simp add: panel_update_def Let_def update_cells_keeps mark_keeps update_cells_texts)
  show "panel_texts (panel_show now (?u False)) = render_texts (rp_aliases (?u False), rp_values (?u False))"
    using p by (simp add: panel_update_def panel_show_def Let_def mark_keeps update_cells_texts)
qed

section \<open>What WB says it writes\<close>

text \<open>
  The instruction word travels with every instruction, and its destination register is the register
  the later stages write.
\<close>

definition written_register :: "control \<Rightarrow> u8 \<Rightarrow> int" where
  "written_register ctrl r = (if c_reg_write ctrl then idx_int r else 0)"

definition names_write :: "u32 \<Rightarrow> int \<Rightarrow> bool" where
  "names_write raw r \<longleftrightarrow> (\<exists>d. decode raw = Some d \<and> max 0 (destination_register d) = r)"

definition id_ex_tagged :: "id_ex \<Rightarrow> bool" where
  "id_ex_tagged n \<longleftrightarrow> (idex_valid n \<and> idex_early_trap n = None \<longrightarrow>
     decode (di_raw (idex_decoded n)) = Some (idex_decoded n) \<and> idex_ctrl n = derive_control (idex_decoded n))"

definition ex_mem_tagged :: "ex_mem \<Rightarrow> bool" where
  "ex_mem_tagged n \<longleftrightarrow> (exmem_valid n \<longrightarrow> names_write (exmem_raw n) (written_register (exmem_ctrl n) (exmem_write_reg n)))"

definition mem_wb_tagged :: "mem_wb \<Rightarrow> bool" where
  "mem_wb_tagged n \<longleftrightarrow> (memwb_valid n \<longrightarrow> names_write (memwb_raw n) (written_register (memwb_ctrl n) (memwb_write_reg n)))"

definition pl_tagged :: "pl_cpu \<Rightarrow> bool" where
  "pl_tagged s \<longleftrightarrow> id_ex_tagged (pl_id_ex s) \<and> ex_mem_tagged (pl_ex_mem s) \<and> mem_wb_tagged (pl_mem_wb s)"

lemma tagged_empty [simp]: "id_ex_tagged id_ex_empty" "ex_mem_tagged ex_mem_empty" "mem_wb_tagged mem_wb_empty"
  by (simp_all add: id_ex_tagged_def ex_mem_tagged_def mem_wb_tagged_def id_ex_empty_def ex_mem_empty_def mem_wb_empty_def)

lemma decode_tagged: "id_ex_tagged (io_next (pl_decode inp regs))"
  using decode_raw by (auto simp: pl_decode_def Let_def id_ex_tagged_def split: option.splits if_splits)

lemma memory_tagged: "ex_mem_tagged inp \<Longrightarrow> mem_wb_tagged (mo_next (fst (memory_access inp m)))"
  by (auto simp: memory_access_def Let_def ex_mem_tagged_def mem_wb_tagged_def split_beta mem_wb_empty_def split: option.splits)

lemma jal_format: "format_of OpJAL = FmtJ" "format_of OpCOP0 = FmtR"
  by (simp_all add: format_of_def)

lemma execute_tagged:
  assumes "id_ex_tagged inp"
  shows "ex_mem_tagged (eo_next (execute inp exm mwb k))"
proof (cases "idex_valid inp \<and> idex_early_trap inp = None")
  case False
  then show ?thesis by (auto simp: execute_def ex_outcome_empty_def Let_def split: option.split)
next
  case True
  define d where "d = idex_decoded inp"
  have d: "decode (di_raw d) = Some d" "idex_ctrl inp = derive_control d" using assms True by (simp_all add: id_ex_tagged_def d_def)
  have w: "wf_instr d" by (rule decode_wf [OF d(1)])
  define n where "n = eo_next (execute inp exm mwb k)"
  have "exmem_valid n \<longrightarrow> exmem_raw n = di_raw d
      \<and> max 0 (destination_register d) = written_register (exmem_ctrl n) (exmem_write_reg n)"
    using w True unfolding n_def
    by (elim wf_instr_cases)
       (auto simp: execute_def ex_jump_def ex_branch_def ex_register_jump_def ex_trap_def ex_cop0_def ex_alu_def
          ex_common_def ex_outcome_empty_def ex_mem_empty_def set_alu_value_def Let_def d(2) d_def [symmetric]
          destination_register_def written_register_def control_defs idx_int_def jal_format
        split: option.splits opcode.splits funct_code.splits)
  then show ?thesis using d(1) by (auto simp: ex_mem_tagged_def names_write_def n_def)
qed

lemma step_tagged:
  assumes "pl_tagged s"
  shows "pl_tagged (snd (pl_step s))"
proof -
  have "id_ex_tagged (pl_id_ex (snd (pl_step s)))"
    using pl_step_flush(2) [of s] pl_step_stall(2) [of s] pl_step_normal(1) [of s] decode_tagged
    by (cases "cy_flush s"; cases "cy_stall s") (auto simp: cy_id_def id_outcome_empty_def)
  moreover have "ex_mem_tagged (pl_ex_mem (snd (pl_step s)))"
    using assms execute_tagged
    by (simp add: pl_step_ex_mem cy_ex_def pl_tagged_def ex_outcome_empty_def)
  moreover have "mem_wb_tagged (pl_mem_wb (snd (pl_step s)))"
    using assms memory_tagged by (simp add: pl_step_mem_wb cy_mem_def pl_tagged_def)
  ultimately show ?thesis by (simp add: pl_tagged_def)
qed

lemma step_snapshots:
  "ps_stages (cpu_ps (snd (pl_step s))) ! 1 =
     snapshot ''ID'' (ifid_valid (pl_if_id s) \<and> \<not> ifid_fetch_fault (pl_if_id s)) (cy_stall s) (cy_flush s)
       (ifid_pc (pl_if_id s)) (ifid_instr (pl_if_id s))"
  "ps_stages (cpu_ps (snd (pl_step s))) ! 4 =
     snapshot ''WB'' (memwb_valid (pl_mem_wb s)) False False (memwb_pc (pl_mem_wb s)) (memwb_raw (pl_mem_wb s))"
  by (auto simp: pl_step_commit pl_commit_def Let_def split_beta cy_flush_def cy_trap_def split: option.split)

section \<open>The panel after a cycle\<close>

text \<open>The register whose cell starts to fade, 0 when there is none.\<close>

definition fading_register :: "pipeline_state \<Rightarrow> nat" where
  "fading_register ps =
     (let wb = ps_stages ps ! 4
      in if ss_valid wb \<and> \<not> ss_stalled wb \<and> \<not> ss_flushed wb \<and> ss_raw wb \<noteq> 0
         then (case decode (ss_raw wb) of None \<Rightarrow> 0 | Some d \<Rightarrow> nat (destination_register d)) else 0)"

lemma mark_written_cells:
  "rp_cells (mark_written now ps p) = (let r = fading_register ps in
     if r = 0 then rp_cells p else (rp_cells p)[r := (rp_cells p ! r)\<lparr>rc_fade := now\<rparr>])"
  "rp_values (mark_written now ps p) = rp_values p" "rp_rs (mark_written now ps p) = rp_rs p"
  "rp_rt (mark_written now ps p) = rp_rt p" "rp_dark (mark_written now ps p) = rp_dark p"
  by (auto simp: mark_written_def fading_register_def start_fade_def set_fade_def Let_def split: option.split)

lemma mark_read_simps [simp]:
  "rp_cells (mark_read ps p) = rp_cells p" "rp_values (mark_read ps p) = rp_values p" "rp_dark (mark_read ps p) = rp_dark p"
  by (auto simp: mark_read_def Let_def split: option.split)

lemma panel_update_cell:
  assumes "length (rp_cells p) = 32" "i < 32"
  shows "\<exists>q. rp_cells (panel_update True now ps vals p) ! i =
      draw_cell now q i (if i \<noteq> 0 \<and> i = fading_register ps then now else rc_fade (rp_cells p ! i))
    \<and> rp_values q = vals \<and> rp_rs q = rp_rs (mark_read ps p) \<and> rp_rt q = rp_rt (mark_read ps p)"
proof -
  let ?q = "(mark_written now ps (mark_read ps (p\<lparr>rp_values := vals\<rparr>)))\<lparr>rp_dirty := False\<rparr>"
  have len: "length (rp_cells ?q) = 32" using assms by (simp add: mark_written_cells Let_def)
  have "rp_rs (mark_read ps (p\<lparr>rp_values := vals\<rparr>)) = rp_rs (mark_read ps p)"
    "rp_rt (mark_read ps (p\<lparr>rp_values := vals\<rparr>)) = rp_rt (mark_read ps p)"
    by (simp_all add: mark_read_def Let_def split: option.split)
  then show ?thesis
    using assms by (intro exI [of _ ?q])
      (auto simp: panel_update_def Let_def update_cells_eq [OF len] mark_written_cells nth_list_update)
qed

lemma draw_cell_simps [simp]: "rc_fade (draw_cell now q i f) = f"
  "fst (rc_value (draw_cell now q i f)) = ''0x'' @ pad_zero 8 (show_base False 16 (unat (rp_values q ! i)))"
  by (simp_all add: draw_cell_def split: prod.split)

lemma fading_is_written:
  assumes "pl_tagged s"
  shows "fading_register (cpu_ps (snd (pl_step s))) = (if wb_writes (pl_mem_wb s) then unat (memwb_write_reg (pl_mem_wb s)) else 0)"
proof (cases "memwb_valid (pl_mem_wb s)")
  case True
  then obtain d where d: "decode (memwb_raw (pl_mem_wb s)) = Some d"
    "max 0 (destination_register d) = written_register (memwb_ctrl (pl_mem_wb s)) (memwb_write_reg (pl_mem_wb s))"
    using assms by (auto simp: pl_tagged_def mem_wb_tagged_def names_write_def)
  have nop: "destination_register d = 0" if "memwb_raw (pl_mem_wb s) = 0"
  proof -
    have "map_option destination_register (decode 0) = Some 0" by code_simp
    then show ?thesis using d(1) that by simp
  qed
  have "nat (destination_register d) = nat (max 0 (destination_register d))" by simp
  then have "nat (destination_register d) = (if c_reg_write (memwb_ctrl (pl_mem_wb s)) then unat (memwb_write_reg (pl_mem_wb s)) else 0)"
    unfolding d(2) by (simp add: written_register_def idx_int_def)
  then show ?thesis
    using True d(1) nop
    by (cases "memwb_raw (pl_mem_wb s) = 0"; auto simp: fading_register_def step_snapshots snapshot_def wb_writes_def Let_def)
qed (simp add: fading_register_def step_snapshots snapshot_def wb_writes_def Let_def)

lemma changed_is_written:
  assumes "regs_wf (cpu_regs s)" "i < 32" "regs_read (cpu_regs (snd (pl_step s))) (of_nat i) \<noteq> regs_read (cpu_regs s) (of_nat i)"
    "unat (memwb_write_reg (pl_mem_wb s)) < 32"
  shows "wb_writes (pl_mem_wb s) \<and> i = unat (memwb_write_reg (pl_mem_wb s))"
proof -
  have i: "unat (of_nat i :: u8) = i" using assms(2) by (simp add: unsigned_of_nat take_bit_eq_mod)
  show ?thesis
    using assms i regs_read_write [OF assms(1), of "memwb_write_reg (pl_mem_wb s)" "of_nat i"]
    by (auto simp: pl_step_regs wb_regs_def split: if_splits)
qed

lemma idx_int_less: "unat i < 32 \<Longrightarrow> idx_int i < 32"
  unfolding idx_int_def by linarith

lemma destination_less: "wf_instr d \<Longrightarrow> destination_register d < 32"
  by (elim wf_instr_cases) (auto simp: destination_register_def idx_int_less jal_format derive_control_def control_init_def Let_def)

lemma written_less:
  assumes "pl_tagged s" "wb_writes (pl_mem_wb s)"
  shows "unat (memwb_write_reg (pl_mem_wb s)) < 32"
proof -
  obtain d where d: "decode (memwb_raw (pl_mem_wb s)) = Some d"
    "max 0 (destination_register d) = idx_int (memwb_write_reg (pl_mem_wb s))"
    using assms by (auto simp: pl_tagged_def mem_wb_tagged_def names_write_def wb_writes_def written_register_def)
  have "idx_int (memwb_write_reg (pl_mem_wb s)) < 32" using destination_less [OF decode_wf [OF d(1)]] d(2) by linarith
  then show ?thesis unfolding idx_int_def by linarith
qed

text \<open>The registers an instruction reads, as the panel keeps them.\<close>

definition read_mark :: "int \<Rightarrow> u8" where
  "read_mark src = (if 0 \<le> src then of_int src else 0xFF)"

lemma read_mark_iff: "src < 32 \<Longrightarrow> i < 32 \<Longrightarrow> of_nat i = read_mark src \<longleftrightarrow> int i = src"
proof -
  assume s: "src < 32" and i: "i < 32"
  have "unat (of_nat i :: u8) = i" using i by (simp add: unsigned_of_nat take_bit_eq_mod)
  moreover have "unat (of_int src :: u8) = nat src" if "0 \<le> src"
  proof -
    obtain n where "src = int n" using \<open>0 \<le> src\<close> zero_le_imp_eq_int by blast
    then show ?thesis using s by (simp add: unsigned_of_nat take_bit_eq_mod)
  qed
  ultimately show ?thesis using s i by (auto simp: read_mark_def word_unat_eq_iff)
qed

lemma sources_less: "wf_instr d \<Longrightarrow> src_a (source_registers_of d) < 32 \<and> src_b (source_registers_of d) < 32"
  by (elim wf_instr_cases) (auto simp: source_registers_of_def idx_int_less jal_format Let_def split: opcode.split funct_code.split)

lemma mark_read_marks:
  "rp_rs (mark_read ps p) = (case decode (ss_raw (ps_stages ps ! 1)) of
     Some d \<Rightarrow> if ss_valid (ps_stages ps ! 1) \<and> ss_raw (ps_stages ps ! 1) \<noteq> 0 then read_mark (src_a (source_registers_of d)) else 0xFF
   | None \<Rightarrow> 0xFF)"
  "rp_rt (mark_read ps p) = (case decode (ss_raw (ps_stages ps ! 1)) of
     Some d \<Rightarrow> if ss_valid (ps_stages ps ! 1) \<and> ss_raw (ps_stages ps ! 1) \<noteq> 0 then read_mark (src_b (source_registers_of d)) else 0xFF
   | None \<Rightarrow> 0xFF)"
  by (auto simp: mark_read_def read_mark_def Let_def split: option.split)

lemma marked_iff_read:
  assumes "0 < i" "i < 32" "ss_valid (ps_stages ps ! 1) = v" "ss_raw (ps_stages ps ! 1) = raw"
  shows "of_nat i = rp_rs (mark_read ps p) \<or> of_nat i = rp_rt (mark_read ps p) \<longleftrightarrow>
    v \<and> (\<exists>d. decode raw = Some d \<and> int i \<in> {src_a (source_registers_of d), src_b (source_registers_of d)})"
proof (cases "decode raw")
  case None
  then show ?thesis using assms read_mark_iff [of "-1" i] by (simp add: mark_read_marks read_mark_def)
next
  case (Some d)
  have nop: "src_a (source_registers_of d) \<le> 0 \<and> src_b (source_registers_of d) \<le> 0" if "raw = 0"
  proof -
    have "(case decode 0 of Some d \<Rightarrow> src_a (source_registers_of d) \<le> 0 \<and> src_b (source_registers_of d) \<le> 0 | None \<Rightarrow> True)"
      by code_simp
    then show ?thesis using Some that by simp
  qed
  have less: "src_a (source_registers_of d) < 32" "src_b (source_registers_of d) < 32"
    using sources_less [OF decode_wf [OF Some]] by simp_all
  show ?thesis
    using assms Some nop read_mark_iff [of "-1" i] read_mark_iff [OF less(1) assms(2)] read_mark_iff [OF less(2) assms(2)]
    by (cases "raw = 0") (auto simp: mark_read_marks read_mark_def)
qed

section \<open>Property\<close>



end
