(* ===== verification/EventLog.thy ===== *)
theory EventLog
  imports Disassembler Processor
begin

text \<open>
  The event log of the Qt front end (\<open>src/nsc_qt/widgets/pipeline_events_widget.cpp\<close>): the forwards,
  stalls and flushes of the pipeline and the milestones of a program, one entry each, with the
  repetition of an event in the next cycle suppressed. Scrolling is left out.
\<close>

unbundle bit_operations_syntax

section \<open>State\<close>

datatype event_kind = EvFwdExMem | EvFwdMemWb | EvStall | EvFlush | EvInfo | EvSuccess | EvError

record log_item =
  li_text :: string
  li_kind :: event_kind
  li_colour :: string

record event_log =
  el_items :: "log_item list"
  el_count :: string
  el_dark :: bool
  el_recent :: "u64 \<rightharpoonup> u64"

definition kMaxEntries :: nat where
  "kMaxEntries = 500"

definition event_log_init :: event_log where
  "event_log_init = \<lparr>el_items = [], el_count = ''0 events'', el_dark = False, el_recent = Map.empty\<rparr>"

section \<open>Texts\<close>

definition right_arrow :: string where
  "right_arrow = [CHR 0xE2, CHR 0x86, CHR 0x92]"

definition bullet :: string where
  "bullet = [CHR 0xE2, CHR 0x97, CHR 0x8F]"

definition pad_space :: "nat \<Rightarrow> string \<Rightarrow> string" where
  "pad_space width s = replicate (width - length s) (CHR '' '') @ s"

text \<open>\<open>format_instr\<close> of \<open>instr_format.h\<close>.\<close>

definition format_instr :: "u32 \<Rightarrow> u32 \<Rightarrow> string" where
  "format_instr raw pc = (case decode raw of Some d \<Rightarrow> dis_to_string d pc | None \<Rightarrow> ''(?/?)'')"

definition instr_or :: "stage_snapshot \<Rightarrow> string \<Rightarrow> string" where
  "instr_or s fallback = (if \<not> ss_valid s \<or> ss_raw s = 0 then fallback else format_instr (ss_raw s) (ss_pc s))"

definition kind_colour :: "bool \<Rightarrow> event_kind \<Rightarrow> string" where
  "kind_colour dark kind =
     (case kind of
        EvFwdExMem \<Rightarrow> if dark then ''#FFA726'' else ''#E65100''
      | EvFwdMemWb \<Rightarrow> if dark then ''#CE93D8'' else ''#7B1FA2''
      | EvStall \<Rightarrow> if dark then ''#FFB74D'' else ''#B45309''
      | EvFlush \<Rightarrow> if dark then ''#FF5252'' else ''#C62828''
      | EvSuccess \<Rightarrow> if dark then ''#81C784'' else ''#2E7D32''
      | EvError \<Rightarrow> if dark then ''#FF5252'' else ''#C62828''
      | EvInfo \<Rightarrow> if dark then ''#9CDCFE'' else ''#00529B'')"

definition log_item :: "bool \<Rightarrow> event_kind \<Rightarrow> u64 \<Rightarrow> string \<Rightarrow> log_item" where
  "log_item dark kind cycle msg =
     \<lparr>li_text = pad_space 5 (show_dec (unat cycle)) @ ''  '' @ bullet @ '' '' @ msg, li_kind = kind,
      li_colour = kind_colour dark kind\<rparr>"

section \<open>Operations\<close>

text \<open>The loop that takes the oldest entries out.\<close>

fun trim_log :: "'a list \<Rightarrow> 'a list" where
  "trim_log [] = []"
| "trim_log (x # xs) = (if kMaxEntries < length (x # xs) then trim_log xs else x # xs)"

definition log_event :: "event_kind \<Rightarrow> u64 \<Rightarrow> string \<Rightarrow> event_log \<Rightarrow> event_log" where
  "log_event kind cycle msg l =
     (let items = trim_log (el_items l @ [log_item (el_dark l) kind cycle msg])
      in l\<lparr>el_items := items, el_count := show_dec (length items) @ '' event(s)''\<rparr>)"

record hazard_event =
  he_fired :: bool
  he_stage :: nat
  he_kind :: event_kind
  he_text :: "string \<Rightarrow> string"
  he_fallback :: string

definition hazard_events :: "pipeline_state \<Rightarrow> hazard_event list" where
  "hazard_events ps =
     [\<lparr>he_fired = ps_fwd_ex_to_ex_a ps, he_stage = 2, he_kind = EvFwdExMem,
       he_text = (\<lambda>i. ''EX/MEM'' @ right_arrow @ ''EX forward, ALU input A: '' @ i), he_fallback = ''?''\<rparr>,
      \<lparr>he_fired = ps_fwd_ex_to_ex_b ps, he_stage = 2, he_kind = EvFwdExMem,
       he_text = (\<lambda>i. ''EX/MEM'' @ right_arrow @ ''EX forward, ALU input B: '' @ i), he_fallback = ''?''\<rparr>,
      \<lparr>he_fired = ps_fwd_mem_to_ex_a ps, he_stage = 2, he_kind = EvFwdMemWb,
       he_text = (\<lambda>i. ''MEM/WB'' @ right_arrow @ ''EX forward, ALU input A: '' @ i), he_fallback = ''?''\<rparr>,
      \<lparr>he_fired = ps_fwd_mem_to_ex_b ps, he_stage = 2, he_kind = EvFwdMemWb,
       he_text = (\<lambda>i. ''MEM/WB'' @ right_arrow @ ''EX forward, ALU input B: '' @ i), he_fallback = ''?''\<rparr>,
      \<lparr>he_fired = ps_load_stall ps, he_stage = 2, he_kind = EvStall,
       he_text = (\<lambda>i. ''load-use stall: '' @ i @ '' '' @ em_dash @ '' bubble inserted''), he_fallback = ''lw''\<rparr>,
      \<lparr>he_fired = ps_branch_flush ps, he_stage = 3, he_kind = EvFlush,
       he_text = (\<lambda>i. ''branch taken: '' @ i @ '' '' @ em_dash @ '' younger instructions flushed''),
       he_fallback = ''branch''\<rparr>]"

text \<open>The word of the instruction the event names, and the key of the event.\<close>

definition event_word :: "pipeline_state \<Rightarrow> hazard_event \<Rightarrow> u32" where
  "event_word ps e = (let s = ps_stages ps ! he_stage e in if ss_valid s then ss_raw s else 0)"

definition event_key :: "nat \<Rightarrow> u32 \<Rightarrow> u64" where
  "event_key i w = push_bit 32 (of_nat i) OR ucast w"

definition event_message :: "pipeline_state \<Rightarrow> hazard_event \<Rightarrow> string" where
  "event_message ps e = he_text e (instr_or (ps_stages ps ! he_stage e) (he_fallback e))"

definition update_event :: "pipeline_state \<Rightarrow> nat \<times> hazard_event \<Rightarrow> event_log \<Rightarrow> event_log" where
  "update_event ps ie l =
     (case ie of (i, e) \<Rightarrow>
        (if \<not> he_fired e then l
         else let cycle = of_nat (ps_cycle ps); key = event_key i (event_word ps e);
                  continued = (case el_recent l key of Some seen \<Rightarrow> seen + 1 = cycle \<or> seen = cycle | None \<Rightarrow> False);
                  l = l\<lparr>el_recent := (el_recent l)(key \<mapsto> cycle)\<rparr>
              in if continued then l else log_event (he_kind e) cycle (event_message ps e) l))"

definition events_update :: "pipeline_state \<Rightarrow> event_log \<Rightarrow> event_log" where
  "events_update ps l = fold (update_event ps) (List.enumerate 0 (hazard_events ps)) l"

definition events_clear :: "event_log \<Rightarrow> event_log" where
  "events_clear l = l\<lparr>el_items := [], el_recent := Map.empty, el_count := ''0 events''\<rparr>"

definition events_dark :: "bool \<Rightarrow> event_log \<Rightarrow> event_log" where
  "events_dark dark l =
     l\<lparr>el_dark := dark, el_items := map (\<lambda>i. i\<lparr>li_colour := kind_colour dark (li_kind i)\<rparr>) (el_items l)\<rparr>"

definition event_count :: "event_log \<Rightarrow> nat" where
  "event_count l = length (el_items l)"

lemma events_keep_dark [simp]: "el_dark (log_event kind cycle msg l) = el_dark l" "el_dark (events_update ps l) = el_dark l"
proof -
  show d: "el_dark (log_event kind cycle msg l) = el_dark l" for kind cycle msg l by (simp add: log_event_def Let_def)
  have "el_dark (fold (update_event ps) es l) = el_dark l" for es
    by (induction es arbitrary: l) (auto simp: update_event_def Let_def d split: prod.split)
  then show "el_dark (events_update ps l) = el_dark l" by (simp add: events_update_def)
qed

section \<open>Keys and trimming\<close>

lemma small_bit: "k < 6 \<Longrightarrow> bit (k :: nat) n \<Longrightarrow> n < 32"
proof (rule ccontr)
  assume "k < 6" "bit k n" "\<not> n < 32"
  then have "k < 2 ^ n" using power_increasing [of 3 n "2 :: nat"] by simp
  then show False using \<open>bit k n\<close> by (simp add: bit_iff_odd)
qed

lemma event_key_inj:
  assumes "i < 6" "j < 6"
  shows "event_key i v = event_key j w \<longleftrightarrow> i = j \<and> v = w"
proof
  have low: "bit (event_key k x) n \<longleftrightarrow> bit x n" if "n < 32" for k n and x :: u32
    using that by (simp add: event_key_def bit_simps)
  have high: "drop_bit 32 (event_key k x) = of_nat k" if "k < 6" for k and x :: u32
    using that small_bit [OF that] by (intro bit_word_eqI) (auto simp: event_key_def bit_simps dest: bit_imp_le_length)
  assume e: "event_key i v = event_key j w"
  have "(of_nat i :: u64) = of_nat j" using high [OF assms(1), of v] high [OF assms(2), of w] e by simp
  then have "unat (of_nat i :: u64) = unat (of_nat j :: u64)" by simp
  then have "i = j" using assms by (simp add: unsigned_of_nat take_bit_eq_mod)
  moreover have "v = w" using low [of _ i v] low [of _ j w] e by (intro bit_word_eqI) simp
  ultimately show "i = j \<and> v = w" by simp
qed simp

text \<open>The last \<open>kMaxEntries\<close> of a list.\<close>

definition latest :: "'a list \<Rightarrow> 'a list" where
  "latest xs = drop (length xs - kMaxEntries) xs"

lemma trim_log_latest: "trim_log xs = latest xs"
  by (induction xs) (auto simp: latest_def Suc_diff_le not_less)

lemma latest_snoc: "latest (latest xs @ [x]) = latest (xs @ [x])"
proof (cases "length xs \<le> 500")
  case False
  then have "length xs - 499 = Suc (length xs - 500)" by simp
  then show ?thesis using False by (simp add: latest_def kMaxEntries_def Suc_diff_le drop_Suc)
qed (simp add: latest_def kMaxEntries_def)

section \<open>The log as a history\<close>

definition report_cycle :: "pipeline_state \<Rightarrow> u64" where
  "report_cycle ps = of_nat (ps_cycle ps)"

definition event_of :: "pipeline_state \<Rightarrow> nat \<Rightarrow> hazard_event" where
  "event_of ps i = hazard_events ps ! i"

text \<open>Event \<open>i\<close> happens in a report, to the instruction word \<open>w\<close>.\<close>

definition happens :: "pipeline_state \<Rightarrow> nat \<Rightarrow> u32 \<Rightarrow> bool" where
  "happens ps i w \<longleftrightarrow> he_fired (event_of ps i) \<and> event_word ps (event_of ps i) = w"

text \<open>It begins: it did not happen to the same word in the cycle before.\<close>

definition begins :: "pipeline_state list \<Rightarrow> pipeline_state \<Rightarrow> nat \<Rightarrow> bool" where
  "begins sts ps i \<longleftrightarrow> he_fired (event_of ps i)
     \<and> \<not> (\<exists>st \<in> set sts. report_cycle st + 1 = report_cycle ps \<and> happens st i (event_word ps (event_of ps i)))"

definition report_entry :: "bool \<Rightarrow> pipeline_state \<Rightarrow> nat \<Rightarrow> log_item" where
  "report_entry dark ps i = log_item dark (he_kind (event_of ps i)) (report_cycle ps) (event_message ps (event_of ps i))"

definition report_entries :: "bool \<Rightarrow> pipeline_state list \<Rightarrow> nat \<Rightarrow> log_item list" where
  "report_entries dark sts j = map (report_entry dark (sts ! j)) (filter (begins (take j sts) (sts ! j)) [0..<6])"

definition history :: "bool \<Rightarrow> pipeline_state list \<Rightarrow> log_item list" where
  "history dark sts = concat (map (report_entries dark sts) [0..<length sts])"

lemma history_snoc:
  "history dark (sts @ [ps]) = history dark sts @ map (report_entry dark ps) (filter (begins sts ps) [0..<6])"
proof -
  have "concat (map (report_entries dark (sts @ [ps])) [0..<length sts]) = concat (map (report_entries dark sts) [0..<length sts])"
    by (intro arg_cong [where f = concat] map_cong refl) (simp add: report_entries_def nth_append)
  then show ?thesis by (simp add: history_def report_entries_def [of _ _ "length sts"])
qed

text \<open>The cycles of the reports an event happened in, and what the table of recent events holds.\<close>

definition hits :: "pipeline_state list \<Rightarrow> nat \<Rightarrow> u32 \<Rightarrow> u64 list" where
  "hits sts i w = map report_cycle (filter (\<lambda>st. happens st i w) sts)"

definition last_hit :: "pipeline_state list \<Rightarrow> nat \<Rightarrow> u32 \<Rightarrow> u64 option" where
  "last_hit sts i w = (if hits sts i w = [] then None else Some (last (hits sts i w)))"

lemma last_hit_snoc: "last_hit (sts @ [ps]) i w = (if happens ps i w then Some (report_cycle ps) else last_hit sts i w)"
  by (simp add: last_hit_def hits_def)

lemma continued_iff:
  assumes "sorted_wrt (<) (map report_cycle (sts @ [ps]))"
  shows "(case last_hit sts i w of Some seen \<Rightarrow> seen + 1 = report_cycle ps \<or> seen = report_cycle ps | None \<Rightarrow> False)
    \<longleftrightarrow> (\<exists>st \<in> set sts. report_cycle st + 1 = report_cycle ps \<and> happens st i w)"
proof (cases "hits sts i w = []")
  case True
  then show ?thesis by (auto simp: last_hit_def hits_def filter_empty_conv)
next
  case False
  define l where "l = last (hits sts i w)"
  have before: "h < report_cycle ps" if "h \<in> set (hits sts i w)" for h
    using assms that by (auto simp: hits_def sorted_wrt_append)
  have l: "l \<in> set (hits sts i w)" using False by (simp add: l_def)
  have "sorted_wrt (<) (hits sts i w)"
    using assms unfolding hits_def by (simp add: sorted_wrt_append sorted_wrt_map sorted_wrt_filter)
  then have max: "h \<le> l" if "h \<in> set (hits sts i w)" for h
    using that False unfolding l_def
    by (cases "hits sts i w" rule: rev_cases) (auto simp: sorted_wrt_append)
  have "l + 1 = report_cycle ps \<longleftrightarrow> (\<exists>h \<in> set (hits sts i w). h + 1 = report_cycle ps)"
  proof
    assume "\<exists>h \<in> set (hits sts i w). h + 1 = report_cycle ps"
    then obtain h where h: "h \<in> set (hits sts i w)" "h + 1 = report_cycle ps" by blast
    have "\<not> h < l" using before [OF l] inc_le [of h l] h(2) by auto
    then show "l + 1 = report_cycle ps" using max [OF h(1)] h(2) by simp
  qed (use l in blast)
  moreover have "l \<noteq> report_cycle ps" using before [OF l] by simp
  moreover have "(\<exists>st \<in> set sts. report_cycle st + 1 = report_cycle ps \<and> happens st i w)
      \<longleftrightarrow> (\<exists>h \<in> set (hits sts i w). h + 1 = report_cycle ps)" by (auto simp: hits_def)
  ultimately show ?thesis using False by (simp add: last_hit_def l_def [symmetric])
qed

text \<open>The log while the events of a report are gone through.\<close>

definition log_ok :: "bool \<Rightarrow> pipeline_state list \<Rightarrow> pipeline_state \<Rightarrow> nat \<Rightarrow> event_log \<Rightarrow> bool" where
  "log_ok dark sts ps n l \<longleftrightarrow> el_dark l = dark
     \<and> (\<forall>i < 6. \<forall>w. el_recent l (event_key i w) = last_hit (if i < n then sts @ [ps] else sts) i w)
     \<and> el_items l = latest (history dark sts @ map (report_entry dark ps) (filter (begins sts ps) [0..<n]))"

lemma log_ok_step:
  assumes l: "log_ok dark sts ps n l" and n: "n < 6" and cycles: "sorted_wrt (<) (map report_cycle (sts @ [ps]))"
  shows "log_ok dark sts ps (Suc n) (update_event ps (n, event_of ps n) l)"
proof (cases "he_fired (event_of ps n)")
  case False
  then have "last_hit (sts @ [ps]) n w = last_hit sts n w" "\<not> begins sts ps n" for w
    by (simp_all add: last_hit_snoc happens_def begins_def)
  then show ?thesis using l False by (auto simp: log_ok_def update_event_def less_Suc_eq)
next
  case True
  let ?w = "event_word ps (event_of ps n)"
  define continued where "continued = (case last_hit sts n ?w of Some seen \<Rightarrow> seen + 1 = report_cycle ps \<or> seen = report_cycle ps | None \<Rightarrow> False)"
  define l1 where "l1 = l\<lparr>el_recent := (el_recent l)(event_key n ?w \<mapsto> report_cycle ps)\<rparr>"
  have c: "continued \<longleftrightarrow> \<not> begins sts ps n" using continued_iff [OF cycles] True by (simp add: continued_def begins_def)
  have u: "update_event ps (n, event_of ps n) l
      = (if continued then l1 else log_event (he_kind (event_of ps n)) (report_cycle ps) (event_message ps (event_of ps n)) l1)"
    using l n True by (simp add: update_event_def Let_def continued_def l1_def report_cycle_def [symmetric] log_ok_def)
  have "el_recent l1 (event_key i w) = last_hit (if i < Suc n then sts @ [ps] else sts) i w" if "i < 6" for i w
    using l n that True event_key_inj [OF that n, of w ?w]
    by (auto simp: l1_def log_ok_def last_hit_snoc happens_def less_Suc_eq)
  moreover have "el_items l1 = latest (history dark sts @ map (report_entry dark ps) (filter (begins sts ps) [0..<n]))" "el_dark l1 = dark"
    using l by (simp_all add: l1_def log_ok_def)
  ultimately show ?thesis
    unfolding u c by (auto simp: log_ok_def log_event_def Let_def trim_log_latest latest_snoc report_entry_def)
qed

lemma hazard_events_enumerate: "List.enumerate 0 (hazard_events ps) = map (\<lambda>i. (i, event_of ps i)) [0..<6]"
  by (simp add: hazard_events_def event_of_def upt_rec numeral_2_eq_2 eval_nat_numeral)

lemma log_ok_report:
  assumes l: "log_ok dark sts ps 0 l" and cycles: "sorted_wrt (<) (map report_cycle (sts @ [ps]))"
  shows "log_ok dark (sts @ [ps]) ps' 0 (events_update ps l)"
proof -
  have "n < 7 \<Longrightarrow> log_ok dark sts ps n (fold (update_event ps) (map (\<lambda>i. (i, event_of ps i)) [0..<n]) l)" for n
  proof (induction n)
    case (Suc n)
    then show ?case using log_ok_step [OF _ _ cycles] by simp
  qed (simp add: l)
  from this [of 6] have "log_ok dark sts ps 6 (events_update ps l)"
    by (simp add: events_update_def hazard_events_enumerate del: upt_rec_numeral)
  then show ?thesis by (auto simp: log_ok_def history_snoc)
qed

section \<open>Property\<close>

text \<open>C39: The event log is the history of what began. After any reports with increasing cycles, skipped cycles or not, the log holds the latest 500 of the entries, in order, one per event of each report that did not happen to the same instruction word in the cycle directly before; its counter is the number of its entries.\<close>

theorem log_is_history:
  assumes "sorted_wrt (<) (map report_cycle sts)" "el_dark l = dark"
  shows "el_items (fold events_update sts (events_clear l)) = latest (history dark sts)
    \<and> event_count (fold events_update sts (events_clear l)) = min 500 (length (history dark sts))"
proof -
  have "log_ok dark sts ps 0 (fold events_update sts (events_clear l))" for ps
    using assms(1)
  proof (induction sts arbitrary: ps rule: rev_induct)
    case Nil
    then show ?case by (simp add: log_ok_def events_clear_def assms(2) last_hit_def hits_def history_def latest_def)
  next
    case (snoc x sts)
    then show ?case using log_ok_report [OF snoc.IH snoc.prems] by (simp add: sorted_wrt_append)
  qed
  then show ?thesis by (simp add: log_ok_def event_count_def latest_def kMaxEntries_def)
qed

lemma log_is_history_witness:
  "event_count (fold events_update [ps_init\<lparr>ps_load_stall := True, ps_cycle := 4\<rparr>, ps_init\<lparr>ps_load_stall := True, ps_cycle := 5\<rparr>]
     (events_clear event_log_init)) = 1"
proof -
  let ?sts = "[ps_init\<lparr>ps_load_stall := True, ps_cycle := 4\<rparr>, ps_init\<lparr>ps_load_stall := True, ps_cycle := 5\<rparr>]"
  have "sorted_wrt (<) (map report_cycle ?sts)" "length (history False ?sts) = 1" by code_simp+
  then show ?thesis using log_is_history [of ?sts event_log_init False] by (simp add: event_log_init_def)
qed

end
