(* ===== verification/SchematicView.thy ===== *)
theory SchematicView
  imports Complex_Main RegisterPanel EventLog PanelView
begin

text \<open>
  The circuit view of the Qt front end (\<open>src/nsc_qt/widgets/schematic_datapath_widget.cpp\<close>): the texts
  and colours the scene derives from a report of the pipeline, the tooltips, the tokens that move from
  stage to stage, and the selection of stages by mouse and keyboard. Coordinates are exact numbers.
  Whether the widget is visible, and the instants of the animation, are parameters. Left out: the
  fixed shapes, the positions that depend on the width of a text, zooming and the image export.
\<close>

section \<open>Constants\<close>

type_synonym point = "rat \<times> rat"

definition kColumns :: "(rat \<times> rat) list" where
  "kColumns = [(8, 270), (286, 555), (571, 845), (861, 1130), (1146, 1276)]"

definition kColTop :: rat where
  "kColTop = 44"

definition kColBot :: rat where
  "kColBot = 500"

text \<open>The input ports of the multiplexers, in the order of their selects.\<close>

definition kPcMuxPorts :: "point list" where
  "kPcMuxPorts = [(16, 262), (16, 298)]"

definition kFwdAMuxPorts :: "point list" where
  "kFwdAMuxPorts = [(600, 222), (600, 238), (600, 254)]"

definition kFwdBMuxPorts :: "point list" where
  "kFwdBMuxPorts = [(600, 292), (600, 308), (600, 324)]"

definition kWbMuxPorts :: "point list" where
  "kWbMuxPorts = [(1180, 272), (1180, 298)]"

definition kStageLight :: "string list" where
  "kStageLight = [''#E3F2FD'', ''#E0F7FA'', ''#E8F5E9'', ''#FFFDE7'', ''#FFEBEE'']"

definition kStageDark :: "string list" where
  "kStageDark = [''#0D47A1'', ''#006064'', ''#1B5E20'', ''#F57F17'', ''#B71C1C'']"

record colours =
  cl_bg :: string
  cl_comp_fill :: string
  cl_comp_border :: string
  cl_wire :: string
  cl_wire_dim :: string
  cl_text :: string
  cl_label :: string
  cl_flush :: string
  cl_stall :: string
  cl_fwd_ex :: string
  cl_fwd_mem :: string
  cl_wb :: string

definition kLight :: colours where
  "kLight = \<lparr>cl_bg = ''#F5F5F5'', cl_comp_fill = ''#FFFFFF'', cl_comp_border = ''#606060'', cl_wire = ''#707070'',
     cl_wire_dim = ''#C4C4C4'', cl_text = ''#1A1A1A'', cl_label = ''#00529B'', cl_flush = ''#D32F2F'',
     cl_stall = ''#E65100'', cl_fwd_ex = ''#FF6F00'', cl_fwd_mem = ''#7B1FA2'', cl_wb = ''#2E7D32''\<rparr>"

definition kDark :: colours where
  "kDark = \<lparr>cl_bg = ''#1E1E1E'', cl_comp_fill = ''#2D2D2D'', cl_comp_border = ''#9A9A9A'', cl_wire = ''#A0A0A0'',
     cl_wire_dim = ''#4A4A4A'', cl_text = ''#E0E0E0'', cl_label = ''#9CDCFE'', cl_flush = ''#FF5252'',
     cl_stall = ''#FFB74D'', cl_fwd_ex = ''#FFA726'', cl_fwd_mem = ''#CE93D8'', cl_wb = ''#81C784''\<rparr>"

definition palette :: "bool \<Rightarrow> colours" where
  "palette dark = (if dark then kDark else kLight)"

section \<open>State\<close>

text \<open>A wire: its resting and its highlighted colour, and whether it is lit.\<close>

record wire_item =
  wi_rest :: string
  wi_lit :: string
  wi_active :: bool

definition set_lit :: "bool \<Rightarrow> wire_item \<Rightarrow> wire_item" where
  "set_lit on w = (if wi_active w = on then w else w\<lparr>wi_active := on\<rparr>)"

definition set_colours :: "string \<Rightarrow> string \<Rightarrow> wire_item \<Rightarrow> wire_item" where
  "set_colours rest lit w = w\<lparr>wi_rest := rest, wi_lit := lit\<rparr>"

text \<open>What a column shows: its band and alpha, the instruction, its address and the breakpoint mark.\<close>

record stage_column =
  co_band :: "string \<times> nat"
  co_label :: "string \<times> string"
  co_pc :: "string \<times> string"
  co_breakpoint :: bool

record datapath_scene =
  ds_background :: string
  ds_legend :: "string list"
  ds_ring_pen :: string
  ds_columns :: "stage_column list"
  ds_cycle :: string
  ds_bars :: "string list"
  ds_exmem :: wire_item
  ds_exmem_stub :: wire_item
  ds_memwb :: wire_item
  ds_memwb_stub :: wire_item
  ds_branch :: wire_item
  ds_writeback :: wire_item
  ds_dmem_pen :: "string \<times> rat"
  ds_regs_pen :: "string \<times> rat"
  ds_markers :: "(point \<times> string) list"
  ds_val_pc :: string
  ds_val_imm :: string
  ds_val_wb :: string
  ds_hazard :: "(string \<times> string) option"

text \<open>The live tooltips.\<close>

record datapath_tips =
  dt_pc :: string
  dt_imem :: string
  dt_control :: string
  dt_regs :: string
  dt_alu :: string
  dt_dmem :: string

text \<open>
  A token is visible at a position or hidden; the running animation is the list of the moves it
  makes, none when it is stopped. The ring is the rectangle around the selected column.
\<close>

record schematic =
  sd_state :: pipeline_state
  sd_breakpoints :: "u32 set"
  sd_regs :: "u32 list"
  sd_dark :: bool
  sd_selected :: nat
  sd_dirty :: bool
  sd_tips_dirty :: bool
  sd_scene :: datapath_scene
  sd_tips :: datapath_tips
  sd_tokens :: "(bool \<times> rat) list"
  sd_anim :: "(nat \<times> rat \<times> rat) list option"
  sd_focus :: bool
  sd_ring :: "(rat \<times> rat \<times> rat \<times> rat) option"

section \<open>The scene of a report\<close>

definition hex_word :: "u32 \<Rightarrow> string" where
  "hex_word w = pad_zero 8 (show_base False 16 (unat w))"

definition stage_decoded :: "pipeline_state \<Rightarrow> nat \<Rightarrow> decoded_instr option" where
  "stage_decoded ps i =
     (let s = ps_stages ps ! i in if ss_valid s \<and> ss_raw s \<noteq> 0 then decode (ss_raw s) else None)"

definition column_label :: "colours \<Rightarrow> pipeline_state \<Rightarrow> nat \<Rightarrow> string \<times> string" where
  "column_label t ps i =
     (let snap = ps_stages ps ! i
      in if ss_flushed snap then (''nop (flush)'', cl_flush t)
         else if ss_stalled snap then (''nop (stall)'', cl_stall t)
         else if ss_valid snap then
           (if ss_raw snap = 0 then ''nop''
            else case stage_decoded ps i of Some d \<Rightarrow> dis_to_string d (ss_pc snap) | None \<Rightarrow> ''(?/?)'', cl_text t)
         else (em_dash, cl_wire_dim t))"

definition draw_column :: "bool \<Rightarrow> u32 set \<Rightarrow> pipeline_state \<Rightarrow> nat \<Rightarrow> stage_column" where
  "draw_column dark bps ps i =
     (let t = palette dark; snap = ps_stages ps ! i
      in \<lparr>co_band = ((if dark then kStageDark else kStageLight) ! i,
            if ss_valid snap then (if dark then 32 else 120) else if dark then 12 else 45),
          co_label = column_label t ps i,
          co_pc = (if ss_valid snap then ''0x'' @ hex_word (ss_pc snap) else [], cl_wire t),
          co_breakpoint = (ss_valid snap \<and> ss_pc snap \<in> bps)\<rparr>)"

text \<open>The bar of a pipeline register has the state of the stage after it.\<close>

definition bar_fill :: "colours \<Rightarrow> pipeline_state \<Rightarrow> nat \<Rightarrow> string" where
  "bar_fill t ps i =
     (let snap = ps_stages ps ! (i + 1)
      in if ss_flushed snap then cl_flush t else if ss_stalled snap then cl_stall t else cl_comp_fill t)"

definition stage_control :: "pipeline_state \<Rightarrow> nat \<Rightarrow> control" where
  "stage_control ps i = (case stage_decoded ps i of Some d \<Rightarrow> derive_control d | None \<Rightarrow> control_init)"

definition wb_dest :: "pipeline_state \<Rightarrow> int" where
  "wb_dest ps = (case stage_decoded ps 4 of Some d \<Rightarrow> destination_register d | None \<Rightarrow> - 1)"

definition sel_a :: "pipeline_state \<Rightarrow> nat" where
  "sel_a ps = (if ps_fwd_ex_to_ex_a ps then 1 else if ps_fwd_mem_to_ex_a ps then 2 else 0)"

definition sel_b :: "pipeline_state \<Rightarrow> nat" where
  "sel_b ps = (if ps_fwd_ex_to_ex_b ps then 1 else if ps_fwd_mem_to_ex_b ps then 2 else 0)"

definition sel_colour :: "colours \<Rightarrow> nat \<Rightarrow> string" where
  "sel_colour t sel = (if sel = 1 then cl_fwd_ex t else if sel = 2 then cl_fwd_mem t else cl_wire t)"

definition draw_markers :: "colours \<Rightarrow> pipeline_state \<Rightarrow> (point \<times> string) list" where
  "draw_markers t ps =
     [(kPcMuxPorts ! (if ps_branch_flush ps then 1 else 0), if ps_branch_flush ps then cl_flush t else cl_wire t),
      (kFwdAMuxPorts ! sel_a ps, sel_colour t (sel_a ps)),
      (kFwdBMuxPorts ! sel_b ps, sel_colour t (sel_b ps)),
      (kWbMuxPorts ! (if c_mem_to_reg (stage_control ps 4) then 0 else 1), if 0 \<le> wb_dest ps then cl_wb t else cl_wire t)]"

definition imm_text :: "pipeline_state \<Rightarrow> string" where
  "imm_text ps =
     (case stage_decoded ps 1 of
        None \<Rightarrow> []
      | Some d \<Rightarrow>
          if di_format d = FmtI then
            ''imm='' @ (if c_ext (derive_control d) = ExtZero then show_dec (unat (i_imm (get_i d)))
                       else show_int (sint (i_imm (get_i d))))
          else [])"

definition wb_text :: "pipeline_state \<Rightarrow> u32 list \<Rightarrow> string" where
  "wb_text ps regs =
     (if 0 < wb_dest ps then
        ''$'' @ register_abi_name (of_int (wb_dest ps)) @ '' = 0x'' @ hex_word (regs ! nat (wb_dest ps))
      else [])"

definition named_stage :: "pipeline_state \<Rightarrow> nat \<Rightarrow> string \<Rightarrow> string" where
  "named_stage ps i fallback =
     (case stage_decoded ps i of Some d \<Rightarrow> dis_to_string d (ss_pc (ps_stages ps ! i)) | None \<Rightarrow> fallback)"

definition hazard_text :: "colours \<Rightarrow> pipeline_state \<Rightarrow> (string \<times> string) option" where
  "hazard_text t ps =
     (if ps_branch_flush ps then
        Some (''Branch taken: '' @ named_stage ps 3 ''branch'' @ '' '' @ em_dash @
              '' PC redirected, younger instructions flushed'', cl_flush t)
      else if ps_load_stall ps then
        Some (''Load-use hazard: '' @ named_stage ps 2 ''lw'' @ '' '' @ em_dash @
              '' its data arrives after MEM, so the dependent instruction waits one cycle'', cl_stall t)
      else None)"

definition draw_state :: "bool \<Rightarrow> u32 set \<Rightarrow> pipeline_state \<Rightarrow> u32 list \<Rightarrow> datapath_scene \<Rightarrow> datapath_scene" where
  "draw_state dark bps ps regs sn =
     (let t = palette dark; mem = stage_control ps 3
      in sn\<lparr>ds_columns := map (draw_column dark bps ps) [0..<5],
            ds_cycle := ''Cycle '' @ show_dec (unat (of_nat (ps_cycle ps) :: u64)),
            ds_bars := map (bar_fill t ps) [0..<4],
            ds_exmem := set_lit (ps_fwd_ex_to_ex_a ps \<or> ps_fwd_ex_to_ex_b ps) (ds_exmem sn),
            ds_exmem_stub := set_lit (ps_fwd_ex_to_ex_b ps) (ds_exmem_stub sn),
            ds_memwb := set_lit (ps_fwd_mem_to_ex_a ps \<or> ps_fwd_mem_to_ex_b ps) (ds_memwb sn),
            ds_memwb_stub := set_lit (ps_fwd_mem_to_ex_b ps) (ds_memwb_stub sn),
            ds_branch := set_lit (ps_branch_flush ps) (ds_branch sn),
            ds_dmem_pen := (if c_mem_read mem \<or> c_mem_write mem then (cl_label t, 24 / 10) else (cl_comp_border t, 14 / 10)),
            ds_regs_pen := (if 0 \<le> wb_dest ps then (cl_wb t, 24 / 10) else (cl_comp_border t, 14 / 10)),
            ds_writeback := set_lit (0 \<le> wb_dest ps) (ds_writeback sn),
            ds_markers := draw_markers t ps,
            ds_val_pc := (let s = ps_stages ps ! 0 in if ss_valid s then ''0x'' @ hex_word (ss_pc s) else []),
            ds_val_imm := imm_text ps,
            ds_val_wb := wb_text ps regs,
            ds_hazard := hazard_text t ps\<rparr>)"

definition apply_state :: "schematic \<Rightarrow> schematic" where
  "apply_state d =
     d\<lparr>sd_dirty := False, sd_scene := draw_state (sd_dark d) (sd_breakpoints d) (sd_state d) (sd_regs d) (sd_scene d),
       sd_tips_dirty := True\<rparr>"

text \<open>The part of \<open>applyTheme\<close> before it draws the state.\<close>

definition recolour :: "bool \<Rightarrow> datapath_scene \<Rightarrow> datapath_scene" where
  "recolour dark sn =
     (let t = palette dark
      in sn\<lparr>ds_background := cl_bg t,
            ds_exmem := set_colours (cl_wire_dim t) (cl_fwd_ex t) (ds_exmem sn),
            ds_exmem_stub := set_colours (cl_wire_dim t) (cl_fwd_ex t) (ds_exmem_stub sn),
            ds_memwb := set_colours (cl_wire_dim t) (cl_fwd_mem t) (ds_memwb sn),
            ds_memwb_stub := set_colours (cl_wire_dim t) (cl_fwd_mem t) (ds_memwb_stub sn),
            ds_branch := set_colours (cl_wire_dim t) (cl_flush t) (ds_branch sn),
            ds_writeback := set_colours (cl_wire_dim t) (cl_wb t) (ds_writeback sn),
            ds_ring_pen := (if dark then ''#4FC3F7'' else ''#0078D4''),
            ds_legend := [cl_fwd_ex t, cl_fwd_mem t, cl_flush t, cl_wb t]\<rparr>)"

definition apply_theme :: "schematic \<Rightarrow> schematic" where
  "apply_theme d = apply_state (d\<lparr>sd_scene := recolour (sd_dark d) (sd_scene d)\<rparr>)"

section \<open>Tooltips\<close>

definition instr_label :: "pipeline_state \<Rightarrow> nat \<Rightarrow> string" where
  "instr_label ps i =
     (let s = ps_stages ps ! i
      in if \<not> ss_valid s then em_dash
         else if ss_raw s = 0 then ''nop''
         else case stage_decoded ps i of Some d \<Rightarrow> dis_to_string d (ss_pc s) | None \<Rightarrow> ''(?/?)'')"

fun join_with :: "string \<Rightarrow> string list \<Rightarrow> string" where
  "join_with sep [] = []"
| "join_with sep [s] = s"
| "join_with sep (s # t # ss) = s @ sep @ join_with sep (t # ss)"

definition signal_names :: "control \<Rightarrow> string list" where
  "signal_names c =
     (if c_reg_write c then [''RegWrite''] else []) @ (if c_mem_read c then [''MemRead''] else []) @
     (if c_mem_write c then [''MemWrite''] else []) @ (if c_mem_to_reg c then [''MemToReg''] else []) @
     (if c_alu_src c then [''ALUSrc''] else []) @ (if c_reg_dst c then [''RegDst''] else []) @
     (if c_branch c then [''Branch''] else []) @ (if c_jump c then [''Jump''] else [])"

definition asserted_text :: "pipeline_state \<Rightarrow> string" where
  "asserted_text ps =
     (case stage_decoded ps 1 of
        None \<Rightarrow> ''(none)''
      | Some d \<Rightarrow> (let sig = signal_names (derive_control d) in if sig = [] then ''(none)'' else join_with '', '' sig))"

text \<open>The fields \<open>rs\<close> and \<open>rt\<close> of the instruction in ID, 0 when its format has none.\<close>

definition named_operands :: "decoded_instr \<Rightarrow> u8 \<times> u8" where
  "named_operands d =
     (case di_format d of
        FmtR \<Rightarrow> (r_rs (get_r d), r_rt (get_r d))
      | FmtI \<Rightarrow> (i_rs (get_i d), i_rt (get_i d))
      | _ \<Rightarrow> (0, 0))"

definition read_line :: "pipeline_state \<Rightarrow> u32 list \<Rightarrow> string" where
  "read_line ps regs =
     (case stage_decoded ps 1 of
        None \<Rightarrow> ''(idle)''
      | Some d \<Rightarrow>
          (case named_operands d of
             (rs, rt) \<Rightarrow> ''$'' @ register_abi_name rs @ '' = 0x'' @ hex_word (regs ! unat rs) @ ''   $'' @
               register_abi_name rt @ '' = 0x'' @ hex_word (regs ! unat rt)))"

definition times_sign :: string where
  "times_sign = [CHR 0xC3, CHR 0x97]"

definition make_tips :: "pipeline_state \<Rightarrow> u32 list \<Rightarrow> datapath_tips" where
  "make_tips ps regs =
     (let nl = [CHR 0x0A]; mem = stage_control ps 3;
          mem_act = (if c_mem_read mem then ''reading (load)'' else if c_mem_write mem then ''writing (store)'' else ''idle'')
      in \<lparr>dt_pc = ''Program Counter '' @ em_dash @ '' holds the address of the instruction being fetched.'' @ nl @
            ''PC = 0x'' @ hex_word (ss_pc (ps_stages ps ! 0)),
          dt_imem = ''Instruction memory '' @ em_dash @
            '' read-only program storage; outputs the 32-bit word addressed by PC.'' @ nl @ ''Fetching: '' @ instr_label ps 0,
          dt_control = ''Control unit '' @ em_dash @
            '' decodes the ID-stage instruction into the control signals that steer the datapath.'' @ nl @
            ''ID: '' @ instr_label ps 1 @ nl @ ''Asserted: '' @ asserted_text ps,
          dt_regs = ''Register file '' @ em_dash @ '' 32 '' @ times_sign @
            '' 32-bit registers with two read ports (ID) and one write port (WB).'' @ nl @ ''ID reads: '' @ read_line ps regs,
          dt_alu = ''ALU '' @ em_dash @ '' performs the arithmetic/logic operation for the EX-stage instruction. '' @
            ''Its inputs come through the forwarding muxes on the left.'' @ nl @ ''EX: '' @ instr_label ps 2,
          dt_dmem = ''Data memory '' @ em_dash @
            '' the load/store port used in MEM. Only lw/sw class instructions touch it.'' @ nl @
            ''MEM: '' @ instr_label ps 3 @ '' '' @ em_dash @ '' '' @ mem_act\<rparr>)"

definition update_tooltips :: "schematic \<Rightarrow> schematic" where
  "update_tooltips d = d\<lparr>sd_tips := make_tips (sd_state d) (sd_regs d)\<rparr>"

text \<open>The part of \<open>viewportEvent\<close> for the event that asks for a tooltip.\<close>

definition tooltip_event :: "schematic \<Rightarrow> schematic" where
  "tooltip_event d = (if sd_tips_dirty d then (update_tooltips d)\<lparr>sd_tips_dirty := False\<rparr> else d)"

section \<open>Tokens\<close>

definition col_center :: "nat \<Rightarrow> rat" where
  "col_center i = (fst (kColumns ! i) + snd (kColumns ! i)) / 2 - 13"

text \<open>Where the token of stage \<open>i\<close> starts, when its instruction has just come there.\<close>

definition token_from :: "pipeline_state \<Rightarrow> pipeline_state \<Rightarrow> nat \<Rightarrow> rat option" where
  "token_from old new i =
     (let now = ps_stages new ! i
      in if \<not> ss_valid now \<or> ss_stalled now \<or> ss_flushed now then None
         else if i = 0 then
           (let before = ps_stages old ! 0
            in if ss_valid before \<and> ss_pc before = ss_pc now then None else Some (fst (kColumns ! 0)))
         else
           (let prev = ps_stages old ! (i - 1)
            in if \<not> ss_valid prev \<or> ss_pc prev \<noteq> ss_pc now \<or> ss_raw prev \<noteq> ss_raw now then None
               else Some (col_center (i - 1))))"

definition token_moves :: "pipeline_state \<Rightarrow> pipeline_state \<Rightarrow> (nat \<times> rat \<times> rat) list" where
  "token_moves old new =
     List.map_filter (\<lambda>i. map_option (\<lambda>from_x. (i, from_x, col_center i)) (token_from old new i)) [0..<5]"

definition hide_tokens :: "(bool \<times> rat) list \<Rightarrow> (bool \<times> rat) list" where
  "hide_tokens toks = map (\<lambda>(v, x). (False, x)) toks"

definition show_tokens :: "(nat \<times> rat \<times> rat) list \<Rightarrow> (bool \<times> rat) list \<Rightarrow> (bool \<times> rat) list" where
  "show_tokens moves toks = fold (\<lambda>(i, from_x, to_x) ts. ts[i := (True, from_x)]) moves toks"

definition start_tokens :: "pipeline_state \<Rightarrow> schematic \<Rightarrow> schematic" where
  "start_tokens old d =
     (if (of_nat (ps_cycle (sd_state d)) :: u64) \<noteq> of_nat (ps_cycle old) + 1 then
        d\<lparr>sd_anim := None, sd_tokens := hide_tokens (sd_tokens d)\<rparr>
      else
        (let moves = token_moves old (sd_state d)
         in d\<lparr>sd_tokens := show_tokens moves (sd_tokens d), sd_anim := (if moves = [] then None else Some moves)\<rparr>))"

text \<open>A value of the running animation, between 0 and 1, and its end.\<close>

definition move_tokens :: "rat \<Rightarrow> (nat \<times> rat \<times> rat) list \<Rightarrow> (bool \<times> rat) list \<Rightarrow> (bool \<times> rat) list" where
  "move_tokens p moves toks =
     fold (\<lambda>(i, from_x, to_x) ts. ts[i := (fst (ts ! i), from_x + (to_x - from_x) * p)]) moves toks"

definition anim_value :: "rat \<Rightarrow> schematic \<Rightarrow> schematic" where
  "anim_value p d =
     (case sd_anim d of None \<Rightarrow> d | Some moves \<Rightarrow> d\<lparr>sd_tokens := move_tokens p moves (sd_tokens d)\<rparr>)"

definition anim_finished :: "schematic \<Rightarrow> schematic" where
  "anim_finished d = (if sd_anim d = None then d else d\<lparr>sd_anim := None, sd_tokens := hide_tokens (sd_tokens d)\<rparr>)"

section \<open>Operations\<close>

definition set_cycle_state :: "bool \<Rightarrow> pipeline_state \<Rightarrow> u32 list \<Rightarrow> schematic \<Rightarrow> schematic" where
  "set_cycle_state visible ps regs d =
     (let old = sd_state d; d = d\<lparr>sd_state := ps, sd_regs := regs\<rparr>
      in if \<not> visible then d\<lparr>sd_dirty := True\<rparr> else start_tokens old (apply_state d))"

definition schematic_show :: "schematic \<Rightarrow> schematic" where
  "schematic_show d = (if sd_dirty d then apply_state d else d)"

definition set_breakpoints :: "u32 set \<Rightarrow> schematic \<Rightarrow> schematic" where
  "set_breakpoints bps d = apply_state (d\<lparr>sd_breakpoints := bps\<rparr>)"

definition schematic_dark :: "bool \<Rightarrow> schematic \<Rightarrow> schematic" where
  "schematic_dark dark d = apply_theme (d\<lparr>sd_dark := dark\<rparr>)"

text \<open>The items as \<open>buildScene\<close> makes them; the tags in the scene get their colours from the theme.\<close>

definition wire_new :: wire_item where
  "wire_new = \<lparr>wi_rest = ''gray'', wi_lit = ''red'', wi_active = False\<rparr>"

definition blank_scene :: datapath_scene where
  "blank_scene = \<lparr>ds_background = [], ds_legend = [], ds_ring_pen = [], ds_columns = [], ds_cycle = ''Cycle 0'', ds_bars = [],
     ds_exmem = wire_new, ds_exmem_stub = wire_new, ds_memwb = wire_new, ds_memwb_stub = wire_new, ds_branch = wire_new,
     ds_writeback = wire_new, ds_dmem_pen = ([], 0), ds_regs_pen = ([], 0), ds_markers = [], ds_val_pc = [], ds_val_imm = [],
     ds_val_wb = [], ds_hazard = None\<rparr>"

definition schematic_init :: schematic where
  "schematic_init =
     apply_state (apply_theme
       \<lparr>sd_state = ps_init, sd_breakpoints = {}, sd_regs = replicate 32 0, sd_dark = False, sd_selected = 0, sd_dirty = False,
        sd_tips_dirty = True, sd_scene = blank_scene, sd_tips = \<lparr>dt_pc = [], dt_imem = [], dt_control = [], dt_regs = [],
        dt_alu = [], dt_dmem = []\<rparr>, sd_tokens = replicate 5 (False, 0), sd_anim = None, sd_focus = False, sd_ring = None\<rparr>)"

section \<open>Interaction\<close>

datatype schematic_signal = BreakpointToggleRequested u32 | StageDetailRequested nat u32 u32

text \<open>The column at a position of the scene, -1 when there is none.\<close>

definition stage_at :: "point \<Rightarrow> int" where
  "stage_at sp =
     (if snd sp < kColTop \<or> kColBot < snd sp then - 1
      else case find (\<lambda>i. fst (kColumns ! i) \<le> fst sp \<and> fst sp \<le> snd (kColumns ! i)) [0..<5] of
             Some i \<Rightarrow> int i
           | None \<Rightarrow> - 1)"

definition ring_rect :: "nat \<Rightarrow> rat \<times> rat \<times> rat \<times> rat" where
  "ring_rect i = (case kColumns ! i of (x0, x1) \<Rightarrow> (x0 - 3, kColTop - 3, (x1 - x0) + 6, (kColBot - kColTop) + 6))"

text \<open>\<open>focusInEvent\<close>: an event of its own, or called with a null event to move the ring.\<close>

definition place_ring :: "schematic \<Rightarrow> schematic" where
  "place_ring d = d\<lparr>sd_ring := Some (ring_rect (sd_selected d))\<rparr>"

definition focus_in :: "schematic \<Rightarrow> schematic" where
  "focus_in d = place_ring (d\<lparr>sd_focus := True\<rparr>)"

definition focus_out :: "schematic \<Rightarrow> schematic" where
  "focus_out d = d\<lparr>sd_focus := False, sd_ring := None\<rparr>"

text \<open>\<open>setFocus\<close> gives the focus when the window is active.\<close>

definition mouse_press :: "bool \<Rightarrow> point \<Rightarrow> schematic \<Rightarrow> schematic" where
  "mouse_press window_active pos d =
     (let d = (if window_active \<and> \<not> sd_focus d then focus_in d else d); idx = stage_at pos
      in if 0 \<le> idx then
           (let d = d\<lparr>sd_selected := nat idx\<rparr> in if sd_focus d then place_ring d else d)
         else d)"

definition stage_detail :: "schematic \<Rightarrow> nat \<Rightarrow> schematic_signal list" where
  "stage_detail d i =
     (let snap = ps_stages (sd_state d) ! i
      in if ss_valid snap then [StageDetailRequested i (ss_pc snap) (ss_raw snap)] else [])"

definition mouse_double_click :: "point \<Rightarrow> schematic \<Rightarrow> schematic_signal list" where
  "mouse_double_click pos d = (let idx = stage_at pos in if idx < 0 then [] else stage_detail d (nat idx))"

datatype menu_action = MenuSetBreakpoint | MenuClearBreakpoint | MenuDetail | MenuFit | MenuExport

definition context_menu :: "point \<Rightarrow> schematic \<Rightarrow> menu_action list" where
  "context_menu pos d =
     (let idx = stage_at pos; snap = ps_stages (sd_state d) ! nat idx
      in (if 0 \<le> idx \<and> ss_valid snap
          then [if ss_pc snap \<in> sd_breakpoints d then MenuClearBreakpoint else MenuSetBreakpoint, MenuDetail] else []) @
         [MenuFit, MenuExport])"

definition context_menu_event :: "point \<Rightarrow> menu_action option \<Rightarrow> schematic \<Rightarrow> schematic_signal list" where
  "context_menu_event pos chosen d =
     (let snap = ps_stages (sd_state d) ! nat (stage_at pos)
      in case chosen of
           None \<Rightarrow> []
         | Some act \<Rightarrow>
             if act \<notin> set (context_menu pos d) then []
             else case act of
                    MenuFit \<Rightarrow> []
                  | MenuExport \<Rightarrow> []
                  | MenuDetail \<Rightarrow> [StageDetailRequested (nat (stage_at pos)) (ss_pc snap) (ss_raw snap)]
                  | _ \<Rightarrow> [BreakpointToggleRequested (ss_pc snap)])"

datatype schematic_key = KeyLeft | KeyRight | KeyReturn | KeyEnter | KeySpace | KeyB | KeyOther

definition key_press :: "schematic_key \<Rightarrow> schematic \<Rightarrow> schematic_signal list \<times> schematic" where
  "key_press k d =
     (case k of
        KeyLeft \<Rightarrow> ([], place_ring (d\<lparr>sd_selected := (sd_selected d + 4) mod 5\<rparr>))
      | KeyRight \<Rightarrow> ([], place_ring (d\<lparr>sd_selected := (sd_selected d + 1) mod 5\<rparr>))
      | KeyReturn \<Rightarrow> (stage_detail d (sd_selected d), d)
      | KeyEnter \<Rightarrow> (stage_detail d (sd_selected d), d)
      | KeySpace \<Rightarrow> (let snap = ps_stages (sd_state d) ! sd_selected d
                    in (if ss_valid snap then [BreakpointToggleRequested (ss_pc snap)] else [], d))
      | KeyB \<Rightarrow> (let snap = ps_stages (sd_state d) ! sd_selected d
                in (if ss_valid snap then [BreakpointToggleRequested (ss_pc snap)] else [], d))
      | KeyOther \<Rightarrow> ([], d))"

text \<open>The states of a widget under any sequence of reports and events; keys come to the one with the focus.\<close>

inductive schematic_reach :: "schematic \<Rightarrow> bool" where
  init: "schematic_reach schematic_init"
| report: "schematic_reach d \<Longrightarrow> schematic_reach (set_cycle_state visible ps regs d)"
| bps: "schematic_reach d \<Longrightarrow> schematic_reach (set_breakpoints bps d)"
| theme: "schematic_reach d \<Longrightarrow> schematic_reach (schematic_dark dark d)"
| shown: "schematic_reach d \<Longrightarrow> schematic_reach (schematic_show d)"
| tooltip: "schematic_reach d \<Longrightarrow> schematic_reach (tooltip_event d)"
| anim: "schematic_reach d \<Longrightarrow> schematic_reach (anim_value p d)"
| finished: "schematic_reach d \<Longrightarrow> schematic_reach (anim_finished d)"
| gain: "schematic_reach d \<Longrightarrow> schematic_reach (focus_in d)"
| lose: "schematic_reach d \<Longrightarrow> schematic_reach (focus_out d)"
| press: "schematic_reach d \<Longrightarrow> schematic_reach (mouse_press window_active pos d)"
| key: "schematic_reach d \<Longrightarrow> sd_focus d \<Longrightarrow> key_press k d = (sg, d') \<Longrightarrow> schematic_reach d'"

section \<open>The scene is current\<close>

text \<open>The scene of a state and a theme, from new items.\<close>

definition current_scene :: "schematic \<Rightarrow> datapath_scene" where
  "current_scene d =
     draw_state (sd_dark d) (sd_breakpoints d) (sd_state d) (sd_regs d) (recolour (sd_dark d) blank_scene)"

lemma set_lit_eq: "set_lit on w = w\<lparr>wi_active := on\<rparr>"
  by (simp add: set_lit_def)

lemma recolour_draw: "recolour dark (draw_state dark' bps ps regs sn) = draw_state dark' bps ps regs (recolour dark sn)"
  by (simp add: recolour_def draw_state_def Let_def set_lit_eq set_colours_def)

lemma recolour_recolour: "recolour dark (recolour dark' sn) = recolour dark sn"
  by (simp add: recolour_def Let_def set_colours_def)

lemma draw_draw: "draw_state dark bps ps regs (draw_state dark' bps' ps' regs' sn) = draw_state dark bps ps regs sn"
  by (simp add: draw_state_def Let_def set_lit_eq)

text \<open>Every item is set by the theme or by the state.\<close>

lemma draw_recolour_any: "draw_state dark bps ps regs (recolour dark sn) = draw_state dark bps ps regs (recolour dark sn')"
  by (cases sn; cases sn') (simp add: recolour_def draw_state_def Let_def set_lit_eq set_colours_def)

definition schematic_ok :: "schematic \<Rightarrow> bool" where
  "schematic_ok d \<longleftrightarrow> recolour (sd_dark d) (sd_scene d) = sd_scene d
     \<and> (\<not> sd_dirty d \<longrightarrow> sd_scene d = current_scene d)
     \<and> (\<not> sd_dirty d \<and> \<not> sd_tips_dirty d \<longrightarrow> sd_tips d = make_tips (sd_state d) (sd_regs d))
     \<and> sd_selected d < 5 \<and> sd_ring d = (if sd_focus d then Some (ring_rect (sd_selected d)) else None)
     \<and> length (sd_tokens d) = 5"

lemma apply_state_ok:
  assumes "recolour (sd_dark d) (sd_scene d) = sd_scene d"
  shows "recolour (sd_dark d) (sd_scene (apply_state d)) = sd_scene (apply_state d)"
    "sd_scene (apply_state d) = current_scene (apply_state d)"
  using assms draw_recolour_any [of "sd_dark d" "sd_breakpoints d" "sd_state d" "sd_regs d" "sd_scene d" blank_scene]
  by (simp_all add: apply_state_def recolour_draw recolour_recolour current_scene_def)

lemma apply_state_sel [simp]:
  "sd_dark (apply_state d) = sd_dark d" "sd_state (apply_state d) = sd_state d" "sd_regs (apply_state d) = sd_regs d"
  "sd_selected (apply_state d) = sd_selected d" "sd_focus (apply_state d) = sd_focus d" "sd_ring (apply_state d) = sd_ring d"
  "sd_tokens (apply_state d) = sd_tokens d" "sd_tips_dirty (apply_state d)" "\<not> sd_dirty (apply_state d)"
  by (simp_all add: apply_state_def)

lemma apply_state_keeps:
  "recolour (sd_dark d) (sd_scene d) = sd_scene d \<Longrightarrow> sd_selected d < 5 \<Longrightarrow> length (sd_tokens d) = 5 \<Longrightarrow>
   sd_ring d = (if sd_focus d then Some (ring_rect (sd_selected d)) else None) \<Longrightarrow> schematic_ok (apply_state d)"
  using apply_state_ok [of d] by (simp add: schematic_ok_def)

lemma show_tokens_length [simp]: "length (show_tokens moves toks) = length toks"
  by (induction moves arbitrary: toks) (simp_all add: show_tokens_def split_beta)

lemma start_tokens_ok: "schematic_ok d \<Longrightarrow> schematic_ok (start_tokens old d)"
  by (simp add: schematic_ok_def start_tokens_def current_scene_def hide_tokens_def Let_def)

lemma stage_at_less: "stage_at pos < 5"
  by (auto simp: stage_at_def find_Some_iff split: option.split)

lemma move_tokens_length [simp]: "length (move_tokens p moves toks) = length toks"
  by (induction moves arbitrary: toks) (simp_all add: move_tokens_def split_beta)

lemma anim_value_ok: "schematic_ok d \<Longrightarrow> schematic_ok (anim_value p d)"
  by (auto simp: schematic_ok_def current_scene_def anim_value_def split: option.split)

lemma place_ring_ok:
  "schematic_ok d \<Longrightarrow> i < 5 \<Longrightarrow> schematic_ok ((place_ring (d\<lparr>sd_selected := i\<rparr>))\<lparr>sd_focus := True\<rparr>)"
  by (simp add: schematic_ok_def place_ring_def current_scene_def)

lemma mouse_press_ok:
  assumes "schematic_ok d"
  shows "schematic_ok (mouse_press window_active pos d)"
proof -
  have i: "nat (stage_at pos) < 5" using stage_at_less [of pos] by simp
  show ?thesis
    using assms i by (auto simp: mouse_press_def Let_def schematic_ok_def place_ring_def focus_in_def current_scene_def)
qed

lemma key_press_ok: "schematic_ok d \<Longrightarrow> sd_focus d \<Longrightarrow> key_press k d = (sg, d') \<Longrightarrow> schematic_ok d'"
  by (auto simp: key_press_def Let_def schematic_ok_def place_ring_def current_scene_def split: schematic_key.splits)

lemma schematic_init_ok: "schematic_ok schematic_init"
  unfolding schematic_init_def
  by (rule apply_state_keeps) (simp_all add: apply_theme_def apply_state_def recolour_draw recolour_recolour)

lemma set_cycle_state_ok:
  assumes "schematic_ok d"
  shows "schematic_ok (set_cycle_state visible ps regs d)"
proof -
  have "schematic_ok (apply_state (d\<lparr>sd_state := ps, sd_regs := regs\<rparr>))"
    using assms by (intro apply_state_keeps) (simp_all add: schematic_ok_def)
  moreover have "schematic_ok (d\<lparr>sd_state := ps, sd_regs := regs, sd_dirty := True\<rparr>)"
    using assms by (simp add: schematic_ok_def)
  ultimately show ?thesis using start_tokens_ok by (simp add: set_cycle_state_def Let_def)
qed

lemma schematic_show_ok: "schematic_ok d \<Longrightarrow> schematic_ok (schematic_show d)"
  using apply_state_keeps [of d] by (auto simp: schematic_show_def schematic_ok_def [of d])

lemma schematic_reach_ok: "schematic_reach d \<Longrightarrow> schematic_ok d"
proof (induction rule: schematic_reach.induct)
  case init
  show ?case by (rule schematic_init_ok)
next
  case (report d visible ps regs)
  then show ?case by (simp add: set_cycle_state_ok)
next
  case (bps d bps)
  then show ?case unfolding set_breakpoints_def by (intro apply_state_keeps) (simp_all add: schematic_ok_def)
next
  case (theme d dark)
  then show ?case
    unfolding schematic_dark_def apply_theme_def by (intro apply_state_keeps) (simp_all add: schematic_ok_def recolour_recolour)
next
  case (shown d)
  then show ?case by (simp add: schematic_show_ok)
next
  case (tooltip d)
  then show ?case by (simp add: schematic_ok_def tooltip_event_def update_tooltips_def current_scene_def)
next
  case (anim d p)
  then show ?case by (simp add: anim_value_ok)
next
  case (finished d)
  then show ?case by (simp add: schematic_ok_def anim_finished_def hide_tokens_def current_scene_def)
next
  case (gain d)
  then show ?case by (simp add: schematic_ok_def focus_in_def place_ring_def current_scene_def)
next
  case (lose d)
  then show ?case by (simp add: schematic_ok_def focus_out_def current_scene_def)
next
  case (press d window_active pos)
  then show ?case by (simp add: mouse_press_ok)
next
  case (key d k sg d')
  then show ?case by (simp add: key_press_ok)
qed

section \<open>A panel of the window\<close>

text \<open>What the view draws, and how.\<close>

definition drawn_data :: "schematic \<Rightarrow> bool \<times> u32 set \<times> pipeline_state \<times> u32 list" where
  "drawn_data d = (sd_dark d, sd_breakpoints d, sd_state d, sd_regs d)"

definition render_scene :: "bool \<times> u32 set \<times> pipeline_state \<times> u32 list \<Rightarrow> datapath_scene" where
  "render_scene m = (case m of (dark, bps, ps, regs) \<Rightarrow> draw_state dark bps ps regs (recolour dark blank_scene))"

lemma render_current: "schematic_ok d \<Longrightarrow> \<not> sd_dirty d \<Longrightarrow> sd_scene d = render_scene (drawn_data d)"
  by (simp add: schematic_ok_def current_scene_def render_scene_def drawn_data_def)

interpretation circuit: panel_view schematic_ok "\<lambda>visible r. set_cycle_state visible (fst r) (snd r)" schematic_show
  drawn_data "\<lambda>r (dark, bps, ps, regs). (dark, bps, fst r, snd r)" sd_scene render_scene
proof unfold_locales
  fix d :: schematic and r :: "pipeline_state \<times> u32 list" and v :: bool
  assume d: "schematic_ok d"
  have ok: "schematic_ok (set_cycle_state w (fst r) (snd r) d)" for w by (rule set_cycle_state_ok [OF d])
  show "schematic_ok (set_cycle_state v (fst r) (snd r) d)" by (rule ok)
  show "drawn_data (set_cycle_state v (fst r) (snd r) d) = (case drawn_data d of (dark, bps, ps, regs) \<Rightarrow> (dark, bps, fst r, snd r))"
    by (simp add: drawn_data_def set_cycle_state_def start_tokens_def apply_state_def Let_def)
  have "\<not> sd_dirty (set_cycle_state True (fst r) (snd r) d)" by (simp add: set_cycle_state_def start_tokens_def Let_def)
  then show "sd_scene (set_cycle_state True (fst r) (snd r) d) = render_scene (drawn_data (set_cycle_state True (fst r) (snd r) d))"
    by (rule render_current [OF ok])
  have "\<not> sd_dirty (schematic_show d')" "drawn_data (schematic_show d') = drawn_data d'" for d'
    by (auto simp: schematic_show_def drawn_data_def apply_state_def)
  then show "sd_scene (schematic_show (set_cycle_state False (fst r) (snd r) d)) = render_scene (drawn_data (set_cycle_state False (fst r) (snd r) d))"
    using render_current [OF schematic_show_ok [OF ok]] by metis
qed

section \<open>What a cycle of the processor looks like\<close>

lemma step_ps:
  "ps_stages (cpu_ps (snd (pl_step s))) ! 2 =
     snapshot ''EX'' (idex_valid (pl_id_ex s) \<and> idex_early_trap (pl_id_ex s) \<noteq> Some ExcAdEL) False False
       (idex_pc (pl_id_ex s)) (di_raw (idex_decoded (pl_id_ex s)))"
  "ps_stages (cpu_ps (snd (pl_step s))) ! 3 =
     snapshot ''MEM'' (exmem_valid (pl_ex_mem s)) False False (exmem_pc (pl_ex_mem s)) (exmem_raw (pl_ex_mem s))"
  "ps_branch_flush (cpu_ps (snd (pl_step s))) = cy_flush s" "ps_load_stall (cpu_ps (snd (pl_step s))) = cy_stall s"
  "ps_fwd_ex_to_ex_a (cpu_ps (snd (pl_step s))) = fwd_ex_mem_a (eo_forwarded (cy_ex s))"
  "ps_fwd_ex_to_ex_b (cpu_ps (snd (pl_step s))) = fwd_ex_mem_b (eo_forwarded (cy_ex s))"
  "ps_fwd_mem_to_ex_a (cpu_ps (snd (pl_step s))) = fwd_mem_wb_a (eo_forwarded (cy_ex s))"
  "ps_fwd_mem_to_ex_b (cpu_ps (snd (pl_step s))) = fwd_mem_wb_b (eo_forwarded (cy_ex s))"
  by (auto simp: pl_step_commit pl_commit_def Let_def split_beta cy_flush_def cy_trap_def split: option.split)

lemma wb_dest_fading:
  assumes "\<not> ss_stalled (ps_stages ps ! 4)" "\<not> ss_flushed (ps_stages ps ! 4)"
  shows "nat (wb_dest ps) = fading_register ps"
  using assms by (simp add: wb_dest_def fading_register_def stage_decoded_def Let_def split: option.split)

lemma step_wb_dest:
  assumes "pl_tagged s"
  shows "nat (wb_dest (cpu_ps (snd (pl_step s)))) = (if wb_writes (pl_mem_wb s) then unat (memwb_write_reg (pl_mem_wb s)) else 0)"
  using wb_dest_fading [of "cpu_ps (snd (pl_step s))"] fading_is_written [OF assms]
  by (simp add: step_snapshots snapshot_def)

lemma nat_positive: "nat i = (if b then n else 0) \<Longrightarrow> (b \<Longrightarrow> 0 < n) \<Longrightarrow> (0 < i \<longleftrightarrow> b) \<and> (b \<longrightarrow> i = int n)"
  by (auto split: if_splits)

text \<open>The write-back label of a cycle.\<close>

lemma step_wb_text:
  assumes "pl_tagged s" "regs_wf (cpu_regs s)" "s' = snd (pl_step s)"
  shows "wb_text (cpu_ps s') (map (\<lambda>k. regs_read (cpu_regs s') (of_nat k)) [0..<32]) =
    (if wb_writes (pl_mem_wb s)
     then ''$'' @ register_abi_name (memwb_write_reg (pl_mem_wb s)) @ '' = 0x'' @ hex_word (wb_value (pl_mem_wb s)) else [])"
proof (cases "wb_writes (pl_mem_wb s)")
  case True
  let ?r = "memwb_write_reg (pl_mem_wb s)"
  have r: "?r \<noteq> 0" using True by (simp add: wb_writes_def)
  have d: "0 < wb_dest (cpu_ps s') \<and> wb_dest (cpu_ps s') = int (unat ?r)"
    using nat_positive [OF step_wb_dest [OF assms(1)]] True r assms(3) by (simp add: unat_gt_0)
  have less: "unat ?r < 32" by (rule written_less [OF assms(1) True])
  have "regs_read (cpu_regs s') ?r = wb_value (pl_mem_wb s)"
    using regs_read_write [OF assms(2) less less] True r by (simp add: assms(3) pl_step_regs wb_regs_def)
  then show ?thesis using d True less by (simp add: wb_text_def)
next
  case False
  then have "\<not> 0 < wb_dest (cpu_ps s')" using step_wb_dest [OF assms(1)] assms(3) by simp
  then show ?thesis using False by (simp add: wb_text_def)
qed

lemma set_cycle_scene:
  "sd_scene (set_cycle_state True ps regs d) = draw_state (sd_dark d) (sd_breakpoints d) ps regs (sd_scene d)"
  by (simp add: set_cycle_state_def start_tokens_def apply_state_def Let_def)

section \<open>Properties\<close>

lemma token_moves_iff: "(\<exists>m \<in> set (token_moves old new). fst m = i) \<longleftrightarrow> i < 5 \<and> token_from old new i \<noteq> None"
  by (fastforce simp: token_moves_def List.map_filter_def)

lemma show_tokens_visible:
  "i < length toks \<Longrightarrow> fst (show_tokens moves toks ! i) \<longleftrightarrow> (\<exists>m \<in> set moves. fst m = i) \<or> fst (toks ! i)"
proof (induction moves arbitrary: toks)
  case (Cons m moves)
  have "show_tokens (m # moves) toks = show_tokens moves (toks[fst m := (True, fst (snd m))])"
    by (simp add: show_tokens_def split_beta)
  then show ?case using Cons.IH [of "toks[fst m := (True, fst (snd m))]"] Cons.prems
    by (cases "fst m = i") auto
qed (simp add: show_tokens_def)

text \<open>C35: The circuit view never shows an old state. After any sequence of reports, seen or hidden, of events of mouse, keyboard, focus, theme and animation, the scene of a view that has no redraw pending is the one its report, its breakpoints and its theme determine, from whatever it showed before; a tooltip that is not marked old is the one of this report; the selected column is one of the five and the ring is around it exactly while the view has the focus.\<close>

theorem schematic_current:
  assumes "schematic_reach d"
  shows "(\<not> sd_dirty d \<longrightarrow> sd_scene d = current_scene d)
    \<and> (\<not> sd_dirty d \<and> \<not> sd_tips_dirty d \<longrightarrow> sd_tips d = make_tips (sd_state d) (sd_regs d))
    \<and> sd_selected d < 5 \<and> sd_ring d = (if sd_focus d then Some (ring_rect (sd_selected d)) else None)"
  using schematic_reach_ok [OF assms] by (simp add: schematic_ok_def)

lemma schematic_current_witness:
  "sd_scene (schematic_show (set_cycle_state False (ps_init\<lparr>ps_cycle := 3\<rparr>) (replicate 32 7) schematic_init)) =
   current_scene (schematic_show (set_cycle_state False (ps_init\<lparr>ps_cycle := 3\<rparr>) (replicate 32 7) schematic_init))"
proof -
  let ?d = "schematic_show (set_cycle_state False (ps_init\<lparr>ps_cycle := 3\<rparr>) (replicate 32 7) schematic_init)"
  have "schematic_reach ?d" by (intro schematic_reach.intros)
  moreover have "\<not> sd_dirty ?d" by (simp add: schematic_show_def)
  ultimately show ?thesis using schematic_current [of ?d] by blast
qed

text \<open>C34: The circuit view shows what a cycle did. After the report of a cycle of the pipeline to a visible view the write-back label is the register and the value WB writes, and empty when it writes none; the write-back wire is lit whenever it writes; the dots of the two forwarding multiplexers are on the inputs the forwarding unit has chosen for the instruction in EX; and the view explains a hazard exactly in a cycle with a flush or a stall.\<close>

theorem schematic_shows_cycle:
  assumes "pl_tagged s" "regs_wf (cpu_regs s)" "s' = snd (pl_step s)"
    "sn = sd_scene (set_cycle_state True (cpu_ps s') (map (\<lambda>k. regs_read (cpu_regs s') (of_nat k)) [0..<32]) d)"
    "f = eo_forwarded (cy_ex s)"
  shows "ds_val_wb sn = (if wb_writes (pl_mem_wb s)
      then ''$'' @ register_abi_name (memwb_write_reg (pl_mem_wb s)) @ '' = 0x'' @ hex_word (wb_value (pl_mem_wb s)) else [])
    \<and> (wb_writes (pl_mem_wb s) \<longrightarrow> wi_active (ds_writeback sn))
    \<and> fst (ds_markers sn ! 1) = kFwdAMuxPorts ! (if fwd_ex_mem_a f then 1 else if fwd_mem_wb_a f then 2 else 0)
    \<and> fst (ds_markers sn ! 2) = kFwdBMuxPorts ! (if fwd_ex_mem_b f then 1 else if fwd_mem_wb_b f then 2 else 0)
    \<and> (ds_hazard sn \<noteq> None \<longleftrightarrow> cy_flush s \<or> cy_stall s)"
proof -
  have "wb_writes (pl_mem_wb s) \<longrightarrow> 0 \<le> wb_dest (cpu_ps s')"
    using nat_positive [OF step_wb_dest [OF assms(1)]] assms(3) by (auto simp: wb_writes_def unat_gt_0)
  then have "wb_writes (pl_mem_wb s) \<longrightarrow> wi_active (ds_writeback sn)"
    by (simp add: assms(4) set_cycle_scene draw_state_def set_lit_eq Let_def)
  moreover have "ds_val_wb sn = wb_text (cpu_ps s') (map (\<lambda>k. regs_read (cpu_regs s') (of_nat k)) [0..<32])"
    by (simp add: assms(4) set_cycle_scene draw_state_def Let_def)
  moreover have "ds_hazard sn = hazard_text (palette (sd_dark d)) (cpu_ps s')" "ds_markers sn = draw_markers (palette (sd_dark d)) (cpu_ps s')"
    by (simp_all add: assms(4) set_cycle_scene draw_state_def Let_def)
  ultimately show ?thesis
    unfolding step_wb_text [OF assms(1-3)]
    by (simp add: hazard_text_def draw_markers_def sel_a_def sel_b_def assms(3,5) step_ps)
qed

lemma schematic_shows_cycle_witness:
  "ds_val_wb (sd_scene (set_cycle_state True (cpu_ps (snd (pl_step (pl_create 16))))
     (map (\<lambda>k. regs_read (cpu_regs (snd (pl_step (pl_create 16)))) (of_nat k)) [0..<32]) schematic_init)) = []"
proof -
  have "pl_tagged (pl_create 16)" by (simp add: pl_tagged_def pl_create_def cpu.defs pl_cpu.defs)
  moreover have "regs_wf (cpu_regs (pl_create 16))" by (simp add: pl_create_def cpu.defs pl_cpu.defs sc_create_def)
  moreover have "\<not> wb_writes (pl_mem_wb (pl_create 16))"
    by (simp add: pl_create_def cpu.defs pl_cpu.defs wb_writes_def mem_wb_empty_def)
  ultimately show ?thesis
    using schematic_shows_cycle [OF _ _ refl refl refl, of "pl_create 16" schematic_init] by simp
qed


text \<open>An \<open>addi\<close> in MEM, and a branch in EX that is taken.\<close>

definition flush_example :: pl_cpu where
  "flush_example = (pl_create 16)\<lparr>cpu_cycle := 3, cpu_pc := 12,
     pl_ex_mem := ex_mem_empty\<lparr>exmem_valid := True, exmem_raw := 0x20080001, exmem_opcode := OpADDI,
       exmem_alu := \<lparr>alu_value = 1, alu_zero = False, alu_overflow = False, alu_negative = False\<rparr>,
       exmem_ctrl := derive_control (the (decode 0x20080001)), exmem_write_reg := 8\<rparr>,
     pl_id_ex := id_ex_empty\<lparr>idex_valid := True, idex_pc := 4, idex_pc4 := 8, idex_decoded := the (decode 0x1000FFFF),
       idex_ctrl := derive_control (the (decode 0x1000FFFF))\<rparr>\<rparr>"


text \<open>Tokens of an interrupted animation are left standing. When a report of the next cycle comes to a view, a token is visible afterwards exactly when its stage has received an instruction in this cycle or the token was visible before; when no stage has received one, no animation runs that would hide it.\<close>

theorem token_left_standing:
  assumes "schematic_reach d" "(of_nat (ps_cycle ps) :: u64) = of_nat (ps_cycle (sd_state d)) + 1" "i < 5"
    "d' = set_cycle_state True ps regs d"
  shows "(fst (sd_tokens d' ! i) \<longleftrightarrow> token_from (sd_state d) ps i \<noteq> None \<or> fst (sd_tokens d ! i))
    \<and> (sd_anim d' = None \<longleftrightarrow> (\<forall>k < 5. token_from (sd_state d) ps k = None))"
proof -
  have len: "length (sd_tokens d) = 5" using schematic_reach_ok [OF assms(1)] by (simp add: schematic_ok_def)
  have d': "sd_tokens d' = show_tokens (token_moves (sd_state d) ps) (sd_tokens d)"
    "sd_anim d' = (if token_moves (sd_state d) ps = [] then None else Some (token_moves (sd_state d) ps))"
    using assms(2,4) by (simp_all add: set_cycle_state_def start_tokens_def Let_def)
  have "token_moves (sd_state d) ps = [] \<longleftrightarrow> (\<forall>k < 5. token_from (sd_state d) ps k = None)"
    using token_moves_iff [of "sd_state d" ps] by (metis list.set_intros(1) neq_Nil_conv list.set(1) empty_iff)
  then show ?thesis
    using show_tokens_visible [of i "sd_tokens d"] assms(3) len token_moves_iff [of "sd_state d" ps i]
    by (simp add: d')
qed

lemma token_left_standing_witness:
  "fst (sd_tokens (set_cycle_state True (ps_init\<lparr>ps_cycle := 2\<rparr>) (replicate 32 0)
     (set_cycle_state True (ps_init\<lparr>ps_cycle := 1, ps_stages := (replicate 5 stage_empty)[0 := stage_empty\<lparr>ss_valid := True\<rparr>]\<rparr>)
       (replicate 32 0) schematic_init)) ! 0)"
proof -
  let ?ps = "ps_init\<lparr>ps_cycle := 1, ps_stages := (replicate 5 stage_empty)[0 := stage_empty\<lparr>ss_valid := True\<rparr>]\<rparr>"
  let ?d = "set_cycle_state True ?ps (replicate 32 0) schematic_init"
  have s0: "sd_state schematic_init = ps_init" by (simp add: schematic_init_def apply_theme_def apply_state_def)
  have "fst (sd_tokens ?d ! 0)"
    using token_left_standing [OF schematic_reach.init, of ?ps 0 ?d "replicate 32 0"]
    by (simp add: s0 ps_init_def token_from_def stage_empty_def numeral_nat)
  moreover have "schematic_reach ?d" by (intro schematic_reach.intros)
  moreover have "sd_state ?d = ?ps" by (simp add: set_cycle_state_def start_tokens_def Let_def)
  ultimately show ?thesis
    using token_left_standing [of ?d "ps_init\<lparr>ps_cycle := 2\<rparr>" 0 "set_cycle_state True (ps_init\<lparr>ps_cycle := 2\<rparr>) (replicate 32 0) ?d" "replicate 32 0"]
    by simp
qed

end
