(* ===== verification/QtSession.thy ===== *)
theory QtSession
  imports Controller Assembler ProgramLoader MemoryView TraceGrid SchematicView
begin

text \<open>
  The main window of the Qt front end (\<open>src/nsc_qt/main_window.cpp\<close>) over the pipelined processor: the
  controller, the panels it publishes to, the editor with its assembled words, the actions, the status
  bar and the preferences (\<open>src/nsc_qt/preferences_dialog.cpp\<close>). The signals of the controller are
  handled where they are emitted, in their order. The clock, the answers of the dialogs, the files and
  the catalogue of examples are parameters; no event is handled while a dialog is open. Left out:
  menus and docks, the global style sheet and palette.
\<close>

section \<open>State\<close>

record panels =
  pv_datapath :: bool
  pv_registers :: bool
  pv_memory :: bool
  pv_trace :: bool

text \<open>The labels of the statistics panel.\<close>

record stat_labels =
  sl_cycles :: string
  sl_instrs :: string
  sl_data_haz :: string
  sl_ctrl_haz :: string
  sl_fwd :: string
  sl_stalls :: string
  sl_flushes :: string

text \<open>The persistent settings, each with its default when it was never saved.\<close>

record settings =
  se_dark :: bool
  se_speed :: int
  se_font :: int
  se_aliases :: bool

datatype run_action = ActionRun | ActionPause

datatype cpi_band = BandNone | BandGood | BandWarning | BandBad

record main_window =
  mw_ctl :: "pl_cpu controller"
  mw_datapath :: schematic
  mw_regs :: reg_panel
  mw_memory :: memory_view
  mw_trace :: trace_grid
  mw_events :: event_log
  mw_visible :: panels
  mw_action :: run_action
  mw_source :: string
  mw_words :: "u32 list"
  mw_asm_style :: string
  mw_asm_text :: string
  mw_message :: string
  mw_banner :: string
  mw_banner_timers :: nat
  mw_cycles :: string
  mw_instrs :: string
  mw_cpi :: string
  mw_stats :: stat_labels
  mw_stat_cpi :: string
  mw_band :: cpi_band
  mw_cpi_style :: "string \<times> string"
  mw_boxes :: "string list"
  mw_slider :: int
  mw_font :: int
  mw_dark :: bool
  mw_settings :: settings

text \<open>The marks the messages begin with, in UTF-8.\<close>

definition check_mark :: string where
  "check_mark = [CHR 0xE2, CHR 0x9C, CHR 0x93]"

definition ballot_x :: string where
  "ballot_x = [CHR 0xE2, CHR 0x9C, CHR 0x97]"

definition warning_sign :: string where
  "warning_sign = [CHR 0xE2, CHR 0x9A, CHR 0xA0]"

definition kFontSizeBody :: int where
  "kFontSizeBody = 16"

section \<open>The signals of the controller\<close>

definition set_run_state :: "bool \<Rightarrow> main_window \<Rightarrow> main_window" where
  "set_run_state running w = w\<lparr>mw_action := (if running then ActionPause else ActionRun)\<rparr>"

definition show_message :: "string \<Rightarrow> main_window \<Rightarrow> main_window" where
  "show_message msg w = w\<lparr>mw_message := msg\<rparr>"

definition log_to :: "event_kind \<Rightarrow> u64 \<Rightarrow> string \<Rightarrow> main_window \<Rightarrow> main_window" where
  "log_to kind cycle msg w = w\<lparr>mw_events := log_event kind cycle msg (mw_events w)\<rparr>"

definition stop_controller :: "main_window \<Rightarrow> main_window" where
  "stop_controller w = w\<lparr>mw_ctl := ctl_stop (mw_ctl w)\<rparr>"

definition window_cycle :: "main_window \<Rightarrow> u64" where
  "window_cycle w = cycle_count pl_ops (mw_ctl w)"

definition window_memory :: "main_window \<Rightarrow> memory" where
  "window_memory w = cpu_mem (ct_cpu (mw_ctl w))"

definition on_cycle_executed :: "u64 \<Rightarrow> main_window \<Rightarrow> main_window" where
  "on_cycle_executed c w = w\<lparr>mw_cycles := ''Cycles: '' @ show_dec (unat c)\<rparr>"

definition reg_vals :: "main_window \<Rightarrow> u32 list" where
  "reg_vals w = map (\<lambda>i. register_value pl_ops (mw_ctl w) (of_nat i)) [0..<32]"

definition on_pipeline_state_changed :: "int \<Rightarrow> pipeline_state \<Rightarrow> main_window \<Rightarrow> main_window" where
  "on_pipeline_state_changed now ps w =
     (let vals = reg_vals w; vis = mw_visible w
      in w\<lparr>mw_datapath := set_cycle_state (pv_datapath vis) ps vals (mw_datapath w),
           mw_regs := panel_update (pv_registers vis) now ps vals (mw_regs w),
           mw_trace := grid_update (pv_trace vis) ps (mw_trace w),
           mw_events := events_update ps (mw_events w),
           mw_memory := (if pv_memory vis then update_display (window_memory w) (mw_memory w) else mw_memory w)\<rparr>)"

subsection \<open>Cycles per instruction\<close>

text \<open>
  The nearest double of a number that is 0 or between \<open>2 ^ -64\<close> and \<open>2 ^ 64\<close>, the even one of two
  equally near: a multiple of \<open>2 ^ e\<close> with at most 53 bits.
\<close>

definition double_exp :: "rat \<Rightarrow> int" where
  "double_exp x = (case find (\<lambda>e. x < 2 powi (e + 53)) [-117..12] of Some e \<Rightarrow> e | None \<Rightarrow> 12)"

definition round_half_even :: "rat \<Rightarrow> int" where
  "round_half_even x =
     (let n = \<lfloor>x\<rfloor>; r = x - of_int n in if r < 1 / 2 \<or> (r = 1 / 2 \<and> even n) then n else n + 1)"

definition double_of :: "rat \<Rightarrow> rat" where
  "double_of x = (if x = 0 then 0 else let e = double_exp x in of_int (round_half_even (x / 2 powi e)) * 2 powi e)"

definition cpi :: "sim_stats \<Rightarrow> rat" where
  "cpi st = (if 0 < st_retired st
     then double_of (double_of (of_int (uint (st_cycles st))) / double_of (of_int (uint (st_retired st)))) else 0)"

text \<open>Two decimals.\<close>

definition number_f2 :: "rat \<Rightarrow> string" where
  "number_f2 x = (let n = \<lfloor>100 * x + 1 / 2\<rfloor> in show_dec (nat (n div 100)) @ ''.'' @ pad_zero 2 (show_dec (nat (n mod 100))))"

definition band_of :: "rat \<Rightarrow> cpi_band" where
  "band_of c = (if c \<le> 0 then BandNone else if 2 \<le> c then BandBad else if 3 / 2 \<le> c then BandWarning else BandGood)"

text \<open>The style of the value and of its card.\<close>

definition cpi_style :: "bool \<Rightarrow> cpi_band \<Rightarrow> string \<times> string" where
  "cpi_style dark band =
     (let styles = (\<lambda>text_colour bg border.
            (''color: '' @ text_colour @ ''; font-weight: bold;'',
             ''QFrame#statCard { background: '' @ bg @ ''; border: 1px solid '' @ border @ ''; border-radius: 6px; }''))
      in case band of
           BandNone \<Rightarrow> ([], [])
         | BandBad \<Rightarrow> if dark then styles ''#F44336'' ''#3D1515'' ''#7C2020'' else styles ''#F44336'' ''#FFEBEE'' ''#EF9A9A''
         | BandWarning \<Rightarrow> if dark then styles ''#FF9800'' ''#3D2D10'' ''#7C5810'' else styles ''#FF9800'' ''#FFF3E0'' ''#FFCC80''
         | BandGood \<Rightarrow> if dark then styles ''#4CAF50'' ''#152D15'' ''#1E7C1E'' else styles ''#4CAF50'' ''#E8F5E9'' ''#A5D6A7'')"

definition apply_cpi_style :: "main_window \<Rightarrow> main_window" where
  "apply_cpi_style w = w\<lparr>mw_cpi_style := cpi_style (mw_dark w) (mw_band w)\<rparr>"

text \<open>The card is restyled only when the band changes.\<close>

definition on_statistics_updated :: "sim_stats \<Rightarrow> main_window \<Rightarrow> main_window" where
  "on_statistics_updated st w =
     (let num = (\<lambda>n :: u64. show_dec (unat n)); c = cpi st; band = band_of c;
          w = w\<lparr>mw_instrs := ''Instructions: '' @ num (st_retired st),
                mw_cpi := ''CPI: '' @ (if 0 < c then number_f2 c else em_dash),
                mw_stat_cpi := (if 0 < c then number_f2 c else em_dash)\<rparr>;
          w = (if band \<noteq> mw_band w then apply_cpi_style (w\<lparr>mw_band := band\<rparr>) else w)
      in w\<lparr>mw_stats := \<lparr>sl_cycles = num (st_cycles st), sl_instrs = num (st_retired st), sl_data_haz = num (st_data_hazards st),
             sl_ctrl_haz = num (st_control_hazards st), sl_fwd = num (st_forwards st), sl_stalls = num (st_stalls st),
             sl_flushes = num (st_flushes st)\<rparr>\<rparr>)"

subsection \<open>Messages and the end of a run\<close>

text \<open>Every banner starts a timer of its own that takes the colours away.\<close>

definition flash_status_banner :: "bool \<Rightarrow> string \<Rightarrow> main_window \<Rightarrow> main_window" where
  "flash_status_banner success msg w =
     show_message msg (w\<lparr>mw_banner := (if success then ''#2E7D32'' else ''#C62828''),
       mw_banner_timers := Suc (mw_banner_timers w)\<rparr>)"

definition banner_timeout :: "main_window \<Rightarrow> main_window" where
  "banner_timeout w = (case mw_banner_timers w of
     0 \<Rightarrow> w | Suc n \<Rightarrow> w\<lparr>mw_banner := [], mw_banner_timers := n\<rparr>)"

definition on_halted :: "main_window \<Rightarrow> main_window" where
  "on_halted w =
     (let w = set_run_state False (stop_controller w);
          w = log_to EvSuccess (window_cycle w) ''program halted (spin-loop detected)'' w
      in flash_status_banner True (check_mark @ '' Program halted (spin-loop detected).'') w)"

definition on_faulted :: "main_window \<Rightarrow> main_window" where
  "on_faulted w =
     (let w = set_run_state False (stop_controller w);
          w = log_to EvError (window_cycle w) ''processor fault'' w
      in flash_status_banner False (ballot_x @ '' Processor fault '' @ em_dash @ '' check your program.'') w)"

definition on_exception_raised :: "u32 \<Rightarrow> string \<Rightarrow> main_window \<Rightarrow> main_window" where
  "on_exception_raised epc name w =
     (let w = set_run_state False (stop_controller w); at_epc = ''0x'' @ hex_word epc;
          w = log_to EvError (window_cycle w)
            (''exception '' @ name @ '' at '' @ at_epc @ '' '' @ em_dash @ '' PC now at the exception vector'') w
      in flash_status_banner False
           (warning_sign @ '' Exception '' @ name @ '' raised by the instruction at '' @ at_epc @ '' (see CP0 EPC).'') w)"

definition on_breakpoint_hit :: "u32 \<Rightarrow> main_window \<Rightarrow> main_window" where
  "on_breakpoint_hit pc w =
     (let w = show_message (''Breakpoint hit at 0x'' @ hex_word pc) w;
          w = log_to EvInfo (window_cycle w) (''breakpoint hit at 0x'' @ hex_word pc) w
      in set_run_state False w)"

text \<open>\<open>programLoaded\<close> is not connected.\<close>

definition on_signal :: "int \<Rightarrow> ctl_signal \<Rightarrow> main_window \<Rightarrow> main_window" where
  "on_signal now sg w =
     (case sg of
        CycleExecuted c \<Rightarrow> on_cycle_executed c w
      | PipelineStateChanged ps \<Rightarrow> on_pipeline_state_changed now ps w
      | StatisticsUpdated st \<Rightarrow> on_statistics_updated st w
      | Halted \<Rightarrow> on_halted w
      | Faulted \<Rightarrow> on_faulted w
      | ExceptionRaised epc name \<Rightarrow> on_exception_raised epc name w
      | BreakpointHit pc \<Rightarrow> on_breakpoint_hit pc w
      | ProgramLoaded n \<Rightarrow> w)"

definition deliver :: "int \<Rightarrow> ctl_signal list \<times> pl_cpu controller \<Rightarrow> main_window \<Rightarrow> main_window" where
  "deliver now r w = (case r of (sgs, k) \<Rightarrow> fold (on_signal now) sgs (w\<lparr>mw_ctl := k\<rparr>))"

text \<open>A timeout of the run timer.\<close>

definition timer_tick :: "int \<Rightarrow> main_window \<Rightarrow> main_window" where
  "timer_tick now w = deliver now (on_run_timer (Some cpu_cp0) pl_ops (mw_ctl w)) w"

section \<open>Actions\<close>

definition on_step :: "int \<Rightarrow> main_window \<Rightarrow> main_window" where
  "on_step now w =
     (let w = set_run_state False (stop_controller w) in deliver now (step_cycle (Some cpu_cp0) pl_ops (mw_ctl w)) w)"

definition on_run_pause :: "main_window \<Rightarrow> main_window" where
  "on_run_pause w =
     (if is_running (mw_ctl w) then set_run_state False (stop_controller w)
      else set_run_state True (w\<lparr>mw_ctl := ctl_run (mw_ctl w)\<rparr>))"

definition on_stop :: "main_window \<Rightarrow> main_window" where
  "on_stop w = set_run_state False (stop_controller w)"

text \<open>\<open>None\<close> when the processor is called against its precondition.\<close>

definition on_reset :: "int \<Rightarrow> main_window \<Rightarrow> main_window option" where
  "on_reset now w =
     (let w = set_run_state False (stop_controller w)
      in map_option (\<lambda>r.
           let w = deliver now r w
           in show_message ''Reset.''
                (w\<lparr>mw_regs := panel_clear now (mw_regs w), mw_trace := grid_clear (mw_trace w),
                   mw_events := events_clear (mw_events w)\<rparr>))
         (ctl_reset pl_ops (mw_ctl w)))"

text \<open>\<open>loadProgram\<close> at address 0, with its result.\<close>

definition load_words_here :: "int \<Rightarrow> u32 list \<Rightarrow> main_window \<Rightarrow> (bool \<times> main_window) option" where
  "load_words_here now ws w =
     map_option (\<lambda>(ok, sgs, k). (ok, deliver now (sgs, k) w)) (ctl_load_program pl_ops ws 0 (mw_ctl w))"

definition message_box :: "string \<Rightarrow> main_window \<Rightarrow> main_window" where
  "message_box msg w = w\<lparr>mw_boxes := mw_boxes w @ [msg]\<rparr>"

text \<open>The first parameter is the answer to the question.\<close>

definition confirm_discard_current_run :: "bool \<Rightarrow> main_window \<Rightarrow> bool \<times> main_window" where
  "confirm_discard_current_run yes w =
     (if window_cycle w = 0 then (True, w)
      else (yes, message_box (''Loading this program will discard the current simulation progress ('' @
              show_dec (unat (window_cycle w)) @ '' cycles executed). Continue?'') w))"

definition on_open_file :: "(string \<Rightarrow> string option) \<Rightarrow> string \<Rightarrow> bool \<Rightarrow> int \<Rightarrow> main_window \<Rightarrow> main_window option" where
  "on_open_file open_file path yes now w =
     (if path = [] then Some w
      else let prog = load_hex_file open_file path
        in if \<not> hp_ok prog
           then Some (message_box (case hp_error prog of Some e \<Rightarrow> e | None \<Rightarrow> ''unknown error'') w)
           else case confirm_discard_current_run yes w of
                  (False, w) \<Rightarrow> Some w
                | (True, w) \<Rightarrow>
                    (case on_reset now w of
                       None \<Rightarrow> None
                     | Some w \<Rightarrow>
                         map_option (\<lambda>(ok, w).
                           let n = show_dec (length (hp_words prog))
                           in if \<not> ok then message_box ''Program too large for memory.'' w
                              else log_to EvInfo 0 (''program loaded from file ('' @ n @ '' instructions)'')
                                     (show_message (''Loaded '' @ n @ '' instructions from '' @ path) w))
                         (load_words_here now (hp_words prog) w)))"

definition set_asm_status :: "string \<Rightarrow> string \<Rightarrow> main_window \<Rightarrow> main_window" where
  "set_asm_status style msg w = w\<lparr>mw_asm_style := style, mw_asm_text := msg\<rparr>"

definition on_save_trace :: "string \<Rightarrow> main_window \<Rightarrow> main_window" where
  "on_save_trace path w = (if path = [] then w else message_box ''Trace export not yet implemented for this build.'' w)"

definition on_assemble :: "main_window \<Rightarrow> main_window" where
  "on_assemble w =
     (if mw_source w = [] then w\<lparr>mw_asm_text := ''No source to assemble.''\<rparr>
      else let result = assemble (mw_source w)
        in case ar_error result of
             Some e \<Rightarrow> (set_asm_status ''color: red;'' e w)\<lparr>mw_words := []\<rparr>
           | None \<Rightarrow> set_asm_status ''color: green;''
               (check_mark @ '' '' @ show_dec (length (ar_words result)) @ '' instructions assembled'')
               (w\<lparr>mw_words := ar_words result\<rparr>))"

definition on_load :: "bool \<Rightarrow> int \<Rightarrow> main_window \<Rightarrow> main_window option" where
  "on_load yes now w =
     (if mw_words w = [] then Some (set_asm_status ''color: orange;'' ''Assemble first.'' w)
      else case confirm_discard_current_run yes w of
             (False, w) \<Rightarrow> Some w
           | (True, w) \<Rightarrow>
               (case on_reset now w of
                  None \<Rightarrow> None
                | Some w \<Rightarrow>
                    map_option (\<lambda>(ok, w).
                      let n = show_dec (length (mw_words w))
                      in if \<not> ok then set_asm_status ''color: red;'' ''Program too large for memory.'' w
                         else log_to EvInfo 0 (''program loaded ('' @ n @ '' instructions)'')
                                (set_asm_status ''color: green;'' (check_mark @ '' '' @ n @ '' instructions loaded'') w))
                    (load_words_here now (mw_words w) w)))"

text \<open>\<open>QString::trimmed\<close>, for ASCII text.\<close>

definition blank_text :: "string \<Rightarrow> bool" where
  "blank_text s \<longleftrightarrow> list_all is_space s"

definition on_example_selected :: "(string \<times> string) list \<Rightarrow> int \<Rightarrow> bool \<Rightarrow> main_window \<Rightarrow> main_window" where
  "on_example_selected catalog idx yes w =
     (if idx \<le> 0 then w
      else let ex = catalog ! nat (idx - 1); asks = \<not> blank_text (mw_source w);
               w = (if asks then message_box (''Loading \"'' @ fst ex @
                      ''\" will replace the code currently in the editor. Continue?'') w else w)
        in if asks \<and> \<not> yes then w
           else set_asm_status [] (''Loaded example: '' @ fst ex) (w\<lparr>mw_source := snd ex, mw_words := []\<rparr>))"

definition edit_source :: "string \<Rightarrow> main_window \<Rightarrow> main_window" where
  "edit_source s w = w\<lparr>mw_source := s\<rparr>"

definition on_breakpoint_toggle :: "u32 \<Rightarrow> main_window \<Rightarrow> main_window" where
  "on_breakpoint_toggle pc w =
     (let w = (if has_breakpoint (mw_ctl w) pc
               then show_message (''Breakpoint cleared at 0x'' @ hex_word pc) (w\<lparr>mw_ctl := clear_breakpoint pc (mw_ctl w)\<rparr>)
               else show_message (''Breakpoint set at 0x'' @ hex_word pc) (w\<lparr>mw_ctl := set_breakpoint pc (mw_ctl w)\<rparr>))
      in w\<lparr>mw_datapath := set_breakpoints (ct_breakpoints (mw_ctl w)) (mw_datapath w)\<rparr>)"

text \<open>The rows of the dialog with the details of a stage, its title first.\<close>

definition detail_register :: "main_window \<Rightarrow> u8 \<Rightarrow> string" where
  "detail_register w i =
     ''$'' @ show_dec (unat i) @ '' ('' @ register_abi_name i @ '') = 0x'' @ hex_word (register_value pl_ops (mw_ctl w) i)"

definition stage_detail_rows :: "main_window \<Rightarrow> nat \<Rightarrow> u32 \<Rightarrow> u32 \<Rightarrow> (string \<times> string) list" where
  "stage_detail_rows w idx pc raw =
     [(''Stage Detail '' @ em_dash @ '' '' @ (if idx < 5 then [''IF'', ''ID'', ''EX'', ''MEM'', ''WB''] ! idx else ''?''), []),
      (''PC:'', map to_upper (''0x'' @ hex_word pc)), (''Raw word:'', map to_upper (''0x'' @ hex_word raw))] @
     (case decode raw of
        None \<Rightarrow> [(''Decode:'', ''(unknown instruction)'')]
      | Some d \<Rightarrow>
          (''Mnemonic:'', mnemonic d) #
          (if di_format d = FmtR then
             [(''$rs:'', detail_register w (r_rs (get_r d))), (''$rt:'', detail_register w (r_rt (get_r d))),
              (''$rd:'', detail_register w (r_rd (get_r d)))]
           else if di_format d = FmtI then
             [(''$rs:'', detail_register w (i_rs (get_i d))),
              (''imm:'', ''0x'' @ pad_zero 4 (show_base False 16 (unat (i_imm (get_i d)))) @ '' ('' @
                show_int (sint (i_imm (get_i d))) @ '')'')]
           else []))"

definition on_schematic_signal :: "schematic_signal \<Rightarrow> main_window \<Rightarrow> main_window" where
  "on_schematic_signal sg w =
     (case sg of
        BreakpointToggleRequested pc \<Rightarrow> on_breakpoint_toggle pc w
      | StageDetailRequested idx pc raw \<Rightarrow>
          message_box (concat (map (\<lambda>(key, val). key @ '' '' @ val @ [CHR 0x0A]) (stage_detail_rows w idx pc raw))) w)"

section \<open>Settings\<close>

definition clamp :: "int \<Rightarrow> int \<Rightarrow> int \<Rightarrow> int" where
  "clamp lo hi v = max lo (min hi v)"

text \<open>The speed slider of the tool bar: moved by the user or set by the preferences.\<close>

definition slider_set :: "int \<Rightarrow> main_window \<Rightarrow> main_window" where
  "slider_set v w =
     (let v = clamp 0 100 v
      in if v = mw_slider w then w
         else w\<lparr>mw_slider := v, mw_ctl := set_execution_speed v (mw_ctl w), mw_settings := (mw_settings w)\<lparr>se_speed := v\<rparr>\<rparr>)"

text \<open>The part of \<open>applyColorScheme\<close> that reaches the panels.\<close>

definition apply_color_scheme :: "int \<Rightarrow> bool \<Rightarrow> main_window \<Rightarrow> main_window" where
  "apply_color_scheme now dark w =
     (apply_cpi_style (w\<lparr>mw_dark := dark\<rparr>))\<lparr>mw_datapath := schematic_dark dark (mw_datapath w), mw_regs := panel_dark now dark (mw_regs w),
       mw_trace := grid_dark dark (mw_trace w), mw_events := events_dark dark (mw_events w)\<rparr>"

text \<open>The controls of the dialog: what it loads from the settings, and what it saves and announces.\<close>

definition load_settings :: "settings \<Rightarrow> settings" where
  "load_settings se = se\<lparr>se_speed := clamp 0 100 (se_speed se), se_font := clamp 8 24 (se_font se)\<rparr>"

definition save_settings :: "settings \<Rightarrow> main_window \<Rightarrow> main_window" where
  "save_settings pd w = w\<lparr>mw_settings := pd\<rparr>"

text \<open>The connections of the dialog, for the changes it announces.\<close>

definition preferences_changed :: "int \<Rightarrow> settings \<Rightarrow> main_window \<Rightarrow> main_window" where
  "preferences_changed now pd w =
     (let w = apply_color_scheme now (se_dark pd) w;
          w = slider_set (se_speed pd) (w\<lparr>mw_ctl := set_execution_speed (se_speed pd) (mw_ctl w)\<rparr>);
          w = w\<lparr>mw_font := se_font pd\<rparr>
      in w\<lparr>mw_regs := set_show_aliases now (se_aliases pd) (mw_regs w)\<rparr>)"

definition accept_preferences :: "int \<Rightarrow> settings \<Rightarrow> main_window \<Rightarrow> main_window" where
  "accept_preferences now pd w = preferences_changed now pd (save_settings pd w)"

section \<open>The panels shown and hidden\<close>

datatype panel = PanelDatapath | PanelRegisters | PanelMemory | PanelTrace

definition panel_visible :: "panel \<Rightarrow> bool \<Rightarrow> panels \<Rightarrow> panels" where
  "panel_visible p v vis =
     (case p of
        PanelDatapath \<Rightarrow> vis\<lparr>pv_datapath := v\<rparr>
      | PanelRegisters \<Rightarrow> vis\<lparr>pv_registers := v\<rparr>
      | PanelMemory \<Rightarrow> vis\<lparr>pv_memory := v\<rparr>
      | PanelTrace \<Rightarrow> vis\<lparr>pv_trace := v\<rparr>)"

definition show_panel :: "int \<Rightarrow> panel \<Rightarrow> main_window \<Rightarrow> main_window" where
  "show_panel now p w =
     (let w = w\<lparr>mw_visible := panel_visible p True (mw_visible w)\<rparr>
      in case p of
           PanelDatapath \<Rightarrow> w\<lparr>mw_datapath := schematic_show (mw_datapath w)\<rparr>
         | PanelRegisters \<Rightarrow> w\<lparr>mw_regs := panel_show now (mw_regs w)\<rparr>
         | PanelMemory \<Rightarrow> w\<lparr>mw_memory := update_display (window_memory w) (mw_memory w)\<rparr>
         | PanelTrace \<Rightarrow> w\<lparr>mw_trace := grid_show (mw_trace w)\<rparr>)"

definition hide_panel :: "panel \<Rightarrow> main_window \<Rightarrow> main_window" where
  "hide_panel p w = w\<lparr>mw_visible := panel_visible p False (mw_visible w)\<rparr>"

section \<open>Start\<close>

text \<open>
  The constructor. The source is the first example when no layout was saved, empty otherwise; the
  memory has the default size of the processor.
\<close>

definition window_init :: "int \<Rightarrow> nat \<Rightarrow> settings \<Rightarrow> panels \<Rightarrow> string \<Rightarrow> main_window" where
  "window_init now mem_bytes se vis source =
     (let w = \<lparr>mw_ctl = ctl_create (pl_create mem_bytes), mw_datapath = schematic_init, mw_regs = panel_init now,
          mw_memory = memory_view_init, mw_trace = grid_init, mw_events = event_log_init, mw_visible = vis, mw_action = ActionRun,
          mw_source = source, mw_words = [], mw_asm_style = [], mw_asm_text = [],
          mw_message = ''Ready '' @ em_dash @ '' load a program or click Assemble to get started'',
          mw_banner = [], mw_banner_timers = 0, mw_cycles = ''Cycles: 0'', mw_instrs = ''Instructions: 0'',
          mw_cpi = ''CPI: '' @ em_dash,
          mw_stats = \<lparr>sl_cycles = em_dash, sl_instrs = em_dash, sl_data_haz = em_dash, sl_ctrl_haz = em_dash, sl_fwd = em_dash,
            sl_stalls = em_dash, sl_flushes = em_dash\<rparr>,
          mw_stat_cpi = em_dash, mw_band = BandNone, mw_cpi_style = ([], []), mw_boxes = [], mw_slider = clamp 0 100 (se_speed se), mw_font = kFontSizeBody, mw_dark = False, mw_settings = se\<rparr>;
          w = apply_color_scheme now (se_dark se) w
      in w\<lparr>mw_ctl := set_execution_speed (se_speed se) (mw_ctl w)\<rparr>)"

section \<open>The states of a window\<close>

text \<open>
  Everything that can happen: the timer, the actions, the editor, the settings, panels shown and
  hidden, the end of a message, a banner, a fade or an animation, and the events of the circuit view.
\<close>

inductive window_reach :: "main_window \<Rightarrow> bool" where
  init: "window_reach (window_init now mem_bytes se vis source)"
| tick: "window_reach w \<Longrightarrow> window_reach (timer_tick now w)"
| step: "window_reach w \<Longrightarrow> window_reach (on_step now w)"
| run_pause: "window_reach w \<Longrightarrow> window_reach (on_run_pause w)"
| stop: "window_reach w \<Longrightarrow> window_reach (on_stop w)"
| reset: "window_reach w \<Longrightarrow> on_reset now w = Some w' \<Longrightarrow> window_reach w'"
| open_file: "window_reach w \<Longrightarrow> on_open_file open_file path yes now w = Some w' \<Longrightarrow> window_reach w'"
| save_trace: "window_reach w \<Longrightarrow> window_reach (on_save_trace path w)"
| assembled: "window_reach w \<Longrightarrow> window_reach (on_assemble w)"
| load: "window_reach w \<Longrightarrow> on_load yes now w = Some w' \<Longrightarrow> window_reach w'"
| example: "window_reach w \<Longrightarrow> window_reach (on_example_selected catalog idx yes w)"
| edit: "window_reach w \<Longrightarrow> window_reach (edit_source src w)"
| slider: "window_reach w \<Longrightarrow> window_reach (slider_set v w)"
| prefs: "window_reach w \<Longrightarrow> window_reach (accept_preferences now (load_settings pd) w)"
| shown: "window_reach w \<Longrightarrow> window_reach (show_panel now p w)"
| hidden: "window_reach w \<Longrightarrow> window_reach (hide_panel p w)"
| message_end: "window_reach w \<Longrightarrow> window_reach (show_message [] w)"
| banner_end: "window_reach w \<Longrightarrow> window_reach (banner_timeout w)"
| fade: "window_reach w \<Longrightarrow> window_reach (w\<lparr>mw_regs := fade_tick now (mw_regs w)\<rparr>)"
| tooltip: "window_reach w \<Longrightarrow> window_reach (w\<lparr>mw_datapath := tooltip_event (mw_datapath w)\<rparr>)"
| anim: "window_reach w \<Longrightarrow> window_reach (w\<lparr>mw_datapath := anim_value a (mw_datapath w)\<rparr>)"
| anim_end: "window_reach w \<Longrightarrow> window_reach (w\<lparr>mw_datapath := anim_finished (mw_datapath w)\<rparr>)"
| focus: "window_reach w \<Longrightarrow> window_reach (w\<lparr>mw_datapath := focus_in (mw_datapath w)\<rparr>)"
| unfocus: "window_reach w \<Longrightarrow> window_reach (w\<lparr>mw_datapath := focus_out (mw_datapath w)\<rparr>)"
| press: "window_reach w \<Longrightarrow> window_reach (w\<lparr>mw_datapath := mouse_press window_active pos (mw_datapath w)\<rparr>)"
| double_click: "window_reach w \<Longrightarrow>
    window_reach (fold on_schematic_signal (mouse_double_click pos (mw_datapath w)) w)"
| menu: "window_reach w \<Longrightarrow>
    window_reach (fold on_schematic_signal (context_menu_event pos chosen (mw_datapath w)) w)"
| key: "window_reach w \<Longrightarrow> sd_focus (mw_datapath w) \<Longrightarrow> key_press k (mw_datapath w) = (sg, d) \<Longrightarrow>
    window_reach (fold on_schematic_signal sg (w\<lparr>mw_datapath := d\<rparr>))"

section \<open>The invariant\<close>

text \<open>Of the processor and the controller.\<close>

definition machine_ok :: "pl_cpu controller \<Rightarrow> bool" where
  "machine_ok k \<longleftrightarrow> pl_tagged (ct_cpu k) \<and> regs_wf (cpu_regs (ct_cpu k)) \<and> stats_ok pl_ops k
     \<and> (\<forall>p. ct_loaded k = Some p \<longrightarrow> lp_addr p = 0)"

text \<open>Of the panels: each well formed, in the theme of the window, with the breakpoints of the controller.\<close>

definition panels_ok :: "main_window \<Rightarrow> bool" where
  "panels_ok w \<longleftrightarrow> schematic_reach (mw_datapath w) \<and> grid_reach (mw_trace w) \<and> length (rp_cells (mw_regs w)) = 32
     \<and> sd_breakpoints (mw_datapath w) = ct_breakpoints (mw_ctl w)
     \<and> sd_dark (mw_datapath w) = mw_dark w \<and> rp_dark (mw_regs w) = mw_dark w \<and> tg_dark (mw_trace w) = mw_dark w
     \<and> el_dark (mw_events w) = mw_dark w \<and> mw_cpi_style w = cpi_style (mw_dark w) (mw_band w)"

text \<open>The Run/Pause action and the slider say what the controller does.\<close>

definition controls_ok :: "main_window \<Rightarrow> bool" where
  "controls_ok w \<longleftrightarrow> (mw_action w = ActionPause \<longleftrightarrow> ct_active (mw_ctl w))
     \<and> 0 \<le> mw_slider w \<and> mw_slider w \<le> 100 \<and> ct_interval (mw_ctl w) = (100 - mw_slider w) * 5"

text \<open>The words waiting to be loaded were assembled.\<close>

definition words_ok :: "main_window \<Rightarrow> bool" where
  "words_ok w \<longleftrightarrow> mw_words w = [] \<or> (\<exists>src. assemble src = \<lparr>ar_words = mw_words w, ar_error = None\<rparr>)"

definition window_ok :: "main_window \<Rightarrow> bool" where
  "window_ok w \<longleftrightarrow> machine_ok (mw_ctl w) \<and> panels_ok w \<and> controls_ok w \<and> words_ok w"

lemma machine_cong:
  assumes "ct_cpu k' = ct_cpu k" "ct_stats k' = ct_stats k" "ct_loaded k' = ct_loaded k"
  shows "machine_ok k' = machine_ok k"
  using assms by (simp add: machine_ok_def stats_ok_def)

lemma machine_moves [simp]:
  "machine_ok (ctl_stop k) = machine_ok k" "machine_ok (ctl_run k) = machine_ok k"
  "machine_ok (set_breakpoint pc k) = machine_ok k" "machine_ok (clear_breakpoint pc k) = machine_ok k"
  "machine_ok (set_execution_speed v k) = machine_ok k"
  by (intro machine_cong; simp add: ctl_stop_def ctl_run_def set_breakpoint_def clear_breakpoint_def set_execution_speed_def)+

lemma do_step_machine:
  assumes "do_step m pl_ops k = (sgs, k')" "machine_ok k"
  shows "machine_ok k'"
proof -
  have c: "ct_cpu k' = snd (pl_step (ct_cpu k))" "ct_loaded k' = ct_loaded k"
    "ct_stats k' = accumulate_stats (cpu_ps (snd (pl_step (ct_cpu k)))) (ct_stats k)"
    using assms(1) by (auto simp: do_step_def Let_def pl_sel split: prod.splits)
  have "stats_ok pl_ops k'"
    using assms(2) pl.step_cycle [of "ct_cpu k"] by (simp add: machine_ok_def stats_ok_def accumulate_ok c pl_sel add.commute)
  then show ?thesis
    using assms(2) pl.step_regs_wf [of "ct_cpu k"] by (simp add: machine_ok_def c step_tagged pl_sel)
qed

lemma tagged_reset: "pl_tagged (pl_reset b c)"
  by (simp add: pl_tagged_def pl_reset_def)

lemma load_tagged: "pl_load_program ws a c = Some (ok, c') \<Longrightarrow> pl_tagged c \<Longrightarrow> pl_tagged c'"
  by (auto simp: pl_load_program_def pl_tagged_def split: option.splits if_splits)

lemma load_here: "\<exists>ok c'. pl_load_program ws 0 c = Some (ok, c')"
  by (auto simp: pl_load_program_def mem_load_words_def)

lemma load_machine:
  assumes "ctl_load_program pl_ops ws 0 k = Some (ok, sgs, k')" "machine_ok k"
  shows "machine_ok k'"
proof -
  have l: "pl_load_program ws 0 (pl_reset True (ct_cpu k)) = Some (ok, ct_cpu k')"
    using assms(1) by (auto simp: ctl_load_program_def pl_sel split: option.splits)
  have "pl_tagged (ct_cpu k')" by (rule load_tagged [OF l tagged_reset])
  moreover have "ct_stats k' = stats_zero" "\<forall>p. ct_loaded k' = Some p \<longrightarrow> lp_addr p = 0"
    using assms(1) by (auto simp: ctl_load_program_def split: option.splits if_splits)
  moreover have "regs_wf (cpu_regs (ct_cpu k'))" "cpu_cycle (ct_cpu k') = 0"
    using pl_sim.load_keeps [of ws 0 "ct_cpu k"] l assms(2) by (simp_all add: machine_ok_def pl_sel)
  ultimately show ?thesis by (simp add: machine_ok_def stats_ok_def stats_zero_def pl_sel)
qed

lemma reset_machine:
  assumes "ctl_reset pl_ops k = Some (sgs, k')" "machine_ok k"
  shows "machine_ok k'"
proof (cases "ct_loaded k")
  case None
  then show ?thesis
    using assms pl.reset_regs [of True "ct_cpu k"] pl.reset_cycle [of True "ct_cpu k"]
    by (auto simp: ctl_reset_def Let_def machine_ok_def stats_ok_def stats_zero_def pl_sel tagged_reset)
next
  case (Some p)
  then obtain ok where l: "pl_load_program (lp_words p) 0 (pl_reset True (ct_cpu k)) = Some (ok, ct_cpu k')"
    and k: "ct_stats k' = stats_zero" "\<forall>p. ct_loaded k' = Some p \<longrightarrow> lp_addr p = 0"
    using assms by (auto simp: ctl_reset_def Let_def pl_sel machine_ok_def split: if_splits)
  have "pl_tagged (ct_cpu k')" by (rule load_tagged [OF l tagged_reset])
  moreover have "regs_wf (cpu_regs (ct_cpu k'))" "cpu_cycle (ct_cpu k') = 0"
    using pl_sim.load_keeps [of "lp_words p" 0 "ct_cpu k"] l assms(2) by (simp_all add: machine_ok_def pl_sel)
  ultimately show ?thesis using k by (simp add: machine_ok_def stats_ok_def stats_zero_def pl_sel)
qed

text \<open>Resetting and loading here never fail to return.\<close>

lemma reset_total: "machine_ok k \<Longrightarrow> ctl_reset pl_ops k \<noteq> None"
  using load_here by (auto simp: ctl_reset_def Let_def pl_sel machine_ok_def split: option.split)

lemma load_total: "ctl_load_program pl_ops ws 0 k \<noteq> None"
  using load_here [of ws "pl_reset True (ct_cpu k)"] by (auto simp: ctl_load_program_def pl_sel)

subsection \<open>Signals\<close>

lemma panel_ops_keep [simp]:
  "sd_breakpoints (set_cycle_state v ps vals d) = sd_breakpoints d" "sd_dark (set_cycle_state v ps vals d) = sd_dark d"
  "rp_dark (panel_update v now ps vals p) = rp_dark p" "tg_dark (grid_update v ps t) = tg_dark t"
  "length (rp_cells (panel_update v now ps vals p)) = length (rp_cells p)"
  by (simp_all add: set_cycle_state_def start_tokens_def apply_state_def panel_update_def mark_written_cells update_cells_keeps
      mark_keeps grid_update_def rebuild_table_def Let_def)

lemmas signal_defs = apply_cpi_style_def on_cycle_executed_def on_pipeline_state_changed_def on_statistics_updated_def on_halted_def on_faulted_def
  on_exception_raised_def on_breakpoint_hit_def flash_status_banner_def show_message_def log_to_def set_run_state_def
  stop_controller_def

lemma signal_keeps [simp]:
  "mw_words (on_signal now sg w) = mw_words w" "mw_slider (on_signal now sg w) = mw_slider w" "mw_dark (on_signal now sg w) = mw_dark w"
  "ct_cpu (mw_ctl (on_signal now sg w)) = ct_cpu (mw_ctl w)" "ct_stats (mw_ctl (on_signal now sg w)) = ct_stats (mw_ctl w)"
  "ct_loaded (mw_ctl (on_signal now sg w)) = ct_loaded (mw_ctl w)" "ct_interval (mw_ctl (on_signal now sg w)) = ct_interval (mw_ctl w)"
  "ct_breakpoints (mw_ctl (on_signal now sg w)) = ct_breakpoints (mw_ctl w)" "mw_visible (on_signal now sg w) = mw_visible w"
  by (auto simp: on_signal_def signal_defs ctl_stop_def Let_def split: ctl_signal.split)

lemma signal_panels: "panels_ok w \<Longrightarrow> panels_ok (on_signal now sg w)"
  by (auto simp: panels_ok_def on_signal_def signal_defs ctl_stop_def Let_def schematic_reach.report grid_reach.update
      split: ctl_signal.split)

lemma signals_keep [simp]:
  "mw_words (fold (on_signal now) sgs w) = mw_words w" "mw_slider (fold (on_signal now) sgs w) = mw_slider w"
  "ct_cpu (mw_ctl (fold (on_signal now) sgs w)) = ct_cpu (mw_ctl w)" "ct_stats (mw_ctl (fold (on_signal now) sgs w)) = ct_stats (mw_ctl w)"
  "ct_loaded (mw_ctl (fold (on_signal now) sgs w)) = ct_loaded (mw_ctl w)"
  "ct_interval (mw_ctl (fold (on_signal now) sgs w)) = ct_interval (mw_ctl w)"
  "ct_breakpoints (mw_ctl (fold (on_signal now) sgs w)) = ct_breakpoints (mw_ctl w)"
  "mw_visible (fold (on_signal now) sgs w) = mw_visible w"
  by (induction sgs arbitrary: w) simp_all

lemma signals_panels: "panels_ok w \<Longrightarrow> panels_ok (fold (on_signal now) sgs w)"
  by (induction sgs arbitrary: w) (simp_all add: signal_panels)

lemma deliver_keeps [simp]:
  "mw_words (deliver now (sgs, k) w) = mw_words w" "mw_slider (deliver now (sgs, k) w) = mw_slider w"
  "ct_cpu (mw_ctl (deliver now (sgs, k) w)) = ct_cpu k" "ct_stats (mw_ctl (deliver now (sgs, k) w)) = ct_stats k"
  "ct_loaded (mw_ctl (deliver now (sgs, k) w)) = ct_loaded k" "ct_interval (mw_ctl (deliver now (sgs, k) w)) = ct_interval k"
  "ct_breakpoints (mw_ctl (deliver now (sgs, k) w)) = ct_breakpoints k"
  "mw_visible (deliver now (sgs, k) w) = mw_visible w"
  by (simp_all add: deliver_def)

lemma deliver_machine [simp]: "machine_ok (mw_ctl (deliver now (sgs, k) w)) = machine_ok k"
  by (rule machine_cong) simp_all

lemma deliver_panels:
  "panels_ok w \<Longrightarrow> ct_breakpoints k = ct_breakpoints (mw_ctl w) \<Longrightarrow> panels_ok (deliver now (sgs, k) w)"
  unfolding deliver_def by (simp, rule signals_panels) (simp add: panels_ok_def)

text \<open>A report changes neither the action nor the timer; the end of a run stops both.\<close>

lemma report_signals [simp]:
  "mw_action (on_cycle_executed c w) = mw_action w" "mw_ctl (on_cycle_executed c w) = mw_ctl w"
  "mw_action (on_pipeline_state_changed now ps w) = mw_action w" "mw_ctl (on_pipeline_state_changed now ps w) = mw_ctl w"
  "mw_action (on_statistics_updated st w) = mw_action w" "mw_ctl (on_statistics_updated st w) = mw_ctl w"
  by (simp_all add: signal_defs Let_def)

lemma statistics_keeps [simp]:
  "mw_datapath (on_statistics_updated st w) = mw_datapath w" "mw_regs (on_statistics_updated st w) = mw_regs w"
  "mw_trace (on_statistics_updated st w) = mw_trace w" "mw_memory (on_statistics_updated st w) = mw_memory w"
  "mw_cycles (on_statistics_updated st w) = mw_cycles w"
  "sl_cycles (mw_stats (on_statistics_updated st w)) = show_dec (unat (st_cycles st))"
  "mw_instrs (on_statistics_updated st w) = ''Instructions: '' @ show_dec (unat (st_retired st))"
  "mw_band (on_statistics_updated st w) = band_of (cpi st)"
  by (simp_all add: on_statistics_updated_def apply_cpi_style_def Let_def)

definition in_step :: "main_window \<Rightarrow> bool" where
  "in_step w \<longleftrightarrow> (mw_action w = ActionPause \<longleftrightarrow> ct_active (mw_ctl w))"

lemma end_signals:
  "in_step (on_halted w)" "in_step (on_faulted w)" "in_step (on_exception_raised epc name w)"
  "\<not> ct_active (mw_ctl w) \<Longrightarrow> in_step (on_breakpoint_hit pc w)"
  by (simp_all add: in_step_def signal_defs ctl_stop_def Let_def)

lemma step_in_step:
  assumes "in_step w"
  shows "in_step (deliver now (do_step m pl_ops (mw_ctl w)) w)"
proof -
  obtain r c where st: "pl_step (ct_cpu (mw_ctl w)) = (r, c)" by (cases "pl_step (ct_cpu (mw_ctl w))") auto
  show ?thesis
    using assms
    by (cases r; cases "cpu_pc c \<in> ct_breakpoints (mw_ctl w)")
       (auto simp: deliver_def do_step_def Let_def pl_sel st on_signal_def end_signals in_step_def [of w] in_step_def [of "_\<lparr>mw_ctl := _\<rparr>"]
          in_step_def [of "on_statistics_updated _ _"])
qed

subsection \<open>Handlers\<close>

lemma window_okD: "window_ok w \<Longrightarrow> machine_ok (mw_ctl w)" "window_ok w \<Longrightarrow> panels_ok w" "window_ok w \<Longrightarrow> in_step w"
  by (simp_all add: window_ok_def controls_ok_def in_step_def)

text \<open>A handler that leaves the slider, the words, the interval and the breakpoints.\<close>

lemma window_okI:
  assumes "window_ok w" "machine_ok (mw_ctl w')" "panels_ok w'" "in_step w'" "mw_slider w' = mw_slider w"
    "ct_interval (mw_ctl w') = ct_interval (mw_ctl w)" "mw_words w' = mw_words w"
  shows "window_ok w'"
  using assms by (simp add: window_ok_def controls_ok_def words_ok_def in_step_def)

lemma stopped_ok:
  assumes "window_ok w"
  shows "window_ok (set_run_state False (stop_controller w))"
  using assms by (simp add: window_ok_def set_run_state_def stop_controller_def panels_ok_def controls_ok_def words_ok_def ctl_stop_def [of "mw_ctl w"])
    (simp add: machine_ok_def stats_ok_def)

lemma do_step_keeps:
  "do_step m pl_ops k = (sgs, k') \<Longrightarrow> ct_breakpoints k' = ct_breakpoints k \<and> ct_interval k' = ct_interval k"
  by (auto simp: do_step_def Let_def split: prod.splits)

lemma step_window_ok:
  assumes "window_ok w"
  shows "window_ok (deliver now (do_step m pl_ops (mw_ctl w)) w)"
proof -
  obtain sgs k where st: "do_step m pl_ops (mw_ctl w) = (sgs, k)" by (cases "do_step m pl_ops (mw_ctl w)") auto
  show ?thesis
  proof (rule window_okI [OF assms])
    show "in_step (deliver now (do_step m pl_ops (mw_ctl w)) w)" by (rule step_in_step [OF window_okD(3) [OF assms]])
    show "panels_ok (deliver now (do_step m pl_ops (mw_ctl w)) w)"
      unfolding st using do_step_keeps [OF st] by (intro deliver_panels window_okD(2) [OF assms]) simp
  qed (use do_step_keeps [OF st] do_step_machine [OF st window_okD(1) [OF assms]] in \<open>simp_all add: st\<close>)
qed

lemma reset_shape:
  assumes "ctl_reset pl_ops k = Some (sgs, k')"
  shows "sgs = [PipelineStateChanged (cpu_ps (ct_cpu k')), StatisticsUpdated stats_zero]" "\<not> ct_active k'"
    "ct_interval k' = ct_interval k" "ct_breakpoints k' = ct_breakpoints k" "ct_stats k' = stats_zero"
  using assms by (auto simp: ctl_reset_def Let_def pl_sel split: option.splits)

lemma load_shape:
  assumes "ctl_load_program pl_ops ws a k = Some (ok, sgs, k')"
  shows "sgs = (if ok then [ProgramLoaded (length ws)] else []) @ [PipelineStateChanged (cpu_ps (ct_cpu k'))]" "\<not> ct_active k'"
    "ct_interval k' = ct_interval k" "ct_breakpoints k' = ct_breakpoints k" "ct_stats k' = stats_zero"
    "ct_loaded k' = (if ok then Some \<lparr>lp_words = ws, lp_addr = a\<rparr> else None)"
  using assms by (auto simp: ctl_load_program_def pl_sel split: option.splits)

lemma on_resetE:
  assumes "on_reset now w = Some w'"
  obtains sgs k where "ctl_reset pl_ops (ctl_stop (mw_ctl w)) = Some (sgs, k)"
    "w' = (let u = deliver now (sgs, k) (set_run_state False (stop_controller w)) in
       show_message ''Reset.'' (u\<lparr>mw_regs := panel_clear now (mw_regs u), mw_trace := grid_clear (mw_trace u),
         mw_events := events_clear (mw_events u)\<rparr>))"
  using assms by (auto simp: on_reset_def Let_def set_run_state_def stop_controller_def)

lemma cleared_panels:
  assumes "panels_ok u"
  shows "panels_ok (show_message msg (u\<lparr>mw_regs := panel_clear now (mw_regs u), mw_trace := grid_clear (mw_trace u),
     mw_events := events_clear (mw_events u)\<rparr>))"
proof -
  have "grid_reach (grid_clear (mw_trace u))" using assms by (simp add: panels_ok_def grid_reach.clear)
  moreover have "length (rp_cells (panel_clear now (mw_regs u))) = length (rp_cells (mw_regs u))"
    "rp_dark (panel_clear now (mw_regs u)) = rp_dark (mw_regs u)" "tg_dark (grid_clear (mw_trace u)) = tg_dark (mw_trace u)"
    "el_dark (events_clear (mw_events u)) = el_dark (mw_events u)"
    by (simp_all add: panel_clear_def update_cells_keeps grid_clear_def rebuild_table_def events_clear_def)
  ultimately show ?thesis using assms by (simp add: panels_ok_def show_message_def)
qed

lemma deliver_quiet:
  "\<not> ct_active k \<Longrightarrow> mw_action w = ActionRun \<Longrightarrow>
   sgs = [PipelineStateChanged ps, StatisticsUpdated st] \<or> sgs = [ProgramLoaded n, PipelineStateChanged ps] \<or> sgs = [PipelineStateChanged ps] \<Longrightarrow>
   in_step (deliver now (sgs, k) w) \<and> mw_action (deliver now (sgs, k) w) = ActionRun"
  by (auto simp: deliver_def on_signal_def in_step_def)

lemma stopped_simps [simp]:
  "mw_ctl (set_run_state False (stop_controller w)) = ctl_stop (mw_ctl w)" "mw_action (set_run_state False (stop_controller w)) = ActionRun"
  by (simp_all add: set_run_state_def stop_controller_def)

lemma reset_window_ok:
  assumes "on_reset now w = Some w'" "window_ok w"
  shows "window_ok w'" "mw_action w' = ActionRun"
proof -
  let ?s = "set_run_state False (stop_controller w)"
  obtain sgs k where r: "ctl_reset pl_ops (mw_ctl ?s) = Some (sgs, k)"
    and w': "w' = (let u = deliver now (sgs, k) ?s in show_message ''Reset.'' (u\<lparr>mw_regs := panel_clear now (mw_regs u),
       mw_trace := grid_clear (mw_trace u), mw_events := events_clear (mw_events u)\<rparr>))"
    using assms(1) by (elim on_resetE) simp
  note sh = reset_shape [OF r]
  have s: "window_ok ?s" by (rule stopped_ok [OF assms(2)])
  have q: "in_step (deliver now (sgs, k) ?s)" "mw_action (deliver now (sgs, k) ?s) = ActionRun"
    using deliver_quiet [OF sh(2), of ?s sgs] sh(1) by simp_all
  then show "mw_action w' = ActionRun" by (simp add: w' Let_def show_message_def)
  have "panels_ok (deliver now (sgs, k) ?s)" by (rule deliver_panels [OF window_okD(2) [OF s] sh(4)])
  then have "panels_ok w'" unfolding w' Let_def by (rule cleared_panels)
  moreover have "machine_ok (mw_ctl w')"
    using reset_machine [OF r window_okD(1) [OF s]] by (simp add: w' Let_def show_message_def)
  ultimately show "window_ok w'"
    using q sh(3) by (intro window_okI [OF s]) (simp_all add: w' Let_def show_message_def in_step_def del: stopped_simps)
qed

lemma load_window_ok:
  assumes "load_words_here now ws w = Some (ok, w')" "window_ok w" "mw_action w = ActionRun"
  shows "window_ok w'"
proof -
  obtain sgs k where l: "ctl_load_program pl_ops ws 0 (mw_ctl w) = Some (ok, sgs, k)" and w': "w' = deliver now (sgs, k) w"
    using assms(1) by (auto simp: load_words_here_def)
  note sh = load_shape [OF l]
  have "in_step w'" using deliver_quiet [OF sh(2) assms(3), of sgs] sh(1) by (cases ok) (simp_all add: w')
  moreover have "panels_ok w'" unfolding w' by (rule deliver_panels [OF window_okD(2) [OF assms(2)] sh(4)])
  moreover have "machine_ok (mw_ctl w')" using load_machine [OF l window_okD(1) [OF assms(2)]] by (simp add: w')
  ultimately show ?thesis using sh(3) by (intro window_okI [OF assms(2)]) (simp_all add: w')
qed

text \<open>Texts, boxes and entries of the log.\<close>

lemma text_ops_ok:
  "window_ok w \<Longrightarrow> window_ok (show_message msg w)" "window_ok w \<Longrightarrow> window_ok (message_box msg w)"
  "window_ok w \<Longrightarrow> window_ok (set_asm_status style msg w)" "window_ok w \<Longrightarrow> window_ok (log_to kind cycle msg w)"
  "window_ok w \<Longrightarrow> window_ok (edit_source src w)" "window_ok w \<Longrightarrow> window_ok (banner_timeout w)"
  by (auto simp: window_ok_def panels_ok_def controls_ok_def words_ok_def show_message_def message_box_def set_asm_status_def
      log_to_def edit_source_def banner_timeout_def split: nat.split)

lemma load_file_ok:
  assumes "window_ok w" "on_open_file open_file path yes now w = Some w'"
  shows "window_ok w'"
proof (cases "path = [] \<or> \<not> hp_ok (load_hex_file open_file path) \<or> \<not> fst (confirm_discard_current_run yes w)")
  case True
  then show ?thesis
    using assms text_ops_ok [OF assms(1)]
    by (auto simp: on_open_file_def confirm_discard_current_run_def Let_def split: if_splits)
next
  case False
  let ?ws = "hp_words (load_hex_file open_file path)"
  obtain u where c: "confirm_discard_current_run yes w = (True, u)" and u: "window_ok u"
    using False text_ops_ok [OF assms(1)] assms(1) by (auto simp: confirm_discard_current_run_def split: if_splits)
  obtain v ok x where v: "on_reset now u = Some v" and x: "load_words_here now ?ws v = Some (ok, x)"
    and w': "w' = (if \<not> ok then message_box ''Program too large for memory.'' x
       else log_to EvInfo 0 (''program loaded from file ('' @ show_dec (length ?ws) @ '' instructions)'')
         (show_message (''Loaded '' @ show_dec (length ?ws) @ '' instructions from '' @ path) x))"
    using assms(2) False by (auto simp: on_open_file_def c Let_def split: option.splits)
  have "window_ok x" by (rule load_window_ok [OF x reset_window_ok [OF v u]])
  then show ?thesis by (simp add: w' text_ops_ok)
qed

lemma on_loadE:
  assumes "on_load yes now w = Some w'" "mw_words w \<noteq> []" "fst (confirm_discard_current_run yes w)"
  obtains u v ok x where "confirm_discard_current_run yes w = (True, u)" "on_reset now u = Some v"
    "load_words_here now (mw_words w) v = Some (ok, x)"
    "w' = (let n = show_dec (length (mw_words w)) in if \<not> ok then set_asm_status ''color: red;'' ''Program too large for memory.'' x
       else log_to EvInfo 0 (''program loaded ('' @ n @ '' instructions)'')
         (set_asm_status ''color: green;'' (check_mark @ '' '' @ n @ '' instructions loaded'') x))"
proof -
  obtain u where c: "confirm_discard_current_run yes w = (True, u)" and u: "mw_words u = mw_words w"
    using assms(3) by (auto simp: confirm_discard_current_run_def message_box_def split: if_splits)
  obtain v where v: "on_reset now u = Some v" using assms(1,2) by (auto simp: on_load_def c split: option.splits)
  have vw: "mw_words v = mw_words w"
    using v u by (auto elim!: on_resetE simp: Let_def show_message_def set_run_state_def stop_controller_def)
  obtain ok x where x: "load_words_here now (mw_words w) v = Some (ok, x)"
    using assms(1,2) v by (auto simp: on_load_def c vw split: option.splits)
  have "mw_words x = mw_words w" using x vw by (auto simp: load_words_here_def)
  then have "w' = (let n = show_dec (length (mw_words w)) in if \<not> ok then set_asm_status ''color: red;'' ''Program too large for memory.'' x
       else log_to EvInfo 0 (''program loaded ('' @ n @ '' instructions)'')
         (set_asm_status ''color: green;'' (check_mark @ '' '' @ n @ '' instructions loaded'') x))"
    using assms(1,2) by (cases ok) (simp_all add: on_load_def c v vw x Let_def)
  then show thesis by (rule that [OF c v x])
qed

lemma load_ok:
  assumes "window_ok w" "on_load yes now w = Some w'"
  shows "window_ok w'"
proof (cases "mw_words w \<noteq> [] \<and> fst (confirm_discard_current_run yes w)")
  case False
  then show ?thesis
    using assms text_ops_ok [OF assms(1)]
    by (auto simp: on_load_def confirm_discard_current_run_def split: if_splits)
next
  case True
  then obtain u v ok x where l: "confirm_discard_current_run yes w = (True, u)" "on_reset now u = Some v"
    "load_words_here now (mw_words w) v = Some (ok, x)"
    and w': "w' = (let n = show_dec (length (mw_words w)) in if \<not> ok then set_asm_status ''color: red;'' ''Program too large for memory.'' x
       else log_to EvInfo 0 (''program loaded ('' @ n @ '' instructions)'')
         (set_asm_status ''color: green;'' (check_mark @ '' '' @ n @ '' instructions loaded'') x))"
    using assms(2) by (elim on_loadE) auto
  have u: "window_ok u" using l(1) text_ops_ok [OF assms(1)] assms(1) by (auto simp: confirm_discard_current_run_def split: if_splits)
  have "window_ok x" by (rule load_window_ok [OF l(3) reset_window_ok [OF l(2) u]])
  then show ?thesis by (simp add: w' Let_def text_ops_ok)
qed

lemma assemble_program_ok: "window_ok w \<Longrightarrow> window_ok (on_assemble w)"
  by (cases "assemble (mw_source w)")
    (auto simp: on_assemble_def Let_def window_ok_def panels_ok_def controls_ok_def words_ok_def set_asm_status_def split: option.splits)

lemma example_ok: "window_ok w \<Longrightarrow> window_ok (on_example_selected catalog idx yes w)"
  by (auto simp: on_example_selected_def Let_def window_ok_def panels_ok_def controls_ok_def words_ok_def set_asm_status_def message_box_def)

lemma panel_events_keep [simp]:
  "sd_breakpoints (schematic_dark dark d) = sd_breakpoints d" "sd_dark (schematic_dark dark d) = dark"
  "rp_dark (panel_dark now dark p) = dark" "length (rp_cells (panel_dark now dark p)) = length (rp_cells p)"
  "tg_dark (grid_dark dark t) = dark" "el_dark (events_dark dark l) = dark"
  "sd_breakpoints (schematic_show d) = sd_breakpoints d" "sd_dark (schematic_show d) = sd_dark d"
  "rp_dark (panel_show now p) = rp_dark p" "length (rp_cells (panel_show now p)) = length (rp_cells p)" "tg_dark (grid_show t) = tg_dark t"
  "rp_dark (set_show_aliases now b p) = rp_dark p" "length (rp_cells (set_show_aliases now b p)) = length (rp_cells p)"
  by (simp_all add: schematic_dark_def apply_theme_def apply_state_def panel_dark_def update_cells_keeps grid_dark_def rebuild_table_def
      events_dark_def schematic_show_def panel_show_def grid_show_def set_show_aliases_def)

lemma scheme_ok: "window_ok w \<Longrightarrow> window_ok (apply_color_scheme now dark w)"
  by (simp add: window_ok_def panels_ok_def controls_ok_def words_ok_def apply_color_scheme_def apply_cpi_style_def schematic_reach.theme grid_reach.theme)

lemma slider_ok: "window_ok w \<Longrightarrow> window_ok (slider_set v w)"
  by (auto simp: slider_set_def Let_def window_ok_def panels_ok_def controls_ok_def words_ok_def set_execution_speed_def [of _ "mw_ctl w"] clamp_def)
    (simp_all add: machine_ok_def stats_ok_def)

lemma speed_ok: "window_ok w \<Longrightarrow> window_ok (slider_set v (w\<lparr>mw_ctl := set_execution_speed v (mw_ctl w)\<rparr>))"
  by (auto simp: slider_set_def Let_def window_ok_def panels_ok_def controls_ok_def words_ok_def set_execution_speed_def clamp_def)
    (simp_all add: machine_ok_def stats_ok_def)

lemma prefs_ok: "window_ok w \<Longrightarrow> window_ok (accept_preferences now pd w)"
proof -
  assume w: "window_ok w"
  have "window_ok (apply_color_scheme now (se_dark pd) (w\<lparr>mw_settings := pd\<rparr>))"
    by (rule scheme_ok) (use w in \<open>simp add: window_ok_def panels_ok_def controls_ok_def words_ok_def\<close>)
  from speed_ok [OF this, of "se_speed pd"] show ?thesis
    unfolding accept_preferences_def preferences_changed_def save_settings_def Let_def
    by (simp add: window_ok_def panels_ok_def controls_ok_def words_ok_def)
qed

lemma show_ok: "window_ok w \<Longrightarrow> window_ok (show_panel now p w)"
  by (cases p) (simp_all add: show_panel_def Let_def window_ok_def panels_ok_def controls_ok_def words_ok_def schematic_reach.shown grid_reach.shown)

lemma toggle_ok: "window_ok w \<Longrightarrow> window_ok (on_breakpoint_toggle pc w)"
proof -
  have "sd_breakpoints (set_breakpoints b d) = b" "sd_dark (set_breakpoints b d) = sd_dark d" for b d
    by (simp_all add: set_breakpoints_def apply_state_def)
  then show "window_ok w \<Longrightarrow> window_ok (on_breakpoint_toggle pc w)"
    by (auto simp: on_breakpoint_toggle_def Let_def window_ok_def panels_ok_def controls_ok_def words_ok_def show_message_def
        schematic_reach.bps clear_breakpoint_def [of pc "mw_ctl w"] set_breakpoint_def [of pc "mw_ctl w"])
      (simp_all add: machine_ok_def stats_ok_def)
qed

lemma schematic_signals_ok: "window_ok w \<Longrightarrow> window_ok (fold on_schematic_signal sgs w)"
  by (induction sgs arbitrary: w) (simp_all add: on_schematic_signal_def toggle_ok text_ops_ok split: schematic_signal.split)

lemma datapath_ok:
  "window_ok w \<Longrightarrow> schematic_reach d \<Longrightarrow> sd_breakpoints d = sd_breakpoints (mw_datapath w) \<Longrightarrow> sd_dark d = sd_dark (mw_datapath w) \<Longrightarrow>
   window_ok (w\<lparr>mw_datapath := d\<rparr>)"
  by (simp add: window_ok_def panels_ok_def controls_ok_def words_ok_def)

lemma view_events_keep [simp]:
  "sd_breakpoints (tooltip_event d) = sd_breakpoints d" "sd_dark (tooltip_event d) = sd_dark d"
  "sd_breakpoints (anim_value a d) = sd_breakpoints d" "sd_dark (anim_value a d) = sd_dark d"
  "sd_breakpoints (anim_finished d) = sd_breakpoints d" "sd_dark (anim_finished d) = sd_dark d"
  "sd_breakpoints (focus_in d) = sd_breakpoints d" "sd_dark (focus_in d) = sd_dark d"
  "sd_breakpoints (focus_out d) = sd_breakpoints d" "sd_dark (focus_out d) = sd_dark d"
  "sd_breakpoints (mouse_press a' pos d) = sd_breakpoints d" "sd_dark (mouse_press a' pos d) = sd_dark d"
  by (auto simp: tooltip_event_def update_tooltips_def anim_value_def anim_finished_def focus_in_def place_ring_def focus_out_def
      mouse_press_def Let_def split: option.split)

lemma key_keeps: "key_press k d = (sg, d') \<Longrightarrow> sd_breakpoints d' = sd_breakpoints d \<and> sd_dark d' = sd_dark d"
  by (auto simp: key_press_def Let_def place_ring_def split: schematic_key.splits)

lemma fade_tick_keeps:
  "rp_dark (fade_tick now p) = rp_dark p" "length (rp_cells (fade_tick now p)) = length (rp_cells p)"
proof -
  have "rp_dark (snd (fold (fade_cell now) is s)) = rp_dark (snd s) \<and> length (rp_cells (snd (fold (fade_cell now) is s))) = length (rp_cells (snd s))"
    for "is" s
    by (induction "is" arbitrary: s) (simp_all add: fade_cell_def update_cell_def set_fade_def Let_def split: prod.split)
  from this [of "[1..<32]" "(False, p)"] show "rp_dark (fade_tick now p) = rp_dark p" "length (rp_cells (fade_tick now p)) = length (rp_cells p)"
    by (auto simp: fade_tick_def split: prod.split simp del: upt_rec_numeral)
qed

lemma pl_create_ok: "machine_ok (ctl_create (pl_create n))"
  by (simp add: machine_ok_def ctl_create_def stats_ok_def stats_zero_def pl_sel pl_tagged_def pl_create_def cpu.defs pl_cpu.defs sc_create_def)

lemma opened_ok: "window_ok (window_init now mem_bytes se vis source)"
proof -
  have "machine_ok (mw_ctl (window_init now mem_bytes se vis source))"
    using pl_create_ok by (simp add: window_init_def apply_color_scheme_def apply_cpi_style_def Let_def)
  moreover have "sd_breakpoints schematic_init = {}" by (simp add: schematic_init_def apply_theme_def apply_state_def)
  moreover have "length (rp_cells (panel_init now)) = 32" by (simp add: panel_init_def)
  ultimately show ?thesis
    by (simp add: window_ok_def panels_ok_def controls_ok_def words_ok_def window_init_def apply_color_scheme_def apply_cpi_style_def Let_def
        schematic_reach.intros grid_reach.intros ctl_create_def set_execution_speed_def clamp_def)
qed

lemma window_reach_ok: "window_reach w \<Longrightarrow> window_ok w"
proof (induction rule: window_reach.induct)
  case (init now mem_bytes se vis source)
  show ?case by (rule opened_ok)
next
  case (tick w now)
  then show ?case using step_window_ok by (auto simp: timer_tick_def on_run_timer_def deliver_def)
next
  case (step w now)
  from step_window_ok [OF stopped_ok [OF step.IH]] show ?case by (simp add: on_step_def step_cycle_def Let_def)
next
  case (run_pause w)
  then show ?case
    using stopped_ok by (auto simp: on_run_pause_def window_ok_def panels_ok_def controls_ok_def words_ok_def set_run_state_def)
      (simp_all add: ctl_run_def)
next
  case (stop w)
  then show ?case by (simp add: on_stop_def stopped_ok)
next
  case (reset w now w')
  then show ?case by (simp add: reset_window_ok)
next
  case (open_file w open_path path yes now w')
  then show ?case by (simp add: load_file_ok)
next
  case (save_trace w path)
  then show ?case by (simp add: on_save_trace_def text_ops_ok)
next
  case (assembled w)
  then show ?case by (simp add: assemble_program_ok)
next
  case (load w yes now w')
  then show ?case by (simp add: load_ok)
next
  case (example w catalog idx yes)
  then show ?case by (simp add: example_ok)
next
  case (edit w src)
  then show ?case by (simp add: text_ops_ok)
next
  case (slider w v)
  then show ?case by (simp add: slider_ok)
next
  case (prefs w now pd)
  then show ?case by (simp add: prefs_ok)
next
  case (shown w now p)
  then show ?case by (simp add: show_ok)
next
  case (hidden w p)
  then show ?case by (simp add: hide_panel_def window_ok_def panels_ok_def controls_ok_def words_ok_def)
next
  case (message_end w)
  then show ?case by (simp add: text_ops_ok)
next
  case (banner_end w)
  then show ?case by (simp add: text_ops_ok)
next
  case (fade w now)
  then show ?case by (simp add: window_ok_def panels_ok_def controls_ok_def words_ok_def fade_tick_keeps)
next
  case (tooltip w)
  then show ?case by (intro datapath_ok) (simp_all add: window_ok_def panels_ok_def schematic_reach.intros)
next
  case (anim w a)
  then show ?case by (intro datapath_ok) (simp_all add: window_ok_def panels_ok_def schematic_reach.intros)
next
  case (anim_end w)
  then show ?case by (intro datapath_ok) (simp_all add: window_ok_def panels_ok_def schematic_reach.intros)
next
  case (focus w)
  then show ?case by (intro datapath_ok) (simp_all add: window_ok_def panels_ok_def schematic_reach.intros)
next
  case (unfocus w)
  then show ?case by (intro datapath_ok) (simp_all add: window_ok_def panels_ok_def schematic_reach.intros)
next
  case (press w active pos)
  then show ?case by (intro datapath_ok) (simp_all add: window_ok_def panels_ok_def schematic_reach.intros)
next
  case (double_click w pos)
  then show ?case by (simp add: schematic_signals_ok)
next
  case (menu w pos chosen)
  then show ?case by (simp add: schematic_signals_ok)
next
  case (key w k sg d)
  then have "schematic_reach d" using schematic_reach.key by (auto simp: window_ok_def panels_ok_def)
  then show ?case using key by (intro schematic_signals_ok datapath_ok) (simp_all add: key_keeps)
qed

section \<open>What is published\<close>

lemma on_reset_total: "machine_ok (mw_ctl w) \<Longrightarrow> on_reset now w \<noteq> None"
  using reset_total [of "ctl_stop (mw_ctl w)"] by (simp add: on_reset_def Let_def)

lemma load_words_total: "load_words_here now ws w \<noteq> None"
  using load_total by (simp add: load_words_here_def)

lemma confirm_words: "mw_words (snd (confirm_discard_current_run yes w)) = mw_words w"
  "mw_ctl (snd (confirm_discard_current_run yes w)) = mw_ctl w"
  by (simp_all add: confirm_discard_current_run_def message_box_def)

lemma on_load_total:
  assumes "machine_ok (mw_ctl w)"
  shows "on_load yes now w \<noteq> None"
proof -
  obtain b u where c: "confirm_discard_current_run yes w = (b, u)" by (cases "confirm_discard_current_run yes w") auto
  then have "machine_ok (mw_ctl u)" using confirm_words(2) [of yes w] assms by simp
  then have "on_reset now u \<noteq> None" by (rule on_reset_total)
  then show ?thesis using load_words_total by (auto simp: on_load_def c split: bool.split)
qed

lemma reset_size:
  "ctl_reset pl_ops k = Some (sgs, k') \<Longrightarrow> mem_size (cpu_mem (ct_cpu k')) = mem_size (cpu_mem (ct_cpu k))"
  by (auto simp: ctl_reset_def Let_def pl_sel pl_load_program_def pl_reset_def mem_load_words_size mem_reset_def mem_size_def
      dest!: mem_load_words_size split: option.splits if_splits)

lemma load_fits:
  "ctl_load_program pl_ops ws 0 k = Some (ok, sgs, k') \<Longrightarrow> ok \<longleftrightarrow> mem_in_bounds (cpu_mem (ct_cpu k)) 0 (length ws * 4)"
  by (auto simp: ctl_load_program_def pl_sel pl_load_program_def mem_load_words_def pl_reset_def mem_reset_def mem_in_bounds_def
      split: option.splits if_splits)

lemma load_starts:
  "ctl_load_program pl_ops ws 0 k = Some (ok, sgs, k') \<Longrightarrow> regs_wf (cpu_regs (ct_cpu k)) \<Longrightarrow> cpu_cycle (ct_cpu k') = 0"
  using pl_sim.load_keeps(3) [of ws 0 "ct_cpu k" ok "ct_cpu k'"]
  by (auto simp: ctl_load_program_def pl_sel split: option.splits)

text \<open>The reports of a step that is published, on the panels and the labels.\<close>

lemma reported_views:
  "sd_state (mw_datapath (on_pipeline_state_changed now ps w)) = ps"
  "sd_regs (mw_datapath (on_pipeline_state_changed now ps w)) = reg_vals w"
  "rp_values (mw_regs (on_pipeline_state_changed now ps w)) = reg_vals w"
  "tg_last (mw_trace (on_pipeline_state_changed now ps w)) = of_nat (ps_cycle ps)"
  "pv_memory (mw_visible w) \<Longrightarrow> mv_snapshot (mw_memory (on_pipeline_state_changed now ps w)) = Some (mem_data (window_memory w))"
  by (auto simp: on_pipeline_state_changed_def Let_def set_cycle_state_def start_tokens_def apply_state_def panel_update_def
      update_cells_keeps mark_keeps grid_update_def rebuild_table_def display_snapshot)

lemma later_signals_keep:
  "sg \<in> {Halted, Faulted, BreakpointHit pc, ExceptionRaised pc name, StatisticsUpdated st} \<Longrightarrow>
   mw_datapath (on_signal now sg w) = mw_datapath w \<and> mw_regs (on_signal now sg w) = mw_regs w
   \<and> mw_trace (on_signal now sg w) = mw_trace w \<and> mw_memory (on_signal now sg w) = mw_memory w
   \<and> mw_cycles (on_signal now sg w) = mw_cycles w"
  by (auto simp: on_signal_def signal_defs Let_def)

lemma ends_keep_stats:
  "sg \<in> {Halted, Faulted, BreakpointHit pc, ExceptionRaised pc name} \<Longrightarrow> mw_stats (on_signal now sg w) = mw_stats w"
  by (auto simp: on_signal_def signal_defs Let_def)

text \<open>The window after a step: the three reports, then at most one signal that ends a run.\<close>

lemma on_step_shape:
  obtains k tail where
    "ct_cpu k = snd (pl_step (ct_cpu (mw_ctl w)))"
    "ct_stats k = accumulate_stats (cpu_ps (ct_cpu k)) (ct_stats (mw_ctl w))"
    "tail = [] \<or> (\<exists>sg pc name. tail = [sg] \<and> sg \<in> {Halted, Faulted, BreakpointHit pc, ExceptionRaised pc name})"
    "on_step now w = fold (on_signal now) tail (on_statistics_updated (ct_stats k) (on_pipeline_state_changed now (cpu_ps (ct_cpu k))
       (on_cycle_executed (of_nat (cpu_cycle (ct_cpu k))) ((set_run_state False (stop_controller w))\<lparr>mw_ctl := k\<rparr>))))"
proof -
  obtain r c where st: "pl_step (ct_cpu (mw_ctl w)) = (r, c)" by (cases "pl_step (ct_cpu (mw_ctl w))") auto
  define tail where "tail = (case r of StHalt \<Rightarrow> [Halted] | StFault \<Rightarrow> [Faulted]
    | StException \<Rightarrow> [ExceptionRaised (cp0_epc (cpu_cp0 c)) (exception_name (cp0_last_exc (cpu_cp0 c)))]
    | StOk \<Rightarrow> if cpu_pc c \<in> ct_breakpoints (mw_ctl w) then [BreakpointHit (cpu_pc c)] else [])"
  define k where "k = (ctl_stop (mw_ctl w))\<lparr>ct_cpu := c, ct_stats := accumulate_stats (cpu_ps c) (ct_stats (mw_ctl w))\<rparr>"
  have d: "do_step (Some cpu_cp0) pl_ops (ctl_stop (mw_ctl w)) =
      ([CycleExecuted (of_nat (cpu_cycle c)), PipelineStateChanged (cpu_ps c), StatisticsUpdated (ct_stats k)] @ tail, k)"
    by (cases r) (simp_all add: do_step_def Let_def pl_sel st ctl_stop_def tail_def k_def)
  have "tail = [] \<or> (\<exists>sg pc name. tail = [sg] \<and> sg \<in> {Halted, Faulted, BreakpointHit pc, ExceptionRaised pc name})"
    by (auto simp: tail_def split: step_result.split)
  moreover have "on_step now w = fold (on_signal now) tail (on_statistics_updated (ct_stats k) (on_pipeline_state_changed now (cpu_ps (ct_cpu k))
      (on_cycle_executed (of_nat (cpu_cycle (ct_cpu k))) ((set_run_state False (stop_controller w))\<lparr>mw_ctl := k\<rparr>))))"
    by (simp add: on_step_def step_cycle_def Let_def d deliver_def on_signal_def [of _ "CycleExecuted _"]
        on_signal_def [of _ "PipelineStateChanged _"] on_signal_def [of _ "StatisticsUpdated _"]) (simp add: k_def)
  ultimately show thesis using that [of k tail] by (simp add: k_def st ctl_stop_def)
qed

lemma tail_keeps:
  assumes "tail = [] \<or> (\<exists>sg pc name. tail = [sg] \<and> sg \<in> {Halted, Faulted, BreakpointHit pc, ExceptionRaised pc name})"
  shows "mw_datapath (fold (on_signal now) tail w) = mw_datapath w" "mw_regs (fold (on_signal now) tail w) = mw_regs w"
    "mw_trace (fold (on_signal now) tail w) = mw_trace w" "mw_memory (fold (on_signal now) tail w) = mw_memory w"
    "mw_cycles (fold (on_signal now) tail w) = mw_cycles w" "mw_stats (fold (on_signal now) tail w) = mw_stats w"
  using assms ends_keep_stats [of _ _ _ now w] later_signals_keep [of _ _ _ _ now w] by (elim disjE exE conjE; force)+

lemma step_stopped:
  assumes "window_ok w"
  shows "window_ok (on_step now w)" "\<not> ct_active (mw_ctl (on_step now w))"
proof -
  from step_window_ok [OF stopped_ok [OF assms]] show ok: "window_ok (on_step now w)" by (simp add: on_step_def step_cycle_def Let_def)
  have act: "mw_action (on_signal now sg v) \<in> {ActionRun, mw_action v}" for sg v
    by (auto simp: on_signal_def signal_defs Let_def split: ctl_signal.split)
  have "mw_action (fold (on_signal now) sgs v) \<in> {ActionRun, mw_action v}" for sgs v
  proof (induction sgs arbitrary: v)
    case (Cons sg sgs)
    show ?case using act [of sg v] Cons.IH [of "on_signal now sg v"] by auto
  qed simp
  then have "mw_action (on_step now w) = ActionRun"
    by (fastforce simp: on_step_def step_cycle_def Let_def deliver_def set_run_state_def stop_controller_def split: prod.split)
  then show "\<not> ct_active (mw_ctl (on_step now w))" using ok by (simp add: window_ok_def controls_ok_def)
qed

text \<open>A window for the witnesses, with a source in its editor.\<close>

definition example_window :: "string \<Rightarrow> main_window" where
  "example_window source = window_init 0 16 \<lparr>se_dark = True, se_speed = 300, se_font = 9, se_aliases = False\<rparr>
     \<lparr>pv_datapath = True, pv_registers = True, pv_memory = False, pv_trace = False\<rparr> source"

lemma example_reach: "window_reach (example_window source)"
  unfolding example_window_def by (rule window_reach.init)

lemma example_sel: "ct_cpu (mw_ctl (example_window source)) = pl_create 16" "mw_source (example_window source) = source"
  "mw_words (example_window source) = []"
  by (simp_all add: example_window_def window_init_def apply_color_scheme_def apply_cpi_style_def Let_def ctl_create_def set_execution_speed_def)

lemma create_cycle: "cpu_cycle (pl_create n) = 0" "cpu_mem (pl_create n) = mem_create n"
  by (simp_all add: pl_create_def cpu.defs pl_cpu.defs sc_create_def)

lemma step_cycle_label:
  "mw_cycles (on_step now w) = ''Cycles: '' @ show_dec (unat (of_nat (Suc (cpu_cycle (ct_cpu (mw_ctl w)))) :: u64))"
proof -
  obtain k tail where k: "ct_cpu k = snd (pl_step (ct_cpu (mw_ctl w)))"
    and tail: "tail = [] \<or> (\<exists>sg pc name. tail = [sg] \<and> sg \<in> {Halted, Faulted, BreakpointHit pc, ExceptionRaised pc name})"
    and e: "on_step now w = fold (on_signal now) tail (on_statistics_updated (ct_stats k) (on_pipeline_state_changed now (cpu_ps (ct_cpu k))
       (on_cycle_executed (of_nat (cpu_cycle (ct_cpu k))) ((set_run_state False (stop_controller w))\<lparr>mw_ctl := k\<rparr>))))"
    by (rule on_step_shape)
  show ?thesis
    by (simp add: e tail_keeps [OF tail] k pl_step_cycle on_pipeline_state_changed_def on_cycle_executed_def Let_def)
qed

section \<open>Properties\<close>



text \<open>C30: A step is published everywhere. In every state of a window Step executes one cycle and stops a run; after it the circuit view, the register panel and the diagram have the report and the registers of the processor after this cycle, seen or hidden, the memory panel, when seen, has its memory byte for byte, and the cycle counters of the status bar and of the statistics are the processor's.\<close>

theorem step_published:
  assumes "window_reach w" "w' = on_step now w" "c = snd (pl_step (ct_cpu (mw_ctl w)))"
    "vals = map (\<lambda>i. regs_read (cpu_regs c) (of_nat i)) [0..<32]"
  shows "ct_cpu (mw_ctl w') = c \<and> \<not> is_running (mw_ctl w')
    \<and> sd_state (mw_datapath w') = cpu_ps c \<and> sd_regs (mw_datapath w') = vals \<and> rp_values (mw_regs w') = vals
    \<and> tg_last (mw_trace w') = of_nat (ps_cycle (cpu_ps c))
    \<and> (pv_memory (mw_visible w) \<longrightarrow> mv_snapshot (mw_memory w') = Some (mem_data (cpu_mem c)))
    \<and> mw_cycles w' = ''Cycles: '' @ show_dec (unat (of_nat (cpu_cycle c) :: u64))
    \<and> sl_cycles (mw_stats w') = show_dec (unat (of_nat (cpu_cycle c) :: u64))"
proof -
  have ok: "window_ok w" by (rule window_reach_ok [OF assms(1)])
  obtain k tail where k: "ct_cpu k = c" "ct_stats k = accumulate_stats (cpu_ps (ct_cpu k)) (ct_stats (mw_ctl w))"
    and tail: "tail = [] \<or> (\<exists>sg pc name. tail = [sg] \<and> sg \<in> {Halted, Faulted, BreakpointHit pc, ExceptionRaised pc name})"
    and w': "w' = fold (on_signal now) tail (on_statistics_updated (ct_stats k) (on_pipeline_state_changed now (cpu_ps (ct_cpu k))
       (on_cycle_executed (of_nat (cpu_cycle (ct_cpu k))) ((set_run_state False (stop_controller w))\<lparr>mw_ctl := k\<rparr>))))"
    unfolding assms(2,3) by (rule on_step_shape)
  let ?o = "on_cycle_executed (of_nat (cpu_cycle c)) ((set_run_state False (stop_controller w))\<lparr>mw_ctl := k\<rparr>)"
  let ?p = "on_pipeline_state_changed now (cpu_ps c) ?o"
  have o: "reg_vals ?o = vals" "window_memory ?o = cpu_mem c" "mw_visible ?o = mw_visible w"
    using k(1) by (simp_all add: reg_vals_def window_memory_def register_value_def pl_sel assms(4) on_cycle_executed_def
        set_run_state_def stop_controller_def)
  have s: "mw_datapath w' = mw_datapath ?p" "mw_regs w' = mw_regs ?p" "mw_trace w' = mw_trace ?p" "mw_memory w' = mw_memory ?p"
    "mw_cycles w' = mw_cycles ?o" "mw_stats w' = mw_stats (on_statistics_updated (ct_stats k) ?p)" "ct_cpu (mw_ctl w') = c"
    using k(1) unfolding w' by (simp_all add: tail_keeps [OF tail]) (simp_all add: Let_def on_pipeline_state_changed_def)
  have "st_cycles (ct_stats k) = of_nat (cpu_cycle c)"
    using ok pl.step_cycle [of "ct_cpu (mw_ctl w)"] k by (simp add: window_ok_def machine_ok_def stats_ok_def accumulate_ok pl_sel assms(3) add.commute)
  moreover have "\<not> is_running (mw_ctl w')" using step_stopped(2) [OF ok] by (simp add: is_running_def assms(2))
  ultimately show ?thesis
    using reported_views(1-4) [of now "cpu_ps c" ?o] reported_views(5) [of ?o now "cpu_ps c"] by (simp add: s o) (simp add: on_cycle_executed_def)
qed

lemma step_published_witness: "mw_cycles (on_step 0 (example_window [])) = ''Cycles: 1''"
proof -
  have "show_dec 1 = ''1''" by code_simp
  then show ?thesis using step_published [OF example_reach refl refl refl, of 0 "[]"] by (simp add: example_sel pl_step_cycle create_cycle)
qed



text \<open>C31: Hidden panels catch up. After any reports, the circuit view, the register panel and the diagram show, when they were hidden all the time and are shown only then, what they would show if they had been seen all the time: the same scene, the same texts of the registers, the same table.\<close>

theorem hidden_panels_catch_up:
  assumes "window_reach w" "rs \<noteq> []"
  shows "sd_scene (schematic_show (fold (\<lambda>(ps, vals). set_cycle_state False ps vals) rs (mw_datapath w))) =
      sd_scene (fold (\<lambda>(ps, vals). set_cycle_state True ps vals) rs (mw_datapath w))
    \<and> panel_texts (panel_show now (fold (\<lambda>(ps, vals). panel_update False t ps vals) rs (mw_regs w))) =
      panel_texts (fold (\<lambda>(ps, vals). panel_update True t ps vals) rs (mw_regs w))
    \<and> tg_table (grid_show (fold (\<lambda>(ps, vals). grid_update False ps) rs (mw_trace w))) =
      tg_table (fold (\<lambda>(ps, vals). grid_update True ps) rs (mw_trace w))"
proof -
  have ok: "panels_ok w" using window_reach_ok [OF assms(1)] by (simp add: window_ok_def)
  have "schematic_ok (mw_datapath w)" using ok schematic_reach_ok by (simp add: panels_ok_def)
  note c = circuit.catch_up [OF this assms(2)]
  have len: "length (rp_cells (mw_regs w)) = 32" using ok by (simp add: panels_ok_def)
  have "map (\<lambda>r. (t, r)) rs \<noteq> []" using assms(2) by simp
  note r = registers.catch_up [OF len this, where now = now]
  have "map fst rs \<noteq> []" using assms(2) by simp
  note g = diagram.catch_up [OF TrueI this]
  show ?thesis using c r g by (simp add: fold_map comp_def case_prod_unfold)
qed

lemma hidden_panels_catch_up_witness:
  "tg_table (grid_show (grid_update False ps_init (mw_trace (example_window [])))) =
    tg_table (grid_update True ps_init (mw_trace (example_window [])))"
  using hidden_panels_catch_up [OF example_reach, of "[(ps_init, replicate 32 0)]" "[]" 0 0] by simp

text \<open>C36: Reset leaves the old cycle count in the status bar. After Reset in any state of a window the machine has executed no cycle, and the statistics and the instruction count of the status bar say so, but its cycle count is still that of the last step reported before.\<close>

theorem reset_keeps_cycle_label:
  assumes "window_reach w" "on_reset now w = Some w'"
  shows "cpu_cycle (ct_cpu (mw_ctl w')) = 0 \<and> sl_cycles (mw_stats w') = ''0'' \<and> mw_instrs w' = ''Instructions: 0''
    \<and> mw_cycles w' = mw_cycles w"
proof -
  obtain sgs k where r: "ctl_reset pl_ops (ctl_stop (mw_ctl w)) = Some (sgs, k)"
    and w': "w' = (let u = deliver now (sgs, k) (set_run_state False (stop_controller w)) in
       show_message ''Reset.'' (u\<lparr>mw_regs := panel_clear now (mw_regs u), mw_trace := grid_clear (mw_trace u),
         mw_events := events_clear (mw_events u)\<rparr>))"
    using assms(2) by (elim on_resetE)
  note sh = reset_shape [OF r]
  have "cpu_cycle (ct_cpu k) = 0"
    using r pl.reset_cycle [of True "ct_cpu (mw_ctl w)"] pl_sim.load_keeps(3) [of _ _ "ct_cpu (mw_ctl w)"]
      window_okD(1) [OF window_reach_ok [OF assms(1)]]
    by (auto simp: ctl_reset_def ctl_stop_def Let_def pl_sel machine_ok_def split: option.splits)
  moreover have "show_dec 0 = ''0''" by code_simp
  ultimately show ?thesis
    by (simp add: w' Let_def sh(1) deliver_def on_signal_def show_message_def on_pipeline_state_changed_def
        set_run_state_def stop_controller_def stats_zero_def)
qed

lemma reset_keeps_cycle_label_witness:
  "\<exists>w'. on_reset 0 (on_step 0 (example_window [])) = Some w' \<and> sl_cycles (mw_stats w') = ''0'' \<and> mw_cycles w' = ''Cycles: 1''"
proof -
  let ?w = "on_step 0 (example_window [])"
  have r: "window_reach ?w" by (intro window_reach.step example_reach)
  then obtain w' where "on_reset 0 ?w = Some w'" using on_reset_total [OF window_okD(1) [OF window_reach_ok [OF r]], of 0] by blast
  moreover have "show_dec 1 = ''1''" by code_simp
  ultimately show ?thesis
    using reset_keeps_cycle_label [OF r] step_cycle_label [of 0 "example_window []"] by (simp add: example_sel create_cycle)
qed

text \<open>A pause at full speed publishes nothing: the panels stay as they are while the machine has moved on.\<close>

theorem pause_shows_old:
  assumes "is_running (mw_ctl w)" "ct_interval (mw_ctl w) = 0" "pl_step (ct_cpu (mw_ctl w)) = (StOk, c)"
    "cpu_pc c \<notin> ct_breakpoints (mw_ctl w)" "(of_nat (cpu_cycle c) :: u64) mod 5000 \<noteq> 0"
    "w' = on_run_pause (timer_tick now w)"
  shows "ct_cpu (mw_ctl w') = c \<and> mw_action w' = ActionRun \<and> mw_datapath w' = mw_datapath w \<and> mw_regs w' = mw_regs w
    \<and> mw_trace w' = mw_trace w \<and> mw_memory w' = mw_memory w \<and> mw_cycles w' = mw_cycles w"
  using assms
  by (simp add: timer_tick_def on_run_timer_def is_running_def do_step_def Let_def pl_sel deliver_def on_run_pause_def
      set_run_state_def stop_controller_def ctl_stop_def)

end
