(* ===== verification/Spec2Isabelle.thy ===== *)
theory Spec2Isabelle
  imports RunEquivalence NumberConverter ProgramLoader AssembledPrograms ElfLoader GdbSession QuickViews TuiViews
    Splash QtSession
begin

text \<open>
  Verification library of clearCore, a MIPS32 simulator in C++ with a single-cycle and a five-stage
  pipelined processor, an assembler, loaders, a remote debug stub and three front ends (terminal, Qt
  Widgets, QML). All paths below are under \<open>src/\<close> and \<open>include/\<close> of the repository.

  \<^bold>\<open>How the program fits together.\<close> A front end owns a controller, the controller owns a processor
  behind the interface \<open>IProcessor\<close>, and the processor owns its memory, register file and
  coprocessor 0. A step of the processor leaves a report of its stages (\<open>PipelineState\<close>); the
  controller counts it, compares the program counter with the breakpoints and emits signals; the
  front end turns the signals into what its panels show. The assembler and the loaders produce the
  words the controller or the debug stub puts into memory. The debug stub drives a processor of its
  own over a connection.

  \<^bold>\<open>Shared theories.\<close> \<open>Prelude\<close> has the machine integers as words, the collections of rewrite rules
  and the lemmas on words and lists. \<open>Text\<close> has characters, digits, \<open>std::format\<close>, \<open>std::from_chars\<close>
  and lines. \<open>PanelView\<close> has the contract between the Qt window and its panels.

  \<^bold>\<open>The machine.\<close>
  \<open>Memory\<close> (\<open>mips/memory.cpp\<close>): bytes behind bounds and alignment checks; a word read back after a
  write, and nothing else changed. \<open>Registers\<close> (\<open>mips/registers.cpp\<close>): 32 registers, register 0
  constant. \<open>Decoder\<close> (\<open>mips/decoder.cpp\<close>): every bit field, the formats, the mnemonics. \<open>Alu\<close>
  (\<open>mips/alu.cpp\<close>): every operation at 32 bits, the overflow flag against exact arithmetic. \<open>Cp0\<close>
  (\<open>mips/cp0.cpp\<close>): raising and returning from exceptions. \<open>Processor\<close> (\<open>isa/processor.h\<close>,
  \<open>mips/data_memory.cpp\<close>): loads and stores, the control word, the reports, the two interfaces.
  \<open>SingleCycle\<close> (\<open>mips/single_cycle_cpu.cpp\<close>), \<open>PipelineUnits\<close> (\<open>mips/pipeline_units.cpp\<close>) and
  \<open>Pipeline\<close> (\<open>mips/pipelined_cpu.cpp\<close>): the two processors, each operation a function on the object's
  record. A violated precondition (an unaligned load address) is \<open>None\<close>.

  \<^bold>\<open>Why the pipeline is right.\<close> The single-cycle processor is the specification. \<open>ExecuteRefinement\<close>
  shows that the stage EX with forwarding computes what one step of it computes; \<open>PipelineRefinement\<close>
  abstracts a pipeline by completing its two oldest instructions (\<open>drain\<close>) and shows that a cycle
  either does one step of the specification or none; \<open>RunEquivalence\<close> concludes for whole runs:
  equal results, traps in program order, and at most \<open>4 * k + 3\<close> cycles for \<open>k\<close> instructions.

  \<^bold>\<open>Tools.\<close> \<open>NumberConverter\<close> (\<open>nsc/parse.cpp\<close>, \<open>nsc/format.cpp\<close>, \<open>nsc/converter.cpp\<close>),
  \<open>ProgramLoader\<close> (\<open>mips/program_loader.cpp\<close>), \<open>Disassembler\<close> (\<open>mips/disassembler.cpp\<close>), \<open>Assembler\<close>
  (\<open>nsc_qt/assembler.cpp\<close>) and \<open>ElfLoader\<close> (\<open>mips/elf_loader.cpp\<close>): every check and message, with
  round trips, soundness of the encoders against the decoder, and the exact set of accepted files.
  \<open>AssembledPrograms\<close> puts the assembler together with the processor (a branch reaches its label) and
  with the disassembler.

  \<^bold>\<open>Debug stub\<close> (\<open>mips/gdb_stub.cpp\<close>). \<open>GdbPacket\<close> is the packet layer over the bytes a socket
  delivers, in any pieces; \<open>GdbStub\<close> the commands and the loops; \<open>GdbSession\<close> what a session
  guarantees. The loops that wait for the peer take fuel; \<open>1024 * (conn_size + 1)\<close> is enough, since
  every turn of a loop either consumes a byte or a call of the peer or one of the at most 1024 steps
  between two polls, and it is proved that with this much fuel or more every session returns.

  \<^bold>\<open>Controller and front ends.\<close> \<open>Controller\<close> (\<open>nsc_qt/simulator_controller.cpp\<close>) returns the signals
  of every operation in order; \<open>Backends\<close> puts either processor behind it and has the properties of
  runs, resets and stops. \<open>QuickSim\<close>, \<open>QuickSession\<close> and \<open>QuickViews\<close> (\<open>nsc_quick/quick_simulator.cpp\<close>)
  are the QML bridge, its invariants and what its views say. \<open>Tui\<close>, \<open>TuiPanels\<close>, \<open>TuiTabs\<close>,
  \<open>TuiSession\<close>, \<open>TuiViews\<close> and \<open>Splash\<close> (\<open>nsc/ui.cpp\<close>) are the terminal front end: its state and
  events, the text of its panels, the tabs, its invariants, and the board of its start screen. The
  run to halt of the terminal (\<open>run_until\<close>) may not end and is a partial function into options.

  \<^bold>\<open>Qt window.\<close> Its panels have a theory each, with their state, every operation and what they show:
  \<open>MemoryView\<close>, \<open>TraceGrid\<close>, \<open>EventLog\<close>, \<open>RegisterPanel\<close> and \<open>SchematicView\<close>
  (\<open>nsc_qt/widgets/memory_widget.cpp\<close>, \<open>pipeline_trace_widget.cpp\<close>, \<open>pipeline_events_widget.cpp\<close>,
  \<open>register_widget.cpp\<close>, \<open>schematic_datapath_widget.cpp\<close>). \<open>QtSession\<close> is the window
  (\<open>nsc_qt/main_window.cpp\<close>, \<open>preferences_dialog.cpp\<close>): one handler per slot, which runs an operation
  of the controller and delivers its signals to the panels, the labels and the status bar. It has the
  states a window can reach, their invariant, and what a step, a load, a reset and a hidden panel
  publish. What the panels say about registers rests on one invariant of the pipeline, \<open>pl_tagged\<close> in
  \<open>RegisterPanel\<close>: the instruction word that travels with an instruction names the register the later
  stages write.

  \<^bold>\<open>Interfaces.\<close> The laws a client relies on are locales: \<open>word_store\<close> (Memory), \<open>gpr_file\<close>
  (Registers), \<open>processor\<close> and \<open>mips_processor\<close> (Processor), \<open>simulator\<close> (Controller), \<open>radix_codec\<close>
  (NumberConverter) and \<open>panel_view\<close> (PanelView). Each is interpreted on the definitions of the
  program: \<open>ram\<close>, \<open>gpr\<close>, \<open>sc\<close> and \<open>pl\<close>, \<open>sc_sim\<close>, \<open>pl_sim\<close> and \<open>any_sim\<close>, \<open>radix\<close>, and \<open>circuit\<close>,
  \<open>registers\<close> and \<open>diagram\<close>.

  \<^bold>\<open>Parameters.\<close> Files, sockets, clocks, the answers of dialogs, the visibility of a widget and the
  catalogue of examples are arguments of the definitions that use them. The debug stub's peer is the
  list of what each call returns.

  \<^bold>\<open>Not modelled.\<close> The Core Pulse background of the terminal and the pulses on its start screen
  (floating-point animations that read no processor state); layout, fonts, painting and the positions
  that depend on the width of a text; percentages in floating point; the Qt editor (painting and line
  numbers), the texts of the examples, the docks and their saved layout, the palette and style sheet,
  zooming and the image export; events that arrive while a dialog is open; the back end over the
  third-party Nyxstone library; the trace log, the main functions and the QML files. Assertions on
  threads have no branch: the model has one thread.
\<close>

end
